(* ===== verification/Prelude.thy ===== *)
theory Prelude
  imports Main "HOL-Library.Word"
begin

text \<open>
  Shared vocabulary of the development: the errors the Go packages return, Go strings and
  byte slices, the identifier patterns, \<open>strings.TrimSpace\<close>, \<open>time.Time\<close> and
  \<open>time.Duration\<close>, hexadecimal and decimal printing, database calls that may fail and
  transactions that roll back, and the generic list, map and sum lemmas the components use.
\<close>

unbundle bit_operations_syntax

named_theorems valid_defs \<open>definitions of request validation\<close>
named_theorems table_simps \<open>facts about rows of database tables\<close>

section \<open>Errors\<close>

text \<open>
  The sentinel errors of the packages incident, isr and ledger, plain errors
  (\<open>errors.New\<close>, \<open>fmt.Errorf\<close> without \<open>%w\<close>) as \<open>EMsg\<close>, errors of a
  database call as \<open>EDb\<close> with the message that wraps them, and \<open>EWrap\<close> for
  \<open>fmt.Errorf\<close> with \<open>%w\<close>.
\<close>

datatype go_error =
    EMsg string
  | EDb string
  | EWrap string go_error
  | ErrNotFound
  | ErrIdempotencyConflict
  | ErrInvalidTransition
  | ErrOptimisticConflict
  | ErrCorrelationConflict
  | ErrFeedSourceKeyConflict
  | ErrNoPendingOutbox
  | ErrOutboxOwnership
  | IsrErrNotFound
  | IsrErrConflict
  | ErrForbidden
  | ErrInvalidClassification
  | ErrNoPendingISROutbox
  | ErrISROutboxOwnership
  | LedgerErrNotFound
  | ErrDualControl
  | ErrAlreadyConfirmed
  | LedgerErrConflict

text \<open>\<open>errors.Is\<close> on the sentinel errors: the wrapping messages are looked through.\<close>

fun errors_is :: "go_error \<Rightarrow> go_error \<Rightarrow> bool" where
  "errors_is (EWrap m e) t = (EWrap m e = t \<or> errors_is e t)"
| "errors_is e t = (e = t)"

type_synonym 'a result = "go_error + 'a"

text \<open>A validation function returns \<open>None\<close> when the Go function returns nil.\<close>

type_synonym validation = "go_error option"

fun first_error :: "validation list \<Rightarrow> validation" where
  "first_error [] = None"
| "first_error (Some e # vs) = Some e"
| "first_error (None # vs) = first_error vs"

definition check :: "bool \<Rightarrow> string \<Rightarrow> validation" where
  "check bad msg = (if bad then Some (EMsg msg) else None)"

section \<open>Database calls and transactions\<close>

text \<open>
  The database server, the clock and the UUID generator are outside the repository. An
  operation takes them as one parameter: \<open>db_faults\<close> says which of its database calls,
  numbered in program order, fail; \<open>clock\<close> gives the successive readings of
  \<open>time.Now\<close>; \<open>db_now\<close> is SQL's \<open>now()\<close>; \<open>new_uuid\<close> gives the successive
  UUIDs; \<open>pg_ts\<close> is the value a TIMESTAMPTZ column retains for a time (PostgreSQL
  keeps microseconds). The SQL statements themselves are modelled on the tables. The body
  of a transaction is \<open>Inl e\<close> (some call or check failed) or \<open>Inr (r, db')\<close>; the
  deferred rollback of the source makes \<open>run_tx\<close> keep the old tables on every error.
\<close>

record db_env =
  db_faults :: "nat \<Rightarrow> bool"
  clock :: "nat \<Rightarrow> int"
  db_now :: int
  new_uuid :: "nat \<Rightarrow> string"
  pg_ts :: "int \<Rightarrow> int"

definition calm_env :: "int \<Rightarrow> string \<Rightarrow> db_env" where
  "calm_env t u = \<lparr>db_faults = (\<lambda>_. False), clock = (\<lambda>_. t), db_now = t, new_uuid = (\<lambda>_. u), pg_ts = (\<lambda>x. x)\<rparr>"

definition db_call :: "db_env \<Rightarrow> nat \<Rightarrow> string \<Rightarrow> 'a result \<Rightarrow> 'a result" where
  "db_call env n msg k = (if db_faults env n then Inl (EDb msg) else k)"

definition run_tx :: "'s \<Rightarrow> ('a \<times> 's) result \<Rightarrow> 'a result \<times> 's" where
  "run_tx db body = (case body of Inl e \<Rightarrow> (Inl e, db) | Inr (r, db') \<Rightarrow> (Inr r, db'))"

text \<open>
  Sequencing of calls that return \<open>(value, error)\<close>: \<open>rbind\<close> is
  \<open>if err != nil { return err }\<close>, and \<open>require\<close> is a guard that returns an error.
\<close>

fun rbind :: "'a result \<Rightarrow> ('a \<Rightarrow> 'b result) \<Rightarrow> 'b result" where
  "rbind (Inl e) k = Inl e"
| "rbind (Inr x) k = k x"

definition require :: "bool \<Rightarrow> go_error \<Rightarrow> 'a result \<Rightarrow> 'a result" where
  "require ok e k = (if ok then k else Inl e)"

definition validated :: "validation \<Rightarrow> 'a result \<Rightarrow> 'a result" where
  "validated v k = (case v of Some e \<Rightarrow> Inl e | None \<Rightarrow> k)"

section \<open>Strings, bytes and identifier patterns\<close>

text \<open>
  A Go string is a byte sequence and \<open>len\<close> counts bytes, as \<open>length\<close> of a
  \<open>char list\<close> does. Byte slices that are hashed, signed or compared are \<open>byte list\<close>s.
\<close>

type_synonym byte = "8 word"
type_synonym bytes = "8 word list"

definition bytes_of_string :: "string \<Rightarrow> bytes" where
  "bytes_of_string s = map of_char s"

definition code_of :: "char \<Rightarrow> nat" where
  "code_of c = of_char c"

definition is_digit :: "char \<Rightarrow> bool" where
  "is_digit c = (48 \<le> code_of c \<and> code_of c \<le> 57)"

definition is_alnum :: "char \<Rightarrow> bool" where
  "is_alnum c = (is_digit c \<or> (65 \<le> code_of c \<and> code_of c \<le> 90) \<or> (97 \<le> code_of c \<and> code_of c \<le> 122))"

definition is_lower_hex :: "char \<Rightarrow> bool" where
  "is_lower_hex c = (is_digit c \<or> (97 \<le> code_of c \<and> code_of c \<le> 102))"

definition ident_char :: "char \<Rightarrow> bool" where
  "ident_char c = (is_alnum c \<or> c \<in> {CHR ''.'', CHR ''_'', CHR '':'', CHR ''-''})"

text \<open>The pattern \<open>[A-Za-z0-9][A-Za-z0-9._:-]{0,n}\<close>, anchored at both ends.\<close>

definition matches_ident :: "nat \<Rightarrow> string \<Rightarrow> bool" where
  "matches_ident n s = (case s of [] \<Rightarrow> False
     | c # cs \<Rightarrow> is_alnum c \<and> length cs \<le> n \<and> list_all ident_char cs)"

text \<open>
  \<open>strings.TrimSpace\<close> removes the runes of \<open>unicode.IsSpace\<close> on both sides. They are
  listed by their UTF-8 encodings: no encoding is a proper suffix of another rune, so
  matching bytes from either end is what decoding the first or last rune does.
\<close>

definition space_encodings :: "string list" where
  "space_encodings =
     [[CHR 0x09], [CHR 0x0A], [CHR 0x0B], [CHR 0x0C], [CHR 0x0D], [CHR 0x20],
      [CHR 0xC2, CHR 0x85], [CHR 0xC2, CHR 0xA0], [CHR 0xE1, CHR 0x9A, CHR 0x80],
      [CHR 0xE2, CHR 0x80, CHR 0x80], [CHR 0xE2, CHR 0x80, CHR 0x81],
      [CHR 0xE2, CHR 0x80, CHR 0x82], [CHR 0xE2, CHR 0x80, CHR 0x83],
      [CHR 0xE2, CHR 0x80, CHR 0x84], [CHR 0xE2, CHR 0x80, CHR 0x85],
      [CHR 0xE2, CHR 0x80, CHR 0x86], [CHR 0xE2, CHR 0x80, CHR 0x87],
      [CHR 0xE2, CHR 0x80, CHR 0x88], [CHR 0xE2, CHR 0x80, CHR 0x89],
      [CHR 0xE2, CHR 0x80, CHR 0x8A], [CHR 0xE2, CHR 0x80, CHR 0xA8],
      [CHR 0xE2, CHR 0x80, CHR 0xA9], [CHR 0xE2, CHR 0x80, CHR 0xAF],
      [CHR 0xE2, CHR 0x81, CHR 0x9F], [CHR 0xE3, CHR 0x80, CHR 0x80]]"

definition lead_len :: "string list \<Rightarrow> string \<Rightarrow> nat" where
  "lead_len es s = (case find (\<lambda>e. take (length e) s = e) es of None \<Rightarrow> 0 | Some e \<Rightarrow> length e)"

function trim_front :: "string list \<Rightarrow> string \<Rightarrow> string" where
  "trim_front es s =
     (if s = [] \<or> lead_len es s = 0 then s else trim_front es (drop (lead_len es s) s))"
  by pat_completeness auto
termination
  by (relation "measure (\<lambda>(es, s). length s)") auto

declare trim_front.simps [simp del]

definition trim_space :: "string \<Rightarrow> string" where
  "trim_space s = rev (trim_front (map rev space_encodings) (rev (trim_front space_encodings s)))"

text \<open>
  \<open>strings.ToUpper\<close>, as far as a comparison with an ASCII literal can see it: ASCII
  letters are mapped, and the only two other runes with an ASCII upper case are U+0131
  (dotless i) and U+017F (long s). Every other rune stays outside ASCII.
\<close>

definition upper_char :: "char \<Rightarrow> char" where
  "upper_char c = (if 97 \<le> code_of c \<and> code_of c \<le> 122 then char_of (code_of c - 32) else c)"

fun to_upper :: "string \<Rightarrow> string" where
  "to_upper [] = []"
| "to_upper [c] = [upper_char c]"
| "to_upper (c # d # s) =
     (if c = CHR 0xC4 \<and> d = CHR 0xB1 then CHR ''I'' # to_upper s
      else if c = CHR 0xC5 \<and> d = CHR 0xBF then CHR ''S'' # to_upper s
      else upper_char c # to_upper (d # s))"

definition hex_digit :: "nat \<Rightarrow> char" where
  "hex_digit n = (if n < 10 then char_of (48 + n) else char_of (87 + n))"

definition hex_byte :: "byte \<Rightarrow> string" where
  "hex_byte b = [hex_digit (unat (drop_bit 4 b)), hex_digit (unat (b AND 15))]"

definition hex_encode :: "bytes \<Rightarrow> string" where
  "hex_encode bs = concat (map hex_byte bs)"

definition dec_digit :: "int \<Rightarrow> char" where
  "dec_digit d = char_of (nat (48 + d))"

function show_dec :: "int \<Rightarrow> string" where
  "show_dec i = (if i < 10 then [dec_digit i] else show_dec (i div 10) @ [dec_digit (i mod 10)])"
  by pat_completeness auto
termination
  by (relation "measure nat") auto

declare show_dec.simps [simp del]

definition show_nat :: "nat \<Rightarrow> string" where
  "show_nat n = show_dec (int n)"

definition show_int :: "int \<Rightarrow> string" where
  "show_int i = (if i < 0 then CHR ''-'' # show_dec (- i) else show_dec i)"

section \<open>Time\<close>

text \<open>
  A \<open>time.Time\<close> is the number of nanoseconds since Go's zero time (year 1), so
  \<open>IsZero\<close> is equality with 0. A \<open>time.Duration\<close> is an int64: \<open>Sub\<close> saturates,
  arithmetic on durations wraps around.
\<close>

type_synonym gotime = int
type_synonym duration = int

definition min_int64 :: int where "min_int64 = - (2 ^ 63)"
definition max_int64 :: int where "max_int64 = 2 ^ 63 - 1"

definition wrap64 :: "int \<Rightarrow> int" where
  "wrap64 x = (x + 2 ^ 63) mod 2 ^ 64 - 2 ^ 63"

definition time_sub :: "gotime \<Rightarrow> gotime \<Rightarrow> duration" where
  "time_sub t u = max min_int64 (min max_int64 (t - u))"

definition nanosecond :: duration where "nanosecond = 1"
definition second :: duration where "second = 1000000000"
definition minute :: duration where "minute = 60 * second"
definition hour :: duration where "hour = 60 * minute"

definition unix_epoch :: gotime where "unix_epoch = 62135596800 * second"

definition unix_nano :: "gotime \<Rightarrow> int" where
  "unix_nano t = wrap64 (t - unix_epoch)"

lemmas duration_defs = nanosecond_def second_def minute_def hour_def

section \<open>Shared lemmas\<close>

lemma first_error_None_iff: "first_error vs = None \<longleftrightarrow> (\<forall>v \<in> set vs. v = None)"
  by (induction vs rule: first_error.induct) auto

lemma first_error_simps [simp]:
  "first_error (v # vs) = None \<longleftrightarrow> v = None \<and> first_error vs = None"
  "first_error (xs @ ys) = None \<longleftrightarrow> first_error xs = None \<and> first_error ys = None"
  "first_error (map f zs) = None \<longleftrightarrow> (\<forall>z \<in> set zs. f z = None)"
  by (auto simp: first_error_None_iff)

lemma check_None_iff [simp]: "check b m = None \<longleftrightarrow> \<not> b"
  by (simp add: check_def)

lemma check_Some_iff: "check b m = Some e \<longleftrightarrow> b \<and> e = EMsg m"
  by (auto simp: check_def)

lemma db_call_Inr [simp]: "db_call env n m k = Inr r \<longleftrightarrow> \<not> db_faults env n \<and> k = Inr r"
  by (simp add: db_call_def)

lemma db_call_ok [simp]: "\<not> db_faults env n \<Longrightarrow> db_call env n m k = k"
  by (simp add: db_call_def)

lemma calm_env_simps [simp]:
  "db_faults (calm_env t u) n = False" "clock (calm_env t u) k = t" "db_now (calm_env t u) = t"
  "new_uuid (calm_env t u) k = u" "pg_ts (calm_env t u) x = x"
  by (simp_all add: calm_env_def)

lemma run_tx_Inl [simp]: "run_tx db (Inl e) = (Inl e, db)"
  by (simp add: run_tx_def)

lemma run_tx_Inr [simp]: "run_tx db (Inr (r, db')) = (Inr r, db')"
  by (simp add: run_tx_def)

lemma fst_run_tx_Inr: "fst (run_tx db b) = Inr r \<longleftrightarrow> (\<exists>db'. b = Inr (r, db'))"
  by (cases b) auto

lemma run_tx_error_keeps: "fst (run_tx db b) = Inl e \<Longrightarrow> snd (run_tx db b) = db"
  by (cases b) auto

lemma run_tx_Inr_iff: "run_tx db b = (Inr r, db') \<longleftrightarrow> b = Inr (r, db')"
  by (cases b) (auto simp: run_tx_def)

lemma run_tx_cases:
  assumes "run_tx db b = (r, db')"
  obtains (rolled_back) e where "b = Inl e" "r = Inl e" "db' = db"
    | (committed) a where "b = Inr (a, db')" "r = Inr a"
  using assms by (cases b) auto

lemma rbind_Inr_iff [simp]: "rbind r k = Inr y \<longleftrightarrow> (\<exists>x. r = Inr x \<and> k x = Inr y)"
  by (cases r) auto

lemma require_Inr_iff [simp]: "require b e k = Inr y \<longleftrightarrow> b \<and> k = Inr y"
  by (simp add: require_def)

lemma validated_Inr_iff [simp]: "validated v k = Inr y \<longleftrightarrow> v = None \<and> k = Inr y"
  by (cases v) (simp_all add: validated_def)

lemma require_simps [simp]: "require True e k = k" "require False e k = Inl e"
  by (simp_all add: require_def)

lemma validated_None [simp]: "validated None k = k"
  by (simp add: validated_def)

lemma validated_Some [simp]: "validated (Some e) k = Inl e"
  by (simp add: validated_def)

lemma find_map_upd:
  "(\<And>x. P x \<Longrightarrow> P (f x)) \<Longrightarrow> (\<And>x. \<not> P x \<Longrightarrow> \<not> P (f x)) \<Longrightarrow> find P (map f xs) = map_option f (find P xs)"
  by (induction xs) auto

lemma find_SomeD: "find P xs = Some x \<Longrightarrow> x \<in> set xs \<and> P x"
  by (induction xs) (auto split: if_splits)

lemma find_None_all: "find P xs = None \<longleftrightarrow> (\<forall>x \<in> set xs. \<not> P x)"
  by (auto simp: find_None_iff)

lemma find_append_None: "find P xs = None \<Longrightarrow> find P (xs @ ys) = find P ys"
  by (induction xs) (auto split: if_splits)

lemma find_append_Some: "find P xs = Some x \<Longrightarrow> find P (xs @ ys) = Some x"
  by (induction xs) (auto split: if_splits)

text \<open>A lookup by a key that is unique in the table finds the row.\<close>

lemma find_unique_key:
  assumes "distinct (map k xs)" and "x \<in> set xs"
  shows "find (\<lambda>y. k y = k x) xs = Some x"
  using assms by (induction xs) (auto simp: image_iff)

lemma distinct_key_eq:
  "distinct (map k xs) \<Longrightarrow> x \<in> set xs \<Longrightarrow> y \<in> set xs \<Longrightarrow> k x = k y \<Longrightarrow> x = y"
  by (metis distinct_map inj_onD)

lemma wrap64_id: "min_int64 \<le> x \<Longrightarrow> x \<le> max_int64 \<Longrightarrow> wrap64 x = x"
  by (simp add: wrap64_def min_int64_def max_int64_def)

lemma time_sub_bounds: "min_int64 \<le> time_sub t u \<and> time_sub t u \<le> max_int64"
  by (auto simp: time_sub_def min_int64_def max_int64_def)

lemma split_at_separator:
  "x \<notin> set a \<Longrightarrow> x \<notin> set b \<Longrightarrow> a @ x # r = b @ x # s \<longleftrightarrow> a = b \<and> r = s"
proof (induction a arbitrary: b)
  case (Cons y a)
  then show ?case by (cases b) auto
next
  case Nil
  then show ?case by (cases b) auto
qed

lemma inj_byte_of_char: "(of_char a :: byte) = of_char b \<longleftrightarrow> a = b"
proof
  assume "(of_char a :: byte) = of_char b"
  then have "(of_nat (of_char a) :: byte) = of_nat (of_char b)" by (simp only: of_nat_of_char)
  then have "(of_char a :: nat) = of_char b"
    by (simp add: word_of_nat_eq_iff take_bit_nat_eq_self)
  then show "a = b" by simp
qed simp

lemma bytes_of_string_inj: "bytes_of_string a = bytes_of_string b \<longleftrightarrow> a = b"
  unfolding bytes_of_string_def
  by (metis inj_byte_of_char injI inj_map_eq_map)

lemma length_hex_encode [simp]: "length (hex_encode bs) = 2 * length bs"
  by (induction bs) (auto simp: hex_encode_def hex_byte_def)

lemma matches_ident_nonempty: "matches_ident n s \<Longrightarrow> s \<noteq> []"
  by (auto simp: matches_ident_def)

lemma matches_ident_length: "matches_ident n s \<Longrightarrow> length s \<le> Suc n"
  by (auto simp: matches_ident_def split: list.splits)

text \<open>A loop keeps what each of its rounds keeps, and relates its start to its end.\<close>

lemma fold_preserves:
  assumes step: "\<And>k s. P s \<Longrightarrow> P (f k s) \<and> R s (f k s)" and refl: "\<And>s. R s s"
    and trans: "\<And>a b c. R a b \<Longrightarrow> R b c \<Longrightarrow> R a c" and init: "P s"
  shows "P (fold f ks s) \<and> R s (fold f ks s)"
  using init
proof (induction ks arbitrary: s)
  case (Cons k ks)
  have "P (f k s)" "R s (f k s)" using step [OF Cons.prems] by auto
  then show ?case using Cons.IH [of "f k s"] trans [of s "f k s"] by simp
qed (simp add: refl)

end
