(* ===== verification/Float64.thy ===== *)
theory Float64
  imports Prelude Complex_Main "HOL-Library.Log_Nat"
begin

text \<open>
  IEEE 754 binary64 as Go's \<open>float64\<close> uses it: a finite value is a rational number, every
  arithmetic operation rounds its exact result to the nearest representable value with ties
  to even, results beyond the range become infinities, and NaN compares false with
  everything. The two zeros are identified (no operation of the sources can tell them
  apart: no division has a zero divisor), and a multiplication followed by an addition is
  rounded twice, as the amd64 compiler does it. The lemmas show that the rounding
  is monotone, odd and exact on the values it produces' own grid.
\<close>

datatype f64 = NaN | PInf | NInf | Fin rat

section \<open>Rounding\<close>

text \<open>Round a rational to an integer, ties to even.\<close>

definition rne :: "rat \<Rightarrow> int" where
  "rne q = (let f = \<lfloor>q\<rfloor>; r = q - of_int f in
     if r < 1/2 then f else if 1/2 < r then f + 1 else if even f then f else f + 1)"

text \<open>The binary logarithm of a positive rational, rounded down.\<close>

definition ilog2 :: "rat \<Rightarrow> int" where
  "ilog2 q = (let (n, d) = quotient_of q; k = bitlen n - bitlen d in
     if 2 powi k \<le> q then k else k - 1)"

text \<open>The exponent of the last place of a 53-bit significand, at least that of the subnormals.\<close>

definition ulp_exp :: "rat \<Rightarrow> int" where
  "ulp_exp q = max (-1074) (ilog2 \<bar>q\<bar> - 52)"

definition rnd_val :: "rat \<Rightarrow> rat" where
  "rnd_val q = (if q = 0 then 0 else of_int (rne (q / 2 powi ulp_exp q)) * 2 powi ulp_exp q)"

definition rnd :: "rat \<Rightarrow> f64" where
  "rnd q = (let v = rnd_val q in
     if 2 ^ 1024 \<le> v then PInf else if v \<le> - (2 ^ 1024) then NInf else Fin v)"

section \<open>Arithmetic and comparison\<close>

fun f_neg :: "f64 \<Rightarrow> f64" where
  "f_neg NaN = NaN"
| "f_neg PInf = NInf"
| "f_neg NInf = PInf"
| "f_neg (Fin a) = Fin (- a)"

fun f_add :: "f64 \<Rightarrow> f64 \<Rightarrow> f64" where
  "f_add (Fin a) (Fin b) = rnd (a + b)"
| "f_add NaN y = NaN"
| "f_add x NaN = NaN"
| "f_add PInf NInf = NaN"
| "f_add NInf PInf = NaN"
| "f_add PInf y = PInf"
| "f_add NInf y = NInf"
| "f_add x PInf = PInf"
| "f_add x NInf = NInf"

definition f_sub :: "f64 \<Rightarrow> f64 \<Rightarrow> f64" where
  "f_sub x y = f_add x (f_neg y)"

definition inf_of_sign :: "rat \<Rightarrow> f64" where
  "inf_of_sign s = (if s = 0 then NaN else if 0 < s then PInf else NInf)"

fun f_sign :: "f64 \<Rightarrow> rat" where
  "f_sign NaN = 0"
| "f_sign PInf = 1"
| "f_sign NInf = -1"
| "f_sign (Fin a) = sgn a"

fun f_mul :: "f64 \<Rightarrow> f64 \<Rightarrow> f64" where
  "f_mul (Fin a) (Fin b) = rnd (a * b)"
| "f_mul NaN y = NaN"
| "f_mul x NaN = NaN"
| "f_mul x y = inf_of_sign (f_sign x * f_sign y)"

fun f_div :: "f64 \<Rightarrow> f64 \<Rightarrow> f64" where
  "f_div (Fin a) (Fin b) = (if b = 0 then inf_of_sign (sgn a) else rnd (a / b))"
| "f_div NaN y = NaN"
| "f_div x NaN = NaN"
| "f_div (Fin a) y = Fin 0"
| "f_div x (Fin b) = inf_of_sign (f_sign x * (if b = 0 then 1 else sgn b))"
| "f_div x y = NaN"

fun f_le :: "f64 \<Rightarrow> f64 \<Rightarrow> bool" where
  "f_le (Fin a) (Fin b) = (a \<le> b)"
| "f_le NaN y = False"
| "f_le x NaN = False"
| "f_le NInf y = True"
| "f_le x PInf = True"
| "f_le x y = False"

fun f_eq :: "f64 \<Rightarrow> f64 \<Rightarrow> bool" where
  "f_eq NaN y = False"
| "f_eq x y = (x = y)"

definition f_lt :: "f64 \<Rightarrow> f64 \<Rightarrow> bool" where
  "f_lt x y = (f_le x y \<and> \<not> f_eq x y)"

fun f_abs :: "f64 \<Rightarrow> f64" where
  "f_abs NaN = NaN"
| "f_abs PInf = PInf"
| "f_abs NInf = PInf"
| "f_abs (Fin a) = Fin \<bar>a\<bar>"

text \<open>\<open>math.Max\<close>: an infinity wins over NaN, then NaN is contagious.\<close>

definition f_max :: "f64 \<Rightarrow> f64 \<Rightarrow> f64" where
  "f_max x y = (if x = PInf \<or> y = PInf then PInf
     else if x = NaN \<or> y = NaN then NaN
     else if f_lt y x then x else y)"

definition is_nan :: "f64 \<Rightarrow> bool" where
  "is_nan x = (x = NaN)"

definition is_inf :: "f64 \<Rightarrow> bool" where
  "is_inf x = (x = PInf \<or> x = NInf)"

definition is_finite :: "f64 \<Rightarrow> bool" where
  "is_finite x = (\<not> is_nan x \<and> \<not> is_inf x)"

text \<open>\<open>float64(i)\<close> of an integer, and \<open>Duration.Seconds\<close>.\<close>

definition f_of_int :: "int \<Rightarrow> f64" where
  "f_of_int i = rnd (of_int i)"

definition quot_trunc :: "int \<Rightarrow> int \<Rightarrow> int" where
  "quot_trunc a b = sgn a * (\<bar>a\<bar> div b)"

definition duration_seconds :: "duration \<Rightarrow> f64" where
  "duration_seconds d = (let s = quot_trunc d second; n = d - s * second in
     f_add (f_of_int s) (f_div (f_of_int n) (f_of_int 1000000000)))"

section \<open>Properties of the rounding\<close>

lemma rne_of_int [simp]: "rne (of_int k) = k"
  by (simp add: rne_def)

lemma rne_mono: "q \<le> r \<Longrightarrow> rne q \<le> rne r"
proof (cases "\<lfloor>q\<rfloor> = \<lfloor>r\<rfloor>")
  case True
  assume "q \<le> r"
  with True show ?thesis by (auto simp: rne_def Let_def)
next
  case False
  assume "q \<le> r"
  with False have "\<lfloor>q\<rfloor> + 1 \<le> \<lfloor>r\<rfloor>"
    using floor_mono [of q r] by linarith
  then show ?thesis by (auto simp: rne_def Let_def)
qed

lemma rne_neg: "rne (- q) = - rne q"
proof (cases "q = of_int \<lfloor>q\<rfloor>")
  case True
  then obtain k where "q = of_int k" by blast
  then show ?thesis by (simp flip: of_int_minus)
next
  case False
  then have "\<lfloor>- q\<rfloor> = - \<lfloor>q\<rfloor> - 1" by linarith
  then show ?thesis by (auto simp: rne_def Let_def)
qed

lemma ilog2_bounds:
  assumes "0 < q"
  shows "2 powi ilog2 q \<le> q" and "q < 2 powi (ilog2 q + 1)"
proof -
  obtain n d where nd: "quotient_of q = (n, d)" by fastforce
  have d: "0 < d" by (rule quotient_of_denom_pos [OF nd])
  have q: "q = of_int n / of_int d" by (rule quotient_of_div [OF nd])
  have n: "0 < n" using assms d by (simp add: q zero_less_divide_iff)
  define k where "k = bitlen n - bitlen d"
  have bn: "1 \<le> bitlen n" "1 \<le> bitlen d"
    using bitlen_eq_zero_iff [of n] bitlen_eq_zero_iff [of d] n d bitlen_nonneg [of n] bitlen_nonneg [of d]
    by linarith+
  have pw: "(2::rat) powi (bitlen n - 1) \<le> of_int n" "of_int n < (2::rat) powi bitlen n"
      "(2::rat) powi (bitlen d - 1) \<le> of_int d" "of_int d < (2::rat) powi bitlen d"
    using bitlen_bounds [OF n] bitlen_bounds [OF d] bn
    by (simp_all add: power_int_def)
  have pd: "0 < (2::rat) powi (bitlen d - 1)" "0 < (of_int d :: rat)" using d by simp_all
  have "q < 2 powi bitlen n / 2 powi (bitlen d - 1)"
    unfolding q by (rule frac_less) (use pw pd n in auto)
  then have up: "q < 2 powi (k + 1)"
    by (simp add: k_def power_int_diff [symmetric] algebra_simps)
  have "2 powi (bitlen n - 1) / 2 powi bitlen d < q"
    unfolding q by (rule frac_less2) (use pw pd n in auto)
  then have lo: "2 powi (k - 1) < q"
    by (simp add: k_def power_int_diff [symmetric] algebra_simps)
  have eq: "ilog2 q = (if 2 powi k \<le> q then k else k - 1)"
    by (simp add: ilog2_def nd k_def)
  show "2 powi ilog2 q \<le> q" and "q < 2 powi (ilog2 q + 1)"
    using up lo by (auto simp: eq)
qed

lemma pow2_mono [simp]: "(2::rat) powi i \<le> 2 powi j \<longleftrightarrow> i \<le> j"
  by (metis linorder_not_less one_less_numeral_iff order_le_less power_int_strict_increasing
      semiring_norm(76))

lemma pow2_less [simp]: "(2::rat) powi i < 2 powi j \<longleftrightarrow> i < j"
  by (simp flip: not_le)

lemma ilog2_mono:
  assumes "0 < q" and "q \<le> r"
  shows "ilog2 q \<le> ilog2 r"
proof -
  have "2 powi ilog2 q \<le> q" and "r < 2 powi (ilog2 r + 1)"
    using assms by (auto intro: ilog2_bounds)
  then have "(2::rat) powi ilog2 q < 2 powi (ilog2 r + 1)" using assms by linarith
  then show ?thesis by simp
qed

lemma ulp_exp_mono: "0 < q \<Longrightarrow> q \<le> r \<Longrightarrow> ulp_exp q \<le> ulp_exp r"
  using ilog2_mono [of q r] by (simp add: ulp_exp_def)

lemma ulp_exp_neg [simp]: "ulp_exp (- q) = ulp_exp q"
  by (simp add: ulp_exp_def)

lemma rnd_val_0 [simp]: "rnd_val 0 = 0"
  by (simp add: rnd_val_def)

lemma rnd_val_neg: "rnd_val (- q) = - rnd_val q"
  by (simp add: rnd_val_def rne_neg)

lemma rnd_val_nonneg: "0 \<le> q \<Longrightarrow> 0 \<le> rnd_val q"
  using rne_mono [of 0 "q / 2 powi ulp_exp q"] rne_of_int [of 0] by (simp add: rnd_val_def)

lemma rnd_val_upper:
  assumes "0 < q"
  shows "rnd_val q \<le> 2 powi (ulp_exp q + 53)"
proof -
  have "q < 2 powi (ilog2 q + 1)" using assms by (rule ilog2_bounds)
  also have "\<dots> \<le> 2 powi (ulp_exp q + 53)" using assms by (simp add: ulp_exp_def)
  finally have "q / 2 powi ulp_exp q \<le> 2 ^ 53"
    by (simp add: power_int_add field_simps)
  then have "rne (q / 2 powi ulp_exp q) \<le> 2 ^ 53"
    using rne_mono [of "q / 2 powi ulp_exp q" "2 ^ 53"] rne_of_int [of "2 ^ 53"] by simp
  then have "(of_int (rne (q / 2 powi ulp_exp q)) :: rat) \<le> of_int (2 ^ 53)"
    by (simp only: of_int_le_iff)
  then have "of_int (rne (q / 2 powi ulp_exp q)) * 2 powi ulp_exp q \<le> (2 ^ 53 :: rat) * 2 powi ulp_exp q"
    by simp
  then show ?thesis using assms by (simp add: rnd_val_def power_int_add mult.commute)
qed

lemma rnd_val_lower:
  assumes "0 < q" and normal: "-1074 < ulp_exp q"
  shows "2 powi (ulp_exp q + 52) \<le> rnd_val q"
proof -
  have e: "ulp_exp q = ilog2 q - 52" using assms by (auto simp: ulp_exp_def)
  have "2 powi (ulp_exp q + 52) \<le> q"
    using ilog2_bounds(1) [OF assms(1)] by (simp add: e)
  then have "2 ^ 52 \<le> q / 2 powi ulp_exp q"
    by (simp add: power_int_add field_simps)
  then have "2 ^ 52 \<le> rne (q / 2 powi ulp_exp q)"
    using rne_mono [of "2 ^ 52" "q / 2 powi ulp_exp q"] rne_of_int [of "2 ^ 52"] by simp
  then have "(of_int (2 ^ 52) :: rat) \<le> of_int (rne (q / 2 powi ulp_exp q))"
    by (simp only: of_int_le_iff)
  then have "(2 ^ 52 :: rat) * 2 powi ulp_exp q \<le> of_int (rne (q / 2 powi ulp_exp q)) * 2 powi ulp_exp q"
    by simp
  then show ?thesis using assms by (simp add: rnd_val_def power_int_add mult.commute)
qed

lemma rnd_val_mono_pos:
  assumes "0 < q" and "q \<le> r"
  shows "rnd_val q \<le> rnd_val r"
proof (cases "ulp_exp q = ulp_exp r")
  case True
  have "rne (q / 2 powi ulp_exp r) \<le> rne (r / 2 powi ulp_exp r)"
    using assms by (intro rne_mono divide_right_mono) auto
  then show ?thesis using assms True by (simp add: rnd_val_def)
next
  case False
  then have lt: "ulp_exp q < ulp_exp r" using ulp_exp_mono [OF assms] by simp
  then have n: "-1074 < ulp_exp r" by (simp add: ulp_exp_def)
  have "rnd_val q \<le> 2 powi (ulp_exp q + 53)" using assms(1) by (rule rnd_val_upper)
  also have "\<dots> \<le> 2 powi (ulp_exp r + 52)" using lt by simp
  also have "\<dots> \<le> rnd_val r" using assms n by (intro rnd_val_lower) auto
  finally show ?thesis .
qed

lemma rnd_val_mono: "q \<le> r \<Longrightarrow> rnd_val q \<le> rnd_val r"
proof -
  assume le: "q \<le> r"
  consider "0 < q" | "q \<le> 0" "0 \<le> r" | "r < 0" by linarith
  then show ?thesis
  proof cases
    case 1
    then show ?thesis using le by (rule rnd_val_mono_pos)
  next
    case 2
    then show ?thesis
      using rnd_val_nonneg [of r] rnd_val_nonneg [of "- q"] by (simp add: rnd_val_neg)
  next
    case 3
    then show ?thesis
      using rnd_val_mono_pos [of "- r" "- q"] le by (simp add: rnd_val_neg)
  qed
qed

text \<open>Integers of at most 53 bits, and dyadic fractions of them, are represented exactly.\<close>

lemma rnd_val_int:
  assumes "\<bar>i\<bar> < 2 ^ 53"
  shows "rnd_val (of_int i) = of_int i"
proof (cases "i = 0")
  case False
  let ?q = "of_int i :: rat"
  have pos: "0 < \<bar>?q\<bar>" using False by simp
  have "2 powi ilog2 \<bar>?q\<bar> \<le> \<bar>?q\<bar>" by (rule ilog2_bounds(1) [OF pos])
  also have "\<bar>?q\<bar> = of_int \<bar>i\<bar>" by simp
  also have "\<dots> < of_int (2 ^ 53)" using assms by (simp only: of_int_less_iff)
  also have "\<dots> = 2 powi 53" by simp
  finally have "ulp_exp ?q \<le> 0" unfolding ulp_exp_def pow2_less by simp
  then obtain n where n: "ulp_exp ?q = - int n" by (metis nonpos_int_cases)
  have "?q / 2 powi ulp_exp ?q = of_int (i * 2 ^ n)"
    by (simp add: n power_int_minus divide_inverse)
  then have "rne (?q / 2 powi ulp_exp ?q) = i * 2 ^ n" by (simp only: rne_of_int)
  then show ?thesis using False by (simp add: rnd_val_def n power_int_minus)
qed simp

lemma rnd_0 [simp]: "rnd 0 = Fin 0"
  by (simp add: rnd_def)

lemma rnd_int:
  assumes "\<bar>i\<bar> < 2 ^ 53"
  shows "rnd (of_int i) = Fin (of_int i)"
proof -
  have b: "(2::int) ^ 53 < 2 ^ 1024" by simp
  have i: "i < 2 ^ 1024" "- (2 ^ 1024) < i" using assms b by linarith+
  have "(of_int i :: rat) < of_int (2 ^ 1024)" and "of_int (- (2 ^ 1024)) < (of_int i :: rat)"
    using i by (simp_all only: of_int_less_iff)
  then have "(of_int i :: rat) < 2 ^ 1024" and "- (2 ^ 1024) < (of_int i :: rat)"
    by (simp_all only: of_int_power of_int_numeral of_int_minus)
  then show ?thesis by (simp add: rnd_def rnd_val_int [OF assms] Let_def del: power_numeral)
qed

lemma rnd_1 [simp]: "rnd 1 = Fin 1"
  using rnd_int [of 1] by simp

lemma rnd_numeral [simp]: "(numeral n :: int) < 2 ^ 53 \<Longrightarrow> rnd (numeral n) = Fin (numeral n)"
  using rnd_int [of "numeral n"] by simp

lemma rnd_neg: "rnd (- q) = f_neg (rnd q)"
proof -
  have "\<not> (2 ^ 1024 \<le> v \<and> v \<le> - (2 ^ 1024))" for v :: rat
  proof
    assume "2 ^ 1024 \<le> v \<and> v \<le> - (2 ^ 1024)"
    then have "(2 ^ 1024 :: rat) \<le> - (2 ^ 1024)" by (blast intro: order_trans)
    then show False by simp
  qed
  then show ?thesis
    by (auto simp: rnd_def rnd_val_neg Let_def le_minus_iff minus_le_iff simp del: power_numeral)
qed

lemma rnd_neg_numeral [simp]: "(numeral n :: int) < 2 ^ 53 \<Longrightarrow> rnd (- numeral n) = Fin (- numeral n)"
  by (simp add: rnd_neg)

lemma rnd_neg_1 [simp]: "rnd (- 1) = Fin (- 1)"
  by (simp add: rnd_neg)

lemma rnd_mono: "q \<le> r \<Longrightarrow> f_le (rnd q) (rnd r)"
  using rnd_val_mono [of q r] by (auto simp: rnd_def Let_def simp del: power_numeral)

lemma rnd_nonneg: "0 \<le> q \<Longrightarrow> f_le (Fin 0) (rnd q)"
  using rnd_mono [of 0 q] by simp

lemma rnd_nonpos: "q \<le> 0 \<Longrightarrow> f_le (rnd q) (Fin 0)"
  using rnd_mono [of q 0] by simp

lemma rnd_not_NaN [simp]: "rnd q \<noteq> NaN"
  by (simp add: rnd_def Let_def)

text \<open>A code equation that decides small integers, the common case, without the logarithm.\<close>

lemma rnd_code [code]:
  "rnd q = (if q = of_int \<lfloor>q\<rfloor> \<and> \<bar>\<lfloor>q\<rfloor>\<bar> < 9007199254740992 then Fin q
     else let v = rnd_val q in
       if 2 ^ 1024 \<le> v then PInf else if v \<le> - (2 ^ 1024) then NInf else Fin v)"
proof (cases "q = of_int \<lfloor>q\<rfloor> \<and> \<bar>\<lfloor>q\<rfloor>\<bar> < 9007199254740992")
  case True
  then have "rnd (of_int \<lfloor>q\<rfloor>) = Fin (of_int \<lfloor>q\<rfloor>)" by (intro rnd_int) simp
  with True show ?thesis by simp
next
  case False
  then show ?thesis by (simp only: rnd_def if_False)
qed

lemma rnd_bounded:
  assumes "\<bar>q\<bar> \<le> of_int i" and "i < 2 ^ 53"
  obtains v where "rnd q = Fin v" and "\<bar>v\<bar> \<le> of_int i"
proof -
  have "0 \<le> (of_int i :: rat)" using assms(1) abs_ge_zero order_trans by blast
  then have i: "\<bar>i\<bar> < 2 ^ 53" "\<bar>- i\<bar> < 2 ^ 53" using assms(2) by simp_all
  have le: "f_le (rnd q) (Fin (of_int i))" "f_le (Fin (of_int (- i))) (rnd q)"
    using assms(1) rnd_mono [of q "of_int i"] rnd_mono [of "of_int (- i)" q] rnd_int [OF i(1)] rnd_int [OF i(2)]
    by (simp_all add: abs_le_iff minus_le_iff)
  then show thesis using that by (cases "rnd q") (auto simp: abs_le_iff minus_le_iff)
qed

section \<open>Order and arithmetic on floats\<close>

lemma f_le_refl [simp]: "f_le x x \<longleftrightarrow> x \<noteq> NaN"
  by (cases x) auto

lemma f_le_trans: "f_le x y \<Longrightarrow> f_le y z \<Longrightarrow> f_le x z"
  by (cases x; cases y; cases z) auto

lemma f_le_total: "x \<noteq> NaN \<Longrightarrow> y \<noteq> NaN \<Longrightarrow> f_le x y \<or> f_le y x"
  by (cases x; cases y) auto

lemma f_lt_Fin [simp]: "f_lt (Fin a) (Fin b) \<longleftrightarrow> a < b"
  by (auto simp: f_lt_def)

lemma f_le_not_NaN: "f_le x y \<Longrightarrow> x \<noteq> NaN \<and> y \<noteq> NaN"
  by (cases x; cases y) auto

lemma f_lt_not_le: "x \<noteq> NaN \<Longrightarrow> y \<noteq> NaN \<Longrightarrow> f_lt x y \<longleftrightarrow> \<not> f_le y x"
  by (cases x; cases y) (auto simp: f_lt_def)

lemma f_lt_NaN [simp]: "\<not> f_lt NaN y" "\<not> f_lt x NaN"
  by (cases x; auto simp: f_lt_def)+

lemma f_neg_neg [simp]: "f_neg (f_neg x) = x"
  by (cases x) auto

lemma f_neg_le: "f_le (f_neg x) (f_neg y) \<longleftrightarrow> f_le y x"
  by (cases x; cases y) auto

lemma is_finite_iff: "is_finite x \<longleftrightarrow> (\<exists>a. x = Fin a)"
  by (cases x) (auto simp: is_finite_def is_nan_def is_inf_def)

lemma f_sub_self [simp]: "f_sub (Fin a) (Fin a) = Fin 0"
  by (simp add: f_sub_def)

lemma f_sub_flip: "f_sub (Fin a) (Fin b) = f_neg (f_sub (Fin b) (Fin a))"
  by (simp add: f_sub_def rnd_neg [symmetric])

lemma f_add_comm: "f_add x y = f_add y x"
  by (cases x; cases y) (auto simp: add.commute)

lemma f_add_nonpos: "f_le x (Fin 0) \<Longrightarrow> f_le y (Fin 0) \<Longrightarrow> f_le (f_add x y) (Fin 0)"
  by (cases x; cases y) (auto intro: rnd_nonpos)

lemma f_add_nonneg: "f_le (Fin 0) x \<Longrightarrow> f_le (Fin 0) y \<Longrightarrow> f_le (Fin 0) (f_add x y)"
  by (cases x; cases y) (auto intro: rnd_nonneg)

lemma f_mul_self_nonneg: "f_le (Fin 0) (f_mul (Fin a) (Fin a))"
  by (auto intro: rnd_nonneg)

lemma f_mul_neg_self: "f_le (f_mul (f_neg (Fin a)) (Fin a)) (Fin 0)"
  by (auto intro: rnd_nonpos)

lemma f_mul_not_neg:
  assumes "f_le (Fin 0) x" and "f_le (Fin 0) y"
  shows "\<not> f_lt (f_mul x y) (Fin 0)"
proof (cases "\<exists>a b. x = Fin a \<and> y = Fin b")
  case True
  then obtain a b where ab: "x = Fin a" "y = Fin b" by blast
  then have "f_le (Fin 0) (f_mul x y)" using assms by (auto intro: rnd_nonneg)
  then show ?thesis using ab by (simp add: f_lt_not_le)
next
  case False
  then show ?thesis using assms
    by (cases x; cases y) (auto simp: inf_of_sign_def f_lt_def sgn_if zero_less_mult_iff split: if_splits)
qed

end
