(* ===== verification/Geo.thy ===== *)
theory Geo
  imports Float64
begin

text \<open>
  \<open>internal/geo/geo.go\<close>: validated positions, the equirectangular distance, zone polygons
  and the boundary-inclusive even-odd containment test, on IEEE doubles. \<open>math.Cos\<close> and
  \<open>math.Hypot\<close> are implemented per platform in assembly; they are the fields of the
  parameter \<open>math_fns\<close>. The lemmas show that a validated zone contains each of its
  vertices although every operation rounds, that the loop computes the even-odd rule, that
  the choice of the first vertex does not matter, and that the distance is symmetric.
\<close>

record math_fns =
  cos_fn :: "f64 \<Rightarrow> f64"
  hypot_fn :: "f64 \<Rightarrow> f64 \<Rightarrow> f64"

definition MaxZoneVertices :: nat where "MaxZoneVertices = 10000"
definition boundaryCrossTolerance :: f64 where "boundaryCrossTolerance = rnd (1 / 10 ^ 12)"
definition metersPerDegreeLatitude :: f64 where "metersPerDegreeLatitude = rnd 111320"

definition math_Pi :: f64 where
  "math_Pi = rnd (314159265358979323846264338327950288419716939937510582097494459 / 10 ^ 62)"

definition zoneIDPattern :: "string \<Rightarrow> bool" where
  "zoneIDPattern s = matches_ident 255 s"

record position =
  latitude :: f64
  longitude :: f64

definition NewPosition :: "f64 \<Rightarrow> f64 \<Rightarrow> position result" where
  "NewPosition lat lon =
     (if is_nan lat \<or> is_inf lat \<or> f_lt lat (Fin (-90)) \<or> f_lt (Fin 90) lat \<or>
         is_nan lon \<or> is_inf lon \<or> f_lt lon (Fin (-180)) \<or> f_lt (Fin 180) lon
      then Inl (EMsg ''coordinates must be finite with latitude in [-90,90] and longitude in [-180,180]'')
      else Inr \<lparr>latitude = lat, longitude = lon\<rparr>)"

definition copysign :: "rat \<Rightarrow> f64 \<Rightarrow> f64" where
  "copysign a x = (if f_lt x (Fin 0) then f_neg (rnd a) else rnd a)"

definition DistanceMeters :: "math_fns \<Rightarrow> position \<Rightarrow> position \<Rightarrow> f64" where
  "DistanceMeters mf a b =
     (let dLat = f_mul (f_sub (latitude b) (latitude a)) metersPerDegreeLatitude;
          midLat = f_div (f_mul (f_div (f_add (latitude a) (latitude b)) (Fin 2)) math_Pi) (Fin 180);
          cosLat = cos_fn mf midLat;
          cosLat = (if f_lt (f_abs cosLat) (rnd (1 / 1000)) then copysign (1 / 1000) cosLat else cosLat);
          dLon = f_mul (f_mul (f_sub (longitude b) (longitude a)) metersPerDegreeLatitude) cosLat
      in hypot_fn mf dLat dLon)"

definition ZoneKindEEZ :: string where "ZoneKindEEZ = ''eez''"
definition ZoneKindRestricted :: string where "ZoneKindRestricted = ''restricted''"

record zone =
  zone_id :: string
  zone_kind :: string
  vertices :: "position list"

text \<open>Go's \<open>==\<close> on two \<open>Position\<close> structs compares the fields as floats.\<close>

definition position_eq :: "position \<Rightarrow> position \<Rightarrow> bool" where
  "position_eq p q = (f_eq (latitude p) (latitude q) \<and> f_eq (longitude p) (longitude q))"

text \<open>The vertex at an index and its successor, with the wrap-around of the loops.\<close>

definition next_vertex :: "position list \<Rightarrow> nat \<Rightarrow> position" where
  "next_vertex vs i = vs ! (Suc i mod length vs)"

fun scan_vertices :: "position list \<Rightarrow> nat list \<Rightarrow> validation" where
  "scan_vertices vs [] = None"
| "scan_vertices vs (i # is) =
     (case NewPosition (latitude (vs ! i)) (longitude (vs ! i)) of
        Inl e \<Rightarrow> Some e
      | Inr _ \<Rightarrow> if position_eq (vs ! i) (next_vertex vs i)
                 then Some (EMsg ''zone polygon must not repeat consecutive vertices'')
                 else scan_vertices vs is)"

definition NewZone :: "string \<Rightarrow> string \<Rightarrow> position list \<Rightarrow> zone result" where
  "NewZone zoneID kind vs =
     (if \<not> zoneIDPattern zoneID then Inl (EMsg ''zone_id must be a canonical identifier'')
      else if kind \<noteq> ZoneKindEEZ \<and> kind \<noteq> ZoneKindRestricted then Inl (EMsg ''zone_kind must be eez or restricted'')
      else if length vs < 3 \<or> MaxZoneVertices < length vs
        then Inl (EMsg ''zone polygon must contain between 3 and 10000 vertices'')
      else case scan_vertices vs [0..<length vs] of
        Some e \<Rightarrow> Inl e
      | None \<Rightarrow> Inr \<lparr>zone_id = zoneID, zone_kind = kind, vertices = vs\<rparr>)"

definition pointOnSegment :: "position \<Rightarrow> position \<Rightarrow> position \<Rightarrow> bool" where
  "pointOnSegment p start stop =
     (let px = longitude p; py = latitude p;
          ax = longitude start; ay = latitude start;
          bx = longitude stop; by = latitude stop;
          dx = f_sub bx ax; dy = f_sub by ay;
          cross = f_sub (f_mul dx (f_sub py ay)) (f_mul dy (f_sub px ax));
          scale = f_max (f_add (f_mul dx dx) (f_mul dy dy)) (Fin 1)
      in if f_lt (f_mul boundaryCrossTolerance scale) (f_abs cross) then False
         else f_le (Fin 0) (f_add (f_mul (f_sub px ax) dx) (f_mul (f_sub py ay) dy)) \<and>
              f_le (f_add (f_mul (f_sub px bx) dx) (f_mul (f_sub py by) dy)) (Fin 0))"

text \<open>Does the edge cross the ray from the position to the east? The toggle condition of the loop.\<close>

definition ray_crosses :: "position \<Rightarrow> position \<Rightarrow> position \<Rightarrow> bool" where
  "ray_crosses p start stop =
     (let px = longitude p; py = latitude p;
          ax = longitude start; ay = latitude start;
          bx = longitude stop; by = latitude stop
      in f_lt py ay \<noteq> f_lt py by \<and>
         f_lt px (f_add ax (f_div (f_mul (f_sub py ay) (f_sub bx ax)) (f_sub by ay))))"

fun parity_loop :: "zone \<Rightarrow> position \<Rightarrow> nat list \<Rightarrow> bool \<Rightarrow> bool" where
  "parity_loop z p [] inside = inside"
| "parity_loop z p (i # is) inside =
     parity_loop z p is
       (if ray_crosses p (vertices z ! i) (next_vertex (vertices z) i) then \<not> inside else inside)"

definition Contains :: "zone \<Rightarrow> position \<Rightarrow> bool" where
  "Contains z p =
     (let count = length (vertices z) in
      if count < 3 then False
      else if list_ex (\<lambda>i. pointOnSegment p (vertices z ! i) (next_vertex (vertices z) i)) [0..<count] then True
      else parity_loop z p [0..<count] False)"

fun ZonesContaining :: "position \<Rightarrow> zone list \<Rightarrow> zone list" where
  "ZonesContaining p [] = []"
| "ZonesContaining p (z # zs) = (if Contains z p then z # ZonesContaining p zs else ZonesContaining p zs)"

section \<open>Validation\<close>

definition valid_position :: "position \<Rightarrow> bool" where
  "valid_position p = (\<exists>a b. p = \<lparr>latitude = Fin a, longitude = Fin b\<rparr> \<and> \<bar>a\<bar> \<le> 90 \<and> \<bar>b\<bar> \<le> 180)"

lemma NewPosition_iff:
  "NewPosition lat lon = Inr p \<longleftrightarrow> p = \<lparr>latitude = lat, longitude = lon\<rparr> \<and> valid_position p"
  by (cases lat; cases lon)
     (auto simp: NewPosition_def valid_position_def is_nan_def is_inf_def abs_le_iff not_less)

lemma scan_vertices_None_iff:
  "scan_vertices vs is = None \<longleftrightarrow>
     (\<forall>i \<in> set is. valid_position (vs ! i) \<and> \<not> position_eq (vs ! i) (next_vertex vs i))"
proof (induction "is")
  case (Cons i "is")
  have "(\<exists>p. NewPosition (latitude (vs ! i)) (longitude (vs ! i)) = Inr p) \<longleftrightarrow> valid_position (vs ! i)"
    by (cases "vs ! i") (simp add: NewPosition_iff)
  with Cons show ?case by (cases "NewPosition (latitude (vs ! i)) (longitude (vs ! i))") auto
qed simp

lemma NewZone_iff:
  "NewZone zid k vs = Inr z \<longleftrightarrow>
     z = \<lparr>zone_id = zid, zone_kind = k, vertices = vs\<rparr> \<and> zoneIDPattern zid \<and>
     k \<in> {ZoneKindEEZ, ZoneKindRestricted} \<and> 3 \<le> length vs \<and> length vs \<le> MaxZoneVertices \<and>
     (\<forall>i < length vs. valid_position (vs ! i) \<and> \<not> position_eq (vs ! i) (next_vertex vs i))"
  using scan_vertices_None_iff [of vs "[0..<length vs]"]
  by (auto simp: NewZone_def split: option.splits)

section \<open>Containment\<close>

definition edges :: "position list \<Rightarrow> (position \<times> position) list" where
  "edges vs = map (\<lambda>i. (vs ! i, next_vertex vs i)) [0..<length vs]"

text \<open>The even-odd rule, stated on the list of edges.\<close>

definition even_odd :: "position list \<Rightarrow> position \<Rightarrow> bool" where
  "even_odd vs p = odd (length (filter (\<lambda>(a, b). ray_crosses p a b) (edges vs)))"

definition on_boundary :: "position list \<Rightarrow> position \<Rightarrow> bool" where
  "on_boundary vs p = (\<exists>(a, b) \<in> set (edges vs). pointOnSegment p a b)"

lemma parity_loop_count:
  "parity_loop z p is inside =
     (inside \<noteq> odd (length (filter (\<lambda>i. ray_crosses p (vertices z ! i) (next_vertex (vertices z) i)) is)))"
  by (induction "is" arbitrary: inside) auto

lemma Contains_boundary_or_parity:
  "Contains z p \<longleftrightarrow> 3 \<le> length (vertices z) \<and> (on_boundary (vertices z) p \<or> even_odd (vertices z) p)"
  by (auto simp: Contains_def Let_def parity_loop_count even_odd_def on_boundary_def edges_def
      filter_map comp_def list_ex_iff)

lemma edges_rotate1: "edges (rotate1 vs) = rotate1 (edges vs)"
proof (cases "vs = []")
  case False
  then have n: "0 < length vs" by simp
  show ?thesis
  proof (rule nth_equalityI)
    fix i assume "i < length (edges (rotate1 vs))"
    then have i: "i < length vs" by (simp add: edges_def)
    then show "edges (rotate1 vs) ! i = rotate1 (edges vs) ! i"
      using n by (simp add: edges_def next_vertex_def nth_rotate1 mod_Suc_eq)
  qed (simp add: edges_def)
qed (simp add: edges_def)

lemma length_filter_rotate1: "length (filter P (rotate1 xs)) = length (filter P xs)"
  by (cases xs) auto

lemma Contains_rotate1: "Contains (z\<lparr>vertices := rotate1 (vertices z)\<rparr>) p = Contains z p"
  by (simp add: Contains_boundary_or_parity even_odd_def on_boundary_def edges_rotate1
      length_filter_rotate1)

lemma coord_diff_finite:
  assumes "valid_position p" and "valid_position q"
  obtains d e where "f_sub (longitude p) (longitude q) = Fin d" "f_sub (latitude p) (latitude q) = Fin e"
proof -
  obtain a o1 b o2 where p: "p = \<lparr>latitude = Fin a, longitude = Fin o1\<rparr>" "\<bar>a\<bar> \<le> 90" "\<bar>o1\<bar> \<le> 180"
    and q: "q = \<lparr>latitude = Fin b, longitude = Fin o2\<rparr>" "\<bar>b\<bar> \<le> 90" "\<bar>o2\<bar> \<le> 180"
    using assms by (auto simp: valid_position_def)
  obtain d where "rnd (o1 - o2) = Fin d" using p q by (auto intro: rnd_bounded [of "o1 - o2" 360])
  moreover obtain e where "rnd (a - b) = Fin e" using p q by (auto intro: rnd_bounded [of "a - b" 180])
  ultimately show thesis using that p q by (simp add: f_sub_def)
qed

lemma scale_nonneg: "f_le (Fin 0) (f_max (f_add (f_mul (Fin dx) (Fin dx)) (f_mul (Fin dy) (Fin dy))) (Fin 1))"
  using f_add_nonneg [OF f_mul_self_nonneg f_mul_self_nonneg, of dx dy]
  by (auto simp: f_max_def f_lt_def dest: f_le_not_NaN)

lemma pointOnSegment_start:
  assumes a: "valid_position a" and b: "valid_position b"
  shows "pointOnSegment a a b"
proof -
  obtain dx dy where d: "f_sub (longitude b) (longitude a) = Fin dx" "f_sub (latitude b) (latitude a) = Fin dy"
    using coord_diff_finite [OF b a] by metis
  obtain y x where fa: "latitude a = Fin y" "longitude a = Fin x" using a by (auto simp: valid_position_def)
  obtain v u where fb: "latitude b = Fin v" "longitude b = Fin u" using b by (auto simp: valid_position_def)
  have n: "f_sub (longitude a) (longitude b) = f_neg (Fin dx)" "f_sub (latitude a) (latitude b) = f_neg (Fin dy)"
    using d f_sub_flip [of x u] f_sub_flip [of y v] by (simp_all add: fa fb)
  have tol: "f_le (Fin 0) boundaryCrossTolerance"
    by (simp add: boundaryCrossTolerance_def rnd_nonneg)
  have z: "f_sub (longitude a) (longitude a) = Fin 0" "f_sub (latitude a) (latitude a) = Fin 0"
    by (simp_all add: fa)
  show ?thesis
    using f_add_nonpos [OF f_mul_neg_self f_mul_neg_self, of dx dy] f_mul_not_neg [OF tol scale_nonneg, of dx dy]
    unfolding pointOnSegment_def Let_def z n d by simp
qed

lemma NewZone_vertex_inside:
  assumes "NewZone zid k vs = Inr z" and "v \<in> set vs"
  shows "Contains z v"
proof -
  from assms(2) obtain i where i: "i < length vs" "v = vs ! i" by (auto simp: in_set_conv_nth)
  have z: "vertices z = vs" "3 \<le> length vs" "\<forall>i < length vs. valid_position (vs ! i)"
    using assms(1) by (auto simp: NewZone_iff)
  moreover have "Suc i mod length vs < length vs" using i(1) by (intro mod_less_divisor) auto
  ultimately have "valid_position (next_vertex vs i)" by (simp add: next_vertex_def)
  then have "pointOnSegment v v (next_vertex vs i)" using i z by (intro pointOnSegment_start) auto
  then have "on_boundary vs v" using i by (auto simp: on_boundary_def edges_def)
  then show ?thesis using z by (simp add: Contains_boundary_or_parity)
qed

text \<open>
  A validated zone contains each of its vertices: on a vertex the containment test answers
  inside although all of its arithmetic is rounded.
\<close>

theorem NewZone_contains_vertices:
  assumes "NewZone zid k vs = Inr z" and "v \<in> set vs"
  shows "Contains z v"
  by (rule NewZone_vertex_inside [OF assms])

definition triangle :: "position list" where
  "triangle = [\<lparr>latitude = Fin 0, longitude = Fin 0\<rparr>, \<lparr>latitude = Fin 0, longitude = Fin 10\<rparr>,
     \<lparr>latitude = Fin 10, longitude = Fin 0\<rparr>]"

definition triangle_zone :: zone where
  "triangle_zone = \<lparr>zone_id = ''zone-1'', zone_kind = ''restricted'', vertices = triangle\<rparr>"

lemma NewZone_triangle: "NewZone ''zone-1'' ''restricted'' triangle = Inr triangle_zone"
  by code_simp

theorem NewZone_contains_vertices_witness:
  "Contains triangle_zone \<lparr>latitude = Fin 0, longitude = Fin 10\<rparr>"
  using NewZone_contains_vertices [OF NewZone_triangle, of "\<lparr>latitude = Fin 0, longitude = Fin 10\<rparr>"]
  by (simp add: triangle_def)



text \<open>
  Containment depends on the polygon, not on which vertex its list starts with: rotating
  the vertex list changes no answer.
\<close>

theorem Contains_rotate: "Contains (z\<lparr>vertices := rotate n (vertices z)\<rparr>) p = Contains z p"
proof (induction n)
  case (Suc n)
  then show ?case
    using Contains_rotate1 [of "z\<lparr>vertices := rotate n (vertices z)\<rparr>" p] by simp
qed simp

text \<open>
  The ground distance is symmetric for every two valid positions when \<open>math.Hypot\<close>
  ignores the signs of its arguments: both tracks of a pair measure the same separation.
\<close>

theorem DistanceMeters_sym:
  assumes hypot: "\<And>x y. hypot_fn mf (f_neg x) (f_neg y) = hypot_fn mf x y"
    and a: "valid_position a" and b: "valid_position b"
  shows "DistanceMeters mf a b = DistanceMeters mf b a"
proof -
  obtain y x where fa: "latitude a = Fin y" "longitude a = Fin x" using a by (auto simp: valid_position_def)
  obtain v u where fb: "latitude b = Fin v" "longitude b = Fin u" using b by (auto simp: valid_position_def)
  have n: "f_mul (f_neg p) q = f_neg (f_mul p q)" for p q
    by (cases p; cases q) (auto simp: rnd_neg inf_of_sign_def sgn_minus)
  show ?thesis
    unfolding DistanceMeters_def Let_def fa fb f_sub_flip [of u x] f_sub_flip [of v y] n hypot
      f_add_comm [of "Fin y"] ..
qed

definition l1_math :: math_fns where
  "l1_math = \<lparr>cos_fn = (\<lambda>_. Fin 1), hypot_fn = (\<lambda>x y. f_add (f_abs x) (f_abs y))\<rparr>"

lemma f_abs_neg [simp]: "f_abs (f_neg x) = f_abs x"
  by (cases x) auto

theorem DistanceMeters_sym_witness:
  "DistanceMeters l1_math \<lparr>latitude = Fin 1, longitude = Fin 2\<rparr> \<lparr>latitude = Fin 3, longitude = Fin 5\<rparr>
   = DistanceMeters l1_math \<lparr>latitude = Fin 3, longitude = Fin 5\<rparr> \<lparr>latitude = Fin 1, longitude = Fin 2\<rparr>"
  by (rule DistanceMeters_sym) (simp_all add: l1_math_def valid_position_def)

end
