(* ===== verification/Classification.thy ===== *)
theory Classification
  imports Prelude
begin

text \<open>
  \<open>internal/isr/classification.go\<close>: the classification labels, their parsing, rank, the
  clearance check and the maximum. Go represents a label as a string, so a value outside
  the approved set can occur at run time; the model keeps that. An abstract four-element
  linear order is the specification the string operations refine, and the locale
  \<open>label_lattice\<close> states what the other components rely on.
\<close>

type_synonym classification = string

definition ClassificationUnclassified :: classification where "ClassificationUnclassified = ''UNCLASSIFIED''"
definition ClassificationRestricted :: classification where "ClassificationRestricted = ''RESTRICTED''"
definition ClassificationConfidential :: classification where "ClassificationConfidential = ''CONFIDENTIAL''"
definition ClassificationSecret :: classification where "ClassificationSecret = ''SECRET''"

lemmas label_defs = ClassificationUnclassified_def ClassificationRestricted_def
  ClassificationConfidential_def ClassificationSecret_def

definition ParseClassification :: "string \<Rightarrow> classification result" where
  "ParseClassification raw =
     (if raw = ClassificationUnclassified \<or> raw = ClassificationRestricted \<or>
         raw = ClassificationConfidential \<or> raw = ClassificationSecret
      then Inr raw else Inl ErrInvalidClassification)"

text \<open>\<open>MustClassification\<close> panics on a label outside the approved set: \<open>None\<close>.\<close>

definition MustClassification :: "classification \<Rightarrow> classification option" where
  "MustClassification label = (case ParseClassification label of Inl _ \<Rightarrow> None | Inr _ \<Rightarrow> Some label)"

definition Rank :: "classification \<Rightarrow> nat" where
  "Rank label =
     (if label = ClassificationUnclassified then 0
      else if label = ClassificationRestricted then 1
      else if label = ClassificationConfidential then 2
      else 3)"

definition Covers :: "classification \<Rightarrow> classification \<Rightarrow> bool" where
  "Covers label event =
     (case ParseClassification label of Inl _ \<Rightarrow> False
      | Inr _ \<Rightarrow> (case ParseClassification event of Inl _ \<Rightarrow> False
                 | Inr _ \<Rightarrow> Rank event \<le> Rank label))"

definition MaxClassification :: "classification \<Rightarrow> classification \<Rightarrow> classification" where
  "MaxClassification a b = (if Rank b \<le> Rank a then a else b)"

fun strings_join :: "string \<Rightarrow> string list \<Rightarrow> string" where
  "strings_join sep [] = []"
| "strings_join sep [x] = x"
| "strings_join sep (x # xs) = x @ sep @ strings_join sep xs"

definition CanonicalClassificationList :: string where
  "CanonicalClassificationList = strings_join '', ''
     [ClassificationUnclassified, ClassificationRestricted, ClassificationConfidential, ClassificationSecret]"

section \<open>The abstract order of labels\<close>

datatype label = Unclassified | Restricted | Confidential | Secret

instantiation label :: linorder
begin

definition less_eq_label :: "label \<Rightarrow> label \<Rightarrow> bool" where
  "a \<le> b \<longleftrightarrow> (a = Unclassified \<or> b = Secret \<or> a = b \<or> (a = Restricted \<and> b = Confidential))"

definition less_label :: "label \<Rightarrow> label \<Rightarrow> bool" where
  "a < b \<longleftrightarrow> a \<le> b \<and> a \<noteq> (b :: label)"

instance
proof
  fix a b c :: label
  show "a < b \<longleftrightarrow> a \<le> b \<and> \<not> b \<le> a" by (cases a; cases b) (auto simp: less_label_def less_eq_label_def)
  show "a \<le> a" by (simp add: less_eq_label_def)
  show "a \<le> b \<Longrightarrow> b \<le> c \<Longrightarrow> a \<le> c" by (cases a; cases b; cases c) (auto simp: less_eq_label_def)
  show "a \<le> b \<Longrightarrow> b \<le> a \<Longrightarrow> a = b" by (cases a; cases b) (auto simp: less_eq_label_def)
  show "a \<le> b \<or> b \<le> a" by (cases a; cases b) (auto simp: less_eq_label_def)
qed

end

fun print_label :: "label \<Rightarrow> classification" where
  "print_label Unclassified = ClassificationUnclassified"
| "print_label Restricted = ClassificationRestricted"
| "print_label Confidential = ClassificationConfidential"
| "print_label Secret = ClassificationSecret"

definition valid_label :: "classification \<Rightarrow> bool" where
  "valid_label c = (ParseClassification c = Inr c)"

lemma valid_label_iff: "valid_label c \<longleftrightarrow> (\<exists>l. c = print_label l)"
proof
  assume "valid_label c"
  then have "c = print_label Unclassified \<or> c = print_label Restricted \<or> c = print_label Confidential \<or> c = print_label Secret"
    by (auto simp: valid_label_def ParseClassification_def split: if_splits)
  then show "\<exists>l. c = print_label l" by blast
next
  assume "\<exists>l. c = print_label l"
  then obtain l where "c = print_label l" ..
  then show "valid_label c" by (cases l) (auto simp: valid_label_def ParseClassification_def)
qed

lemma ParseClassification_Inr: "ParseClassification r = Inr c \<longleftrightarrow> c = r \<and> valid_label r"
  by (auto simp: valid_label_def ParseClassification_def)

lemma ParseClassification_Inl: "ParseClassification r = Inl e \<longleftrightarrow> e = ErrInvalidClassification \<and> \<not> valid_label r"
  by (auto simp: valid_label_def ParseClassification_def)

lemma print_label_inject [simp]: "print_label a = print_label b \<longleftrightarrow> a = b"
  by (cases a; cases b) (auto simp: label_defs)

lemma Rank_print_label: "Rank (print_label a) \<le> Rank (print_label b) \<longleftrightarrow> a \<le> b"
  by (cases a; cases b) (auto simp: Rank_def label_defs less_eq_label_def)

lemma Covers_iff: "Covers c e \<longleftrightarrow> valid_label c \<and> valid_label e \<and> Rank e \<le> Rank c"
  by (auto simp: Covers_def ParseClassification_Inr ParseClassification_Inl split: sum.splits)

lemma Covers_print [simp]: "Covers (print_label c) (print_label e) \<longleftrightarrow> e \<le> c"
  by (auto simp: Covers_iff Rank_print_label valid_label_iff)

lemma MaxClassification_print [simp]:
  "MaxClassification (print_label a) (print_label b) = print_label (max a b)"
  by (auto simp: MaxClassification_def Rank_print_label max_def)

text \<open>
  C37. The string operations refine the abstract order: exactly the four printed labels parse,
  a clearance covers a label exactly when both are approved and the order says so, and the
  maximum of two approved labels is the printed maximum. Everything else is rejected.
\<close>

theorem classification_refines_order:
  "(ParseClassification raw = Inr raw \<longleftrightarrow> (\<exists>l. raw = print_label l)) \<and>
   (Covers c e \<longleftrightarrow> (\<exists>lc le. c = print_label lc \<and> e = print_label le \<and> le \<le> lc)) \<and>
   MaxClassification (print_label a) (print_label b) = print_label (max a b)"
proof -
  have "Covers c e \<longleftrightarrow> (\<exists>lc le. c = print_label lc \<and> e = print_label le \<and> le \<le> lc)"
  proof
    assume cov: "Covers c e"
    then obtain lc le where "c = print_label lc" "e = print_label le"
      by (auto simp: Covers_iff valid_label_iff)
    with cov show "\<exists>lc le. c = print_label lc \<and> e = print_label le \<and> le \<le> lc" by auto
  qed auto
  then show ?thesis by (simp add: valid_label_iff flip: valid_label_def)
qed

section \<open>What the other components rely on\<close>

locale label_lattice =
  fixes valid :: "'l \<Rightarrow> bool"
    and covers :: "'l \<Rightarrow> 'l \<Rightarrow> bool"
    and join :: "'l \<Rightarrow> 'l \<Rightarrow> 'l"
  assumes covers_valid: "covers c e \<Longrightarrow> valid c \<and> valid e"
    and covers_refl: "valid c \<Longrightarrow> covers c c"
    and covers_trans: "covers c d \<Longrightarrow> covers d e \<Longrightarrow> covers c e"
    and join_valid: "valid a \<Longrightarrow> valid b \<Longrightarrow> valid (join a b)"
    and covers_join: "valid a \<Longrightarrow> valid b \<Longrightarrow> covers c (join a b) \<longleftrightarrow> covers c a \<and> covers c b"
begin

lemma join_upper: "valid a \<Longrightarrow> valid b \<Longrightarrow> covers (join a b) a \<and> covers (join a b) b"
  using covers_join covers_refl join_valid by blast

lemma fold_join_valid: "valid a \<Longrightarrow> \<forall>x \<in> set xs. valid x \<Longrightarrow> valid (fold (\<lambda>x acc. join acc x) xs a)"
  by (induction xs arbitrary: a) (auto simp: join_valid)

text \<open>A clearance covers the running maximum exactly when it covers every label that entered it.\<close>

lemma covers_fold_join:
  "valid a \<Longrightarrow> \<forall>x \<in> set xs. valid x \<Longrightarrow>
   covers c (fold (\<lambda>x acc. join acc x) xs a) \<longleftrightarrow> covers c a \<and> (\<forall>x \<in> set xs. covers c x)"
  by (induction xs arbitrary: a) (auto simp: covers_join join_valid)

end

interpretation cls: label_lattice valid_label Covers MaxClassification
proof unfold_locales
  fix a b c assume "valid_label a" "valid_label b"
  then show "Covers c (MaxClassification a b) \<longleftrightarrow> Covers c a \<and> Covers c b"
    by (auto simp: Covers_iff MaxClassification_def)
qed (auto simp: Covers_iff MaxClassification_def)

lemma valid_label_consts [simp]:
  "valid_label ClassificationUnclassified" "valid_label ClassificationRestricted"
  "valid_label ClassificationConfidential" "valid_label ClassificationSecret"
  by (auto simp: valid_label_def ParseClassification_def)

end
