(* ===== verification/Detection.thy ===== *)
theory Detection
  imports Float64 Classification
begin

text \<open>
  \<open>internal/isr/events.go\<close>: the multi-modal detection and its validation. A pointer to a
  payload is an \<open>option\<close>. \<open>Detection.Validate\<close> has a value receiver, so the
  assignment of \<open>ais.mmsi\<close> to \<open>detection.MMSI\<close> inside it changes a copy only; the
  model returns the verdict and nothing else. Where Go ranges over a map of fields the
  order of the checks is random: the verdict does not depend on it, the field named in the
  message does, and the model checks in the order of the literal.
\<close>

definition ModalityAIS :: string where "ModalityAIS = ''AIS''"
definition ModalitySAR :: string where "ModalitySAR = ''SAR''"
definition ModalityRF :: string where "ModalityRF = ''RF''"
definition ModalityAcoustic :: string where "ModalityAcoustic = ''ACOUSTIC''"
definition ModalityOptical :: string where "ModalityOptical = ''OPTICAL''"

lemmas modality_defs = ModalityAIS_def ModalitySAR_def ModalityRF_def ModalityAcoustic_def ModalityOptical_def

definition identifierPattern :: "string \<Rightarrow> bool" where
  "identifierPattern s = matches_ident 127 s"

definition mmsiPattern :: "string \<Rightarrow> bool" where
  "mmsiPattern s = (length s = 9 \<and> list_all is_digit s)"

record ais_payload =
  ais_mmsi :: string
  ais_speed_knots :: f64
  ais_heading_deg :: f64
  ais_nav_status :: string
  ais_call_sign :: string
  ais_destination :: string

record sar_payload =
  sar_scene_ref :: string
  sar_confidence :: f64
  sar_vessel_class :: string
  sar_length_m :: f64

record rf_payload =
  rf_frequency_band :: string
  rf_bearing_deg :: f64
  rf_signal_dbm :: f64
  rf_emitter_ref :: string

record acoustic_payload =
  ac_signature_ref :: string
  ac_confidence :: f64
  ac_bearing_deg :: f64

record detection_box =
  box_x :: f64
  box_y :: f64
  box_width :: f64
  box_height :: f64
  box_confidence :: f64

record optical_payload =
  op_image_ref :: string
  op_boxes :: "detection_box list"

record detection =
  d_event_id :: string
  d_source_id :: string
  d_source_event_id :: string
  d_modality :: string
  d_classification :: classification
  d_observed_at :: gotime
  d_has_position :: bool
  d_latitude :: f64
  d_longitude :: f64
  d_mmsi :: string
  d_ais :: "ais_payload option"
  d_sar :: "sar_payload option"
  d_rf :: "rf_payload option"
  d_acoustic :: "acoustic_payload option"
  d_optical :: "optical_payload option"
  d_correlation_refs :: "string list"

definition approvedFrequencyBands :: "string list" where
  "approvedFrequencyBands = [''HF'', ''VHF'', ''UHF'', ''L'', ''S'', ''C'', ''X'', ''KU'', ''KA'']"

definition isFinite :: "f64 \<Rightarrow> bool" where
  "isFinite x = (\<not> is_nan x \<and> \<not> is_inf x)"

definition validateUnitInterval :: "string \<Rightarrow> f64 \<Rightarrow> validation" where
  "validateUnitInterval name x =
     check (\<not> isFinite x \<or> f_lt x (Fin 0) \<or> f_lt (Fin 1) x) (name @ '' must be a finite value within [0,1]'')"

definition validateHeading :: "string \<Rightarrow> f64 \<Rightarrow> validation" where
  "validateHeading name x =
     check (\<not> isFinite x \<or> f_lt x (Fin 0) \<or> f_lt (Fin 360) x) (name @ '' must be a finite bearing within [0,360] degrees'')"

definition validateCanonicalID :: "string \<Rightarrow> string \<Rightarrow> validation" where
  "validateCanonicalID name s = check (\<not> identifierPattern s) (name @ '' must be a canonical identifier'')"

definition validate_ais :: "ais_payload \<Rightarrow> validation" where
  "validate_ais p = first_error
     [check (\<not> mmsiPattern (ais_mmsi p)) ''ais.mmsi must be a 9-digit maritime mobile service identity'',
      check (\<not> isFinite (ais_speed_knots p) \<or> f_lt (ais_speed_knots p) (Fin 0) \<or> f_lt (rnd (1022/10)) (ais_speed_knots p))
        ''ais.speed_knots must be a finite value within [0,102.2]'',
      validateHeading ''ais.heading_deg'' (ais_heading_deg p),
      check (64 < length (ais_nav_status p) \<or> trim_space (ais_nav_status p) \<noteq> ais_nav_status p)
        ''ais.nav_status must be canonical text of at most 64 characters'']"

definition validate_sar :: "sar_payload \<Rightarrow> validation" where
  "validate_sar p = first_error
     [validateCanonicalID ''sar.scene_ref'' (sar_scene_ref p),
      validateUnitInterval ''sar.confidence'' (sar_confidence p),
      check (\<not> f_eq (sar_length_m p) (Fin 0) \<and>
             (\<not> isFinite (sar_length_m p) \<or> f_lt (sar_length_m p) (Fin 0) \<or> f_lt (Fin 500) (sar_length_m p)))
        ''sar.length_m must be a finite value within [0,500]'']"

definition validate_rf :: "rf_payload \<Rightarrow> validation" where
  "validate_rf p = first_error
     [check (to_upper (rf_frequency_band p) \<notin> set approvedFrequencyBands) ''rf.frequency_band is not an approved band'',
      validateHeading ''rf.bearing_deg'' (rf_bearing_deg p)]"

definition validate_acoustic :: "acoustic_payload \<Rightarrow> validation" where
  "validate_acoustic p = first_error
     [validateCanonicalID ''acoustic.signature_ref'' (ac_signature_ref p),
      validateUnitInterval ''acoustic.confidence'' (ac_confidence p)]"

definition validate_box :: "detection_box \<Rightarrow> validation" where
  "validate_box b = first_error
     [validateUnitInterval ''optical.detection_boxes.x'' (box_x b),
      validateUnitInterval ''optical.detection_boxes.y'' (box_y b),
      validateUnitInterval ''optical.detection_boxes.width'' (box_width b),
      validateUnitInterval ''optical.detection_boxes.height'' (box_height b),
      validateUnitInterval ''optical.detection_boxes.confidence'' (box_confidence b),
      check (f_lt (rnd (1 + 1 / 10 ^ 9)) (f_add (box_x b) (box_width b)) \<or>
             f_lt (rnd (1 + 1 / 10 ^ 9)) (f_add (box_y b) (box_height b)))
        ''optical.detection_boxes exceeds the image bounds'']"

definition validate_optical :: "optical_payload \<Rightarrow> validation" where
  "validate_optical p = first_error
     ([validateCanonicalID ''optical.image_ref'' (op_image_ref p),
       check (op_boxes p = [] \<or> 64 < length (op_boxes p)) ''optical.detection_boxes must contain between 1 and 64 boxes'']
      @ map validate_box (op_boxes p))"

text \<open>
  The modality switch: \<open>None\<close> for a modality outside the approved set (the default case
  returns at once), otherwise the payload's verdict, or \<open>None\<close> inside when the payload
  of that modality is absent (\<open>present\<close> stays 0).
\<close>

definition modality_payload :: "detection \<Rightarrow> validation option option" where
  "modality_payload d =
     (if d_modality d = ModalityAIS then Some (map_option validate_ais (d_ais d))
      else if d_modality d = ModalitySAR then Some (map_option validate_sar (d_sar d))
      else if d_modality d = ModalityRF then Some (map_option validate_rf (d_rf d))
      else if d_modality d = ModalityAcoustic then Some (map_option validate_acoustic (d_acoustic d))
      else if d_modality d = ModalityOptical then Some (map_option validate_optical (d_optical d))
      else None)"

text \<open>\<open>strings.EqualFold\<close> on the ASCII payload names and modality constants it is called with.\<close>

definition equal_fold :: "string \<Rightarrow> string \<Rightarrow> bool" where
  "equal_fold a b = (map upper_char a = map upper_char b)"

definition payload_presence :: "detection \<Rightarrow> (string \<times> bool) list" where
  "payload_presence d =
     [(''ais'', d_ais d \<noteq> None), (''sar'', d_sar d \<noteq> None), (''rf'', d_rf d \<noteq> None),
      (''acoustic'', d_acoustic d \<noteq> None), (''optical'', d_optical d \<noteq> None)]"

definition other_payload_check :: "detection \<Rightarrow> (string \<times> bool) \<Rightarrow> validation" where
  "other_payload_check d x =
     check (snd x \<and> \<not> equal_fold (fst x) (d_modality d)) (fst x @ '' payload must not accompany modality '' @ d_modality d)"

definition classification_check :: "classification \<Rightarrow> validation" where
  "classification_check c = (case ParseClassification c of Inl e \<Rightarrow> Some e | Inr _ \<Rightarrow> None)"

text \<open>The checks before the modality switch.\<close>

definition detection_head_checks :: "detection \<Rightarrow> validation" where
  "detection_head_checks d = first_error
     [validateCanonicalID ''event_id'' (d_event_id d),
      validateCanonicalID ''source_id'' (d_source_id d),
      validateCanonicalID ''source_event_id'' (d_source_event_id d),
      classification_check (d_classification d),
      check (d_observed_at d = 0) ''observed_at must be RFC3339'',
      check (d_has_position d \<and>
         (\<not> isFinite (d_latitude d) \<or> f_lt (d_latitude d) (Fin (-90)) \<or> f_lt (Fin 90) (d_latitude d) \<or>
          \<not> isFinite (d_longitude d) \<or> f_lt (d_longitude d) (Fin (-180)) \<or> f_lt (Fin 180) (d_longitude d)))
        ''latitude/longitude must be finite WGS-84 coordinates'',
      check (d_mmsi d \<noteq> [] \<and> \<not> mmsiPattern (d_mmsi d)) ''mmsi must be a 9-digit identifier when present'']"

definition detection_Validate :: "detection \<Rightarrow> validation" where
  "detection_Validate d =
     (case detection_head_checks d of
        Some e \<Rightarrow> Some e
      | None \<Rightarrow>
          (case modality_payload d of
             None \<Rightarrow> Some (EMsg ''modality must be one of AIS, SAR, RF, ACOUSTIC, OPTICAL'')
           | Some None \<Rightarrow> Some (EMsg (d_modality d @ '' modality payload is required''))
           | Some (Some v) \<Rightarrow> first_error
               (v # map (other_payload_check d) (payload_presence d)
                @ map (validateCanonicalID ''correlation_refs'') (d_correlation_refs d)
                @ [check (32 < length (d_correlation_refs d)) ''correlation_refs must contain at most 32 references''])))"

section \<open>What a validated detection satisfies\<close>

definition present_payloads :: "detection \<Rightarrow> string list" where
  "present_payloads d = map fst (filter snd (payload_presence d))"

lemma classification_check_None [simp]: "classification_check c = None \<longleftrightarrow> valid_label c"
  by (auto simp: classification_check_def ParseClassification_Inl ParseClassification_Inr split: sum.splits)

lemma validateCanonicalID_None [simp]: "validateCanonicalID n s = None \<longleftrightarrow> identifierPattern s"
  by (simp add: validateCanonicalID_def)

lemma validateUnitInterval_None:
  "validateUnitInterval n x = None \<longleftrightarrow> (\<exists>a. x = Fin a \<and> 0 \<le> a \<and> a \<le> 1)"
  by (cases x) (auto simp: validateUnitInterval_def isFinite_def is_nan_def is_inf_def)

lemma fold_table [simp]:
  "equal_fold ''ais'' ''AIS''" "\<not> equal_fold ''ais'' ''SAR''" "\<not> equal_fold ''ais'' ''RF''" "\<not> equal_fold ''ais'' ''ACOUSTIC''" "\<not> equal_fold ''ais'' ''OPTICAL''"
  "\<not> equal_fold ''sar'' ''AIS''" "equal_fold ''sar'' ''SAR''" "\<not> equal_fold ''sar'' ''RF''" "\<not> equal_fold ''sar'' ''ACOUSTIC''" "\<not> equal_fold ''sar'' ''OPTICAL''"
  "\<not> equal_fold ''rf'' ''AIS''" "\<not> equal_fold ''rf'' ''SAR''" "equal_fold ''rf'' ''RF''" "\<not> equal_fold ''rf'' ''ACOUSTIC''" "\<not> equal_fold ''rf'' ''OPTICAL''"
  "\<not> equal_fold ''acoustic'' ''AIS''" "\<not> equal_fold ''acoustic'' ''SAR''" "\<not> equal_fold ''acoustic'' ''RF''" "equal_fold ''acoustic'' ''ACOUSTIC''" "\<not> equal_fold ''acoustic'' ''OPTICAL''"
  "\<not> equal_fold ''optical'' ''AIS''" "\<not> equal_fold ''optical'' ''SAR''" "\<not> equal_fold ''optical'' ''RF''" "\<not> equal_fold ''optical'' ''ACOUSTIC''" "equal_fold ''optical'' ''OPTICAL''"
  by code_simp+

lemma other_payload_check_None [simp]:
  "other_payload_check d x = None \<longleftrightarrow> (snd x \<longrightarrow> equal_fold (fst x) (d_modality d))"
  by (auto simp: other_payload_check_def)

lemma detection_Validate_None_iff:
  "detection_Validate d = None \<longleftrightarrow>
     identifierPattern (d_event_id d) \<and> identifierPattern (d_source_id d) \<and> identifierPattern (d_source_event_id d) \<and>
     valid_label (d_classification d) \<and> d_observed_at d \<noteq> 0 \<and>
     (d_has_position d \<longrightarrow> (\<exists>a b. d_latitude d = Fin a \<and> d_longitude d = Fin b \<and> \<bar>a\<bar> \<le> 90 \<and> \<bar>b\<bar> \<le> 180)) \<and>
     (d_mmsi d \<noteq> [] \<longrightarrow> mmsiPattern (d_mmsi d)) \<and>
     modality_payload d = Some (Some None) \<and>
     (\<forall>x \<in> set (payload_presence d). snd x \<longrightarrow> equal_fold (fst x) (d_modality d)) \<and>
     (\<forall>r \<in> set (d_correlation_refs d). identifierPattern r) \<and> length (d_correlation_refs d) \<le> 32"
proof -
  have coords: "(isFinite x \<and> \<not> f_lt x (Fin (- m)) \<and> \<not> f_lt (Fin m) x) \<longleftrightarrow> (\<exists>a. x = Fin a \<and> \<bar>a\<bar> \<le> m)" for x m
    by (cases x) (auto simp: isFinite_def is_nan_def is_inf_def abs_le_iff)
  have head: "detection_head_checks d = None \<longleftrightarrow>
     identifierPattern (d_event_id d) \<and> identifierPattern (d_source_id d) \<and> identifierPattern (d_source_event_id d) \<and>
     valid_label (d_classification d) \<and> d_observed_at d \<noteq> 0 \<and>
     (d_has_position d \<longrightarrow> (\<exists>a b. d_latitude d = Fin a \<and> d_longitude d = Fin b \<and> \<bar>a\<bar> \<le> 90 \<and> \<bar>b\<bar> \<le> 180)) \<and>
     (d_mmsi d \<noteq> [] \<longrightarrow> mmsiPattern (d_mmsi d))"
    using coords [of "d_latitude d" 90] coords [of "d_longitude d" 180]
    unfolding detection_head_checks_def by simp blast
  have tail: "first_error (v # map (other_payload_check d) (payload_presence d)
        @ map (validateCanonicalID ''correlation_refs'') (d_correlation_refs d)
        @ [check (32 < length (d_correlation_refs d)) m]) = None \<longleftrightarrow>
     v = None \<and> (\<forall>x \<in> set (payload_presence d). snd x \<longrightarrow> equal_fold (fst x) (d_modality d)) \<and>
     (\<forall>r \<in> set (d_correlation_refs d). identifierPattern r) \<and> length (d_correlation_refs d) \<le> 32" for v m
    by (auto)
  have split: "detection_Validate d = None \<longleftrightarrow> detection_head_checks d = None \<and> modality_payload d = Some (Some None) \<and>
     (\<forall>x \<in> set (payload_presence d). snd x \<longrightarrow> equal_fold (fst x) (d_modality d)) \<and>
     (\<forall>r \<in> set (d_correlation_refs d). identifierPattern r) \<and> length (d_correlation_refs d) \<le> 32"
    unfolding detection_Validate_def tail by (auto simp: tail split: option.splits)
  show ?thesis unfolding split head by blast
qed

lemma modality_payload_cases:
  assumes "modality_payload d = Some (Some None)"
  obtains (ais) p where "d_modality d = ModalityAIS" "d_ais d = Some p" "validate_ais p = None"
    | (sar) p where "d_modality d = ModalitySAR" "d_sar d = Some p" "validate_sar p = None"
    | (rf) p where "d_modality d = ModalityRF" "d_rf d = Some p" "validate_rf p = None"
    | (acoustic) p where "d_modality d = ModalityAcoustic" "d_acoustic d = Some p" "validate_acoustic p = None"
    | (optical) p where "d_modality d = ModalityOptical" "d_optical d = Some p" "validate_optical p = None"
  using assms by (auto simp: modality_payload_def split: if_splits)

lemma detection_Validate_one_payload:
  assumes "detection_Validate d = None"
  shows "\<exists>n. present_payloads d = [n] \<and> equal_fold n (d_modality d)"
proof -
  have m: "modality_payload d = Some (Some None)"
    and o: "\<forall>x \<in> set (payload_presence d). snd x \<longrightarrow> equal_fold (fst x) (d_modality d)"
    using assms by (simp_all add: detection_Validate_None_iff)
  from m show ?thesis
  proof (cases rule: modality_payload_cases)
    case ais
    then show ?thesis using o by (auto simp: payload_presence_def present_payloads_def modality_defs)
  next
    case sar
    then show ?thesis using o by (auto simp: payload_presence_def present_payloads_def modality_defs)
  next
    case rf
    then show ?thesis using o by (auto simp: payload_presence_def present_payloads_def modality_defs)
  next
    case acoustic
    then show ?thesis using o by (auto simp: payload_presence_def present_payloads_def modality_defs)
  next
    case optical
    then show ?thesis using o by (auto simp: payload_presence_def present_payloads_def modality_defs)
  qed
qed

lemma detection_Validate_ais:
  "detection_Validate d = None \<Longrightarrow> d_ais d = Some p \<Longrightarrow> d_modality d = ModalityAIS \<and> mmsiPattern (ais_mmsi p)"
proof -
  assume v: "detection_Validate d = None" and p: "d_ais d = Some p"
  have o: "\<forall>x \<in> set (payload_presence d). snd x \<longrightarrow> equal_fold (fst x) (d_modality d)"
    and m: "modality_payload d = Some (Some None)" using v by (simp_all add: detection_Validate_None_iff)
  have fold: "equal_fold ''ais'' (d_modality d)" using o p by (simp add: payload_presence_def)
  from m show ?thesis
  proof (cases rule: modality_payload_cases)
    case ais
    with p show ?thesis by (auto simp: validate_ais_def first_error_None_iff)
  next
    case sar with fold show ?thesis by (simp add: modality_defs)
  next
    case rf with fold show ?thesis by (simp add: modality_defs)
  next
    case acoustic with fold show ?thesis by (simp add: modality_defs)
  next
    case optical with fold show ?thesis by (simp add: modality_defs)
  qed
qed

text \<open>
  A detection that passes validation carries exactly one payload, that of its modality,
  an approved classification label, a non-zero observation time, canonical identifiers and
  at most 32 canonical correlation references; if it claims a position, the position is
  finite and inside WGS-84.
\<close>

theorem detection_Validate_sound:
  assumes "detection_Validate d = None"
  shows "(\<exists>n. present_payloads d = [n] \<and> equal_fold n (d_modality d)) \<and>
     valid_label (d_classification d) \<and> d_observed_at d \<noteq> 0 \<and>
     identifierPattern (d_event_id d) \<and> identifierPattern (d_source_id d) \<and> identifierPattern (d_source_event_id d) \<and>
     (d_has_position d \<longrightarrow> (\<exists>a b. d_latitude d = Fin a \<and> d_longitude d = Fin b \<and> \<bar>a\<bar> \<le> 90 \<and> \<bar>b\<bar> \<le> 180)) \<and>
     length (d_correlation_refs d) \<le> 32 \<and> (\<forall>r \<in> set (d_correlation_refs d). identifierPattern r)"
  using detection_Validate_one_payload [OF assms] assms by (simp add: detection_Validate_None_iff)

definition sample_ais :: detection where
  "sample_ais = \<lparr>d_event_id = ''ev-1'', d_source_id = ''ais-feed'', d_source_event_id = ''se-1'',
     d_modality = ''AIS'', d_classification = ''SECRET'', d_observed_at = unix_epoch,
     d_has_position = True, d_latitude = Fin 1, d_longitude = Fin 2, d_mmsi = ''123456789'',
     d_ais = Some \<lparr>ais_mmsi = ''123456789'', ais_speed_knots = Fin 10, ais_heading_deg = Fin 90,
        ais_nav_status = ''moored'', ais_call_sign = [], ais_destination = []\<rparr>,
     d_sar = None, d_rf = None, d_acoustic = None, d_optical = None,
     d_correlation_refs = [''wsb:ferries.telemetry:7'']\<rparr>"

lemma speed_limit_ok: "\<not> f_lt (rnd (1022/10)) (Fin 10)"
  using rnd_mono [of 10 "1022/10"] by (cases "rnd (1022/10)") (auto simp: f_lt_def)

lemma sample_ais_valid: "detection_Validate sample_ais = None"
proof -
  have nav: "trim_space ''moored'' = ''moored''" by code_simp
  have mmsi: "mmsiPattern ''123456789''" by code_simp
  have ref: "identifierPattern ''wsb:ferries.telemetry:7''" by code_simp
  have "validate_ais (the (d_ais sample_ais)) = None"
    using speed_limit_ok nav mmsi
    by (simp add: validate_ais_def sample_ais_def validateHeading_def isFinite_def is_nan_def is_inf_def)
  moreover have "detection_head_checks sample_ais = None" by code_simp
  ultimately show ?thesis
    using ref unfolding detection_Validate_def modality_payload_def payload_presence_def
    by (simp add: sample_ais_def ModalityAIS_def)
qed

theorem detection_Validate_sound_witness:
  "present_payloads sample_ais = [''ais''] \<and> valid_label (d_classification sample_ais)"
  using detection_Validate_sound [OF sample_ais_valid] by (simp add: present_payloads_def payload_presence_def sample_ais_def)

end
