(* ===== verification/Outbox.thy ===== *)
theory Outbox
  imports Prelude "HOL-Library.Char_ord" "HOL-Library.List_Lexorder" "HOL-Library.Product_Lexorder"
begin

text \<open>
  The transactional outbox tables: rows, the claim, publish and fail statements of
  \<open>internal/incident/outbox.go\<close> and \<open>internal/isr/isr_outbox.go\<close> (the two files run the
  same SQL on two tables, so the statements are written once over a row type), and the
  publisher's \<open>backoff\<close>. A step relation collects everything that happens to a table;
  its invariants hold for both stores.
\<close>

section \<open>Rows and statements\<close>

record 'p outbox_row =
  ob_event_id :: string
  ob_body :: 'p
  ob_created_at :: gotime
  ob_published_at :: "gotime option"
  ob_available_at :: gotime
  ob_attempts :: nat
  ob_claimed_at :: "gotime option"
  ob_claimed_by :: "string option"
  ob_last_error :: "string option"

text \<open>INSERT with the column defaults: available at \<open>now()\<close>, no attempts, unclaimed, unpublished.\<close>

definition new_outbox_row :: "db_env \<Rightarrow> string \<Rightarrow> 'p \<Rightarrow> gotime \<Rightarrow> 'p outbox_row" where
  "new_outbox_row env ev body created =
     \<lparr>ob_event_id = ev, ob_body = body, ob_created_at = pg_ts env created, ob_published_at = None,
      ob_available_at = db_now env, ob_attempts = 0, ob_claimed_at = None, ob_claimed_by = None,
      ob_last_error = None\<rparr>"

definition outbox_insert ::
  "db_env \<Rightarrow> string \<Rightarrow> 'p \<Rightarrow> gotime \<Rightarrow> 'p outbox_row list \<Rightarrow> 'p outbox_row list result" where
  "outbox_insert env ev body created rows =
     (if ev \<in> set (map ob_event_id rows) then Inl (EDb ''duplicate key value violates unique constraint'')
      else Inr (rows @ [new_outbox_row env ev body created]))"

lemma new_outbox_row_simps [simp]:
  "ob_event_id (new_outbox_row env ev body t) = ev" "ob_body (new_outbox_row env ev body t) = body"
  "ob_published_at (new_outbox_row env ev body t) = None" "ob_claimed_by (new_outbox_row env ev body t) = None"
  "ob_claimed_at (new_outbox_row env ev body t) = None"
  by (simp_all add: new_outbox_row_def)

lemma outbox_insert_Inr [simp]:
  "outbox_insert env ev body t rows = Inr rows' \<longleftrightarrow>
     ev \<notin> set (map ob_event_id rows) \<and> rows' = rows @ [new_outbox_row env ev body t]"
  by (auto simp: outbox_insert_def)

text \<open>WHERE clause of the claim; rows locked by a concurrent transaction are skipped.\<close>

definition claimable :: "gotime \<Rightarrow> gotime \<Rightarrow> (string \<Rightarrow> bool) \<Rightarrow> 'p outbox_row \<Rightarrow> bool" where
  "claimable dbnow cutoff locked r =
     (ob_published_at r = None \<and> ob_available_at r \<le> dbnow \<and>
      (case ob_claimed_at r of None \<Rightarrow> True | Some t \<Rightarrow> t < cutoff) \<and> \<not> locked (ob_event_id r))"

definition claim_key :: "'p outbox_row \<Rightarrow> gotime \<times> string" where
  "claim_key r = (ob_created_at r, ob_event_id r)"

definition select_claimable ::
  "gotime \<Rightarrow> gotime \<Rightarrow> (string \<Rightarrow> bool) \<Rightarrow> 'p outbox_row list \<Rightarrow> 'p outbox_row option" where
  "select_claimable dbnow cutoff locked rows =
     (case filter (claimable dbnow cutoff locked) rows of
        [] \<Rightarrow> None
      | r # rs \<Rightarrow> Some (arg_min_list claim_key (r # rs)))"

definition claim_row :: "gotime \<Rightarrow> string \<Rightarrow> 'p outbox_row \<Rightarrow> 'p outbox_row" where
  "claim_row dbnow worker r =
     r\<lparr>ob_claimed_at := Some dbnow, ob_claimed_by := Some worker, ob_attempts := Suc (ob_attempts r)\<rparr>"

definition update_row ::
  "string \<Rightarrow> ('p outbox_row \<Rightarrow> 'p outbox_row) \<Rightarrow> 'p outbox_row list \<Rightarrow> 'p outbox_row list" where
  "update_row ev f rows = map (\<lambda>r. if ob_event_id r = ev then f r else r) rows"

definition owned_pending :: "string \<Rightarrow> string \<Rightarrow> 'p outbox_row \<Rightarrow> bool" where
  "owned_pending ev worker r =
     (ob_event_id r = ev \<and> ob_claimed_by r = Some worker \<and> ob_published_at r = None)"

definition publish_row :: "gotime \<Rightarrow> 'p outbox_row \<Rightarrow> 'p outbox_row" where
  "publish_row dbnow r =
     r\<lparr>ob_published_at := Some dbnow, ob_claimed_at := None, ob_claimed_by := None, ob_last_error := None\<rparr>"

definition fail_row :: "gotime \<Rightarrow> string \<Rightarrow> 'p outbox_row \<Rightarrow> 'p outbox_row" where
  "fail_row retryAt failure r =
     r\<lparr>ob_available_at := retryAt, ob_claimed_at := None, ob_claimed_by := None, ob_last_error := Some failure\<rparr>"

text \<open>UPDATE ... WHERE event_id AND claimed_by AND published_at IS NULL, with RowsAffected checked.\<close>

definition update_owned ::
  "string \<Rightarrow> string \<Rightarrow> ('p outbox_row \<Rightarrow> 'p outbox_row) \<Rightarrow> go_error \<Rightarrow> 'p outbox_row list \<Rightarrow> 'p outbox_row list result" where
  "update_owned ev worker f ownership rows =
     (if length (filter (owned_pending ev worker) rows) \<noteq> 1 then Inl ownership
      else Inr (map (\<lambda>r. if owned_pending ev worker r then f r else r) rows))"

text \<open>
  The claim transaction after its argument checks: select, update, return the event. The
  tag is the name of the outbox in the error messages.
\<close>

definition claim_outbox_rows ::
  "string \<Rightarrow> db_env \<Rightarrow> (string \<Rightarrow> bool) \<Rightarrow> string \<Rightarrow> duration \<Rightarrow> go_error \<Rightarrow> 'p outbox_row list \<Rightarrow>
   ('p outbox_row \<times> 'p outbox_row list) result" where
  "claim_outbox_rows tag env locked worker lease none_pending rows =
     db_call env 0 (''begin '' @ tag @ '' claim'')
       (db_call env 1 (''select '' @ tag @ '' event'')
         (case select_claimable (db_now env) (clock env 0 - lease) locked rows of
            None \<Rightarrow> Inl none_pending
          | Some r \<Rightarrow>
              db_call env 2 (''claim '' @ tag @ '' event'')
                (db_call env 3 (''commit '' @ tag @ '' claim'')
                  (Inr (claim_row (db_now env) worker r,
                        update_row (ob_event_id r) (claim_row (db_now env) worker) rows)))))"

definition worker_canonical :: "string \<Rightarrow> bool" where
  "worker_canonical w = (trim_space w \<noteq> [] \<and> trim_space w = w)"

definition lease_ok :: "duration \<Rightarrow> bool" where
  "lease_ok lease = (0 < lease \<and> lease \<le> 24 * hour)"

section \<open>The publisher's backoff\<close>

text \<open>
  \<open>time.Second * time.Duration(1<<uint(attempts-1))\<close> on int64, with the wrap-around of the
  shift and of the product.
\<close>

definition backoff :: "int \<Rightarrow> duration \<Rightarrow> duration" where
  "backoff attempts max_delay =
     (let a = (if attempts < 1 then 1 else attempts);
          a = (if 30 < a then 30 else a);
          delay = wrap64 (second * wrap64 (2 ^ nat (a - 1)))
      in if max_delay < delay then max_delay else delay)"

section \<open>Tables as a step relation\<close>

text \<open>Everything the service does to an outbox table: append a row, claim, publish, fail.\<close>

inductive outbox_step :: "'p outbox_row list \<Rightarrow> 'p outbox_row list \<Rightarrow> bool" where
  insert: "outbox_insert env ev body created rows = Inr rows' \<Longrightarrow> outbox_step rows rows'"
| claim: "claim_outbox_rows tag env locked worker lease none_pending rows = Inr (r, rows') \<Longrightarrow> outbox_step rows rows'"
| publish: "update_owned ev worker (publish_row t) ownership rows = Inr rows' \<Longrightarrow> outbox_step rows rows'"
| fail: "update_owned ev worker (fail_row retry msg) ownership rows = Inr rows' \<Longrightarrow> outbox_step rows rows'"

text \<open>Delivery never changes what the rows carry.\<close>

definition same_bodies :: "'p outbox_row list \<Rightarrow> 'p outbox_row list \<Rightarrow> bool" where
  "same_bodies rows rows' = (map ob_body rows' = map ob_body rows \<and> map ob_event_id rows' = map ob_event_id rows)"

inductive outbox_reach :: "'p outbox_row list \<Rightarrow> 'p outbox_row list \<Rightarrow> bool" where
  refl: "outbox_reach rows rows"
| step: "outbox_reach rows rows' \<Longrightarrow> outbox_step rows' rows'' \<Longrightarrow> outbox_reach rows rows''"

definition row_ok :: "'p outbox_row \<Rightarrow> bool" where
  "row_ok r = ((ob_claimed_at r = None \<longleftrightarrow> ob_claimed_by r = None) \<and>
     (ob_published_at r \<noteq> None \<longrightarrow> ob_claimed_by r = None \<and> ob_last_error r = None) \<and>
     (ob_claimed_by r \<noteq> None \<longrightarrow> 0 < ob_attempts r))"

definition outbox_ok :: "'p outbox_row list \<Rightarrow> bool" where
  "outbox_ok rows = (distinct (map ob_event_id rows) \<and> (\<forall>r \<in> set rows. row_ok r))"

section \<open>The selection\<close>

lemma select_claimable_Some:
  assumes "select_claimable n c l rows = Some r"
  shows "r \<in> set rows" and "claimable n c l r"
    and "\<And>r'. r' \<in> set rows \<Longrightarrow> claimable n c l r' \<Longrightarrow> claim_key r \<le> claim_key r'"
proof -
  let ?xs = "filter (claimable n c l) rows"
  have ne: "?xs \<noteq> []" and r: "r = arg_min_list claim_key ?xs"
    using assms by (auto simp: select_claimable_def split: list.splits)
  have "r \<in> set ?xs" unfolding r by (rule arg_min_list_in [OF ne])
  then show "r \<in> set rows" and "claimable n c l r" by auto
  have "claim_key r = Min (claim_key ` set ?xs)" unfolding r by (rule f_arg_min_list_f [OF ne])
  then show "\<And>r'. r' \<in> set rows \<Longrightarrow> claimable n c l r' \<Longrightarrow> claim_key r \<le> claim_key r'" by simp
qed

lemma select_claimable_None:
  "select_claimable n c l rows = None \<longleftrightarrow> (\<forall>r \<in> set rows. \<not> claimable n c l r)"
proof -
  have "select_claimable n c l rows = None \<longleftrightarrow> filter (claimable n c l) rows = []"
    by (auto simp: select_claimable_def split: list.splits)
  then show ?thesis by (simp add: filter_empty_conv)
qed

lemma claim_outbox_rows_Inr:
  "claim_outbox_rows tag env l w lease e rows = Inr (r', rows') \<longleftrightarrow>
     (\<forall>k \<in> {0, 1, 2, 3}. \<not> db_faults env k) \<and>
     (\<exists>r. select_claimable (db_now env) (clock env 0 - lease) l rows = Some r \<and>
          r' = claim_row (db_now env) w r \<and> rows' = update_row (ob_event_id r) (claim_row (db_now env) w) rows)"
  by (auto simp: claim_outbox_rows_def split: option.splits)

section \<open>Invariants of the tables\<close>

text \<open>What can happen to a row: its identity stays, attempts grow, a published row is frozen.\<close>

definition row_evolves :: "'p outbox_row \<Rightarrow> 'p outbox_row \<Rightarrow> bool" where
  "row_evolves r r' = (ob_event_id r' = ob_event_id r \<and> ob_body r' = ob_body r \<and>
     ob_created_at r' = ob_created_at r \<and> ob_attempts r \<le> ob_attempts r' \<and>
     (ob_published_at r \<noteq> None \<longrightarrow> r' = r))"

definition rows_evolve :: "'p outbox_row list \<Rightarrow> 'p outbox_row list \<Rightarrow> bool" where
  "rows_evolve rows rows' = (length rows \<le> length rows' \<and> (\<forall>i < length rows. row_evolves (rows ! i) (rows' ! i)))"

lemma row_evolves_refl [simp]: "row_evolves r r"
  by (simp add: row_evolves_def)

lemma row_evolves_trans: "row_evolves a b \<Longrightarrow> row_evolves b c \<Longrightarrow> row_evolves a c"
  by (auto simp: row_evolves_def)

lemma rows_evolve_trans: "rows_evolve a b \<Longrightarrow> rows_evolve b c \<Longrightarrow> rows_evolve a c"
  unfolding rows_evolve_def by (meson less_le_trans order_trans row_evolves_trans)

lemma rows_evolve_map: "(\<And>r. r \<in> set rows \<Longrightarrow> row_evolves r (f r)) \<Longrightarrow> rows_evolve rows (map f rows)"
  by (simp add: rows_evolve_def)

lemma row_updates_evolve:
  "ob_published_at r = None \<Longrightarrow> row_evolves r (claim_row t w r)"
  "ob_published_at r = None \<Longrightarrow> row_evolves r (publish_row t r)"
  "ob_published_at r = None \<Longrightarrow> row_evolves r (fail_row u m r)"
  by (simp_all add: row_evolves_def claim_row_def publish_row_def fail_row_def)

lemma distinct_ids_eq:
  "distinct (map ob_event_id rows) \<Longrightarrow> r \<in> set rows \<Longrightarrow> r' \<in> set rows \<Longrightarrow> ob_event_id r = ob_event_id r' \<Longrightarrow> r = r'"
  by (metis distinct_map inj_onD)

lemma row_updates_id [simp]:
  "ob_event_id (claim_row t w r) = ob_event_id r"
  "ob_event_id (publish_row t r) = ob_event_id r"
  "ob_event_id (fail_row u m r) = ob_event_id r"
  by (simp_all add: claim_row_def publish_row_def fail_row_def)

lemma outbox_ok_map:
  assumes "outbox_ok rows" and "\<And>r. ob_event_id (f r) = ob_event_id r"
    and "\<And>r. r \<in> set rows \<Longrightarrow> row_ok r \<Longrightarrow> row_ok (f r)"
  shows "outbox_ok (map f rows)"
  using assms by (auto simp: outbox_ok_def comp_def)

lemma outbox_step_cases:
  assumes "outbox_step rows rows'"
  obtains (appended) env ev body created where "outbox_insert env ev body created rows = Inr rows'"
  | (claimed) t w r where "r \<in> set rows" "ob_published_at r = None" "rows' = update_row (ob_event_id r) (claim_row t w) rows"
  | (owned) ev w f where "rows' = map (\<lambda>r. if owned_pending ev w r then f r else r) rows"
      "\<exists>t u m. f = publish_row t \<or> f = fail_row u m"
  using assms
proof cases
  case insert
  then show thesis using appended by blast
next
  case (claim tag env l w lease e r')
  then obtain r where "select_claimable (db_now env) (clock env 0 - lease) l rows = Some r"
      "rows' = update_row (ob_event_id r) (claim_row (db_now env) w) rows"
    by (auto simp: claim_outbox_rows_Inr)
  then show thesis using claimed select_claimable_Some(1,2) by (metis claimable_def)
next
  case publish
  then show thesis using owned by (fastforce simp: update_owned_def split: if_splits)
next
  case fail
  then show thesis using owned by (fastforce simp: update_owned_def split: if_splits)
qed

lemma outbox_step_ok: "outbox_step rows rows' \<Longrightarrow> outbox_ok rows \<Longrightarrow> outbox_ok rows'"
proof (erule outbox_step_cases)
  fix env ev body created
  assume "outbox_ok rows" "outbox_insert env ev body created rows = Inr rows'"
  then show ?thesis by (auto simp: outbox_insert_def outbox_ok_def row_ok_def split: if_splits)
next
  fix t w r
  assume ok: "outbox_ok rows" and r: "r \<in> set rows" "ob_published_at r = None"
    and rows': "rows' = update_row (ob_event_id r) (claim_row t w) rows"
  show ?thesis unfolding rows' update_row_def
  proof (rule outbox_ok_map [OF ok])
    fix x assume x: "x \<in> set rows" "row_ok x"
    show "row_ok (if ob_event_id x = ob_event_id r then claim_row t w x else x)"
      using ok x r distinct_ids_eq [of rows x r] by (auto simp: row_ok_def claim_row_def outbox_ok_def)
  qed simp
next
  fix ev w f
  assume ok: "outbox_ok rows" and rows': "rows' = map (\<lambda>r. if owned_pending ev w r then f r else r) rows"
    and "\<exists>t u m. f = publish_row t \<or> f = fail_row u m"
  then obtain t u m where f: "f = publish_row t \<or> f = fail_row u m" by blast
  show ?thesis unfolding rows'
    by (rule outbox_ok_map [OF ok])
       (use f in \<open>auto simp: row_ok_def publish_row_def fail_row_def owned_pending_def\<close>)
qed

lemma outbox_step_evolves: "outbox_step rows rows' \<Longrightarrow> outbox_ok rows \<Longrightarrow> rows_evolve rows rows'"
proof (erule outbox_step_cases)
  fix env ev body created
  assume "outbox_insert env ev body created rows = Inr rows'"
  then show ?thesis by (auto simp: outbox_insert_def rows_evolve_def nth_append split: if_splits)
next
  fix t w r
  assume ok: "outbox_ok rows" and r: "r \<in> set rows" "ob_published_at r = None"
    and rows': "rows' = update_row (ob_event_id r) (claim_row t w) rows"
  show ?thesis unfolding rows' update_row_def
    using ok r by (intro rows_evolve_map) (auto simp: outbox_ok_def intro: row_updates_evolve dest: distinct_ids_eq)
next
  fix ev w f
  assume rows': "rows' = map (\<lambda>r. if owned_pending ev w r then f r else r) rows"
    and "\<exists>t u m. f = publish_row t \<or> f = fail_row u m"
  then obtain t u m where f: "f = publish_row t \<or> f = fail_row u m" by blast
  show ?thesis unfolding rows'
    by (rule rows_evolve_map) (use f in \<open>auto simp: owned_pending_def intro: row_updates_evolve\<close>)
qed

lemma outbox_reach_ok: "outbox_reach rows rows' \<Longrightarrow> outbox_ok rows \<Longrightarrow> outbox_ok rows' \<and> rows_evolve rows rows'"
proof (induction rule: outbox_reach.induct)
  case (refl rows)
  then show ?case by (simp add: rows_evolve_def)
next
  case (step rows rows' rows'')
  then show ?case using outbox_step_ok outbox_step_evolves rows_evolve_trans by blast
qed

text \<open>
  From a well-formed table, every sequence of appends, claims, publications and failures
  keeps the table well formed (unique event ids, a claim always has an owner and at least one
  attempt, a published row has neither owner nor error) and only ever adds rows at the end:
  each earlier row keeps its event, its attempts never decrease, and once published it is
  never changed again.
\<close>

theorem outbox_reach_safe:
  assumes "outbox_reach rows rows'" and "outbox_ok rows"
  shows "outbox_ok rows' \<and> rows_evolve rows rows'"
  using outbox_reach_ok assms by blast

lemma outbox_ok_empty [simp]: "outbox_ok []"
  by (simp add: outbox_ok_def)

theorem outbox_reach_safe_witness:
  "\<exists>rows'. outbox_reach [] (rows' :: nat outbox_row list) \<and> length rows' = 1 \<and> outbox_ok rows' \<and> rows_evolve [] rows'"
proof -
  obtain rows' :: "nat outbox_row list" where ins: "outbox_insert (calm_env 5 ''u'') ''e1'' 0 5 [] = Inr rows'"
    by (simp add: outbox_insert_def)
  then have l: "length rows' = 1" by (auto simp: outbox_insert_def)
  have "outbox_reach [] rows'"
    by (rule outbox_reach.step [OF outbox_reach.refl]) (rule outbox_step.insert [OF ins])
  then show ?thesis using outbox_reach_safe [of "[]" rows'] l by auto
qed

section \<open>Appending\<close>

text \<open>What the rest of the platform does to a table: it adds pending rows under new ids.\<close>

definition appends_rows :: "'p outbox_row list \<Rightarrow> 'p outbox_row list \<Rightarrow> bool" where
  "appends_rows rows rows' = (\<exists>new. rows' = rows @ new \<and> list_all (\<lambda>r. ob_published_at r = None \<and> row_ok r) new \<and>
     (distinct (map ob_event_id rows) \<longrightarrow> distinct (map ob_event_id rows')))"

lemma appends_rows_ok: "appends_rows rows rows' \<Longrightarrow> outbox_ok rows \<Longrightarrow> outbox_ok rows' \<and> rows_evolve rows rows'"
  by (auto simp: appends_rows_def outbox_ok_def rows_evolve_def nth_append list_all_iff)

lemma appends_rows_insert: "outbox_insert env ev body t rows = Inr rows' \<Longrightarrow> appends_rows rows rows'"
  by (auto simp: appends_rows_def row_ok_def)

lemma appends_rows_refl [simp]: "appends_rows rows rows"
  by (simp add: appends_rows_def)

lemma appends_rows_trans: "appends_rows a b \<Longrightarrow> appends_rows b d \<Longrightarrow> appends_rows a d"
  by (force simp: appends_rows_def)

section \<open>The interface of an outbox store\<close>

lemma update_owned_Inr:
  "update_owned ev w f own rows = Inr rows' \<longleftrightarrow>
     length (filter (owned_pending ev w) rows) = 1 \<and> rows' = map (\<lambda>r. if owned_pending ev w r then f r else r) rows"
  by (auto simp: update_owned_def)

lemma claim_same_bodies:
  "claim_outbox_rows tag env l w lease e rows = Inr (r, rows') \<Longrightarrow> same_bodies rows rows'"
  by (auto simp: claim_outbox_rows_Inr same_bodies_def update_row_def claim_row_def)

lemma owned_same_bodies:
  "update_owned ev w (publish_row t) own rows = Inr rows' \<Longrightarrow> same_bodies rows rows'"
  "update_owned ev w (fail_row u m) own rows = Inr rows' \<Longrightarrow> same_bodies rows rows'"
  by (auto simp: update_owned_Inr same_bodies_def publish_row_def fail_row_def)

text \<open>
  What the publisher may rely on: a failed call leaves the table alone, a successful one is
  one of the statements above. Both stores of the service are instances.
\<close>

locale outbox_store =
  fixes rows_of :: "'s \<Rightarrow> 'p outbox_row list"
    and claim_op :: "db_env \<Rightarrow> (string \<Rightarrow> bool) \<Rightarrow> string \<Rightarrow> duration \<Rightarrow> 's \<Rightarrow> 'p outbox_row result \<times> 's"
    and published_op :: "db_env \<Rightarrow> string \<Rightarrow> string \<Rightarrow> 's \<Rightarrow> unit result \<times> 's"
    and failed_op :: "db_env \<Rightarrow> string \<Rightarrow> string \<Rightarrow> string \<Rightarrow> gotime \<Rightarrow> 's \<Rightarrow> unit result \<times> 's"
    and store_tag :: string and none_pending :: go_error and not_owner :: go_error
  assumes claim_error: "claim_op env l w d s = (Inl e, s') \<Longrightarrow> s' = s"
    and claim_ok: "claim_op env l w d s = (Inr r, s') \<Longrightarrow>
      claim_outbox_rows store_tag env l w d none_pending (rows_of s) = Inr (r, rows_of s')"
    and published_error: "published_op env ev w s = (Inl e, s') \<Longrightarrow> s' = s"
    and published_ok: "published_op env ev w s = (Inr u, s') \<Longrightarrow>
      update_owned ev w (publish_row (db_now env)) not_owner (rows_of s) = Inr (rows_of s')"
    and failed_error: "failed_op env ev w m t s = (Inl e, s') \<Longrightarrow> s' = s"
    and failed_ok: "failed_op env ev w m t s = (Inr u, s') \<Longrightarrow>
      update_owned ev w (fail_row (pg_ts env t) (trim_space m)) not_owner (rows_of s) = Inr (rows_of s')"
begin

lemma claim_reach: "claim_op env l w d s = (r, s') \<Longrightarrow> outbox_reach (rows_of s) (rows_of s')"
  by (cases r) (auto dest: claim_error claim_ok intro: outbox_reach.intros outbox_step.intros)

lemma published_reach: "published_op env ev w s = (r, s') \<Longrightarrow> outbox_reach (rows_of s) (rows_of s')"
  by (cases r) (auto dest: published_error published_ok intro: outbox_reach.intros outbox_step.intros)

lemma failed_reach: "failed_op env ev w m t s = (r, s') \<Longrightarrow> outbox_reach (rows_of s) (rows_of s')"
  by (cases r) (auto dest: failed_error failed_ok intro: outbox_reach.intros outbox_step.intros)

text \<open>A claimed row is in the table after the claim, owned by the worker and pending.\<close>

lemma claimed_row_owned:
  assumes "claim_op env l w d s = (Inr r, s')"
  shows "r \<in> set (rows_of s') \<and> owned_pending (ob_event_id r) w r"
proof -
  obtain q where q: "select_claimable (db_now env) (clock env 0 - d) l (rows_of s) = Some q"
    and r: "r = claim_row (db_now env) w q"
    and s': "rows_of s' = update_row (ob_event_id q) (claim_row (db_now env) w) (rows_of s)"
    using claim_ok [OF assms] by (auto simp: claim_outbox_rows_Inr)
  from select_claimable_Some(1,2) [OF q] show ?thesis
    unfolding r s' by (auto simp: update_row_def owned_pending_def claim_row_def claimable_def)
qed

lemma published_only_pending:
  assumes "published_op env ev w s = (Inr u, s')" and "q \<in> set (rows_of s')" and "ob_published_at q \<noteq> None"
  shows "q \<in> set (rows_of s) \<or> (ob_event_id q = ev \<and> (\<exists>r \<in> set (rows_of s). owned_pending ev w r \<and> ob_body q = ob_body r))"
proof -
  have "q \<in> (\<lambda>r. if owned_pending ev w r then publish_row (db_now env) r else r) ` set (rows_of s)"
    using published_ok [OF assms(1)] assms(2) by (auto simp: update_owned_Inr)
  then obtain r where "r \<in> set (rows_of s)" "q = (if owned_pending ev w r then publish_row (db_now env) r else r)" by blast
  then show ?thesis by (cases "owned_pending ev w r") (auto simp: publish_row_def owned_pending_def)
qed

lemma failed_publishes_nothing:
  assumes "failed_op env ev w m t s = (r, s')" and "q \<in> set (rows_of s')" and "ob_published_at q \<noteq> None"
  shows "q \<in> set (rows_of s)"
proof (cases r)
  case (Inl e)
  then show ?thesis using assms failed_error by blast
next
  case (Inr u)
  then have "q \<in> (\<lambda>r. if owned_pending ev w r then fail_row (pg_ts env t) (trim_space m) r else r) ` set (rows_of s)"
    using failed_ok assms(1,2) by (auto simp: update_owned_Inr)
  then show ?thesis using assms(3) by (auto simp: fail_row_def owned_pending_def split: if_splits)
qed

lemma claim_publishes_nothing:
  assumes "claim_op env l w d s = (r, s')" and "q \<in> set (rows_of s')" and "ob_published_at q \<noteq> None"
  shows "\<exists>q0 \<in> set (rows_of s). ob_event_id q0 = ob_event_id q \<and> ob_body q0 = ob_body q \<and> ob_published_at q0 \<noteq> None"
  using assms
  by (cases r) (fastforce dest!: claim_error claim_ok simp: claim_outbox_rows_Inr update_row_def claim_row_def split: if_splits)+

end

section \<open>Leases\<close>

text \<open>
  C26. The claim is fair and exclusive: it hands out a claimable row that comes first in
  (created_at, event_id) order, records the worker and the time, and while the lease of another
  worker runs (its claim is not older than the cut-off) or a row is published or not yet
  available, that row is never handed out.
\<close>

theorem claim_outbox_rows_exclusive:
  assumes "claim_outbox_rows tag env locked w lease none_pending rows = Inr (r', rows')"
  shows "\<exists>r \<in> set rows. r' = claim_row (db_now env) w r \<and> ob_published_at r = None \<and> ob_available_at r \<le> db_now env \<and>
     \<not> locked (ob_event_id r) \<and>
     (\<forall>t. ob_claimed_at r = Some t \<longrightarrow> t + lease < clock env 0) \<and>
     (\<forall>q \<in> set rows. claimable (db_now env) (clock env 0 - lease) locked q \<longrightarrow> claim_key r \<le> claim_key q)"
proof -
  obtain r where sel: "select_claimable (db_now env) (clock env 0 - lease) locked rows = Some r"
    and r': "r' = claim_row (db_now env) w r"
    using assms by (auto simp: claim_outbox_rows_Inr)
  show ?thesis
    using select_claimable_Some [OF sel] r' by (intro bexI [of _ r]) (auto simp: claimable_def)
qed

definition sample_row :: "nat outbox_row" where
  "sample_row = \<lparr>ob_event_id = ''e1'', ob_body = 0, ob_created_at = 1, ob_published_at = None, ob_available_at = 1,
     ob_attempts = 1, ob_claimed_at = Some 2, ob_claimed_by = Some ''w0'', ob_last_error = None\<rparr>"

lemma sample_row_claim:
  "claim_outbox_rows ''outbox'' (calm_env 100 ''u'') (\<lambda>_. False) ''w1'' 60 ErrNoPendingOutbox [sample_row]
     = Inr (claim_row 100 ''w1'' sample_row, [claim_row 100 ''w1'' sample_row])"
  by (simp add: claim_outbox_rows_def select_claimable_def claimable_def sample_row_def update_row_def)

theorem claim_outbox_rows_exclusive_witness:
  "\<exists>r \<in> set [sample_row]. ob_published_at r = None \<and> (\<forall>t. ob_claimed_at r = Some t \<longrightarrow> t + 60 < 100)"
  using claim_outbox_rows_exclusive [OF sample_row_claim] by auto

section \<open>Backoff\<close>

lemma backoff_clamped: "backoff a m = min m (second * 2 ^ nat (max 1 (min 30 a) - 1))"
proof -
  define n where "n = nat (max 1 (min 30 a) - 1)"
  have n: "n \<le> 29" by (simp add: n_def)
  have p: "(2::int) ^ n \<le> 2 ^ 29" using power_increasing [OF n, of "2::int"] by simp
  have w: "wrap64 (2 ^ n) = 2 ^ n" using p by (intro wrap64_id) (auto simp: min_int64_def max_int64_def intro: order_trans [of _ 0])
  have "wrap64 (second * 2 ^ n) = second * 2 ^ n"
    using p by (intro wrap64_id) (auto simp: min_int64_def max_int64_def second_def intro: order_trans [of _ 0])
  moreover have "(if 30 < (if a < 1 then 1 else a) then 30 else (if a < 1 then 1 else a)) = max 1 (min 30 a)" by auto
  ultimately show ?thesis using w unfolding backoff_def Let_def by (simp add: n_def min_def)
qed

text \<open>
  The retry delay never overflows: for every attempt count, however large or negative, it is
  the smaller of the configured maximum and one second doubled at most 29 times; it is at least
  one nanosecond, and more attempts never shorten it.
\<close>

theorem backoff_bounds:
  assumes "0 < max_delay"
  shows "backoff a max_delay = min max_delay (second * 2 ^ nat (max 1 (min 30 a) - 1)) \<and>
    0 < backoff a max_delay \<and> backoff a max_delay \<le> max_delay \<and>
    (\<forall>b \<ge> a. backoff a max_delay \<le> backoff b max_delay)"
proof -
  have mono: "second * 2 ^ nat (max 1 (min 30 a) - 1) \<le> second * 2 ^ nat (max 1 (min 30 b) - 1)" if "a \<le> b" for b
    using that by (intro mult_left_mono power_increasing nat_mono) (auto simp: second_def)
  have "0 < second * 2 ^ nat (max 1 (min 30 a) - 1)" by (simp add: second_def)
  moreover have "min max_delay (second * 2 ^ nat (max 1 (min 30 a) - 1)) \<le> min max_delay (second * 2 ^ nat (max 1 (min 30 b) - 1))"
    if "a \<le> b" for b using mono [OF that] by (intro min.mono) auto
  ultimately show ?thesis unfolding backoff_clamped using assms by simp
qed

theorem backoff_bounds_witness:
  "0 < 5 * minute \<and> 0 < backoff 7 (5 * minute) \<and> backoff 7 (5 * minute) = 64 * second \<and> backoff 7 (5 * minute) \<le> backoff 40 (5 * minute)"
  using backoff_bounds [of "5 * minute" 7] by (auto simp: duration_defs)

end
