(* ===== verification/Incident.thy ===== *)
theory Incident
  imports Outbox Float64
begin

text \<open>
  The incident store: \<open>internal/incident/model.go\<close> (requests, validation, the lifecycle),
  \<open>internal/incident/store.go\<close> (create, get, transition, correlate, assign) and
  \<open>internal/incident/outbox.go\<close>. The tables of migrations 0001 to 0003 are lists of rows
  with their constraints; operations take the database environment and the tables and return
  their result with the new tables. Go ranges over a map when it validates the text fields, in
  an unspecified order; the model checks them in the order they are written, which only
  selects which field name the message has.
\<close>

section \<open>Data\<close>

type_synonym severity = string
type_synonym status = string

definition SeverityLow :: severity where "SeverityLow = ''LOW''"
definition SeverityMedium :: severity where "SeverityMedium = ''MEDIUM''"
definition SeverityHigh :: severity where "SeverityHigh = ''HIGH''"
definition SeverityCritical :: severity where "SeverityCritical = ''CRITICAL''"
definition StatusOpen :: status where "StatusOpen = ''OPEN''"
definition StatusAcknowledged :: status where "StatusAcknowledged = ''ACKNOWLEDGED''"
definition StatusInvestigating :: status where "StatusInvestigating = ''INVESTIGATING''"
definition StatusResolved :: status where "StatusResolved = ''RESOLVED''"
definition StatusClosed :: status where "StatusClosed = ''CLOSED''"

lemmas severity_defs = SeverityLow_def SeverityMedium_def SeverityHigh_def SeverityCritical_def
lemmas status_defs = StatusOpen_def StatusAcknowledged_def StatusInvestigating_def StatusResolved_def StatusClosed_def

definition incidentIDPattern :: "string \<Rightarrow> bool" where
  "incidentIDPattern s = matches_ident 127 s"

record create_request =
  cr_incident_id :: string
  cr_source_event_id :: string
  cr_category :: string
  cr_severity :: severity
  cr_title :: string
  cr_description :: string
  cr_occurred_at :: gotime
  cr_created_by :: string

record incident = create_request +
  inc_status :: status
  inc_created_at :: gotime
  inc_updated_at :: gotime
  inc_version :: int

record correlation_request =
  co_geofence_id :: string
  co_relation :: string
  co_latitude :: f64
  co_longitude :: f64
  co_evidence_sha256 :: string
  co_correlated_by :: string

record spatial_correlation = correlation_request +
  sc_correlation_id :: string
  sc_incident_id :: string
  sc_created_at :: gotime

record assignment_request =
  as_expected_version :: int
  as_analyst_id :: string
  as_assigned_by :: string

record analyst_assignment =
  aa_incident_id :: string
  aa_analyst_id :: string
  aa_assigned_by :: string
  aa_assigned_at :: gotime
  aa_incident_version :: int

section \<open>Validation\<close>

definition canonical_text :: "nat \<Rightarrow> string \<Rightarrow> bool" where
  "canonical_text n v = (v \<noteq> [] \<and> trim_space v = v \<and> length v \<le> n)"

definition text_check :: "nat \<Rightarrow> string \<Rightarrow> string \<times> string \<Rightarrow> validation" where
  "text_check n suffix f = check (\<not> canonical_text n (snd f)) (fst f @ suffix)"

definition isFiniteCoordinate :: "f64 \<Rightarrow> f64 \<Rightarrow> bool" where
  "isFiniteCoordinate latitude longitude =
     (\<not> is_nan latitude \<and> \<not> is_inf latitude \<and> f_le (Fin (- 90)) latitude \<and> f_le latitude (Fin 90) \<and>
      \<not> is_nan longitude \<and> \<not> is_inf longitude \<and> f_le (Fin (- 180)) longitude \<and> f_le longitude (Fin 180))"

definition CorrelationRequest_Validate :: "correlation_request \<Rightarrow> validation" where
  "CorrelationRequest_Validate r =
     first_error
       (map (text_check 256 '' must be canonical non-empty text of at most 256 characters'')
          [(''geofence_id'', co_geofence_id r), (''relation'', co_relation r),
           (''evidence_sha256'', co_evidence_sha256 r), (''correlated_by'', co_correlated_by r)] @
        [check (co_relation r \<noteq> ''INSIDE'' \<and> co_relation r \<noteq> ''OUTSIDE'' \<and> co_relation r \<noteq> ''BOUNDARY'')
           ''relation is not supported'',
         check (take 7 (co_evidence_sha256 r) \<noteq> ''sha256:'' \<or> length (co_evidence_sha256 r) \<noteq> 71)
           ''evidence_sha256 must be sha256: followed by 64 hexadecimal characters'',
         check (\<not> list_all is_lower_hex (drop 7 (co_evidence_sha256 r)))
           ''evidence_sha256 must use lowercase hexadecimal'',
         check (\<not> isFiniteCoordinate (co_latitude r) (co_longitude r))
           ''coordinates must be finite latitude/longitude values''])"

definition analyst_check :: "string \<times> string \<Rightarrow> validation" where
  "analyst_check f =
     check (\<not> canonical_text 256 (snd f) \<or> \<not> incidentIDPattern (snd f))
       (fst f @ '' must be a canonical analyst identifier'')"

definition AssignmentRequest_Validate :: "assignment_request \<Rightarrow> validation" where
  "AssignmentRequest_Validate r =
     first_error
       [check (as_expected_version r < 1) ''expected_version must be positive'',
        analyst_check (''analyst_id'', as_analyst_id r),
        analyst_check (''assigned_by'', as_assigned_by r),
        check (as_analyst_id r = as_assigned_by r) ''analyst and assigning principal must be distinct'']"

definition valid_severity :: "severity \<Rightarrow> bool" where
  "valid_severity s = (s = SeverityLow \<or> s = SeverityMedium \<or> s = SeverityHigh \<or> s = SeverityCritical)"

definition CreateRequest_Validate :: "create_request \<Rightarrow> validation" where
  "CreateRequest_Validate r =
     first_error
       (map (text_check 4096 '' must be canonical non-empty text of at most 4096 characters'')
          [(''incident_id'', cr_incident_id r), (''source_event_id'', cr_source_event_id r),
           (''category'', cr_category r), (''title'', cr_title r),
           (''description'', cr_description r), (''created_by'', cr_created_by r)] @
        [check (\<not> incidentIDPattern (cr_incident_id r) \<or> \<not> incidentIDPattern (cr_source_event_id r))
           ''incident_id and source_event_id contain unsupported characters'',
         check (\<not> valid_severity (cr_severity r)) ''severity is not supported'',
         check (cr_occurred_at r = 0) ''occurred_at must be RFC3339''])"

definition Matches :: "incident \<Rightarrow> create_request \<Rightarrow> bool" where
  "Matches i r =
     (cr_incident_id i = cr_incident_id r \<and> cr_source_event_id i = cr_source_event_id r \<and>
      cr_category i = cr_category r \<and> cr_severity i = cr_severity r \<and>
      cr_title i = cr_title r \<and> cr_description i = cr_description r \<and>
      cr_occurred_at i = cr_occurred_at r \<and> cr_created_by i = cr_created_by r)"

definition ValidTransition :: "status \<Rightarrow> status \<Rightarrow> bool" where
  "ValidTransition current_st next_st =
     (if current_st = StatusOpen then next_st = StatusAcknowledged \<or> next_st = StatusResolved
      else if current_st = StatusAcknowledged then next_st = StatusInvestigating \<or> next_st = StatusResolved
      else if current_st = StatusInvestigating then next_st = StatusResolved
      else if current_st = StatusResolved then next_st = StatusClosed
      else False)"

section \<open>Tables\<close>

text \<open>
  The payload column of an outbox row is JSON; the row keeps the value that was encoded.
\<close>

datatype incident_payload =
    IncidentPayload incident
  | CorrelationPayload spatial_correlation
  | AssignmentPayload analyst_assignment

record incident_event =
  ie_incident_id :: string
  ie_event_type :: string
  ie_payload :: incident_payload

record incident_db =
  incidents :: "incident list"
  correlations :: "spatial_correlation list"
  assignments :: "analyst_assignment list"
  incident_outbox :: "incident_event outbox_row list"

definition find_incident :: "string \<Rightarrow> 'a incident_db_scheme \<Rightarrow> incident option" where
  "find_incident key db = find (\<lambda>i. cr_incident_id i = key) (incidents db)"

text \<open>INSERT INTO maritime_incident_outbox, with its foreign key and its unique event id.\<close>

definition incident_outbox_insert ::
  "db_env \<Rightarrow> string \<Rightarrow> string \<Rightarrow> string \<Rightarrow> incident_payload \<Rightarrow> gotime \<Rightarrow> 'a incident_db_scheme \<Rightarrow> 'a incident_db_scheme result" where
  "incident_outbox_insert env ev key event_type payload created db =
     require (find_incident key db \<noteq> None) (EDb ''violates foreign key constraint'')
       (rbind (outbox_insert env ev \<lparr>ie_incident_id = key, ie_event_type = event_type, ie_payload = payload\<rparr>
                 created (incident_outbox db))
          (\<lambda>rows. Inr (db\<lparr>incident_outbox := rows\<rparr>)))"

section \<open>Operations\<close>

definition new_incident :: "db_env \<Rightarrow> gotime \<Rightarrow> create_request \<Rightarrow> incident" where
  "new_incident env createdAt r =
     \<lparr>cr_incident_id = cr_incident_id r, cr_source_event_id = cr_source_event_id r,
      cr_category = cr_category r, cr_severity = cr_severity r, cr_title = cr_title r,
      cr_description = cr_description r, cr_occurred_at = pg_ts env (cr_occurred_at r),
      cr_created_by = cr_created_by r, inc_status = StatusOpen,
      inc_created_at = pg_ts env createdAt, inc_updated_at = pg_ts env createdAt, inc_version = 1\<rparr>"

definition createIncidentInTransaction ::
  "db_env \<Rightarrow> create_request \<Rightarrow> 'a incident_db_scheme \<Rightarrow> (incident \<times> 'a incident_db_scheme) result" where
  "createIncidentInTransaction env r db =
     (let createdAt = clock env 0; retained = new_incident env createdAt r in
      db_call env 1 ''insert incident''
       (require (valid_severity (cr_severity r)) (EDb ''insert incident: violates check constraint'')
        (case find (\<lambda>i. cr_source_event_id i = cr_source_event_id r) (incidents db) of
           Some existing \<Rightarrow>
             db_call env 2 ''lookup source event''
               (require (Matches existing r) ErrIdempotencyConflict (Inr (existing, db)))
         | None \<Rightarrow>
             require (find_incident (cr_incident_id r) db = None) (EDb ''insert incident: duplicate key'')
               (db_call env 3 ''write incident event''
                 (rbind (incident_outbox_insert env (new_uuid env 0) (cr_incident_id retained) ''incident.created''
                           (IncidentPayload retained) createdAt (db\<lparr>incidents := incidents db @ [retained]\<rparr>))
                    (\<lambda>db'. Inr (retained, db')))))))"

definition Create ::
  "db_env \<Rightarrow> create_request \<Rightarrow> 'a incident_db_scheme \<Rightarrow> incident result \<times> 'a incident_db_scheme" where
  "Create env r db =
     run_tx db
       (validated (CreateRequest_Validate r)
         (db_call env 0 ''begin create''
           (rbind (createIncidentInTransaction env r db)
              (\<lambda>(i, db'). db_call env 4 ''commit incident'' (Inr (i, db'))))))"

definition Get :: "db_env \<Rightarrow> nat \<Rightarrow> string \<Rightarrow> 'a incident_db_scheme \<Rightarrow> incident result" where
  "Get env n key db =
     db_call env n ''get incident''
       (case find_incident key db of None \<Rightarrow> Inl ErrNotFound | Some i \<Rightarrow> Inr i)"

text \<open>
  A transition reads the incident on its own connection first and updates it in a transaction
  later. The two may see different tables: \<open>db_read\<close> is what the read sees, \<open>db\<close> what
  the guarded UPDATE sees.
\<close>

definition update_incident ::
  "(incident \<Rightarrow> bool) \<Rightarrow> (incident \<Rightarrow> incident) \<Rightarrow> 'a incident_db_scheme \<Rightarrow> 'a incident_db_scheme" where
  "update_incident P f db = db\<lparr>incidents := map (\<lambda>i. if P i then f i else i) (incidents db)\<rparr>"

definition bump :: "gotime \<Rightarrow> status \<Rightarrow> incident \<Rightarrow> incident" where
  "bump t st i = i\<lparr>inc_status := st, inc_updated_at := t, inc_version := inc_version i + 1\<rparr>"

definition Transition ::
  "db_env \<Rightarrow> 'a incident_db_scheme \<Rightarrow> string \<Rightarrow> int \<Rightarrow> status \<Rightarrow> 'a incident_db_scheme \<Rightarrow>
   incident result \<times> 'a incident_db_scheme" where
  "Transition env db_read key expectedVersion next_st db =
     run_tx db
      (rbind (Get env 0 key db_read)
       (\<lambda>cur.
         require (inc_version cur = expectedVersion) ErrOptimisticConflict
          (require (ValidTransition (inc_status cur) next_st) ErrInvalidTransition
            (db_call env 1 ''begin transition''
              (let updatedAt = clock env 0;
                   P = (\<lambda>i. cr_incident_id i = key \<and> inc_status i = inc_status cur \<and> inc_version i = expectedVersion) in
               db_call env 2 ''transition incident''
                (case find P (incidents db) of
                   None \<Rightarrow> Inl ErrOptimisticConflict
                 | Some i \<Rightarrow>
                     let updated = bump (pg_ts env updatedAt) next_st i in
                     db_call env 3 ''write status event''
                      (rbind (incident_outbox_insert env (new_uuid env 0) (cr_incident_id updated) ''incident.status_changed''
                                (IncidentPayload updated) updatedAt
                                (update_incident P (bump (pg_ts env updatedAt) next_st) db))
                         (\<lambda>db'. db_call env 4 ''commit transition'' (Inr (updated, db'))))))))))"

definition new_correlation :: "db_env \<Rightarrow> string \<Rightarrow> correlation_request \<Rightarrow> spatial_correlation" where
  "new_correlation env key r =
     \<lparr>co_geofence_id = co_geofence_id r, co_relation = co_relation r, co_latitude = co_latitude r,
      co_longitude = co_longitude r, co_evidence_sha256 = co_evidence_sha256 r,
      co_correlated_by = co_correlated_by r, sc_correlation_id = new_uuid env 0,
      sc_incident_id = key, sc_created_at = pg_ts env (clock env 0)\<rparr>"

definition same_correlation :: "spatial_correlation \<Rightarrow> correlation_request \<Rightarrow> bool" where
  "same_correlation c r =
     (co_relation c = co_relation r \<and> f_eq (co_latitude c) (co_latitude r) \<and>
      f_eq (co_longitude c) (co_longitude r) \<and> co_evidence_sha256 c = co_evidence_sha256 r \<and>
      co_correlated_by c = co_correlated_by r)"

definition Correlate ::
  "db_env \<Rightarrow> string \<Rightarrow> correlation_request \<Rightarrow> 'a incident_db_scheme \<Rightarrow>
   spatial_correlation result \<times> 'a incident_db_scheme" where
  "Correlate env key r db =
     run_tx db
      (require (incidentIDPattern key) ErrNotFound
       (validated (CorrelationRequest_Validate r)
        (db_call env 0 ''begin correlation''
         (db_call env 1 ''insert correlation''
          (case find (\<lambda>c. sc_incident_id c = key \<and> co_geofence_id c = co_geofence_id r) (correlations db) of
             Some c \<Rightarrow>
               db_call env 2 ''lookup correlation''
                (require (same_correlation c r) ErrCorrelationConflict
                  (db_call env 3 ''commit correlation replay'' (Inr (c, db))))
           | None \<Rightarrow>
               (let retained = new_correlation env key r in
                require (sc_correlation_id retained \<notin> set (map sc_correlation_id (correlations db)))
                  (EDb ''insert correlation: duplicate key'')
                 (require (find_incident key db \<noteq> None) (EDb ''insert correlation: violates foreign key constraint'')
                  (db_call env 4 ''write correlation event''
                   (rbind (incident_outbox_insert env (new_uuid env 1) key ''incident.spatial_correlated''
                             (CorrelationPayload retained) (clock env 0)
                             (db\<lparr>correlations := correlations db @ [retained]\<rparr>))
                      (\<lambda>db'. db_call env 5 ''commit correlation'' (Inr (retained, db'))))))))))))"

text \<open>INSERT ... ON CONFLICT (incident_id) DO UPDATE on the assignments table.\<close>

definition upsert_assignment :: "analyst_assignment \<Rightarrow> analyst_assignment list \<Rightarrow> analyst_assignment list" where
  "upsert_assignment a rows =
     (if aa_incident_id a \<in> set (map aa_incident_id rows)
      then map (\<lambda>b. if aa_incident_id b = aa_incident_id a then a else b) rows
      else rows @ [a])"

definition Assign ::
  "db_env \<Rightarrow> string \<Rightarrow> assignment_request \<Rightarrow> 'a incident_db_scheme \<Rightarrow>
   analyst_assignment result \<times> 'a incident_db_scheme" where
  "Assign env key r db =
     run_tx db
      (require (incidentIDPattern key) ErrNotFound
       (validated (AssignmentRequest_Validate r)
        (db_call env 0 ''begin assignment''
         (let assignedAt = clock env 0;
              P = (\<lambda>i. cr_incident_id i = key \<and> inc_version i = as_expected_version r \<and> inc_status i \<noteq> StatusClosed) in
          db_call env 1 ''update assignment version''
           (case find P (incidents db) of
              None \<Rightarrow>
                (case Get env 2 key db of
                   Inl e \<Rightarrow> Inl (if e = ErrNotFound then ErrNotFound else ErrOptimisticConflict)
                 | Inr cur \<Rightarrow>
                     Inl (if inc_version cur \<noteq> as_expected_version r then ErrOptimisticConflict else ErrInvalidTransition))
            | Some i \<Rightarrow>
                (let a = \<lparr>aa_incident_id = key, aa_analyst_id = as_analyst_id r, aa_assigned_by = as_assigned_by r,
                          aa_assigned_at = assignedAt, aa_incident_version = inc_version i + 1\<rparr>;
                     db1 = update_incident P (\<lambda>i. bump (pg_ts env assignedAt) (inc_status i) i) db in
                 db_call env 3 ''persist assignment''
                  (db_call env 4 ''write assignment event''
                   (rbind (incident_outbox_insert env (new_uuid env 0) key ''incident.assigned'' (AssignmentPayload a) assignedAt
                             (db1\<lparr>assignments := upsert_assignment (a\<lparr>aa_assigned_at := pg_ts env assignedAt\<rparr>) (assignments db1)\<rparr>))
                      (\<lambda>db'. db_call env 5 ''commit assignment'' (Inr (a, db')))))))))))"

section \<open>The outbox of the incident store\<close>

definition worker_error :: go_error where
  "worker_error = EMsg ''worker_id must be canonical non-empty text''"

definition lease_error :: go_error where
  "lease_error = EMsg ''lease must be between one nanosecond and 24 hours''"

definition failure_error :: go_error where
  "failure_error = EMsg ''failure must be non-empty and at most 2048 characters''"

definition failure_ok :: "string \<Rightarrow> bool" where
  "failure_ok m = (trim_space m \<noteq> [] \<and> length (trim_space m) \<le> 2048)"

definition ClaimOutbox ::
  "db_env \<Rightarrow> (string \<Rightarrow> bool) \<Rightarrow> string \<Rightarrow> duration \<Rightarrow> 'a incident_db_scheme \<Rightarrow>
   incident_event outbox_row result \<times> 'a incident_db_scheme" where
  "ClaimOutbox env locked workerID lease db =
     run_tx db
      (require (worker_canonical workerID) worker_error
       (require (lease_ok lease) lease_error
        (rbind (claim_outbox_rows ''outbox'' env locked workerID lease ErrNoPendingOutbox (incident_outbox db))
           (\<lambda>(r, rows). Inr (r, db\<lparr>incident_outbox := rows\<rparr>)))))"

definition MarkOutboxPublished ::
  "db_env \<Rightarrow> string \<Rightarrow> string \<Rightarrow> 'a incident_db_scheme \<Rightarrow> unit result \<times> 'a incident_db_scheme" where
  "MarkOutboxPublished env eventID workerID db =
     run_tx db
      (require (worker_canonical workerID) worker_error
       (db_call env 0 ''mark outbox published''
        (rbind (update_owned eventID workerID (publish_row (db_now env)) ErrOutboxOwnership (incident_outbox db))
           (\<lambda>rows. Inr ((), db\<lparr>incident_outbox := rows\<rparr>)))))"

definition MarkOutboxFailed ::
  "db_env \<Rightarrow> string \<Rightarrow> string \<Rightarrow> string \<Rightarrow> gotime \<Rightarrow> 'a incident_db_scheme \<Rightarrow> unit result \<times> 'a incident_db_scheme" where
  "MarkOutboxFailed env eventID workerID failure retryAt db =
     run_tx db
      (require (worker_canonical workerID) worker_error
       (require (failure_ok failure) failure_error
        (db_call env 0 ''mark outbox failed''
         (rbind (update_owned eventID workerID (fail_row (pg_ts env retryAt) (trim_space failure)) ErrOutboxOwnership (incident_outbox db))
            (\<lambda>rows. Inr ((), db\<lparr>incident_outbox := rows\<rparr>))))))"

section \<open>What an operation commits\<close>

definition lifecycle_events :: "string list" where
  "lifecycle_events = [''incident.created'', ''incident.status_changed'', ''incident.assigned'']"

definition event_count :: "string \<Rightarrow> string list \<Rightarrow> 'a incident_db_scheme \<Rightarrow> nat" where
  "event_count key types db =
     length (filter (\<lambda>b. ie_incident_id b = key \<and> ie_event_type b \<in> set types) (map ob_body (incident_outbox db)))"

inductive incident_step :: "'a incident_db_scheme \<Rightarrow> 'a incident_db_scheme \<Rightarrow> bool" where
  create: "CreateRequest_Validate r = None \<Longrightarrow> createIncidentInTransaction env r db = Inr (i, db') \<Longrightarrow> incident_step db db'"
| transition: "Transition env db_read key v st db = (Inr i, db') \<Longrightarrow> incident_step db db'"
| correlate: "Correlate env key cr db = (Inr c, db') \<Longrightarrow> incident_step db db'"
| assign: "Assign env key ar db = (Inr a, db') \<Longrightarrow> incident_step db db'"
| claim: "ClaimOutbox env locked w lease db = (Inr row, db') \<Longrightarrow> incident_step db db'"
| published: "MarkOutboxPublished env ev w db = (Inr u, db') \<Longrightarrow> incident_step db db'"
| failed: "MarkOutboxFailed env ev w m t db = (Inr u, db') \<Longrightarrow> incident_step db db'"

inductive incident_reach :: "'a incident_db_scheme \<Rightarrow> 'a incident_db_scheme \<Rightarrow> bool" where
  refl: "incident_reach db db"
| step: "incident_reach db db' \<Longrightarrow> incident_step db' db'' \<Longrightarrow> incident_reach db db''"

lemma incident_outbox_insert_Inr:
  "incident_outbox_insert env ev key ty p t db = Inr db' \<longleftrightarrow>
     find_incident key db \<noteq> None \<and> ev \<notin> set (map ob_event_id (incident_outbox db)) \<and>
     db' = db\<lparr>incident_outbox := incident_outbox db @
       [new_outbox_row env ev \<lparr>ie_incident_id = key, ie_event_type = ty, ie_payload = p\<rparr> t]\<rparr>"
  by (auto simp: incident_outbox_insert_def)

lemma new_incident_simps [simp]:
  "cr_incident_id (new_incident env t r) = cr_incident_id r"
  "cr_source_event_id (new_incident env t r) = cr_source_event_id r"
  "cr_severity (new_incident env t r) = cr_severity r"
  "inc_status (new_incident env t r) = StatusOpen" "inc_version (new_incident env t r) = 1"
  by (simp_all add: new_incident_def)

lemma bump_simps [simp]:
  "cr_incident_id (bump t st i) = cr_incident_id i" "cr_source_event_id (bump t st i) = cr_source_event_id i"
  "cr_severity (bump t st i) = cr_severity i" "inc_status (bump t st i) = st"
  "inc_version (bump t st i) = inc_version i + 1"
  by (simp_all add: bump_def)

lemma createIncident_Inr:
  assumes "createIncidentInTransaction env r db = Inr (i, db')"
  obtains (replayed) "i \<in> set (incidents db)" "Matches i r" "db' = db"
  | (inserted) "i = new_incident env (clock env 0) r" "valid_severity (cr_severity r)"
      "cr_source_event_id r \<notin> cr_source_event_id ` set (incidents db)"
      "cr_incident_id r \<notin> cr_incident_id ` set (incidents db)"
      "new_uuid env 0 \<notin> set (map ob_event_id (incident_outbox db))"
      "db' = db\<lparr>incidents := incidents db @ [i], incident_outbox := incident_outbox db @
         [new_outbox_row env (new_uuid env 0) \<lparr>ie_incident_id = cr_incident_id r,
            ie_event_type = ''incident.created'', ie_payload = IncidentPayload i\<rparr> (clock env 0)]\<rparr>"
proof (cases "find (\<lambda>i. cr_source_event_id i = cr_source_event_id r) (incidents db)")
  case None
  have fresh: "cr_source_event_id r \<notin> cr_source_event_id ` set (incidents db)"
    using None by (auto simp: find_None_all)
  from None assms have "find_incident (cr_incident_id r) db = None"
    by (simp add: createIncidentInTransaction_def Let_def)
  then have "cr_incident_id r \<notin> cr_incident_id ` set (incidents db)"
    by (auto simp: find_incident_def find_None_all)
  then show thesis using assms None fresh inserted
    by (auto simp: createIncidentInTransaction_def Let_def incident_outbox_insert_Inr)
next
  case (Some e)
  show thesis
    by (rule replayed) (use assms Some find_SomeD [OF Some] in \<open>auto simp: createIncidentInTransaction_def Let_def\<close>)
qed

text \<open>The shape of the two versioned updates.\<close>

definition map_incident :: "incident \<Rightarrow> (incident \<Rightarrow> incident) \<Rightarrow> incident list \<Rightarrow> incident list" where
  "map_incident i f is = map (\<lambda>j. if j = i then f j else j) is"

definition bumped :: "db_env \<Rightarrow> incident \<Rightarrow> status \<Rightarrow> incident_event \<Rightarrow> analyst_assignment list \<Rightarrow>
    'a incident_db_scheme \<Rightarrow> 'a incident_db_scheme \<Rightarrow> bool" where
  "bumped env i st body asg db db' =
     (i \<in> set (incidents db) \<and> new_uuid env 0 \<notin> set (map ob_event_id (incident_outbox db)) \<and>
      ie_incident_id body = cr_incident_id i \<and>
      db' = db\<lparr>incidents := map_incident i (bump (pg_ts env (clock env 0)) st) (incidents db),
               assignments := asg,
               incident_outbox := incident_outbox db @ [new_outbox_row env (new_uuid env 0) body (clock env 0)]\<rparr>)"

lemma update_incident_unique:
  assumes "distinct (map cr_incident_id (incidents db))" and "find P (incidents db) = Some i"
    and "\<And>j. P j \<Longrightarrow> cr_incident_id j = key"
  shows "update_incident P f db = db\<lparr>incidents := map_incident i f (incidents db)\<rparr>"
proof -
  have "map (\<lambda>j. if P j then f j else j) (incidents db) = map (\<lambda>j. if j = i then f j else j) (incidents db)"
  proof (rule map_cong [OF HOL.refl])
    fix j assume j: "j \<in> set (incidents db)"
    have "P j \<longleftrightarrow> j = i"
      using find_SomeD [OF assms(2)] assms(3) distinct_key_eq [OF assms(1) j, of i] by metis
    then show "(if P j then f j else j) = (if j = i then f j else j)" by simp
  qed
  then show ?thesis by (simp only: update_incident_def map_incident_def)
qed

lemma Transition_Inr:
  assumes "Transition env db_read key v st db = (Inr u, db')" and "distinct (map cr_incident_id (incidents db))"
  obtains i where "cr_incident_id i = key" "inc_version i = v" "ValidTransition (inc_status i) st"
    "u = bump (pg_ts env (clock env 0)) st i"
    "bumped env i st \<lparr>ie_incident_id = key, ie_event_type = ''incident.status_changed'', ie_payload = IncidentPayload u\<rparr>
       (assignments db) db db'"
proof -
  obtain c where c: "find_incident key db_read = Some c" "inc_version c = v" "ValidTransition (inc_status c) st"
    using assms(1) by (auto simp: Transition_def run_tx_Inr_iff Get_def split: option.splits)
  let ?P = "\<lambda>i. cr_incident_id i = key \<and> inc_status i = inc_status c \<and> inc_version i = v"
  obtain i where i: "find ?P (incidents db) = Some i"
    using assms(1) c by (cases "find ?P (incidents db)") (auto simp: Transition_def run_tx_Inr_iff Get_def Let_def)
  have upd: "update_incident ?P f db = db\<lparr>incidents := map_incident i f (incidents db)\<rparr>" for f
    by (rule update_incident_unique [OF assms(2) i, of key]) simp
  show thesis
    using that [of i] find_SomeD [OF i] assms(1) c i
    by (auto simp: Transition_def run_tx_Inr_iff Get_def Let_def upd bumped_def incident_outbox_insert_Inr)
qed

lemma Assign_Inr:
  assumes "Assign env key r db = (Inr a, db')" and "distinct (map cr_incident_id (incidents db))"
  obtains i where "cr_incident_id i = key" "inc_version i = as_expected_version r" "inc_status i \<noteq> StatusClosed"
    "AssignmentRequest_Validate r = None" 
    "a = \<lparr>aa_incident_id = key, aa_analyst_id = as_analyst_id r, aa_assigned_by = as_assigned_by r,
          aa_assigned_at = clock env 0, aa_incident_version = inc_version i + 1\<rparr>"
    "bumped env i (inc_status i) \<lparr>ie_incident_id = key, ie_event_type = ''incident.assigned'', ie_payload = AssignmentPayload a\<rparr>
       (upsert_assignment (a\<lparr>aa_assigned_at := pg_ts env (clock env 0)\<rparr>) (assignments db)) db db'"
proof -
  let ?P = "\<lambda>i. cr_incident_id i = key \<and> inc_version i = as_expected_version r \<and> inc_status i \<noteq> StatusClosed"
  obtain i where i: "find ?P (incidents db) = Some i"
    using assms(1) by (cases "find ?P (incidents db)") (auto simp: Assign_def run_tx_Inr_iff Let_def split: sum.splits)
  have upd: "update_incident ?P f db = db\<lparr>incidents := map_incident i f (incidents db)\<rparr>" for f
    by (rule update_incident_unique [OF assms(2) i, of key]) simp
  have st: "map_incident i (\<lambda>j. bump t (inc_status j) j) is = map_incident i (bump t (inc_status i)) is" for t "is"
    by (simp add: map_incident_def)
  show thesis
    using that [of i] find_SomeD [OF i] assms(1) i
    by (auto simp: Assign_def run_tx_Inr_iff Let_def upd st bumped_def incident_outbox_insert_Inr simp del: map_eq_conv)
qed

lemma Correlate_Inr:
  assumes "Correlate env key r db = (Inr c, db')"
  obtains (replayed) "c \<in> set (correlations db)" "sc_incident_id c = key" "same_correlation c r" "db' = db"
  | (inserted) "c = new_correlation env key r" "CorrelationRequest_Validate r = None"
      "\<forall>d \<in> set (correlations db). \<not> (sc_incident_id d = key \<and> co_geofence_id d = co_geofence_id r)"
      "new_uuid env 0 \<notin> set (map sc_correlation_id (correlations db))"
      "key \<in> cr_incident_id ` set (incidents db)"
      "new_uuid env 1 \<notin> set (map ob_event_id (incident_outbox db))"
      "db' = db\<lparr>correlations := correlations db @ [c], incident_outbox := incident_outbox db @
         [new_outbox_row env (new_uuid env 1) \<lparr>ie_incident_id = key, ie_event_type = ''incident.spatial_correlated'',
            ie_payload = CorrelationPayload c\<rparr> (clock env 0)]\<rparr>"
proof (cases "find (\<lambda>c. sc_incident_id c = key \<and> co_geofence_id c = co_geofence_id r) (correlations db)")
  case None
  have "key \<in> cr_incident_id ` set (incidents db)"
    using None assms by (auto simp: Correlate_def run_tx_Inr_iff Let_def find_incident_def dest!: find_SomeD)
  moreover have "sc_correlation_id (new_correlation env key r) = new_uuid env 0" by (simp add: new_correlation_def)
  moreover have "\<forall>d \<in> set (correlations db). \<not> (sc_incident_id d = key \<and> co_geofence_id d = co_geofence_id r)"
    using None by (simp add: find_None_all)
  ultimately show thesis
    using assms None inserted by (auto simp: Correlate_def run_tx_Inr_iff Let_def incident_outbox_insert_Inr)
next
  case (Some e)
  show thesis
    by (rule replayed) (use assms Some find_SomeD [OF Some] in \<open>auto simp: Correlate_def run_tx_Inr_iff\<close>)
qed

lemma delivery_Inr:
  "ClaimOutbox env l w d db = (Inr row, db') \<Longrightarrow>
     \<exists>rows. outbox_step (incident_outbox db) rows \<and> same_bodies (incident_outbox db) rows \<and> db' = db\<lparr>incident_outbox := rows\<rparr>"
  "MarkOutboxPublished env ev w db = (Inr u, db') \<Longrightarrow>
     \<exists>rows. outbox_step (incident_outbox db) rows \<and> same_bodies (incident_outbox db) rows \<and> db' = db\<lparr>incident_outbox := rows\<rparr>"
  "MarkOutboxFailed env ev w m t db = (Inr u, db') \<Longrightarrow>
     \<exists>rows. outbox_step (incident_outbox db) rows \<and> same_bodies (incident_outbox db) rows \<and> db' = db\<lparr>incident_outbox := rows\<rparr>"
  by (auto simp: ClaimOutbox_def MarkOutboxPublished_def MarkOutboxFailed_def run_tx_Inr_iff
      intro: outbox_step.intros claim_same_bodies owned_same_bodies)

text \<open>The incident store is an outbox store.\<close>

interpretation incident_ob: outbox_store incident_outbox ClaimOutbox MarkOutboxPublished MarkOutboxFailed
  "''outbox''" ErrNoPendingOutbox ErrOutboxOwnership
proof
qed (auto simp: ClaimOutbox_def MarkOutboxPublished_def MarkOutboxFailed_def run_tx_Inr_iff
     elim!: run_tx_cases)

section \<open>The invariant of the tables\<close>

definition valid_status :: "status \<Rightarrow> bool" where
  "valid_status s = (s \<in> {StatusOpen, StatusAcknowledged, StatusInvestigating, StatusResolved, StatusClosed})"

definition incidents_ok :: "'a incident_db_scheme \<Rightarrow> bool" where
  "incidents_ok db = (distinct (map cr_incident_id (incidents db)) \<and> distinct (map cr_source_event_id (incidents db)) \<and>
     (\<forall>i \<in> set (incidents db). valid_status (inc_status i) \<and> valid_severity (cr_severity i)))"

definition correlations_ok :: "'a incident_db_scheme \<Rightarrow> bool" where
  "correlations_ok db = (distinct (map (\<lambda>c. (sc_incident_id c, co_geofence_id c)) (correlations db)) \<and>
     sc_incident_id ` set (correlations db) \<subseteq> cr_incident_id ` set (incidents db))"

definition assignments_ok :: "'a incident_db_scheme \<Rightarrow> bool" where
  "assignments_ok db = (distinct (map aa_incident_id (assignments db)) \<and>
     (\<forall>a \<in> set (assignments db). aa_analyst_id a \<noteq> aa_assigned_by a \<and>
        (\<exists>i \<in> set (incidents db). cr_incident_id i = aa_incident_id a \<and> aa_incident_version a \<le> inc_version i)))"

text \<open>
  The audit trail: the version of an incident counts its lifecycle events, and there is one
  correlation event per correlation; every event belongs to a retained incident.
\<close>

definition audit_ok :: "'a incident_db_scheme \<Rightarrow> bool" where
  "audit_ok db = (outbox_ok (incident_outbox db) \<and>
     (ie_incident_id \<circ> ob_body) ` set (incident_outbox db) \<subseteq> cr_incident_id ` set (incidents db) \<and>
     (\<forall>i \<in> set (incidents db). inc_version i = int (event_count (cr_incident_id i) lifecycle_events db)) \<and>
     (\<forall>key. event_count key [''incident.spatial_correlated''] db = length (filter (\<lambda>c. sc_incident_id c = key) (correlations db))))"

definition incident_db_ok :: "'a incident_db_scheme \<Rightarrow> bool" where
  "incident_db_ok db = (incidents_ok db \<and> correlations_ok db \<and> assignments_ok db \<and> audit_ok db)"

definition incident_evolves :: "incident \<Rightarrow> incident \<Rightarrow> bool" where
  "incident_evolves i j =
     (create_request.truncate i = create_request.truncate j \<and> inc_created_at j = inc_created_at i \<and>
      inc_version i \<le> inc_version j \<and> ValidTransition\<^sup>*\<^sup>* (inc_status i) (inc_status j) \<and>
      (inc_version i = inc_version j \<longrightarrow> i = j) \<and> (inc_status i = StatusClosed \<longrightarrow> i = j))"

definition incidents_evolve :: "incident list \<Rightarrow> incident list \<Rightarrow> bool" where
  "incidents_evolve is js = (length is \<le> length js \<and> (\<forall>n < length is. incident_evolves (is ! n) (js ! n)))"


lemmas incident_ok_defs = incident_db_ok_def incidents_ok_def correlations_ok_def assignments_ok_def audit_ok_def

lemma map_incident_keys [simp]:
  "map cr_incident_id (map_incident i (bump t st) is) = map cr_incident_id is"
  "map cr_source_event_id (map_incident i (bump t st) is) = map cr_source_event_id is"
  by (simp_all add: map_incident_def)

lemma map_incident_ids [simp]: "cr_incident_id ` set (map_incident i (bump t st) is) = cr_incident_id ` set is"
  by (metis map_incident_keys(1) set_map)

lemma map_incident_set:
  "j \<in> set (map_incident i f is) \<longleftrightarrow> (\<exists>k \<in> set is. j = (if k = i then f k else k))"
  by (auto simp: map_incident_def)

lemma outbox_ok_append:
  "outbox_ok rows \<Longrightarrow> ev \<notin> set (map ob_event_id rows) \<Longrightarrow> outbox_ok (rows @ [new_outbox_row env ev b t])"
  by (auto simp: outbox_ok_def row_ok_def)

lemma event_count_append:
  "incident_outbox db' = incident_outbox db @ [new_outbox_row env ev b t] \<Longrightarrow>
   event_count key types db' = event_count key types db + (if ie_incident_id b = key \<and> ie_event_type b \<in> set types then 1 else 0)"
  by (simp add: event_count_def)

lemma upsert_assignment_set:
  "set (upsert_assignment a rows) \<subseteq> insert a (set rows)"
  by (auto simp: upsert_assignment_def)

lemma upsert_assignment_keys:
  "distinct (map aa_incident_id rows) \<Longrightarrow> distinct (map aa_incident_id (upsert_assignment a rows))"
proof -
  have "map aa_incident_id (map (\<lambda>b. if aa_incident_id b = aa_incident_id a then a else b) rows) = map aa_incident_id rows"
    by simp
  then show "distinct (map aa_incident_id rows) \<Longrightarrow> distinct (map aa_incident_id (upsert_assignment a rows))"
    unfolding upsert_assignment_def by (cases "aa_incident_id a \<in> set (map aa_incident_id rows)") (simp_all only: if_True if_False, simp)
qed

lemma bumped_ok:
  assumes ok: "incident_db_ok db" and b: "bumped env i st body asg db db'" and st: "valid_status st"
    and ty: "ie_event_type body \<in> {''incident.status_changed'', ''incident.assigned''}"
    and asg: "distinct (map aa_incident_id asg)"
      "\<And>a. a \<in> set asg \<Longrightarrow> a \<in> set (assignments db) \<or>
         (aa_incident_id a = cr_incident_id i \<and> aa_incident_version a \<le> inc_version i + 1 \<and> aa_analyst_id a \<noteq> aa_assigned_by a)"
  shows "incident_db_ok db'"
proof -
  let ?f = "\<lambda>j. if j = i then bump (pg_ts env (clock env 0)) st j else j"
  have i: "i \<in> set (incidents db)" "ie_incident_id body = cr_incident_id i"
    and ev: "new_uuid env 0 \<notin> set (map ob_event_id (incident_outbox db))"
    and incs: "incidents db' = map_incident i (bump (pg_ts env (clock env 0)) st) (incidents db)" and cor: "correlations db' = correlations db"
    and as: "assignments db' = asg"
    and out: "incident_outbox db' = incident_outbox db @ [new_outbox_row env (new_uuid env 0) body (clock env 0)]"
    using b by (simp_all add: bumped_def)
  have dist: "distinct (map cr_incident_id (incidents db))" using ok by (simp add: incident_ok_defs)
  have "incidents_ok db'"
    using ok st by (auto simp: incidents_ok_def incs incident_db_ok_def map_incident_set)
  moreover have "correlations_ok db'"
    using ok by (simp add: incident_ok_defs incs cor)
  moreover have "assignments_ok db'"
    unfolding assignments_ok_def as
  proof (intro conjI ballI asg(1))
    fix a assume a: "a \<in> set asg"
    from asg(2) [OF a] ok show "aa_analyst_id a \<noteq> aa_assigned_by a" by (auto simp: incident_ok_defs)
    from asg(2) [OF a] show "\<exists>j\<in>set (incidents db'). cr_incident_id j = aa_incident_id a \<and> aa_incident_version a \<le> inc_version j"
    proof
      assume "a \<in> set (assignments db)"
      then obtain j where "j \<in> set (incidents db)" "cr_incident_id j = aa_incident_id a" "aa_incident_version a \<le> inc_version j"
        using ok by (auto simp: incident_ok_defs)
      then show ?thesis unfolding incs by (intro bexI [of _ "?f j"]) (auto simp: map_incident_set)
    next
      assume "aa_incident_id a = cr_incident_id i \<and> aa_incident_version a \<le> inc_version i + 1 \<and> aa_analyst_id a \<noteq> aa_assigned_by a"
      then show ?thesis unfolding incs using i(1) by (intro bexI [of _ "?f i"]) (auto simp: map_incident_set)
    qed
  qed
  moreover have "audit_ok db'"
    unfolding audit_ok_def
  proof (intro conjI ballI allI)
    show "outbox_ok (incident_outbox db')" unfolding out using ok ev by (intro outbox_ok_append) (auto simp: incident_ok_defs)
    show "(ie_incident_id \<circ> ob_body) ` set (incident_outbox db') \<subseteq> cr_incident_id ` set (incidents db')"
      using ok i by (auto simp: out incs incident_ok_defs)
    fix j assume "j \<in> set (incidents db')"
    then obtain k where k: "k \<in> set (incidents db)" "j = ?f k" unfolding incs map_incident_set by blast
    have "k = i \<longleftrightarrow> cr_incident_id k = cr_incident_id i" using distinct_key_eq [OF dist k(1) i(1)] by auto
    moreover have "inc_version k = int (event_count (cr_incident_id k) lifecycle_events db)"
      using ok k(1) by (auto simp: incident_ok_defs)
    ultimately show "inc_version j = int (event_count (cr_incident_id j) lifecycle_events db')"
      using ty i(2) k(2) unfolding event_count_append [OF out] by (auto simp: lifecycle_events_def)
  next
    fix key
    show "event_count key [''incident.spatial_correlated''] db' = length (filter (\<lambda>c. sc_incident_id c = key) (correlations db'))"
      using ok ty unfolding event_count_append [OF out] cor by (auto simp: incident_ok_defs)
  qed
  ultimately show ?thesis by (simp add: incident_db_ok_def)
qed


lemma event_count_zero:
  assumes "(ie_incident_id \<circ> ob_body) ` set (incident_outbox db) \<subseteq> A" and "key \<notin> A"
  shows "event_count key types db = 0"
  using assms by (auto simp: event_count_def filter_empty_conv)

lemma createIncident_ok:
  assumes ok: "incident_db_ok db" and c: "createIncidentInTransaction env r db = Inr (i, db')"
  shows "incident_db_ok db'"
  using c
proof (cases rule: createIncident_Inr)
  case replayed
  then show ?thesis using ok by simp
next
  case inserted
  let ?row = "new_outbox_row env (new_uuid env 0) \<lparr>ie_incident_id = cr_incident_id r,
            ie_event_type = ''incident.created'', ie_payload = IncidentPayload i\<rparr> (clock env 0)"
  have incs: "incidents db' = incidents db @ [i]" and cor: "correlations db' = correlations db"
    and as: "assignments db' = assignments db" and out: "incident_outbox db' = incident_outbox db @ [?row]"
    using inserted by simp_all
  have i: "cr_incident_id i = cr_incident_id r" "cr_source_event_id i = cr_source_event_id r" "inc_version i = 1"
    "valid_status (inc_status i)" "valid_severity (cr_severity i)"
    using inserted by (simp_all add: valid_status_def)
  have "incidents_ok db'" using ok i inserted(3,4) by (auto simp: incident_db_ok_def incidents_ok_def incs)
  moreover have "correlations_ok db'" using ok by (auto simp: incident_db_ok_def correlations_ok_def incs cor)
  moreover have "assignments_ok db'" using ok by (auto simp: incident_db_ok_def assignments_ok_def incs as)
  moreover have "audit_ok db'"
    unfolding audit_ok_def
  proof (intro conjI ballI allI)
    show "outbox_ok (incident_outbox db')" unfolding out using ok inserted(5) by (intro outbox_ok_append) (auto simp: incident_ok_defs)
    show "(ie_incident_id \<circ> ob_body) ` set (incident_outbox db') \<subseteq> cr_incident_id ` set (incidents db')"
      using ok i by (auto simp: out incs incident_ok_defs)
    have none: "event_count (cr_incident_id r) lifecycle_events db = 0"
      using ok inserted(4) by (intro event_count_zero) (auto simp: incident_ok_defs)
    fix j assume "j \<in> set (incidents db')"
    then consider "j = i" | "j \<in> set (incidents db)" "cr_incident_id j \<noteq> cr_incident_id r"
      using inserted(4) by (force simp: incs)
    then show "inc_version j = int (event_count (cr_incident_id j) lifecycle_events db')"
      using ok i none unfolding event_count_append [OF out]
      by cases (auto simp: lifecycle_events_def incident_db_ok_def audit_ok_def)
  next
    fix key
    show "event_count key [''incident.spatial_correlated''] db' = length (filter (\<lambda>c. sc_incident_id c = key) (correlations db'))"
      using ok unfolding event_count_append [OF out] cor by (auto simp: incident_db_ok_def audit_ok_def)
  qed
  ultimately show ?thesis by (simp add: incident_db_ok_def)
qed

lemma new_correlation_simps [simp]:
  "sc_incident_id (new_correlation env key r) = key" "co_geofence_id (new_correlation env key r) = co_geofence_id r"
  by (simp_all add: new_correlation_def)

lemma Correlate_ok:
  assumes ok: "incident_db_ok db" and c: "Correlate env key r db = (Inr c, db')"
  shows "incident_db_ok db'"
  using c
proof (cases rule: Correlate_Inr)
  case replayed
  then show ?thesis using ok by simp
next
  case inserted
  let ?row = "new_outbox_row env (new_uuid env 1) \<lparr>ie_incident_id = key,
            ie_event_type = ''incident.spatial_correlated'', ie_payload = CorrelationPayload c\<rparr> (clock env 0)"
  have incs: "incidents db' = incidents db" and cor: "correlations db' = correlations db @ [c]"
    and as: "assignments db' = assignments db" and out: "incident_outbox db' = incident_outbox db @ [?row]"
    using inserted by simp_all
  have c: "sc_incident_id c = key" "co_geofence_id c = co_geofence_id r" using inserted(1) by simp_all
  have "correlations_ok db'" using ok inserted(3,5) c by (auto simp: incident_db_ok_def correlations_ok_def incs cor)
  moreover have "audit_ok db'"
    unfolding audit_ok_def
  proof (intro conjI ballI allI)
    show "outbox_ok (incident_outbox db')" unfolding out using ok inserted(6) by (intro outbox_ok_append) (auto simp: incident_ok_defs)
    show "(ie_incident_id \<circ> ob_body) ` set (incident_outbox db') \<subseteq> cr_incident_id ` set (incidents db')"
      using ok inserted(5) by (auto simp: out incs incident_ok_defs)
    show "inc_version j = int (event_count (cr_incident_id j) lifecycle_events db')" if "j \<in> set (incidents db')" for j
      using ok that unfolding event_count_append [OF out] incs
      by (auto simp: lifecycle_events_def incident_db_ok_def audit_ok_def)
    show "event_count k [''incident.spatial_correlated''] db' = length (filter (\<lambda>c. sc_incident_id c = k) (correlations db'))" for k
      using ok c unfolding event_count_append [OF out] cor by (auto simp: incident_db_ok_def audit_ok_def)
  qed
  ultimately show ?thesis using ok by (simp add: incident_db_ok_def incidents_ok_def assignments_ok_def incs as)
qed

lemma event_count_bodies:
  "same_bodies (incident_outbox db) (incident_outbox db') \<Longrightarrow> event_count key types db' = event_count key types db"
  by (simp add: event_count_def same_bodies_def)

lemma delivery_ok:
  assumes ok: "incident_db_ok db" and "outbox_step (incident_outbox db) rows" "same_bodies (incident_outbox db) rows"
  shows "incident_db_ok (db\<lparr>incident_outbox := rows\<rparr>)"
proof -
  let ?db = "db\<lparr>incident_outbox := rows\<rparr>"
  have "same_bodies (incident_outbox db) (incident_outbox ?db)" using assms(3) by simp
  note cnt = event_count_bodies [OF this]
  have "map ob_body rows = map ob_body (incident_outbox db)" using assms(3) by (simp add: same_bodies_def)
  then have img: "ob_body ` set rows = ob_body ` set (incident_outbox db)" by (metis set_map)
  have "(ie_incident_id \<circ> ob_body) ` set rows \<subseteq> cr_incident_id ` set (incidents db)"
    using ok img by (simp only: incident_db_ok_def audit_ok_def image_comp [symmetric])
  moreover have "outbox_ok rows" using outbox_step_ok assms by (auto simp: incident_ok_defs)
  ultimately have "audit_ok ?db" using ok by (simp add: incident_db_ok_def audit_ok_def cnt)
  then show ?thesis using ok by (simp add: incident_db_ok_def incidents_ok_def assignments_ok_def correlations_ok_def)
qed

lemma ValidTransition_status: "ValidTransition s t \<Longrightarrow> valid_status t \<and> s \<noteq> StatusClosed"
  by (auto simp: ValidTransition_def valid_status_def status_defs split: if_splits)

lemma incident_step_ok: "incident_step db db' \<Longrightarrow> incident_db_ok db \<Longrightarrow> incident_db_ok db'"
proof (induction rule: incident_step.induct)
  case (transition env db_read key v st db i db')
  have d: "distinct (map cr_incident_id (incidents db))" using transition.prems by (simp add: incident_ok_defs)
  from transition.hyps d show ?case
  proof (rule Transition_Inr)
    fix j assume j: "ValidTransition (inc_status j) st" and b: "bumped env j st
       \<lparr>ie_incident_id = key, ie_event_type = ''incident.status_changed'', ie_payload = IncidentPayload i\<rparr> (assignments db) db db'"
    show ?thesis
      by (rule bumped_ok [OF transition.prems b])
         (use ValidTransition_status [OF j] transition.prems in \<open>auto simp: incident_db_ok_def assignments_ok_def\<close>)
  qed
next
  case (assign env key r db a db')
  have d: "distinct (map cr_incident_id (incidents db))" using assign.prems by (simp add: incident_ok_defs)
  from assign.hyps d show ?case
  proof (rule Assign_Inr)
    fix i assume i: "cr_incident_id i = key" "AssignmentRequest_Validate r = None"
      and a: "a = \<lparr>aa_incident_id = key, aa_analyst_id = as_analyst_id r, aa_assigned_by = as_assigned_by r,
          aa_assigned_at = clock env 0, aa_incident_version = inc_version i + 1\<rparr>"
      and b: "bumped env i (inc_status i)
       \<lparr>ie_incident_id = key, ie_event_type = ''incident.assigned'', ie_payload = AssignmentPayload a\<rparr>
       (upsert_assignment (a\<lparr>aa_assigned_at := pg_ts env (clock env 0)\<rparr>) (assignments db)) db db'"
    have "i \<in> set (incidents db)" using b by (simp add: bumped_def)
    then have "valid_status (inc_status i)" using assign.prems by (auto simp: incident_db_ok_def incidents_ok_def)
    moreover have "as_analyst_id r \<noteq> as_assigned_by r" using i(2) by (simp add: AssignmentRequest_Validate_def)
    ultimately show ?thesis
      by (intro bumped_ok [OF assign.prems b] upsert_assignment_keys)
         (use assign.prems a i in \<open>auto simp: incident_db_ok_def assignments_ok_def dest!: subsetD [OF upsert_assignment_set]\<close>)
  qed
next
  case (create r env db i db')
  then show ?case using createIncident_ok by blast
next
  case (correlate env key cr db c db')
  then show ?case using Correlate_ok by blast
qed (auto dest!: delivery_Inr intro: delivery_ok)


lemma incident_evolves_refl [simp]: "incident_evolves i i"
  by (simp add: incident_evolves_def)

lemma ValidTransition_from_Closed: "ValidTransition\<^sup>*\<^sup>* StatusClosed t \<Longrightarrow> t = StatusClosed"
  by (induction rule: rtranclp_induct) (auto dest: ValidTransition_status)

lemma incident_evolves_trans: "incident_evolves i j \<Longrightarrow> incident_evolves j k \<Longrightarrow> incident_evolves i k"
  unfolding incident_evolves_def by (auto intro: rtranclp_trans)

lemma incidents_evolve_trans: "incidents_evolve a b \<Longrightarrow> incidents_evolve b c \<Longrightarrow> incidents_evolve a c"
  unfolding incidents_evolve_def by (meson incident_evolves_trans less_le_trans order_trans)

lemma incidents_evolve_refl [simp]: "incidents_evolve a a"
  by (simp add: incidents_evolve_def)

lemma incidents_evolve_append [simp]: "incidents_evolve a (a @ b)"
  by (simp add: incidents_evolve_def nth_append)

lemma bump_evolves:
  "ValidTransition (inc_status i) st \<or> st = inc_status i \<Longrightarrow> inc_status i \<noteq> StatusClosed \<Longrightarrow> incident_evolves i (bump t st i)"
  by (auto simp: incident_evolves_def bump_def create_request.truncate_def)

lemma bumped_evolve:
  "bumped env i st body asg db db' \<Longrightarrow> ValidTransition (inc_status i) st \<or> st = inc_status i \<Longrightarrow>
   inc_status i \<noteq> StatusClosed \<Longrightarrow> incidents_evolve (incidents db) (incidents db')"
  by (auto simp: bumped_def incidents_evolve_def map_incident_def intro: bump_evolves)

lemma incident_step_evolve:
  "incident_step db db' \<Longrightarrow> incident_db_ok db \<Longrightarrow> incidents_evolve (incidents db) (incidents db')"
proof (induction rule: incident_step.induct)
  case (create r env db i db')
  from create.hyps(2) show ?case by (cases rule: createIncident_Inr) simp_all
next
  case (transition env db_read key v st db i db')
  have "distinct (map cr_incident_id (incidents db))" using transition.prems by (simp add: incident_ok_defs)
  from transition.hyps this show ?case
    by (rule Transition_Inr) (blast intro: bumped_evolve dest: ValidTransition_status)
next
  case (assign env key r db a db')
  have "distinct (map cr_incident_id (incidents db))" using assign.prems by (simp add: incident_ok_defs)
  from assign.hyps this show ?case
    by (rule Assign_Inr) (meson bumped_evolve)
next
  case (correlate env key cr db c db')
  from correlate.hyps show ?case by (cases rule: Correlate_Inr) simp_all
qed (auto dest!: delivery_Inr)

lemma incident_reach_ok: "incident_reach db db' \<Longrightarrow> incident_db_ok db \<Longrightarrow>
    incident_db_ok db' \<and> incidents_evolve (incidents db) (incidents db')"
proof (induction rule: incident_reach.induct)
  case (step db db' db'')
  then show ?case using incident_step_ok incident_step_evolve incidents_evolve_trans by blast
qed simp

section \<open>Properties of the store\<close>

text \<open>
  C4. Safety of the incident store under every sequence of creations, transitions (with stale
  reads), correlations, assignments and outbox deliveries: the tables stay well formed (unique
  ids and source events, valid statuses and severities, no dangling correlation, assignment or
  event, an analyst never assigned by themselves); the version of an incident always equals the
  number of its lifecycle events in the outbox and every correlation has exactly one event; and
  each incident only moves along the lifecycle, keeps the fields it was created with, changes
  only with a higher version, and never changes once closed.
\<close>

theorem incident_reach_safe:
  assumes "incident_reach db db'" and "incident_db_ok db"
  shows "incident_db_ok db' \<and> incidents_evolve (incidents db) (incidents db')"
  using incident_reach_ok assms by blast

definition sample_create :: create_request where
  "sample_create = \<lparr>cr_incident_id = ''inc-1'', cr_source_event_id = ''src-1'', cr_category = ''piracy'',
     cr_severity = ''HIGH'', cr_title = ''boarding'', cr_description = ''armed'', cr_occurred_at = 7, cr_created_by = ''op-1''\<rparr>"

definition empty_incident_db :: incident_db where
  "empty_incident_db = \<lparr>incidents = [], correlations = [], assignments = [], incident_outbox = []\<rparr>"

lemma empty_incident_db_ok: "incident_db_ok empty_incident_db"
  by (simp add: incident_ok_defs empty_incident_db_def event_count_def)

lemma sample_create_valid: "CreateRequest_Validate sample_create = None"
  by code_simp


lemma Create_Inr_iff:
  "Create env r db = (Inr i, db') \<longleftrightarrow> CreateRequest_Validate r = None \<and> \<not> db_faults env 0 \<and> \<not> db_faults env 4 \<and>
     createIncidentInTransaction env r db = Inr (i, db')"
  by (auto simp: Create_def run_tx_Inr_iff)

lemma sample_created:
  "Create (calm_env 9 ''u1'') sample_create empty_incident_db =
     (Inr (new_incident (calm_env 9 ''u1'') 9 sample_create),
      \<lparr>incidents = [new_incident (calm_env 9 ''u1'') 9 sample_create], correlations = [], assignments = [],
       incident_outbox = [new_outbox_row (calm_env 9 ''u1'') ''u1'' \<lparr>ie_incident_id = ''inc-1'',
         ie_event_type = ''incident.created'', ie_payload = IncidentPayload (new_incident (calm_env 9 ''u1'') 9 sample_create)\<rparr> 9]\<rparr>)"
proof -
  have "valid_severity (cr_severity sample_create)" by code_simp
  moreover have "cr_incident_id sample_create = ''inc-1''" by (simp add: sample_create_def)
  ultimately show ?thesis
    unfolding Create_Inr_iff
    by (simp add: sample_create_valid createIncidentInTransaction_def empty_incident_db_def find_incident_def
        incident_outbox_insert_Inr Let_def)
qed

theorem incident_reach_safe_witness:
  "\<exists>db'. incident_reach empty_incident_db db' \<and> length (incidents db') = 1 \<and> incident_db_ok db'"
proof -
  from sample_created obtain i db' where c: "Create (calm_env 9 ''u1'') sample_create empty_incident_db = (Inr i, db')"
    and l: "length (incidents db') = 1" by simp
  have "incident_reach empty_incident_db db'"
    using c by (auto simp: Create_Inr_iff intro: incident_reach.intros incident_step.create)
  then show ?thesis using incident_reach_safe [OF _ empty_incident_db_ok] l by blast
qed

text \<open>
  C25. Creation is idempotent per source event: after a first creation, a further valid request
  with the same source event returns the retained incident and writes nothing when it describes
  the same incident, and is refused with the idempotency conflict, writing nothing, when any
  field differs. The original request is such a replay exactly when its occurrence time survives
  the timestamp column.
\<close>

theorem Create_idempotent:
  assumes "Create env r db = (Inr i, db')" and "cr_source_event_id r \<notin> cr_source_event_id ` set (incidents db)"
    and "CreateRequest_Validate q = None" and "cr_source_event_id q = cr_source_event_id r"
    and "\<And>n. \<not> db_faults env' n"
  shows "Create env' q db' = ((if Matches i q then Inr i else Inl ErrIdempotencyConflict), db') \<and>
    (Matches i r \<longleftrightarrow> pg_ts env (cr_occurred_at r) = cr_occurred_at r)"
proof -
  have c: "createIncidentInTransaction env r db = Inr (i, db')" using assms(1) by (simp add: Create_Inr_iff)
  have n: "i = new_incident env (clock env 0) r \<and> incidents db' = incidents db @ [i]"
    using c
  proof (cases rule: createIncident_Inr)
    case replayed
    then have "cr_source_event_id r \<in> cr_source_event_id ` set (incidents db)"
      by (metis Matches_def image_eqI)
    then show ?thesis using assms(2) by blast
  qed simp
  have "find (\<lambda>j. cr_source_event_id j = cr_source_event_id r) (incidents db) = None"
    using assms(2) by (force simp: find_None_all)
  then have "find (\<lambda>j. cr_source_event_id j = cr_source_event_id r) (incidents db') = Some i"
    using n by (simp add: find_append_None)
  moreover have "valid_severity (cr_severity q)" using assms(3) by (simp add: CreateRequest_Validate_def)
  moreover have "Matches i r \<longleftrightarrow> pg_ts env (cr_occurred_at r) = cr_occurred_at r"
    using n by (simp add: Matches_def new_incident_def)
  ultimately show ?thesis
    using assms(3-5) by (simp add: Create_def createIncidentInTransaction_def Let_def)
qed


theorem Create_idempotent_witness:
  "\<exists>i db'. Create (calm_env 9 ''u1'') sample_create empty_incident_db = (Inr i, db') \<and>
     Create (calm_env 12 ''u2'') sample_create db' = (Inr i, db') \<and>
     Create (calm_env 12 ''u2'') (sample_create\<lparr>cr_title := ''hijack''\<rparr>) db' = (Inl ErrIdempotencyConflict, db')"
proof -
  obtain i db' where c: "Create (calm_env 9 ''u1'') sample_create empty_incident_db = (Inr i, db')"
    and i: "i = new_incident (calm_env 9 ''u1'') 9 sample_create" using sample_created by blast
  have v: "CreateRequest_Validate (sample_create\<lparr>cr_title := ''hijack''\<rparr>) = None" by code_simp
  have fresh: "cr_source_event_id sample_create \<notin> cr_source_event_id ` set (incidents empty_incident_db)"
    by (simp add: empty_incident_db_def)
  have "Matches i sample_create" "\<not> Matches i (sample_create\<lparr>cr_title := ''hijack''\<rparr>)"
    by (simp_all add: i Matches_def new_incident_def sample_create_def)
  then show ?thesis
    using c Create_idempotent [OF c fresh sample_create_valid, of "calm_env 12 ''u2''"]
      Create_idempotent [OF c fresh v, of "calm_env 12 ''u2''"] by auto
qed

lemma evolved_version:
  assumes "incidents_evolve is js" and "i \<in> set is" and "distinct (map cr_incident_id js)"
    and "j \<in> set js" and "cr_incident_id j = cr_incident_id i"
  shows "inc_version i \<le> inc_version j"
proof -
  obtain n where n: "n < length is" "is ! n = i" using assms(2) by (auto simp: in_set_conv_nth)
  then have e: "incident_evolves i (js ! n)" "n < length js" using assms(1) by (auto simp: incidents_evolve_def)
  then have "cr_incident_id (js ! n) = cr_incident_id i"
    by (auto simp: incident_evolves_def create_request.truncate_def)
  then have "js ! n = j" using assms(3-5) e(2) distinct_key_eq [of cr_incident_id js "js ! n" j] by simp
  then show ?thesis using e(1) by (simp add: incident_evolves_def)
qed

text \<open>
  C10. Optimistic locking: a version of an incident is consumed at most once. After a transition
  that expected version v committed, whatever happens in between, no transition (whatever stale
  state it read) and no assignment that expects version v can commit any more.
\<close>

theorem version_consumed_once:
  assumes "incident_db_ok db" and "Transition env db_read key v st db = (Inr i, db1)" and "incident_reach db1 db2"
  shows "(\<forall>env' rd st'. fst (Transition env' rd key v st' db2) \<in> range Inl) \<and>
    (\<forall>env' r. as_expected_version r = v \<longrightarrow> fst (Assign env' key r db2) \<in> range Inl)"
proof -
  have d: "distinct (map cr_incident_id (incidents db))" using assms(1) by (simp add: incident_ok_defs)
  obtain j where j: "cr_incident_id j = key" "inc_version j = v" "i = bump (pg_ts env (clock env 0)) st j"
     "i \<in> set (incidents db1)"
    using assms(2) d by (rule Transition_Inr) (fastforce simp: bumped_def map_incident_set)
  have ok2: "incident_db_ok db2" and ev: "incidents_evolve (incidents db1) (incidents db2)"
    using incident_reach_ok [OF assms(3)] incident_step_ok [OF incident_step.transition [OF assms(2)] assms(1)] by auto
  have d2: "distinct (map cr_incident_id (incidents db2))" using ok2 by (simp add: incident_ok_defs)
  have gone: "inc_version k \<noteq> v" if "k \<in> set (incidents db2)" "cr_incident_id k = key" for k
    using evolved_version [OF ev j(4) d2 that(1)] that(2) j by simp
  show ?thesis
  proof (intro conjI allI impI)
    fix env' rd st'
    show "fst (Transition env' rd key v st' db2) \<in> range Inl"
    proof (cases "Transition env' rd key v st' db2")
      case (Pair res db3)
      then show ?thesis
        by (cases res) (auto elim!: Transition_Inr [OF _ d2] simp: bumped_def dest: gone)
    qed
  next
    fix env' and r :: assignment_request assume "as_expected_version r = v"
    then show "fst (Assign env' key r db2) \<in> range Inl"
      by (cases "Assign env' key r db2"; cases "fst (Assign env' key r db2)")
         (auto elim!: Assign_Inr [OF _ d2] simp: bumped_def dest: gone)
  qed
qed


lemma find_incident_SomeD: "find_incident key db = Some i \<Longrightarrow> i \<in> set (incidents db) \<and> cr_incident_id i = key"
  unfolding find_incident_def by (drule find_SomeD) simp

lemma find_incident_assignments: "find_incident key (db\<lparr>assignments := a\<rparr>) = find_incident key db"
  by (simp add: find_incident_def)

lemma find_incident_update:
  assumes "\<And>i. cr_incident_id (f i) = cr_incident_id i"
  shows "find_incident key (update_incident P f db) = map_option (\<lambda>i. if P i then f i else i) (find_incident key db)"
  unfolding find_incident_def update_incident_def
  by (simp, rule find_map_upd) (auto simp: assms)

lemma find_incident_guard:
  assumes "distinct (map cr_incident_id (incidents db))"
  shows "find (\<lambda>i. cr_incident_id i = key \<and> Q i) (incidents db) =
    (case find_incident key db of None \<Rightarrow> None | Some i \<Rightarrow> if Q i then Some i else None)"
proof (cases "find_incident key db")
  case None
  then have "find (\<lambda>i. cr_incident_id i = key \<and> Q i) (incidents db) = None"
    by (auto simp: find_incident_def find_None_all)
  then show ?thesis using None by simp
next
  case (Some i)
  have i: "i \<in> set (incidents db)" "cr_incident_id i = key" using find_incident_SomeD [OF Some] by auto
  have u: "j = i" if "j \<in> set (incidents db)" "cr_incident_id j = key" for j
    using distinct_key_eq [OF assms that(1) i(1)] that(2) i(2) by simp
  show ?thesis
  proof (cases "find (\<lambda>i. cr_incident_id i = key \<and> Q i) (incidents db)")
    case None
    then show ?thesis using Some i by (auto simp: find_None_all)
  next
    case (Some j)
    then show ?thesis using find_SomeD [OF Some] u [of j] \<open>find_incident key db = Some i\<close> by simp
  qed
qed

text \<open>
  Outcome of a transition and of an assignment on every branch, when the database calls
  succeed: an unknown incident, a stale version, a step the lifecycle does not have (for an
  assignment: a closed incident) each give their own error; otherwise the incident is returned
  with the new status, the time and the next version (the assignment with the next version).
\<close>

theorem Transition_Assign_outcome:
  assumes "incident_db_ok db" and "\<And>n. \<not> db_faults env n" and "new_uuid env 0 \<notin> set (map ob_event_id (incident_outbox db))"
    and "incidentIDPattern key" and "AssignmentRequest_Validate r = None"
  shows "fst (Transition env db key v st db) =
      (case find_incident key db of None \<Rightarrow> Inl ErrNotFound
       | Some i \<Rightarrow> if inc_version i \<noteq> v then Inl ErrOptimisticConflict
           else if \<not> ValidTransition (inc_status i) st then Inl ErrInvalidTransition
           else Inr (bump (pg_ts env (clock env 0)) st i)) \<and>
    fst (Assign env key r db) =
      (case find_incident key db of None \<Rightarrow> Inl ErrNotFound
       | Some i \<Rightarrow> if inc_version i \<noteq> as_expected_version r then Inl ErrOptimisticConflict
           else if inc_status i = StatusClosed then Inl ErrInvalidTransition
           else Inr \<lparr>aa_incident_id = key, aa_analyst_id = as_analyst_id r, aa_assigned_by = as_assigned_by r,
                     aa_assigned_at = clock env 0, aa_incident_version = inc_version i + 1\<rparr>)"
proof -
  have d: "distinct (map cr_incident_id (incidents db))" using assms(1) by (simp add: incident_ok_defs)
  have ob: "incident_outbox (update_incident P f db) = incident_outbox db" for P f by (simp add: update_incident_def)
  have key: "find_incident key db = Some i \<Longrightarrow> cr_incident_id i = key" for i
    using find_incident_SomeD by blast
  have "fst (Transition env db key v st db) =
      (case find_incident key db of None \<Rightarrow> Inl ErrNotFound
       | Some i \<Rightarrow> if inc_version i \<noteq> v then Inl ErrOptimisticConflict
           else if \<not> ValidTransition (inc_status i) st then Inl ErrInvalidTransition
           else Inr (bump (pg_ts env (clock env 0)) st i))"
    using assms(2,3) key
    by (auto simp: Transition_def Get_def Let_def find_incident_guard [OF d] incident_outbox_insert_def ob find_incident_update
        outbox_insert_def require_def split: option.splits)
  moreover have "fst (Assign env key r db) =
      (case find_incident key db of None \<Rightarrow> Inl ErrNotFound
       | Some i \<Rightarrow> if inc_version i \<noteq> as_expected_version r then Inl ErrOptimisticConflict
           else if inc_status i = StatusClosed then Inl ErrInvalidTransition
           else Inr \<lparr>aa_incident_id = key, aa_analyst_id = as_analyst_id r, aa_assigned_by = as_assigned_by r,
                     aa_assigned_at = clock env 0, aa_incident_version = inc_version i + 1\<rparr>)"
    using assms(2-5) key
    by (auto simp: Assign_def Get_def Let_def find_incident_guard [OF d] incident_outbox_insert_def ob find_incident_update
        find_incident_assignments outbox_insert_def require_def split: option.splits)
  ultimately show ?thesis by blast
qed


definition sample_assign :: assignment_request where
  "sample_assign = \<lparr>as_expected_version = 1, as_analyst_id = ''analyst-1'', as_assigned_by = ''lead-1''\<rparr>"

definition sample_incident_db :: incident_db where
  "sample_incident_db = snd (Create (calm_env 9 ''u1'') sample_create empty_incident_db)"

lemma sample_incident_db_ok: "incident_db_ok sample_incident_db"
proof -
  obtain i where "Create (calm_env 9 ''u1'') sample_create empty_incident_db = (Inr i, sample_incident_db)"
    unfolding sample_incident_db_def using sample_created by simp
  then show ?thesis using createIncident_ok [OF empty_incident_db_ok] by (auto simp: Create_Inr_iff)
qed

lemma sample_incident_db_unfold:
  "incidents sample_incident_db = [new_incident (calm_env 9 ''u1'') 9 sample_create]"
  "map ob_event_id (incident_outbox sample_incident_db) = [''u1'']"
  by (simp_all add: sample_incident_db_def sample_created)

lemma sample_find: "find_incident ''inc-1'' sample_incident_db = Some (new_incident (calm_env 9 ''u1'') 9 sample_create)"
  by (simp add: find_incident_def sample_incident_db_unfold sample_create_def)

theorem Transition_Assign_outcome_witness:
  "fst (Transition (calm_env 20 ''u2'') sample_incident_db ''inc-1'' 1 ''CLOSED'' sample_incident_db) = Inl ErrInvalidTransition \<and>
   fst (Assign (calm_env 20 ''u2'') ''inc-1'' sample_assign sample_incident_db) =
     Inr \<lparr>aa_incident_id = ''inc-1'', aa_analyst_id = ''analyst-1'', aa_assigned_by = ''lead-1'',
          aa_assigned_at = 20, aa_incident_version = 2\<rparr>"
proof -
  have "incidentIDPattern ''inc-1''" "AssignmentRequest_Validate sample_assign = None" by code_simp+
  then show ?thesis
    using Transition_Assign_outcome [of sample_incident_db "calm_env 20 ''u2''" "''inc-1''" sample_assign 1 "''CLOSED''"]
    by (simp add: sample_incident_db_ok sample_incident_db_unfold sample_find sample_assign_def ValidTransition_def status_defs)
qed

theorem version_consumed_once_witness:
  "\<exists>i db1. Transition (calm_env 20 ''u2'') sample_incident_db ''inc-1'' 1 ''ACKNOWLEDGED'' sample_incident_db = (Inr i, db1) \<and>
     fst (Transition (calm_env 21 ''u3'') sample_incident_db ''inc-1'' 1 ''RESOLVED'' db1) \<in> range Inl \<and>
     fst (Assign (calm_env 21 ''u3'') ''inc-1'' sample_assign db1) \<in> range Inl"
proof -
  obtain i db1 where t: "Transition (calm_env 20 ''u2'') sample_incident_db ''inc-1'' 1 ''ACKNOWLEDGED'' sample_incident_db = (Inr i, db1)"
    by (simp add: Transition_def Get_def sample_find Let_def ValidTransition_def status_defs find_incident_guard
        sample_incident_db_unfold incident_outbox_insert_def find_incident_update outbox_insert_def update_incident_def sample_create_def find_incident_def)
  have "as_expected_version sample_assign = 1" by (simp add: sample_assign_def)
  then show ?thesis
    using t version_consumed_once [OF sample_incident_db_ok t incident_reach.refl] by blast
qed

end
