(* ===== verification/Feed.thy ===== *)
theory Feed
  imports Incident "HOL-Library.Sublist"
begin

text \<open>
  Signed feeds: \<open>internal/incident/feed.go\<close>. Registration of feed sources, signed admission
  of feed events and feed incidents, revocation and key rotation, on the tables of migrations
  0004 to 0006. SHA-256, Ed25519 verification and the JSON decoder are parameters; the signing
  preimage, with Go's RFC 3339 time format, is modelled. All five operations run in
  serializable transactions, so one operation sees one state.
\<close>

section \<open>RFC 3339 times\<close>

text \<open>\<open>Time.Format(time.RFC3339Nano)\<close> of a UTC time, from nanoseconds since year 1.\<close>

definition pad_int :: "nat \<Rightarrow> int \<Rightarrow> string" where
  "pad_int w n = replicate (w - length (show_dec n)) (CHR ''0'') @ show_dec n"

definition is_leap :: "int \<Rightarrow> bool" where
  "is_leap y = (4 dvd y \<and> (\<not> 100 dvd y \<or> 400 dvd y))"

definition year_and_day :: "int \<Rightarrow> int \<times> int" where
  "year_and_day d =
     (let n400 = d div 146097; d1 = d mod 146097;
          n100 = min 3 (d1 div 36524); d2 = d1 - 36524 * n100;
          n4 = d2 div 1461; d3 = d2 - 1461 * n4;
          n1 = min 3 (d3 div 365)
      in (400 * n400 + 100 * n100 + 4 * n4 + n1 + 1, d3 - 365 * n1))"

fun month_and_day :: "int list \<Rightarrow> int \<Rightarrow> int \<Rightarrow> int \<times> int" where
  "month_and_day [] m d = (m, d + 1)"
| "month_and_day (l # ls) m d = (if d < l then (m, d + 1) else month_and_day ls (m + 1) (d - l))"

definition month_lengths :: "bool \<Rightarrow> int list" where
  "month_lengths leap = [31, if leap then 29 else 28, 31, 30, 31, 30, 31, 31, 30, 31, 30, 31]"

definition show_year :: "int \<Rightarrow> string" where
  "show_year y = (if y < 0 then CHR ''-'' # pad_int 4 (- y) else pad_int 4 y)"

definition show_fraction :: "int \<Rightarrow> string" where
  "show_fraction ns =
     (if ns = 0 then [] else CHR ''.'' # rev (dropWhile (\<lambda>c. c = CHR ''0'') (rev (pad_int 9 ns))))"

definition format_rfc3339nano :: "gotime \<Rightarrow> string" where
  "format_rfc3339nano t =
     (let day = t div (24 * hour); r = t mod (24 * hour);
          (y, yd) = year_and_day day;
          (m, d) = month_and_day (month_lengths (is_leap y)) 1 yd
      in show_year y @ ''-'' @ pad_int 2 m @ ''-'' @ pad_int 2 d @ ''T'' @
         pad_int 2 (r div hour) @ '':'' @ pad_int 2 (r div minute mod 60) @ '':'' @
         pad_int 2 (r div second mod 60) @ show_fraction (r mod second) @ ''Z'')"

section \<open>Requests\<close>

record crypto =
  sha256_fn :: "bytes \<Rightarrow> bytes"
  ed25519_verify :: "bytes \<Rightarrow> bytes \<Rightarrow> bytes \<Rightarrow> bool"

definition sha256_text :: "crypto \<Rightarrow> bytes \<Rightarrow> string" where
  "sha256_text c bs = ''sha256:'' @ hex_encode (sha256_fn c bs)"

record feed_registration =
  rg_source_id :: string
  rg_source_kind :: string
  rg_authority :: string
  rg_public_key :: bytes
  rg_active :: bool

definition FeedReplayWindow :: duration where "FeedReplayWindow = 24 * hour"
definition FeedClockSkew :: duration where "FeedClockSkew = 5 * minute"

record feed_request =
  fr_source_id :: string
  fr_source_event_id :: string
  fr_claimed_at :: gotime
  fr_payload :: bytes
  fr_signature :: bytes

record feed_admission =
  fa_source_id :: string
  fa_source_event_id :: string
  fa_payload_sha256 :: string
  fa_key_fingerprint :: string
  fa_received_at :: gotime

definition feed_source_kinds :: "string list" where
  "feed_source_kinds = [''AIS'', ''VTS'', ''RADAR'', ''PORT'', ''AGENCY'', ''SAR'', ''RF'', ''ACOUSTIC'', ''OPTICAL'']"

definition FeedSourceRegistration_Validate :: "feed_registration \<Rightarrow> validation" where
  "FeedSourceRegistration_Validate r =
     first_error
       [check (\<not> incidentIDPattern (rg_source_id r) \<or> \<not> incidentIDPattern (rg_authority r))
          ''source_id and authority must be canonical identifiers'',
        check (rg_source_kind r \<notin> set feed_source_kinds) ''source_kind is unsupported'',
        check (length (rg_public_key r) \<noteq> 32) ''ed25519 public key is required'']"

definition FeedAdmissionRequest_Validate :: "feed_request \<Rightarrow> validation" where
  "FeedAdmissionRequest_Validate r =
     first_error
       [check (\<not> incidentIDPattern (fr_source_id r) \<or> \<not> incidentIDPattern (fr_source_event_id r))
          ''source identifiers are invalid'',
        check (length (fr_payload r) = 0 \<or> 8 * 2 ^ 20 < length (fr_payload r)) ''payload must be between 1 byte and 8 MiB'',
        check (length (fr_signature r) \<noteq> 64) ''ed25519 signature is required'',
        check (fr_claimed_at r = 0) ''claimed_at must be an RFC3339 timestamp inside the signed preimage'']"

definition ValidateFeedFreshness :: "gotime \<Rightarrow> gotime \<Rightarrow> validation" where
  "ValidateFeedFreshness claimedAt now =
     first_error
       [check (claimedAt = 0) ''claimed_at is required'',
        check (claimedAt < now - FeedReplayWindow) ''feed event claimed_at is outside the replay window'',
        check (now + FeedClockSkew < claimedAt) ''feed event claimed_at is beyond the allowed clock skew'']"

definition feedSigningBytes :: "crypto \<Rightarrow> string \<Rightarrow> string \<Rightarrow> gotime \<Rightarrow> bytes \<Rightarrow> bytes" where
  "feedSigningBytes c sourceID eventID claimedAt payload =
     bytes_of_string (sourceID @ [CHR 0x0A] @ eventID @ [CHR 0x0A] @ format_rfc3339nano claimedAt @ [CHR 0x0A] @
       sha256_text c payload)"

definition FeedSigningBytes :: "crypto \<Rightarrow> string \<Rightarrow> string \<Rightarrow> gotime \<Rightarrow> bytes \<Rightarrow> bytes" where
  "FeedSigningBytes = feedSigningBytes"

section \<open>Tables\<close>

record feed_source =
  fs_source_id :: string
  fs_source_kind :: string
  fs_authority :: string
  fs_public_key :: bytes
  fs_key_fingerprint :: string
  fs_active :: bool
  fs_created_at :: gotime
  fs_updated_at :: gotime

record feed_event =
  fe_source_id :: string
  fe_source_event_id :: string
  fe_payload_sha256 :: string
  fe_signature :: bytes
  fe_received_at :: gotime

record feed_revocation =
  rv_source_id :: string
  rv_reason :: string
  rv_revoked_by :: string

record feed_revocation_row = feed_revocation +
  rv_revoked_at :: gotime

record key_rotation =
  kr_source_id :: string
  kr_prior_fingerprint :: string
  kr_prior_key :: bytes
  kr_grace_until :: gotime
  kr_rotated_by :: string
  kr_rotated_at :: gotime

record feed_db = incident_db +
  feed_sources :: "feed_source list"
  feed_events :: "feed_event list"
  feed_revocations :: "feed_revocation_row list"
  key_rotations :: "key_rotation list"

definition find_source :: "string \<Rightarrow> 'a feed_db_scheme \<Rightarrow> feed_source option" where
  "find_source sid db = find (\<lambda>s. fs_source_id s = sid) (feed_sources db)"

definition update_source :: "string \<Rightarrow> (feed_source \<Rightarrow> feed_source) \<Rightarrow> 'a feed_db_scheme \<Rightarrow> 'a feed_db_scheme" where
  "update_source sid f db =
     db\<lparr>feed_sources := map (\<lambda>s. if fs_source_id s = sid then f s else s) (feed_sources db)\<rparr>"

section \<open>Registration\<close>

definition new_source :: "crypto \<Rightarrow> db_env \<Rightarrow> feed_registration \<Rightarrow> feed_source" where
  "new_source c env r =
     \<lparr>fs_source_id = rg_source_id r, fs_source_kind = rg_source_kind r, fs_authority = rg_authority r,
      fs_public_key = rg_public_key r, fs_key_fingerprint = sha256_text c (rg_public_key r),
      fs_active = rg_active r, fs_created_at = pg_ts env (clock env 0), fs_updated_at = pg_ts env (clock env 0)\<rparr>"

definition refresh_source :: "db_env \<Rightarrow> feed_registration \<Rightarrow> feed_source \<Rightarrow> feed_source" where
  "refresh_source env r s =
     s\<lparr>fs_source_kind := rg_source_kind r, fs_authority := rg_authority r, fs_active := rg_active r,
       fs_updated_at := pg_ts env (clock env 0)\<rparr>"

definition RegisterFeedSource ::
  "crypto \<Rightarrow> db_env \<Rightarrow> feed_registration \<Rightarrow> 'a feed_db_scheme \<Rightarrow> unit result \<times> 'a feed_db_scheme" where
  "RegisterFeedSource c env r db =
     run_tx db
      (validated (FeedSourceRegistration_Validate r)
       (db_call env 0 ''begin feed source registration''
        (db_call env 1 ''load feed source''
         (rbind
          (case find_source (rg_source_id r) db of
             None \<Rightarrow> db_call env 2 ''register feed source'' (Inr (db\<lparr>feed_sources := feed_sources db @ [new_source c env r]\<rparr>))
           | Some s \<Rightarrow>
               require (fs_public_key s = rg_public_key r) ErrFeedSourceKeyConflict
                (if fs_source_kind s \<noteq> rg_source_kind r \<or> fs_authority s \<noteq> rg_authority r \<or> fs_active s \<noteq> rg_active r
                 then db_call env 3 ''refresh feed source metadata'' (Inr (update_source (rg_source_id r) (refresh_source env r) db))
                 else Inr db))
          (\<lambda>db'. db_call env 4 ''commit'' (Inr ((), db')))))))"

section \<open>Admission\<close>

definition grace_key :: "gotime \<Rightarrow> string \<Rightarrow> 'a feed_db_scheme \<Rightarrow> bytes option" where
  "grace_key now sid db =
     (case filter (\<lambda>k. kr_source_id k = sid \<and> now < kr_grace_until k) (key_rotations db) of
        [] \<Rightarrow> None
      | k # ks \<Rightarrow> Some (kr_prior_key (arg_min_list (\<lambda>k. - kr_rotated_at k) (k # ks))))"

text \<open>The signature check: the current key, else the most recently retired key still in its grace period.\<close>

definition signature_accepted ::
  "crypto \<Rightarrow> db_env \<Rightarrow> feed_request \<Rightarrow> feed_source \<Rightarrow> 'a feed_db_scheme \<Rightarrow> bool" where
  "signature_accepted c env r s db =
     (let signing = feedSigningBytes c (fr_source_id r) (fr_source_event_id r) (fr_claimed_at r) (fr_payload r) in
      ed25519_verify c (fs_public_key s) signing (fr_signature r) \<or>
      (\<not> db_faults env 2 \<and>
       (case grace_key (clock env 1) (fr_source_id r) db of
          None \<Rightarrow> False
        | Some k \<Rightarrow> ed25519_verify c k signing (fr_signature r))))"

definition admitFeedEventInTransaction ::
  "crypto \<Rightarrow> db_env \<Rightarrow> feed_request \<Rightarrow> 'a feed_db_scheme \<Rightarrow> (feed_admission \<times> 'a feed_db_scheme) result" where
  "admitFeedEventInTransaction c env r db =
     db_call env 1 ''load feed source''
      (case find_source (fr_source_id r) db of
         None \<Rightarrow> Inl ErrNotFound
       | Some s \<Rightarrow>
           require (fs_active s) (EMsg ''feed source is inactive'')
            (validated (ValidateFeedFreshness (fr_claimed_at r) (clock env 0))
              (require (signature_accepted c env r s db) (EMsg ''feed event signature verification failed'')
                (let digest = sha256_text c (fr_payload r); receivedAt = pg_ts env (clock env 2);
                     admission = \<lparr>fa_source_id = fr_source_id r, fa_source_event_id = fr_source_event_id r,
                       fa_payload_sha256 = digest, fa_key_fingerprint = fs_key_fingerprint s, fa_received_at = receivedAt\<rparr> in
                 db_call env 3 ''record feed event''
                  (case find (\<lambda>e. fe_source_id e = fr_source_id r \<and> fe_source_event_id e = fr_source_event_id r) (feed_events db) of
                     None \<Rightarrow>
                       Inr (admission, db\<lparr>feed_events := feed_events db @
                         [\<lparr>fe_source_id = fr_source_id r, fe_source_event_id = fr_source_event_id r,
                           fe_payload_sha256 = digest, fe_signature = fr_signature r, fe_received_at = receivedAt\<rparr>]\<rparr>)
                   | Some e \<Rightarrow>
                       db_call env 4 ''load retained feed event''
                        (require (fe_payload_sha256 e = digest \<and> fe_signature e = fr_signature r) ErrIdempotencyConflict
                          (Inr (admission\<lparr>fa_received_at := fe_received_at e\<rparr>, db))))))))"

definition AdmitFeedEvent ::
  "crypto \<Rightarrow> db_env \<Rightarrow> feed_request \<Rightarrow> 'a feed_db_scheme \<Rightarrow> feed_admission result \<times> 'a feed_db_scheme" where
  "AdmitFeedEvent c env r db =
     run_tx db
      (validated (FeedAdmissionRequest_Validate r)
       (db_call env 0 ''begin feed event admission''
        (rbind (admitFeedEventInTransaction c env r db)
          (\<lambda>(a, db'). db_call env 5 ''commit feed event admission'' (Inr (a, db'))))))"

text \<open>
  The payload of a feed incident is decoded with unknown fields disallowed; then a second
  decode must report the end of input. The decoder is a parameter: \<open>None\<close> when the first
  decode fails, else the request and whether nothing follows it. The calls of the creation
  come after those of the admission: \<open>shift_env\<close> numbers them.
\<close>

definition shift_env :: "nat \<Rightarrow> db_env \<Rightarrow> db_env" where
  "shift_env k env =
     env\<lparr>db_faults := (\<lambda>n. db_faults env (n + k)), clock := (\<lambda>n. clock env (n + k)), new_uuid := (\<lambda>n. new_uuid env (n + k))\<rparr>"

definition feed_binding :: "feed_request \<Rightarrow> create_request \<Rightarrow> validation" where
  "feed_binding r i =
     first_error
       [check (cr_source_event_id i \<noteq> fr_source_id r @ '':'' @ fr_source_event_id r)
          ''signed incident source_event_id must bind source_id and source_event_id'',
        check (cr_created_by i \<noteq> ''feed:'' @ fr_source_id r) ''signed incident created_by must bind source_id'',
        CreateRequest_Validate i]"

definition AdmitFeedIncident ::
  "crypto \<Rightarrow> (bytes \<Rightarrow> (create_request \<times> bool) option) \<Rightarrow> db_env \<Rightarrow> feed_request \<Rightarrow> 'a feed_db_scheme \<Rightarrow>
   (feed_admission \<times> incident) result \<times> 'a feed_db_scheme" where
  "AdmitFeedIncident c decode env r db =
     run_tx db
      (validated (FeedAdmissionRequest_Validate r)
       (case decode (fr_payload r) of
          None \<Rightarrow> Inl (EMsg ''signed feed payload must be one incident creation object'')
        | Some (i, at_eof) \<Rightarrow>
            require at_eof (EMsg ''signed feed payload must contain one incident creation object'')
             (validated (feed_binding r i)
              (db_call env 0 ''begin feed incident transaction''
               (rbind (admitFeedEventInTransaction c env r db)
                (\<lambda>(a, db1).
                  rbind (createIncidentInTransaction (shift_env 6 env) i db1)
                   (\<lambda>(created, db2). db_call env 5 ''commit feed incident transaction'' (Inr ((a, created), db2)))))))))"

section \<open>Revocation\<close>

definition FeedSourceRevocation_Validate :: "feed_revocation \<Rightarrow> validation" where
  "FeedSourceRevocation_Validate r =
     first_error
       [check (\<not> incidentIDPattern (rv_source_id r) \<or> \<not> incidentIDPattern (rv_revoked_by r))
          ''source_id and revoked_by must be canonical identifiers'',
        check (trim_space (rv_reason r) = [] \<or> 512 < length (rv_reason r)) ''reason must be between 1 and 512 characters'']"

definition RevokeFeedSource ::
  "db_env \<Rightarrow> feed_revocation \<Rightarrow> 'a feed_db_scheme \<Rightarrow> unit result \<times> 'a feed_db_scheme" where
  "RevokeFeedSource env r db =
     run_tx db
      (validated (FeedSourceRevocation_Validate r)
       (db_call env 0 ''begin feed source revocation''
        (db_call env 1 ''load feed source''
         (case find_source (rv_source_id r) db of
            None \<Rightarrow> Inl ErrNotFound
          | Some s \<Rightarrow>
              db_call env 2 ''load feed source revocation''
               (case find (\<lambda>v. rv_source_id v = rv_source_id r) (feed_revocations db) of
                  Some v \<Rightarrow>
                    require (rv_reason v = rv_reason r \<and> rv_revoked_by v = rv_revoked_by r) ErrIdempotencyConflict
                     (db_call env 3 ''commit'' (Inr ((), db)))
                | None \<Rightarrow>
                    require (fs_active s) (EMsg ''inactive feed source has no retained revocation evidence'')
                     (db_call env 4 ''deactivate feed source''
                       (db_call env 5 ''record feed source revocation''
                         (db_call env 6 ''commit''
                           (let now = pg_ts env (clock env 0);
                                db1 = update_source (rv_source_id r) (\<lambda>s. s\<lparr>fs_active := False, fs_updated_at := now\<rparr>) db in
                            Inr ((), db1\<lparr>feed_revocations := feed_revocations db1 @
                              [\<lparr>rv_source_id = rv_source_id r, rv_reason = rv_reason r, rv_revoked_by = rv_revoked_by r,
                                rv_revoked_at = now\<rparr>]\<rparr>))))))))))"

section \<open>Key rotation\<close>

record rotation_request =
  ro_source_id :: string
  ro_new_public_key :: bytes
  ro_grace_until :: gotime
  ro_rotated_by :: string

definition FeedSourceKeyRotation_Validate :: "rotation_request \<Rightarrow> gotime \<Rightarrow> validation" where
  "FeedSourceKeyRotation_Validate r now =
     first_error
       [check (\<not> incidentIDPattern (ro_source_id r) \<or> \<not> incidentIDPattern (ro_rotated_by r))
          ''source_id and rotated_by must be canonical identifiers'',
        check (length (ro_new_public_key r) \<noteq> 32) ''new ed25519 public key is required'',
        check (\<not> now < ro_grace_until r \<or> now + 30 * 24 * hour < ro_grace_until r)
          ''grace_until must be after now and no more than 30 days ahead'']"

definition upsert_rotation :: "key_rotation \<Rightarrow> key_rotation list \<Rightarrow> key_rotation list" where
  "upsert_rotation k rows =
     (if \<exists>q \<in> set rows. kr_source_id q = kr_source_id k \<and> kr_prior_fingerprint q = kr_prior_fingerprint k
      then map (\<lambda>q. if kr_source_id q = kr_source_id k \<and> kr_prior_fingerprint q = kr_prior_fingerprint k
                    then q\<lparr>kr_grace_until := kr_grace_until k, kr_rotated_by := kr_rotated_by k, kr_rotated_at := kr_rotated_at k\<rparr>
                    else q) rows
      else rows @ [k])"

definition RotateFeedSourceKey ::
  "crypto \<Rightarrow> db_env \<Rightarrow> rotation_request \<Rightarrow> 'a feed_db_scheme \<Rightarrow> unit result \<times> 'a feed_db_scheme" where
  "RotateFeedSourceKey c env r db =
     (let now = clock env 0 in
      run_tx db
       (validated (FeedSourceKeyRotation_Validate r now)
        (db_call env 0 ''begin feed source key rotation''
         (db_call env 1 ''load feed source''
          (case find_source (ro_source_id r) db of
             None \<Rightarrow> Inl ErrNotFound
           | Some s \<Rightarrow>
               require (fs_active s) (EMsg ''feed source is inactive'')
                (require (fs_public_key s \<noteq> ro_new_public_key r) (EMsg ''new key must differ from active key'')
                  (db_call env 2 ''record prior key''
                    (db_call env 3 ''activate replacement key''
                      (db_call env 4 ''commit feed source key rotation''
                        (let db1 = db\<lparr>key_rotations := upsert_rotation
                               \<lparr>kr_source_id = ro_source_id r, kr_prior_fingerprint = fs_key_fingerprint s,
                                kr_prior_key = fs_public_key s, kr_grace_until = pg_ts env (ro_grace_until r),
                                kr_rotated_by = ro_rotated_by r, kr_rotated_at = pg_ts env now\<rparr> (key_rotations db)\<rparr> in
                         Inr ((), update_source (ro_source_id r)
                            (\<lambda>s. s\<lparr>fs_public_key := ro_new_public_key r,
                                   fs_key_fingerprint := sha256_text c (ro_new_public_key r),
                                   fs_updated_at := pg_ts env now\<rparr>) db1))))))))))) "

section \<open>Steps\<close>

datatype feed_action = Register | Admit | AdmitIncident | Revoke | Rotate | IncidentOp

inductive feed_step :: "crypto \<Rightarrow> feed_action \<Rightarrow> 'a feed_db_scheme \<Rightarrow> 'a feed_db_scheme \<Rightarrow> bool" for c where
  register: "RegisterFeedSource c env r db = (res, db') \<Longrightarrow> feed_step c Register db db'"
| admit: "AdmitFeedEvent c env q db = (res2, db') \<Longrightarrow> feed_step c Admit db db'"
| admit_incident: "AdmitFeedIncident c decode env q db = (res3, db') \<Longrightarrow> feed_step c AdmitIncident db db'"
| revoke: "RevokeFeedSource env v db = (res, db') \<Longrightarrow> feed_step c Revoke db db'"
| rotate: "RotateFeedSourceKey c env k db = (res, db') \<Longrightarrow> feed_step c Rotate db db'"
| incident_op: "incident_step db db' \<Longrightarrow> feed_step c IncidentOp db db'"

text \<open>Sequences of steps with actions from a set.\<close>

inductive feed_reach :: "crypto \<Rightarrow> feed_action set \<Rightarrow> 'a feed_db_scheme \<Rightarrow> 'a feed_db_scheme \<Rightarrow> bool" for c A where
  refl: "feed_reach c A db db"
| step: "feed_reach c A db db' \<Longrightarrow> feed_step c act db' db'' \<Longrightarrow> act \<in> A \<Longrightarrow> feed_reach c A db db''"

definition sources_ok :: "crypto \<Rightarrow> 'a feed_db_scheme \<Rightarrow> bool" where
  "sources_ok c db = (distinct (map fs_source_id (feed_sources db)) \<and>
     (\<forall>s \<in> set (feed_sources db). length (fs_public_key s) = 32 \<and> fs_key_fingerprint s = sha256_text c (fs_public_key s)))"

definition feed_events_ok :: "'a feed_db_scheme \<Rightarrow> bool" where
  "feed_events_ok db = (distinct (map (\<lambda>e. (fe_source_id e, fe_source_event_id e)) (feed_events db)) \<and>
     fe_source_id ` set (feed_events db) \<subseteq> fs_source_id ` set (feed_sources db))"

definition revocations_ok :: "'a feed_db_scheme \<Rightarrow> bool" where
  "revocations_ok db = (distinct (map rv_source_id (feed_revocations db)) \<and>
     rv_source_id ` set (feed_revocations db) \<subseteq> fs_source_id ` set (feed_sources db))"

definition rotations_ok :: "crypto \<Rightarrow> 'a feed_db_scheme \<Rightarrow> bool" where
  "rotations_ok c db = (distinct (map (\<lambda>k. (kr_source_id k, kr_prior_fingerprint k)) (key_rotations db)) \<and>
     (\<forall>k \<in> set (key_rotations db). kr_source_id k \<in> fs_source_id ` set (feed_sources db) \<and> length (kr_prior_key k) = 32 \<and>
        kr_prior_fingerprint k = sha256_text c (kr_prior_key k)))"

definition feed_ok :: "crypto \<Rightarrow> 'a feed_db_scheme \<Rightarrow> bool" where
  "feed_ok c db = (sources_ok c db \<and> feed_events_ok db \<and> revocations_ok db \<and> rotations_ok c db)"

lemmas feed_ok_defs = feed_ok_def sources_ok_def feed_events_ok_def revocations_ok_def rotations_ok_def

section \<open>The incident operations leave the feed tables alone\<close>

lemma createIncident_more: "createIncidentInTransaction env r db = Inr (i, db') \<Longrightarrow> incident_db.more db' = incident_db.more db"
  by (erule createIncident_Inr) simp_all

lemma incident_step_more: "incident_step db db' \<Longrightarrow> incident_db.more db' = incident_db.more db"
proof (induction rule: incident_step.induct)
  case (create r env db i db')
  then show ?case using createIncident_more by blast
next
  case (correlate env key cr db c db')
  then show ?case by (elim Correlate_Inr) simp_all
qed (auto simp: Transition_def Assign_def ClaimOutbox_def MarkOutboxPublished_def MarkOutboxFailed_def run_tx_Inr_iff Get_def
      Let_def incident_outbox_insert_Inr update_incident_def split: option.splits sum.splits)

lemma feed_tables_of_more:
  fixes db db' :: "'a feed_db_scheme"
  assumes "incident_db.more db' = incident_db.more db"
  shows "feed_sources db' = feed_sources db" "feed_events db' = feed_events db"
    "feed_revocations db' = feed_revocations db" "key_rotations db' = key_rotations db"
  using assms by (cases db; cases db'; simp)+

section \<open>What the operations commit\<close>

lemma find_source_SomeD: "find_source sid db = Some s \<Longrightarrow> s \<in> set (feed_sources db) \<and> fs_source_id s = sid"
  unfolding find_source_def by (drule find_SomeD) simp

lemma find_source_None: "find_source sid db = None \<longleftrightarrow> sid \<notin> fs_source_id ` set (feed_sources db)"
  unfolding find_source_def find_None_all by auto

lemma feed_sources_update: "feed_sources (update_source sid f db) = map (\<lambda>s. if fs_source_id s = sid then f s else s) (feed_sources db)"
  by (simp add: update_source_def)

lemma update_source_other [simp]:
  "feed_events (update_source sid f db) = feed_events db" "feed_revocations (update_source sid f db) = feed_revocations db"
  "key_rotations (update_source sid f db) = key_rotations db" "incidents (update_source sid f db) = incidents db"
  by (simp_all add: update_source_def)

lemma find_source_update:
  "(\<And>s. fs_source_id (f s) = fs_source_id s) \<Longrightarrow>
   find_source q (update_source sid f db) = map_option (\<lambda>s. if fs_source_id s = sid then f s else s) (find_source q db)"
  unfolding find_source_def feed_sources_update by (rule find_map_upd) auto

lemma source_ids_update:
  "(\<And>s. fs_source_id (f s) = fs_source_id s) \<Longrightarrow>
   map fs_source_id (map (\<lambda>s. if fs_source_id s = sid then f s else s) ss) = map fs_source_id ss"
  by simp

lemma source_id_set_update:
  assumes "\<And>s. fs_source_id (f s) = fs_source_id s"
  shows "fs_source_id ` set (feed_sources (update_source sid f db)) = fs_source_id ` set (feed_sources db)"
proof -
  have "set (map fs_source_id (feed_sources (update_source sid f db))) = set (map fs_source_id (feed_sources db))"
    unfolding feed_sources_update by (simp only: source_ids_update [OF assms])
  then show ?thesis by (simp only: set_map)
qed

text \<open>What a successful admission has checked.\<close>

lemma admitFeedEvent_Inr:
  assumes "admitFeedEventInTransaction c env r db = Inr (a, db')"
  obtains s where "find_source (fr_source_id r) db = Some s" "fs_active s"
    "ValidateFeedFreshness (fr_claimed_at r) (clock env 0) = None" "signature_accepted c env r s db"
    "a = \<lparr>fa_source_id = fr_source_id r, fa_source_event_id = fr_source_event_id r,
          fa_payload_sha256 = sha256_text c (fr_payload r), fa_key_fingerprint = fs_key_fingerprint s, fa_received_at = fa_received_at a\<rparr>"
    "(\<exists>e \<in> set (feed_events db). fe_source_id e = fr_source_id r \<and> fe_source_event_id e = fr_source_event_id r \<and>
        fe_payload_sha256 e = sha256_text c (fr_payload r) \<and> fe_signature e = fr_signature r \<and>
        fe_received_at e = fa_received_at a \<and> db' = db) \<or>
     ((fr_source_id r, fr_source_event_id r) \<notin> (\<lambda>e. (fe_source_id e, fe_source_event_id e)) ` set (feed_events db) \<and>
      db' = db\<lparr>feed_events := feed_events db @
        [\<lparr>fe_source_id = fr_source_id r, fe_source_event_id = fr_source_event_id r, fe_payload_sha256 = sha256_text c (fr_payload r),
          fe_signature = fr_signature r, fe_received_at = fa_received_at a\<rparr>]\<rparr>)"
proof (cases "find_source (fr_source_id r) db")
  case None
  then show thesis using assms by (simp add: admitFeedEventInTransaction_def)
next
  case (Some s)
  let ?P = "\<lambda>e. fe_source_id e = fr_source_id r \<and> fe_source_event_id e = fr_source_event_id r"
  show thesis
  proof (cases "find ?P (feed_events db)")
    case None
    then have "(fr_source_id r, fr_source_event_id r) \<notin> (\<lambda>e. (fe_source_id e, fe_source_event_id e)) ` set (feed_events db)"
      by (auto simp: find_None_all)
    then show thesis using assms Some None
      by (intro that [of s]) (auto simp: admitFeedEventInTransaction_def Let_def)
  next
    case found: (Some e)
    from find_SomeD [OF found] show thesis using assms Some found
      by (intro that [of s]) (auto simp: admitFeedEventInTransaction_def Let_def)
  qed
qed

lemma incident_tables_of_feed:
  "incidents (db\<lparr>feed_events := e\<rparr>) = incidents db" "incidents (db\<lparr>feed_sources := s\<rparr>) = incidents db"
  "incidents (db\<lparr>key_rotations := k\<rparr>) = incidents db" "incidents (db\<lparr>feed_revocations := v\<rparr>) = incidents db"
  by simp_all

text \<open>Every feed operation either leaves the incident tables alone or creates one incident.\<close>

definition incident_part :: "'a feed_db_scheme \<Rightarrow> incident_db" where
  "incident_part db = incident_db.truncate db"

lemma incident_db_ok_part: "incident_db_ok (incident_part db) = incident_db_ok db"
  by (simp add: incident_ok_defs incident_part_def incident_db.truncate_def event_count_def)

lemma AdmitFeedIncident_Inr:
  assumes "AdmitFeedIncident c decode env r db = (Inr (a, i), db')"
  obtains q db1 where "decode (fr_payload r) = Some (q, True)" "feed_binding r q = None"
    "FeedAdmissionRequest_Validate r = None"
    "admitFeedEventInTransaction c env r db = Inr (a, db1)" "createIncidentInTransaction (shift_env 6 env) q db1 = Inr (i, db')"
  using assms by (auto simp: AdmitFeedIncident_def run_tx_Inr_iff split: option.splits)

lemma feed_events_grow:
  "admitFeedEventInTransaction c env r db = Inr (a, db') \<Longrightarrow> feed_ok c db \<Longrightarrow>
   feed_ok c db' \<and> prefix (feed_events db) (feed_events db') \<and> feed_sources db' = feed_sources db \<and>
   feed_revocations db' = feed_revocations db \<and> incident_part db' = incident_part db"
proof (erule admitFeedEvent_Inr, erule disjE)
  fix s assume "feed_ok c db" and "\<exists>e \<in> set (feed_events db). fe_source_id e = fr_source_id r \<and> fe_source_event_id e = fr_source_event_id r \<and>
        fe_payload_sha256 e = sha256_text c (fr_payload r) \<and> fe_signature e = fr_signature r \<and>
        fe_received_at e = fa_received_at a \<and> db' = db"
  then show ?thesis by auto
next
  fix s assume s: "find_source (fr_source_id r) db = Some s" and ok: "feed_ok c db"
  assume new: "(fr_source_id r, fr_source_event_id r) \<notin> (\<lambda>e. (fe_source_id e, fe_source_event_id e)) ` set (feed_events db) \<and>
      db' = db\<lparr>feed_events := feed_events db @
        [\<lparr>fe_source_id = fr_source_id r, fe_source_event_id = fr_source_event_id r, fe_payload_sha256 = sha256_text c (fr_payload r),
          fe_signature = fr_signature r, fe_received_at = fa_received_at a\<rparr>]\<rparr>"
  have "fr_source_id r \<in> fs_source_id ` set (feed_sources db)" using find_source_SomeD [OF s] by force
  then have "feed_events_ok db'" using new ok by (simp add: feed_ok_defs)
  then show ?thesis using new ok
    by (simp add: feed_ok_def sources_ok_def revocations_ok_def rotations_ok_def incident_part_def incident_db.truncate_def)
qed

lemma sources_ok_update:
  assumes "sources_ok c db" and "\<And>s. fs_source_id (f s) = fs_source_id s"
    and "\<And>s. s \<in> set (feed_sources db) \<Longrightarrow> fs_source_id s = sid \<Longrightarrow> length (fs_public_key (f s)) = 32 \<and> fs_key_fingerprint (f s) = sha256_text c (fs_public_key (f s))"
  shows "sources_ok c (update_source sid f db)"
proof -
  have "distinct (map fs_source_id (feed_sources (update_source sid f db)))"
    unfolding feed_sources_update source_ids_update [OF assms(2)] using assms(1) by (simp add: sources_ok_def)
  then show ?thesis using assms(1,3) by (auto simp: sources_ok_def feed_sources_update)
qed

lemma feed_ok_update_source:
  assumes "feed_ok c db" and "\<And>s. fs_source_id (f s) = fs_source_id s"
    and "\<And>s. s \<in> set (feed_sources db) \<Longrightarrow> fs_source_id s = sid \<Longrightarrow> length (fs_public_key (f s)) = 32 \<and> fs_key_fingerprint (f s) = sha256_text c (fs_public_key (f s))"
  shows "feed_ok c (update_source sid f db)"
proof -
  have "sources_ok c (update_source sid f db)"
    using assms by (intro sources_ok_update) (auto simp: feed_ok_def)
  then show ?thesis
    using assms(1) source_id_set_update [OF assms(2), of sid db]
    by (simp add: feed_ok_def feed_events_ok_def revocations_ok_def rotations_ok_def)
qed

lemma upsert_rotation_keys:
  "distinct (map (\<lambda>k. (kr_source_id k, kr_prior_fingerprint k)) rows) \<Longrightarrow>
   distinct (map (\<lambda>k. (kr_source_id k, kr_prior_fingerprint k)) (upsert_rotation k rows))"
proof -
  let ?key = "\<lambda>k. (kr_source_id k, kr_prior_fingerprint k)"
  let ?f = "\<lambda>q. if kr_source_id q = kr_source_id k \<and> kr_prior_fingerprint q = kr_prior_fingerprint k
                    then q\<lparr>kr_grace_until := kr_grace_until k, kr_rotated_by := kr_rotated_by k, kr_rotated_at := kr_rotated_at k\<rparr>
                    else q"
  have "map ?key (map ?f rows) = map ?key rows" by simp
  then show "distinct (map ?key rows) \<Longrightarrow> distinct (map ?key (upsert_rotation k rows))"
    unfolding upsert_rotation_def
    by (cases "\<exists>q \<in> set rows. kr_source_id q = kr_source_id k \<and> kr_prior_fingerprint q = kr_prior_fingerprint k")
       (simp_all only: if_True if_False, force)
qed

lemma upsert_rotation_set:
  assumes "q \<in> set (upsert_rotation k rows)"
  shows "q = k \<or> (\<exists>p \<in> set rows. kr_source_id q = kr_source_id p \<and> kr_prior_key q = kr_prior_key p \<and> kr_prior_fingerprint q = kr_prior_fingerprint p)"
  using assms by (fastforce simp: upsert_rotation_def split: if_splits)

definition same_keys :: "'a feed_db_scheme \<Rightarrow> 'a feed_db_scheme \<Rightarrow> bool" where
  "same_keys db db' = (\<forall>sid s. find_source sid db = Some s \<longrightarrow>
     (\<exists>s'. find_source sid db' = Some s' \<and> fs_public_key s' = fs_public_key s \<and> fs_key_fingerprint s' = fs_key_fingerprint s))"

lemma same_keys_refl [simp]: "feed_sources db' = feed_sources db \<Longrightarrow> same_keys db db'"
  by (simp add: same_keys_def find_source_def)

lemma same_keys_update:
  assumes "\<And>s. fs_source_id (f s) = fs_source_id s" "\<And>s. fs_public_key (f s) = fs_public_key s"
    "\<And>s. fs_key_fingerprint (f s) = fs_key_fingerprint s"
  shows "same_keys db (update_source sid f db)"
  using assms by (simp add: same_keys_def find_source_update)

text \<open>What the evidence tables can become: they only grow.\<close>

definition evidence_grows :: "'a feed_db_scheme \<Rightarrow> 'a feed_db_scheme \<Rightarrow> bool" where
  "evidence_grows db db' = (prefix (feed_events db) (feed_events db') \<and> prefix (feed_revocations db) (feed_revocations db') \<and>
     fs_source_id ` set (feed_sources db) \<subseteq> fs_source_id ` set (feed_sources db'))"

lemma RegisterFeedSource_step:
  assumes "RegisterFeedSource c env r db = (res, db')" and ok: "feed_ok c db"
  shows "feed_ok c db' \<and> evidence_grows db db' \<and> same_keys db db' \<and> incident_part db' = incident_part db"
proof (cases res)
  case (Inl e)
  then have "db' = db" using assms(1) by (auto simp: RegisterFeedSource_def elim: run_tx_cases)
  then show ?thesis using ok by (simp add: evidence_grows_def)
next
  case (Inr u)
  then have v: "FeedSourceRegistration_Validate r = None" using assms(1) by (simp add: RegisterFeedSource_def run_tx_Inr_iff)
  let ?sid = "rg_source_id r"
  have src: "fs_source_id (refresh_source env r s) = fs_source_id s" "fs_public_key (refresh_source env r s) = fs_public_key s"
    "fs_key_fingerprint (refresh_source env r s) = fs_key_fingerprint s" for s by (simp_all add: refresh_source_def)
  have "(find_source ?sid db = None \<and> db' = db\<lparr>feed_sources := feed_sources db @ [new_source c env r]\<rparr>) \<or>
      db' = update_source ?sid (refresh_source env r) db \<or> db' = db"
    using assms(1) Inr
    by (cases "find_source ?sid db") (auto simp: RegisterFeedSource_def run_tx_Inr_iff split: if_splits)
  then consider (new) "?sid \<notin> fs_source_id ` set (feed_sources db)" "db' = db\<lparr>feed_sources := feed_sources db @ [new_source c env r]\<rparr>"
    | (refreshed) "db' = update_source ?sid (refresh_source env r) db" | (same) "db' = db"
    unfolding find_source_None by blast
  then show ?thesis
  proof cases
    case new
    have n: "fs_source_id (new_source c env r) = ?sid" "length (fs_public_key (new_source c env r)) = 32"
      "fs_key_fingerprint (new_source c env r) = sha256_text c (fs_public_key (new_source c env r))"
      using v by (simp_all add: new_source_def FeedSourceRegistration_Validate_def)
    have "feed_ok c db'" using ok new n by (auto simp: feed_ok_defs)
    moreover have "same_keys db db'"
      using new by (auto simp: same_keys_def find_source_def find_append_Some)
    ultimately show ?thesis using new by (auto simp: evidence_grows_def incident_part_def incident_db.truncate_def)
  next
    case refreshed
    have "feed_ok c db'" unfolding refreshed
      using ok by (intro feed_ok_update_source) (auto simp: src feed_ok_defs)
    moreover have "same_keys db db'" unfolding refreshed by (intro same_keys_update) (simp_all add: src)
    ultimately show ?thesis
      using source_id_set_update [of "refresh_source env r" ?sid db]
      by (simp add: refreshed src evidence_grows_def incident_part_def update_source_def incident_db.truncate_def)
  next
    case same
    then show ?thesis using ok by (simp add: evidence_grows_def)
  qed
qed

lemma RevokeFeedSource_step:
  assumes "RevokeFeedSource env r db = (res, db')" and ok: "feed_ok c db"
  shows "feed_ok c db' \<and> evidence_grows db db' \<and> same_keys db db' \<and> incident_part db' = incident_part db"
proof (cases "db' = db")
  case True
  then show ?thesis using ok by (simp add: evidence_grows_def)
next
  case False
  let ?now = "pg_ts env (clock env 0)" and ?sid = "rv_source_id r"
  let ?f = "\<lambda>s. s\<lparr>fs_active := False, fs_updated_at := ?now\<rparr>"
  let ?row = "\<lparr>rv_source_id = ?sid, rv_reason = rv_reason r, rv_revoked_by = rv_revoked_by r, rv_revoked_at = ?now\<rparr>"
  let ?db1 = "update_source ?sid ?f db"
  have p: "find_source ?sid db \<noteq> None" "?sid \<notin> rv_source_id ` set (feed_revocations db)"
    "db' = ?db1\<lparr>feed_revocations := feed_revocations db @ [?row]\<rparr>"
    using assms(1) False
    by (auto simp: RevokeFeedSource_def Let_def find_None_all elim!: run_tx_cases split: option.splits)
  have "feed_ok c ?db1" using ok by (intro feed_ok_update_source) (auto simp: feed_ok_defs)
  moreover have "?sid \<in> fs_source_id ` set (feed_sources ?db1)"
    using p(1) source_id_set_update [of ?f ?sid db] by (simp add: find_source_None)
  ultimately have "feed_ok c db'" using p(2,3) by (simp add: feed_ok_defs)
  moreover have "same_keys db ?db1" by (intro same_keys_update) simp_all
  then have "same_keys db db'" using p(3) by (simp add: same_keys_def find_source_def)
  ultimately show ?thesis
    using p(3) source_id_set_update [of ?f ?sid db]
    by (simp add: evidence_grows_def incident_part_def update_source_def incident_db.truncate_def)
qed

lemma RotateFeedSourceKey_step:
  assumes "RotateFeedSourceKey c env r db = (res, db')" and ok: "feed_ok c db"
  shows "feed_ok c db' \<and> evidence_grows db db' \<and> incident_part db' = incident_part db"
proof (cases "db' = db")
  case True
  then show ?thesis using ok by (simp add: evidence_grows_def)
next
  case False
  let ?now = "clock env 0" and ?sid = "ro_source_id r"
  let ?f = "\<lambda>s. s\<lparr>fs_public_key := ro_new_public_key r, fs_key_fingerprint := sha256_text c (ro_new_public_key r), fs_updated_at := pg_ts env ?now\<rparr>"
  let ?k = "\<lambda>s. \<lparr>kr_source_id = ?sid, kr_prior_fingerprint = fs_key_fingerprint s, kr_prior_key = fs_public_key s,
     kr_grace_until = pg_ts env (ro_grace_until r), kr_rotated_by = ro_rotated_by r, kr_rotated_at = pg_ts env ?now\<rparr>"
  obtain s where s: "find_source ?sid db = Some s" and v: "FeedSourceKeyRotation_Validate r ?now = None"
    and db'': "db' = update_source ?sid ?f (db\<lparr>key_rotations := upsert_rotation (?k s) (key_rotations db)\<rparr>)"
    using assms(1) False
    by (auto simp: RotateFeedSourceKey_def Let_def elim!: run_tx_cases split: option.splits)
  define k where "k = ?k s"
  have k: "kr_source_id k = ?sid" "kr_prior_fingerprint k = fs_key_fingerprint s" "kr_prior_key k = fs_public_key s"
    by (simp_all add: k_def)
  note db' = db'' [folded k_def]
  let ?db1 = "db\<lparr>key_rotations := upsert_rotation k (key_rotations db)\<rparr>"
  have sin: "s \<in> set (feed_sources db)" "fs_source_id s = ?sid" using find_source_SomeD [OF s] by auto
  have sid: "?sid \<in> fs_source_id ` set (feed_sources db)" using s find_source_None [of ?sid db] by auto
  have "rotations_ok c ?db1"
    unfolding rotations_ok_def
  proof (intro conjI ballI)
    show "distinct (map (\<lambda>k. (kr_source_id k, kr_prior_fingerprint k)) (key_rotations ?db1))"
      using ok by (simp add: upsert_rotation_keys feed_ok_defs)
    fix q assume "q \<in> set (key_rotations ?db1)"
    then have q: "q \<in> set (upsert_rotation k (key_rotations db))" by simp
    from upsert_rotation_set [OF q] have "kr_source_id q \<in> fs_source_id ` set (feed_sources db) \<and> length (kr_prior_key q) = 32 \<and>
        kr_prior_fingerprint q = sha256_text c (kr_prior_key q)"
      using ok sin k sid by (auto simp: feed_ok_defs)
    then show "kr_source_id q \<in> fs_source_id ` set (feed_sources ?db1)" "length (kr_prior_key q) = 32"
      "kr_prior_fingerprint q = sha256_text c (kr_prior_key q)" by simp_all
  qed
  then have ok1: "feed_ok c ?db1" using ok by (simp add: feed_ok_def sources_ok_def feed_events_ok_def revocations_ok_def)
  have "feed_ok c db'" unfolding db'
    using v by (intro feed_ok_update_source [OF ok1]) (simp_all add: FeedSourceKeyRotation_Validate_def)
  then show ?thesis
    using source_id_set_update [of ?f ?sid ?db1]
    by (simp add: db' evidence_grows_def incident_part_def update_source_def incident_db.truncate_def)
qed


lemma evidence_grows_trans: "evidence_grows a b \<Longrightarrow> evidence_grows b c \<Longrightarrow> evidence_grows a c"
  by (auto simp: evidence_grows_def intro: prefix_order.trans)

lemma incident_part_tables:
  "incident_part db' = incident_part db \<Longrightarrow> incidents db' = incidents db \<and> (incident_db_ok db' = incident_db_ok db)"
  using incident_db_ok_part [of db] incident_db_ok_part [of db']
  by (auto simp: incident_part_def incident_db.truncate_def)

lemma more_step:
  fixes db db' :: "'a feed_db_scheme"
  assumes "incident_db.more db' = incident_db.more db" and "feed_ok c db"
  shows "feed_ok c db' \<and> evidence_grows db db' \<and> same_keys db db'"
  using assms(2) feed_tables_of_more [OF assms(1)] by (simp add: feed_ok_defs evidence_grows_def)

lemma feed_step_ok:
  assumes "feed_step c act db db'" and "feed_ok c db" and "incident_db_ok db"
  shows "feed_ok c db' \<and> incident_db_ok db' \<and> evidence_grows db db' \<and> incidents_evolve (incidents db) (incidents db') \<and>
    (act \<noteq> Rotate \<longrightarrow> same_keys db db')"
  using assms
proof cases
  case (register env r res)
  then show ?thesis using RegisterFeedSource_step [OF _ assms(2)] incident_part_tables [of db' db] assms(3) by auto
next
  case (admit env q res)
  then show ?thesis
    using assms(2,3) feed_events_grow [OF _ assms(2)] incident_part_tables [of db' db]
    by (auto simp: AdmitFeedEvent_def evidence_grows_def elim!: run_tx_cases)
next
  case (admit_incident decode env q res)
  show ?thesis
  proof (cases res)
    case (Inl e)
    then have "db' = db" using admit_incident by (auto simp: AdmitFeedIncident_def elim: run_tx_cases)
    then show ?thesis using assms by (simp add: evidence_grows_def)
  next
    case (Inr ai)
    obtain a i where "ai = (a, i)" by (cases ai)
    then have "AdmitFeedIncident c decode env q db = (Inr (a, i), db')" using admit_incident Inr by simp
    then obtain w db1 where w: "feed_binding q w = None" and a: "admitFeedEventInTransaction c env q db = Inr (a, db1)"
      and cr: "createIncidentInTransaction (shift_env 6 env) w db1 = Inr (i, db')"
      by (rule AdmitFeedIncident_Inr)
    have g: "feed_ok c db1" "evidence_grows db db1" "same_keys db db1" "incidents db1 = incidents db" "incident_db_ok db1"
      using feed_events_grow [OF a assms(2)] incident_part_tables [of db1 db] assms(3) by (auto simp: evidence_grows_def)
    have st: "incident_step db1 db'"
      using w cr by (intro incident_step.create [of w]) (auto simp: feed_binding_def)
    note m = more_step [OF createIncident_more [OF cr] g(1)]
    have "same_keys db db'" using g(3) m feed_tables_of_more(1) [OF createIncident_more [OF cr]]
      by (simp add: same_keys_def find_source_def)
    then show ?thesis
      using m g evidence_grows_trans incident_step_ok [OF st g(5)] incident_step_evolve [OF st g(5)] by auto
  qed
next
  case (revoke env v res)
  then show ?thesis using RevokeFeedSource_step [OF _ assms(2)] incident_part_tables [of db' db] assms(3) by auto
next
  case (rotate env k res)
  then show ?thesis using RotateFeedSourceKey_step [OF _ assms(2)] incident_part_tables [of db' db] assms(3) by auto
next
  case incident_op
  then show ?thesis
    using more_step [OF incident_step_more assms(2)] incident_step_ok incident_step_evolve assms(3) by blast
qed

lemma feed_reach_ok:
  assumes "feed_reach c A db db'" and "feed_ok c db" and "incident_db_ok db"
  shows "feed_ok c db' \<and> incident_db_ok db' \<and> evidence_grows db db' \<and> incidents_evolve (incidents db) (incidents db')"
  using assms
proof (induction rule: feed_reach.induct)
  case (refl db)
  then show ?case by (simp add: evidence_grows_def)
next
  case (step db db' act db'')
  then show ?case
    using feed_step_ok [OF step.hyps(2)] evidence_grows_trans incidents_evolve_trans by blast
qed

text \<open>
  C29. Safety of the feed tables under every sequence of registrations, admissions, feed
  incidents, revocations, rotations and incident operations: fingerprints always belong to the
  stored 32-byte keys, every admitted event, revocation and retired key belongs to a registered
  source, the admitted events and the revocations are append-only, the incident tables keep
  their invariant, and no operation but the rotation ceremony ever changes the key of a source.
\<close>

theorem feed_reach_safe:
  assumes "feed_reach c UNIV db db'" and "feed_ok c db" and "incident_db_ok db"
  shows "feed_ok c db' \<and> incident_db_ok db' \<and> evidence_grows db db' \<and> incidents_evolve (incidents db) (incidents db') \<and>
    (\<forall>act db''. feed_step c act db' db'' \<longrightarrow> act \<noteq> Rotate \<longrightarrow> same_keys db' db'')"
  using feed_reach_ok [OF assms] feed_step_ok by blast

text \<open>A concrete crypto: a constant digest, and the signature must be the reversed key doubled.\<close>

definition toy_crypto :: crypto where
  "toy_crypto = \<lparr>sha256_fn = (\<lambda>bs. replicate 32 (of_nat (length bs))), ed25519_verify = (\<lambda>k m s. s = k @ k)\<rparr>"

definition empty_feed_db :: feed_db where
  "empty_feed_db = \<lparr>incidents = [], correlations = [], assignments = [], incident_outbox = [],
     feed_sources = [], feed_events = [], feed_revocations = [], key_rotations = []\<rparr>"

lemma empty_feed_db_ok: "feed_ok c empty_feed_db" "incident_db_ok empty_feed_db"
  by (simp_all add: feed_ok_defs incident_ok_defs empty_feed_db_def event_count_def)

definition sample_registration :: feed_registration where
  "sample_registration = \<lparr>rg_source_id = ''ais-1'', rg_source_kind = ''AIS'', rg_authority = ''nimasa'',
     rg_public_key = replicate 32 7, rg_active = True\<rparr>"

lemma sample_registration_valid: "FeedSourceRegistration_Validate sample_registration = None"
  by code_simp

definition sample_feed_db :: feed_db where
  "sample_feed_db = empty_feed_db\<lparr>feed_sources := [new_source toy_crypto (calm_env unix_epoch ''u'') sample_registration]\<rparr>"

lemma sample_registered:
  "RegisterFeedSource toy_crypto (calm_env unix_epoch ''u'') sample_registration empty_feed_db = (Inr (), sample_feed_db)"
  by (simp add: RegisterFeedSource_def sample_registration_valid find_source_def empty_feed_db_def sample_feed_db_def)

lemma sample_feed_reach: "feed_reach toy_crypto UNIV empty_feed_db sample_feed_db"
  by (rule feed_reach.step [OF feed_reach.refl feed_step.register [OF sample_registered] UNIV_I])

theorem feed_reach_safe_witness:
  "feed_reach toy_crypto UNIV empty_feed_db sample_feed_db \<and> feed_ok toy_crypto sample_feed_db \<and> incident_db_ok sample_feed_db"
  using feed_reach_safe [OF sample_feed_reach empty_feed_db_ok] sample_feed_reach by blast

section \<open>Authenticity and replay\<close>

lemma grace_key_SomeD:
  assumes "grace_key now sid db = Some k"
  shows "\<exists>q \<in> set (key_rotations db). kr_source_id q = sid \<and> now < kr_grace_until q \<and> kr_prior_key q = k"
proof -
  let ?xs = "filter (\<lambda>k. kr_source_id k = sid \<and> now < kr_grace_until k) (key_rotations db)"
  have ne: "?xs \<noteq> []" and k: "k = kr_prior_key (arg_min_list (\<lambda>k. - kr_rotated_at k) ?xs)"
    using assms by (auto simp: grace_key_def split: list.splits)
  show ?thesis using arg_min_list_in [OF ne, of "\<lambda>k. - kr_rotated_at k"] k by auto
qed

lemma ValidateFeedFreshness_None:
  "ValidateFeedFreshness t now = None \<longleftrightarrow> t \<noteq> 0 \<and> now - FeedReplayWindow \<le> t \<and> t \<le> now + FeedClockSkew"
  by (auto simp: ValidateFeedFreshness_def)

lemma AdmitFeedEvent_Inr_iff:
  "AdmitFeedEvent c env r db = (Inr a, db') \<longleftrightarrow> FeedAdmissionRequest_Validate r = None \<and> \<not> db_faults env 0 \<and> \<not> db_faults env 5 \<and>
     admitFeedEventInTransaction c env r db = Inr (a, db')"
  by (auto simp: AdmitFeedEvent_def run_tx_Inr_iff)

text \<open>
  C17. An admitted feed event is authentic and fresh: its source is registered and active, its
  signed time lies between 24 hours before and 5 minutes after the check, and its signature over
  source, event, time and payload digest verifies under the current key of the source or under a
  retired key of that source whose grace period has not ended. The retained row carries exactly
  this digest and signature.
\<close>

theorem AdmitFeedEvent_authentic:
  assumes "AdmitFeedEvent c env r db = (Inr a, db')"
  shows "\<exists>s. find_source (fr_source_id r) db = Some s \<and> fs_active s \<and>
    clock env 0 - 24 * hour \<le> fr_claimed_at r \<and> fr_claimed_at r \<le> clock env 0 + 5 * minute \<and>
    (\<exists>k. ed25519_verify c k (feedSigningBytes c (fr_source_id r) (fr_source_event_id r) (fr_claimed_at r) (fr_payload r)) (fr_signature r) \<and>
       (k = fs_public_key s \<or>
        (\<exists>q \<in> set (key_rotations db). kr_source_id q = fr_source_id r \<and> clock env 1 < kr_grace_until q \<and> kr_prior_key q = k))) \<and>
    (\<exists>e \<in> set (feed_events db'). fe_source_id e = fr_source_id r \<and> fe_source_event_id e = fr_source_event_id r \<and>
       fe_payload_sha256 e = sha256_text c (fr_payload r) \<and> fe_signature e = fr_signature r)"
proof -
  have "admitFeedEventInTransaction c env r db = Inr (a, db')" using assms by (simp add: AdmitFeedEvent_Inr_iff)
  then obtain s where s: "find_source (fr_source_id r) db = Some s" "fs_active s"
    and f: "ValidateFeedFreshness (fr_claimed_at r) (clock env 0) = None" and sig: "signature_accepted c env r s db"
    and e: "\<exists>e \<in> set (feed_events db'). fe_source_id e = fr_source_id r \<and> fe_source_event_id e = fr_source_event_id r \<and>
       fe_payload_sha256 e = sha256_text c (fr_payload r) \<and> fe_signature e = fr_signature r"
    by (rule admitFeedEvent_Inr) (erule disjE, fastforce, fastforce)
  have "\<exists>k. ed25519_verify c k (feedSigningBytes c (fr_source_id r) (fr_source_event_id r) (fr_claimed_at r) (fr_payload r)) (fr_signature r) \<and>
       (k = fs_public_key s \<or>
        (\<exists>q \<in> set (key_rotations db). kr_source_id q = fr_source_id r \<and> clock env 1 < kr_grace_until q \<and> kr_prior_key q = k))"
    using sig unfolding signature_accepted_def Let_def by (auto dest: grace_key_SomeD split: option.splits)
  then show ?thesis
    using s f e by (auto simp: ValidateFeedFreshness_None FeedReplayWindow_def FeedClockSkew_def)
qed


definition sample_feed_request :: feed_request where
  "sample_feed_request = \<lparr>fr_source_id = ''ais-1'', fr_source_event_id = ''e1'', fr_claimed_at = unix_epoch,
     fr_payload = [1], fr_signature = replicate 64 7\<rparr>"

lemma sample_feed_request_valid: "FeedAdmissionRequest_Validate sample_feed_request = None"
proof -
  have "incidentIDPattern ''ais-1''" "incidentIDPattern ''e1''" by code_simp+
  then show ?thesis
    by (simp add: FeedAdmissionRequest_Validate_def sample_feed_request_def unix_epoch_def second_def)
qed

lemma sample_source_found:
  "find_source (fr_source_id sample_feed_request) sample_feed_db = Some (new_source toy_crypto (calm_env unix_epoch ''u'') sample_registration)"
  by (simp add: find_source_def sample_feed_db_def new_source_def sample_registration_def sample_feed_request_def)

lemma sample_signature:
  "signature_accepted toy_crypto env sample_feed_request (new_source toy_crypto (calm_env unix_epoch ''u'') sample_registration) db"
proof -
  have "(replicate 64 7 :: bytes) = replicate 32 7 @ replicate 32 7" by (simp flip: replicate_add)
  then show ?thesis
    by (simp add: signature_accepted_def Let_def toy_crypto_def sample_feed_request_def new_source_def sample_registration_def)
qed

lemma sample_admitted:
  "\<exists>a db'. AdmitFeedEvent toy_crypto (calm_env unix_epoch ''u'') sample_feed_request sample_feed_db = (Inr a, db')"
proof -
  have "ValidateFeedFreshness (fr_claimed_at sample_feed_request) unix_epoch = None"
    by (simp add: ValidateFeedFreshness_None sample_feed_request_def FeedReplayWindow_def FeedClockSkew_def unix_epoch_def duration_defs)
  moreover have "fs_active (new_source toy_crypto (calm_env unix_epoch ''u'') sample_registration)"
    by (simp add: new_source_def sample_registration_def)
  moreover have "feed_events sample_feed_db = []" by (simp add: sample_feed_db_def empty_feed_db_def)
  ultimately show ?thesis
    by (simp add: AdmitFeedEvent_Inr_iff sample_feed_request_valid admitFeedEventInTransaction_def sample_source_found Let_def
        sample_signature)
qed

theorem AdmitFeedEvent_authentic_witness:
  "\<exists>a db'. AdmitFeedEvent toy_crypto (calm_env unix_epoch ''u'') sample_feed_request sample_feed_db = (Inr a, db') \<and>
     (\<exists>s. find_source ''ais-1'' sample_feed_db = Some s \<and> fs_active s)"
proof -
  obtain a db' where a: "AdmitFeedEvent toy_crypto (calm_env unix_epoch ''u'') sample_feed_request sample_feed_db = (Inr a, db')"
    using sample_admitted by blast
  have "fr_source_id sample_feed_request = ''ais-1''" by (simp add: sample_feed_request_def)
  then show ?thesis using a AdmitFeedEvent_authentic [OF a] by auto
qed

lemma admitted_event:
  assumes "AdmitFeedEvent c env r db = (Inr a, db')"
  shows "\<exists>e \<in> set (feed_events db'). fe_source_id e = fr_source_id r \<and> fe_source_event_id e = fr_source_event_id r \<and>
    fe_payload_sha256 e = sha256_text c (fr_payload r) \<and> fe_signature e = fr_signature r \<and> fe_received_at e = fa_received_at a"
proof -
  have "admitFeedEventInTransaction c env r db = Inr (a, db')" using assms by (simp add: AdmitFeedEvent_Inr_iff)
  then show ?thesis by (rule admitFeedEvent_Inr) (erule disjE, fastforce, fastforce)
qed

lemma feed_event_unique:
  assumes "feed_ok c db" and "d \<in> set (feed_events db)" and "e \<in> set (feed_events db)"
    and "fe_source_id d = fe_source_id e" and "fe_source_event_id d = fe_source_event_id e"
  shows "d = e"
  by (rule distinct_key_eq [of "\<lambda>e. (fe_source_id e, fe_source_event_id e)" "feed_events db"])
     (use assms in \<open>auto simp: feed_ok_defs\<close>)

text \<open>
  Replay discipline: once an event of a source has been admitted, then after any further
  operations a second admission under the same source and event ids never writes anything, and it
  is accepted only when its payload has the retained digest and its signature is the retained
  one; the answer then carries the original reception time.
\<close>

theorem AdmitFeedEvent_replay:
  assumes "AdmitFeedEvent c env r db = (Inr a, db1)" and "feed_ok c db" and "incident_db_ok db"
    and "feed_reach c UNIV db1 db2" and "AdmitFeedEvent c env' q db2 = (res, db3)"
    and "fr_source_id q = fr_source_id r" and "fr_source_event_id q = fr_source_event_id r"
  shows "db3 = db2 \<and> (\<forall>a'. res = Inr a' \<longrightarrow> sha256_text c (fr_payload q) = sha256_text c (fr_payload r) \<and>
    fr_signature q = fr_signature r \<and> fa_received_at a' = fa_received_at a)"
proof (cases res)
  case (Inl e)
  then show ?thesis using assms(5) by (auto simp: AdmitFeedEvent_def elim: run_tx_cases)
next
  case (Inr a')
  have one: "feed_ok c db1" "incident_db_ok db1" using feed_step_ok [OF feed_step.admit [OF assms(1)] assms(2,3)] by auto
  note two = feed_reach_ok [OF assms(4) one]
  obtain d where d: "d \<in> set (feed_events db2)" "fe_source_id d = fr_source_id r" "fe_source_event_id d = fr_source_event_id r"
    "fe_payload_sha256 d = sha256_text c (fr_payload r)" "fe_signature d = fr_signature r" "fe_received_at d = fa_received_at a"
    using admitted_event [OF assms(1)] two by (auto simp: evidence_grows_def dest: set_mono_prefix)
  have "admitFeedEventInTransaction c env' q db2 = Inr (a', db3)" using assms(5) Inr by (simp add: AdmitFeedEvent_Inr_iff)
  then show ?thesis
  proof (rule admitFeedEvent_Inr, elim disjE bexE)
    fix e assume e: "e \<in> set (feed_events db2)" "fe_source_id e = fr_source_id q \<and> fe_source_event_id e = fr_source_event_id q \<and>
        fe_payload_sha256 e = sha256_text c (fr_payload q) \<and> fe_signature e = fr_signature q \<and>
        fe_received_at e = fa_received_at a' \<and> db3 = db2"
    have "d = e" using feed_event_unique [of c db2 d e] two d e assms(6,7) by simp
    then show ?thesis using d e(2) Inr by simp
  next
    assume "(fr_source_id q, fr_source_event_id q) \<notin> (\<lambda>e. (fe_source_id e, fe_source_event_id e)) ` set (feed_events db2) \<and>
      db3 = db2\<lparr>feed_events := feed_events db2 @ [\<lparr>fe_source_id = fr_source_id q, fe_source_event_id = fr_source_event_id q,
        fe_payload_sha256 = sha256_text c (fr_payload q), fe_signature = fr_signature q, fe_received_at = fa_received_at a'\<rparr>]\<rparr>"
    then show ?thesis using d(1-3) assms(6,7) by force
  qed
qed

theorem AdmitFeedEvent_replay_witness:
  "\<exists>a db1. AdmitFeedEvent toy_crypto (calm_env unix_epoch ''u'') sample_feed_request sample_feed_db = (Inr a, db1) \<and>
     snd (AdmitFeedEvent toy_crypto (calm_env unix_epoch ''u'') (sample_feed_request\<lparr>fr_payload := [1, 2]\<rparr>) db1) = db1"
proof -
  obtain a db1 where a: "AdmitFeedEvent toy_crypto (calm_env unix_epoch ''u'') sample_feed_request sample_feed_db = (Inr a, db1)"
    using sample_admitted by blast
  have ok: "feed_ok toy_crypto sample_feed_db" "incident_db_ok sample_feed_db"
    using feed_reach_ok [OF sample_feed_reach empty_feed_db_ok] by auto
  show ?thesis
    using a AdmitFeedEvent_replay [OF a ok feed_reach.refl, of "calm_env unix_epoch ''u''" "sample_feed_request\<lparr>fr_payload := [1, 2]\<rparr>"]
    by (cases "AdmitFeedEvent toy_crypto (calm_env unix_epoch ''u'') (sample_feed_request\<lparr>fr_payload := [1, 2]\<rparr>) db1") auto
qed


section \<open>Revocation and rotation\<close>

definition inactive_source :: "string \<Rightarrow> 'a feed_db_scheme \<Rightarrow> bool" where
  "inactive_source sid db = (\<exists>s. find_source sid db = Some s \<and> \<not> fs_active s)"

lemma inactive_no_admission: "inactive_source (fr_source_id r) db \<Longrightarrow> admitFeedEventInTransaction c env r db \<noteq> Inr x"
  by (cases x) (auto simp: inactive_source_def elim!: admitFeedEvent_Inr)

lemma inactive_update:
  assumes "inactive_source sid db" and "\<And>s. fs_source_id (f s) = fs_source_id s" and "\<And>s. fs_active (f s) \<Longrightarrow> fs_active s"
  shows "inactive_source sid (update_source q f db)"
proof -
  obtain s where "find_source sid db = Some s" "\<not> fs_active s" using assms(1) by (auto simp: inactive_source_def)
  then show ?thesis
    using assms(2,3) by (intro exI [of _ "if fs_source_id s = q then f s else s"] inactive_source_def [THEN iffD2])
      (auto simp: find_source_update)
qed

lemma inactive_cong: "feed_sources db' = feed_sources db \<Longrightarrow> inactive_source sid db' = inactive_source sid db"
  by (simp add: inactive_source_def find_source_def)

lemma feed_step_inactive:
  assumes "feed_step c act db db'" and "act \<noteq> Register" and "inactive_source sid db"
  shows "inactive_source sid db'"
  using assms
proof cases
  case (admit env q res)
  have "feed_sources db' = feed_sources db"
    using admit by (auto simp: AdmitFeedEvent_def elim!: run_tx_cases admitFeedEvent_Inr)
  then show ?thesis using assms(3) inactive_cong by blast
next
  case (admit_incident decode env q res)
  have "feed_sources db' = feed_sources db"
  proof (cases res)
    case (Inl e)
    then show ?thesis using admit_incident by (auto simp: AdmitFeedIncident_def elim: run_tx_cases)
  next
    case (Inr ai)
    obtain a i where "ai = (a, i)" by (cases ai)
    then have "AdmitFeedIncident c decode env q db = (Inr (a, i), db')" using admit_incident Inr by simp
    then obtain w db1 where a: "admitFeedEventInTransaction c env q db = Inr (a, db1)"
      and cr: "createIncidentInTransaction (shift_env 6 env) w db1 = Inr (i, db')"
      by (rule AdmitFeedIncident_Inr)
    have "feed_sources db1 = feed_sources db" using a by (auto elim!: admitFeedEvent_Inr)
    then show ?thesis using feed_tables_of_more(1) [OF createIncident_more [OF cr]] by simp
  qed
  then show ?thesis using assms(3) inactive_cong by blast
next
  case (revoke env v res)
  show ?thesis
  proof (cases "db' = db")
    case False
    let ?f = "\<lambda>s. s\<lparr>fs_active := False, fs_updated_at := pg_ts env (clock env 0)\<rparr>"
    have src: "feed_sources db' = feed_sources (update_source (rv_source_id v) ?f db)"
      using revoke False by (auto simp: RevokeFeedSource_def Let_def elim!: run_tx_cases split: option.splits)
    have "inactive_source sid (update_source (rv_source_id v) ?f db)" by (rule inactive_update [OF assms(3)]) auto
    then show ?thesis unfolding inactive_cong [OF src] .
  qed (use assms(3) in simp)
next
  case (rotate env k res)
  show ?thesis
  proof (cases "db' = db")
    case False
    let ?f = "\<lambda>s. s\<lparr>fs_public_key := ro_new_public_key k, fs_key_fingerprint := sha256_text c (ro_new_public_key k), fs_updated_at := pg_ts env (clock env 0)\<rparr>"
    have src: "feed_sources db' = feed_sources (update_source (ro_source_id k) ?f db)"
      using rotate False
      by (auto simp: RotateFeedSourceKey_def Let_def feed_sources_update elim!: run_tx_cases split: option.splits)
    have "inactive_source sid (update_source (ro_source_id k) ?f db)" by (rule inactive_update [OF assms(3)]) auto
    then show ?thesis unfolding inactive_cong [OF src] .
  qed (use assms(3) in simp)
next
  case incident_op
  then show ?thesis using assms(3) feed_tables_of_more(1) [OF incident_step_more] inactive_cong by blast
qed simp



definition sample_revocation :: feed_revocation where
  "sample_revocation = \<lparr>rv_source_id = ''ais-1'', rv_reason = ''spoofing'', rv_revoked_by = ''op-1''\<rparr>"

lemma sample_revocation_valid: "FeedSourceRevocation_Validate sample_revocation = None"
  by code_simp

lemma sample_source_ais: "find_source ''ais-1'' sample_feed_db = Some (new_source toy_crypto (calm_env unix_epoch ''u'') sample_registration)"
  by (simp add: find_source_def sample_feed_db_def new_source_def sample_registration_def)

lemma sample_revoked: "\<exists>db1. RevokeFeedSource (calm_env unix_epoch ''u'') sample_revocation sample_feed_db = (Inr (), db1)"
proof -
  have "rv_source_id sample_revocation = ''ais-1''" "feed_revocations sample_feed_db = []"
    "fs_active (new_source toy_crypto (calm_env unix_epoch ''u'') sample_registration)"
    by (simp_all add: sample_revocation_def sample_feed_db_def empty_feed_db_def new_source_def sample_registration_def)
  then show ?thesis by (simp add: RevokeFeedSource_def run_tx_Inr_iff sample_revocation_valid sample_source_ais Let_def)
qed


text \<open>
  Revocation is not final: registering the revoked source again with its own key and the
  active flag succeeds and makes it active, the revocation row notwithstanding; repeating the
  same revocation afterwards reports success and leaves the source active.
\<close>

theorem registration_reactivates_revoked:
  assumes "RevokeFeedSource env v db = (Inr (), db1)" and "rv_source_id v \<notin> rv_source_id ` set (feed_revocations db)"
    and "find_source (rv_source_id v) db = Some s"
    and "rg_source_id r = rv_source_id v" and "rg_public_key r = fs_public_key s" and "rg_active r"
    and "FeedSourceRegistration_Validate r = None" and "\<And>n. \<not> db_faults env1 n" and "\<And>n. \<not> db_faults env2 n"
  shows "\<exists>db2 s'. RegisterFeedSource c env1 r db1 = (Inr (), db2) \<and> find_source (rv_source_id v) db2 = Some s' \<and>
     fs_active s' \<and> fs_public_key s' = fs_public_key s \<and> RevokeFeedSource env2 v db2 = (Inr (), db2)"
proof -
  let ?f = "\<lambda>s. s\<lparr>fs_active := False, fs_updated_at := pg_ts env (clock env 0)\<rparr>"
  let ?row = "\<lparr>rv_source_id = rv_source_id v, rv_reason = rv_reason v, rv_revoked_by = rv_revoked_by v, rv_revoked_at = pg_ts env (clock env 0)\<rparr>"
  have none: "find (\<lambda>w. rv_source_id w = rv_source_id v) (feed_revocations db) = None"
    using assms(2) by (force simp: find_None_all)
  have db1: "db1 = (update_source (rv_source_id v) ?f db)\<lparr>feed_revocations := feed_revocations db @ [?row]\<rparr>"
    and v: "FeedSourceRevocation_Validate v = None"
    using assms(1,3) none by (auto simp: RevokeFeedSource_def run_tx_Inr_iff Let_def)
  have s: "fs_source_id s = rv_source_id v" using find_source_SomeD [OF assms(3)] by simp
  have f1: "find_source (rv_source_id v) db1 = Some (?f s)"
    using find_source_update [of ?f "rv_source_id v" "rv_source_id v" db] assms(3) s by (simp add: db1 find_source_def)
  let ?db2 = "update_source (rv_source_id v) (refresh_source env1 r) db1"
  have reg: "RegisterFeedSource c env1 r db1 = (Inr (), ?db2)"
    using assms(4-8) f1 by (simp add: RegisterFeedSource_def)
  have f2: "find_source (rv_source_id v) ?db2 = Some (refresh_source env1 r (?f s))"
    using f1 s by (simp add: find_source_update refresh_source_def)
  have "find (\<lambda>w. rv_source_id w = rv_source_id v) (feed_revocations ?db2) = Some ?row"
    using none by (simp add: db1 find_append_None)
  then have "RevokeFeedSource env2 v ?db2 = (Inr (), ?db2)"
    using f2 v assms(9) by (simp add: RevokeFeedSource_def)
  then show ?thesis using reg f2 assms(6) by (simp add: refresh_source_def)
qed

theorem registration_reactivates_revoked_witness:
  "\<exists>db1 db2 s'. RevokeFeedSource (calm_env unix_epoch ''u'') sample_revocation sample_feed_db = (Inr (), db1) \<and>
     RegisterFeedSource toy_crypto (calm_env unix_epoch ''u'') sample_registration db1 = (Inr (), db2) \<and>
     find_source ''ais-1'' db2 = Some s' \<and> fs_active s'"
proof -
  obtain db1 where r: "RevokeFeedSource (calm_env unix_epoch ''u'') sample_revocation sample_feed_db = (Inr (), db1)"
    using sample_revoked by blast
  have n: "rv_source_id sample_revocation \<notin> rv_source_id ` set (feed_revocations sample_feed_db)"
    by (simp add: sample_feed_db_def empty_feed_db_def)
  have sid: "rv_source_id sample_revocation = ''ais-1''" by (simp add: sample_revocation_def)
  let ?s = "new_source toy_crypto (calm_env unix_epoch ''u'') sample_registration"
  have k: "rg_source_id sample_registration = ''ais-1''" "rg_public_key sample_registration = fs_public_key ?s" "rg_active sample_registration"
    by (simp_all add: new_source_def sample_registration_def)
  show ?thesis
    using r registration_reactivates_revoked [OF r n, of ?s sample_registration "calm_env unix_epoch ''u''" "calm_env unix_epoch ''u''" toy_crypto]
    unfolding sid by (auto simp: k sample_source_ais sample_registration_valid)
qed


section \<open>Feed incidents\<close>

text \<open>
  A feed incident is bound to its signed feed: the admitted incident names the source and
  the event in its source event id and the source as its creator, both the feed event and the
  incident are in the tables afterwards, and when anything fails neither of them is written.
\<close>

theorem AdmitFeedIncident_bound:
  "(case AdmitFeedIncident c decode env r db of
      (Inl e, db') \<Rightarrow> db' = db
    | (Inr (a, i), db') \<Rightarrow>
        cr_source_event_id i = fr_source_id r @ '':'' @ fr_source_event_id r \<and> cr_created_by i = ''feed:'' @ fr_source_id r \<and>
        i \<in> set (incidents db') \<and>
        (\<exists>e \<in> set (feed_events db'). fe_source_id e = fr_source_id r \<and> fe_source_event_id e = fr_source_event_id r \<and>
           fe_payload_sha256 e = sha256_text c (fr_payload r) \<and> fe_signature e = fr_signature r))"
proof (cases "AdmitFeedIncident c decode env r db")
  case (Pair res db')
  show ?thesis
  proof (cases res)
    case (Inl e)
    then show ?thesis using Pair by (auto simp: AdmitFeedIncident_def elim: run_tx_cases)
  next
    case (Inr ai)
    obtain a i where ai: "ai = (a, i)" by (cases ai)
    then have "AdmitFeedIncident c decode env r db = (Inr (a, i), db')" using Pair Inr by simp
    then obtain w db1 where w: "feed_binding r w = None" and a: "admitFeedEventInTransaction c env r db = Inr (a, db1)"
      and cr: "createIncidentInTransaction (shift_env 6 env) w db1 = Inr (i, db')"
      by (rule AdmitFeedIncident_Inr)
    have i: "cr_source_event_id i = cr_source_event_id w \<and> cr_created_by i = cr_created_by w \<and> i \<in> set (incidents db')"
      using cr by (rule createIncident_Inr) (auto simp: Matches_def new_incident_def)
    have "\<exists>e \<in> set (feed_events db1). fe_source_id e = fr_source_id r \<and> fe_source_event_id e = fr_source_event_id r \<and>
           fe_payload_sha256 e = sha256_text c (fr_payload r) \<and> fe_signature e = fr_signature r"
      using a by (rule admitFeedEvent_Inr) (erule disjE, fastforce, fastforce)
    then show ?thesis
      using i w feed_tables_of_more(2) [OF createIncident_more [OF cr]]
      by (simp add: Pair Inr ai feed_binding_def)
  qed
qed

section \<open>The signing preimage\<close>

text \<open>The printer is only used on non-negative numbers, but holds no newline on any.\<close>

lemma dec_digit_no_newline: "d < 10 \<Longrightarrow> dec_digit d \<noteq> CHR 0x0A \<or> d < 0"
proof -
  assume "d < 10"
  then have "d < 0 \<or> d = 0 \<or> d = 1 \<or> d = 2 \<or> d = 3 \<or> d = 4 \<or> d = 5 \<or> d = 6 \<or> d = 7 \<or> d = 8 \<or> d = 9" by presburger
  then show "dec_digit d \<noteq> CHR 0x0A \<or> d < 0" by (elim disjE) (simp_all add: dec_digit_def char_of_def)
qed

lemma show_dec_no_newline: "0 \<le> i \<Longrightarrow> CHR 0x0A \<notin> set (show_dec i)"
proof (induction i rule: show_dec.induct)
  case (1 i)
  have "CHR 0x0A \<noteq> dec_digit (i mod 10)" using dec_digit_no_newline [of "i mod 10"] by auto
  moreover have "i < 10 \<Longrightarrow> CHR 0x0A \<noteq> dec_digit i" using dec_digit_no_newline [of i] 1 by auto
  ultimately show ?case using 1 by (subst show_dec.simps) auto
qed

lemma no_newline_pad: "0 \<le> n \<Longrightarrow> CHR 0x0A \<notin> set (pad_int w n)"
  using show_dec_no_newline [of n] by (auto simp: pad_int_def)

lemma month_and_day_pos: "0 \<le> d \<Longrightarrow> 0 \<le> m \<Longrightarrow> month_and_day ls m d = (a, b) \<Longrightarrow> 0 \<le> a \<and> 0 \<le> b"
  by (induction ls m d rule: month_and_day.induct) (auto split: if_splits)

lemma year_day_pos: "year_and_day d = (y, yd) \<Longrightarrow> 0 \<le> yd"
proof -
  have part: "0 \<le> x - 365 * min 3 (x div 365)" if "0 \<le> x" for x :: int
  proof -
    have "365 * min 3 (x div 365) \<le> 365 * (x div 365)" by simp
    also have "\<dots> \<le> x" using minus_mod_eq_mult_div [of x 365] pos_mod_sign [of 365 x] by simp
    finally show ?thesis by simp
  qed
  have "0 \<le> x - 1461 * (x div 1461)" for x :: int by (simp add: minus_mult_div_eq_mod)
  then show "year_and_day d = (y, yd) \<Longrightarrow> 0 \<le> yd"
    unfolding year_and_day_def Let_def prod.inject using part by blast
qed

lemma no_newline_time: "CHR 0x0A \<notin> set (format_rfc3339nano t)"
proof -
  define r where "r = t mod (24 * hour)"
  have r: "0 \<le> r" by (simp add: r_def duration_defs)
  obtain y yd where y: "year_and_day (t div (24 * hour)) = (y, yd)" by (cases "year_and_day (t div (24 * hour))")
  obtain m d where m: "month_and_day (month_lengths (is_leap y)) 1 yd = (m, d)"
    by (cases "month_and_day (month_lengths (is_leap y)) 1 yd")
  have md: "0 \<le> m" "0 \<le> d" using month_and_day_pos [OF year_day_pos [OF y] _ m] by auto
  have year: "CHR 0x0A \<notin> set (show_year y)" using no_newline_pad [of "- y" 4] no_newline_pad [of y 4] by (auto simp: show_year_def)
  have frac: "CHR 0x0A \<notin> set (show_fraction (r mod second))"
    using no_newline_pad [of "r mod second" 9] by (auto simp: show_fraction_def duration_defs dest!: set_dropWhileD)
  have f: "0 \<le> r div hour" "0 \<le> r div minute mod 60" "0 \<le> r div second mod 60"
    using r by (simp_all add: duration_defs pos_imp_zdiv_nonneg_iff)
  show ?thesis
    using year frac no_newline_pad [OF md(1), of 2] no_newline_pad [OF md(2), of 2] no_newline_pad [OF f(1), of 2]
      no_newline_pad [OF f(2), of 2] no_newline_pad [OF f(3), of 2]
    by (simp add: format_rfc3339nano_def Let_def y m r_def)
qed

lemma ident_no_newline: "incidentIDPattern s \<Longrightarrow> CHR 0x0A \<notin> set s"
proof -
  have "\<not> is_alnum (CHR 0x0A)" "\<not> ident_char (CHR 0x0A)" by code_simp+
  then show "incidentIDPattern s \<Longrightarrow> CHR 0x0A \<notin> set s"
    by (auto simp: incidentIDPattern_def matches_ident_def list_all_iff split: list.splits)
qed

text \<open>
  The signing preimage separates its fields: for canonical identifiers two equal preimages
  have the same source, the same event, the same printed time and the same payload digest, so a
  signature cannot be moved to another source, event or time.
\<close>

theorem feedSigningBytes_separates:
  assumes "incidentIDPattern s1" and "incidentIDPattern e1" and "incidentIDPattern s2" and "incidentIDPattern e2"
    and "feedSigningBytes c s1 e1 t1 p1 = feedSigningBytes c s2 e2 t2 p2"
  shows "s1 = s2 \<and> e1 = e2 \<and> format_rfc3339nano t1 = format_rfc3339nano t2 \<and> sha256_text c p1 = sha256_text c p2"
  using assms(5) ident_no_newline [OF assms(1)] ident_no_newline [OF assms(2)] ident_no_newline [OF assms(3)]
    ident_no_newline [OF assms(4)] no_newline_time [of t1] no_newline_time [of t2]
  by (simp add: feedSigningBytes_def bytes_of_string_inj split_at_separator)

lemma sample_time: "format_rfc3339nano (unix_epoch + 1735689599 * second + 120000000) = ''2024-12-31T23:59:59.12Z''"
  by code_simp

theorem feedSigningBytes_separates_witness:
  "feedSigningBytes toy_crypto ''ais-1'' ''e1'' unix_epoch [1] \<noteq> feedSigningBytes toy_crypto ''ais-2'' ''e1'' unix_epoch [1]"
proof -
  have "incidentIDPattern ''ais-1''" "incidentIDPattern ''ais-2''" "incidentIDPattern ''e1''" by code_simp+
  moreover have "''ais-1'' \<noteq> ''ais-2''" by simp
  ultimately show ?thesis
    using feedSigningBytes_separates [of "''ais-1''" "''e1''" "''ais-2''" "''e1''" toy_crypto unix_epoch "[1]" unix_epoch "[1]"] by blast
qed

end
