(* ===== verification/Envelope.thy ===== *)
theory Envelope
  imports Feed Detection
begin

text \<open>
  \<open>internal/isr/envelope.go\<close>: the platform envelope, the mapping from clearance labels to
  envelope classifications and \<open>Seal\<close>, and the JSON rendering of a detection that
  \<open>Seal\<close> receives. A payload is its JSON value; only the digest needs the encoded bytes,
  so the JSON encoder is the parameter \<open>enc\<close>. Instants are printed in UTC.
\<close>

datatype json =
    JNull
  | JBool bool
  | JNum f64
  | JStr string
  | JArr "json list"
  | JObj "(string \<times> json) list"

section \<open>Topics and classifications\<close>

definition TopicISR :: string where "TopicISR = ''maritime.isr.v1''"
definition TopicBehaviour :: string where "TopicBehaviour = ''maritime.behaviour.v1''"
definition TopicOutcome :: string where "TopicOutcome = ''maritime.outcome.v1''"
definition EnvelopeVersion :: string where "EnvelopeVersion = ''1.0''"
definition ProducerName :: string where "ProducerName = ''blueeconomy-maritime-intelligence''"
definition EnvelopeClassificationConfidential :: string where "EnvelopeClassificationConfidential = ''CONFIDENTIAL''"
definition EnvelopeClassificationRestricted :: string where "EnvelopeClassificationRestricted = ''RESTRICTED''"
definition EnvelopeClassificationInternal :: string where "EnvelopeClassificationInternal = ''INTERNAL''"
definition EnvelopeClassificationPublic :: string where "EnvelopeClassificationPublic = ''PUBLIC''"
definition EnvelopeClassificationFiduciary :: string where "EnvelopeClassificationFiduciary = ''FIDUCIARY_SEGREGATED''"

lemmas envelope_defs = EnvelopeClassificationConfidential_def EnvelopeClassificationRestricted_def
  EnvelopeClassificationInternal_def EnvelopeClassificationPublic_def EnvelopeClassificationFiduciary_def

lemmas topic_defs = TopicISR_def TopicBehaviour_def TopicOutcome_def

definition EnvelopeClassificationOf :: "classification \<Rightarrow> string result" where
  "EnvelopeClassificationOf label =
     (if label = ClassificationUnclassified then Inr EnvelopeClassificationInternal
      else if label = ClassificationRestricted then Inr EnvelopeClassificationRestricted
      else if label = ClassificationConfidential \<or> label = ClassificationSecret then Inr EnvelopeClassificationConfidential
      else Inl ErrInvalidClassification)"

section \<open>The envelope\<close>

record provenance_rec =
  pv_principal_id :: string
  pv_principal_role :: string
  pv_signature :: string
  pv_ledger_commit_hash :: string

record fhir_bundle =
  fb_resource_type :: string
  fb_type :: string
  fb_entry :: "(string \<rightharpoonup> json) list"

record envelope =
  en_version :: string
  en_event_id :: string
  en_event_type :: string
  en_occurred_at :: string
  en_producer :: string
  en_correlation_id :: string
  en_fhir :: fhir_bundle
  en_provenance :: provenance_rec
  en_classification :: string
  en_topic :: string
  en_aggregate_key :: string
  en_clearance :: classification

text \<open>
  Unmarshalling the payload into the probe: a JSON object, field names matched without regard
  to case, the last match wins, null changes nothing and any other value is a type error.
  Unmarshalling null leaves the probe empty; other values are errors.
\<close>

fun probe_fields :: "(string \<times> json) list \<Rightarrow> string \<Rightarrow> string option" where
  "probe_fields [] acc = Some acc"
| "probe_fields ((k, v) # fs) acc =
     (if equal_fold k ''classification''
      then (case v of JStr s \<Rightarrow> probe_fields fs s | JNull \<Rightarrow> probe_fields fs acc | _ \<Rightarrow> None)
      else probe_fields fs acc)"

fun probe_classification :: "json \<Rightarrow> string option" where
  "probe_classification (JObj fs) = probe_fields fs []"
| "probe_classification JNull = Some []"
| "probe_classification _ = None"

fun stringField :: "(string \<rightharpoonup> json) \<Rightarrow> string list \<Rightarrow> string" where
  "stringField resource [] = []"
| "stringField resource (k # ks) =
     (case resource k of
        Some (JStr v) \<Rightarrow> if v \<noteq> [] then v else stringField resource ks
      | _ \<Rightarrow> stringField resource ks)"

definition format_rfc3339 :: "gotime \<Rightarrow> string" where
  "format_rfc3339 t = format_rfc3339nano (t - t mod second)"

definition build_envelope ::
  "crypto \<Rightarrow> (json \<Rightarrow> bytes) \<Rightarrow> string \<Rightarrow> string \<Rightarrow> string \<Rightarrow> string \<Rightarrow> string \<Rightarrow> classification \<Rightarrow> gotime \<Rightarrow>
   json \<Rightarrow> (string \<rightharpoonup> json) \<Rightarrow> envelope" where
  "build_envelope c enc uuid topic eventType aggregateKey envClass label occurredAt payload resource =
     \<lparr>en_version = EnvelopeVersion, en_event_id = uuid, en_event_type = eventType,
      en_occurred_at = format_rfc3339 occurredAt, en_producer = ProducerName, en_correlation_id = aggregateKey,
      en_fhir = \<lparr>fb_resource_type = ''Bundle'', fb_type = ''message'', fb_entry = [resource]\<rparr>,
      en_provenance = \<lparr>pv_principal_id = stringField resource [''source_id'', ''alert_id'', ''anomaly_id''],
         pv_principal_role = stringField resource [''modality'', ''kind''],
         pv_signature = hex_encode (sha256_fn c (enc payload)),
         pv_ledger_commit_hash = stringField resource [''ledger_transfer_id'', ''incident_ref'']\<rparr>,
      en_classification = envClass, en_topic = topic, en_aggregate_key = aggregateKey, en_clearance = label\<rparr>"

definition Seal ::
  "crypto \<Rightarrow> (json \<Rightarrow> bytes) \<Rightarrow> string \<Rightarrow> string \<Rightarrow> string \<Rightarrow> string \<Rightarrow> classification \<Rightarrow> gotime \<Rightarrow> json \<Rightarrow> envelope result" where
  "Seal c enc uuid topic eventType aggregateKey label occurredAt payload =
     require (topic = TopicISR \<or> topic = TopicBehaviour \<or> topic = TopicOutcome)
       (EMsg (''topic '' @ topic @ '' is not an approved Workstream F topic''))
      (rbind (ParseClassification label)
        (\<lambda>_. rbind (EnvelopeClassificationOf label)
          (\<lambda>envClass.
            validated (validateCanonicalID ''aggregate_key'' aggregateKey)
             (require (eventType \<noteq> [] \<and> length eventType \<le> 128) (EMsg ''event_type must be non-empty and at most 128 characters'')
               (require (occurredAt \<noteq> 0) (EMsg ''occurred_at must be RFC3339'')
                 (case probe_classification payload of
                    None \<Rightarrow> Inl (EMsg ''event payload is not a JSON object'')
                  | Some raw \<Rightarrow>
                      (case ParseClassification raw of
                         Inl e \<Rightarrow> Inl (EWrap ''event payload carries no valid classification label'' e)
                       | Inr payloadLabel \<Rightarrow>
                           require (payloadLabel = label) (EMsg (''envelope classification '' @ label @ '' does not match event label '' @ payloadLabel))
                            (case payload of
                               JObj fs \<Rightarrow>
                                 (let resource = (map_of (rev fs))(''clearance'' \<mapsto> JStr label, ''aggregateKey'' \<mapsto> JStr aggregateKey) in
                                  Inr (build_envelope c enc uuid topic eventType aggregateKey envClass label occurredAt payload resource))
                             | _ \<Rightarrow> Inl (EMsg ''event payload is not a JSON object'')))))))))"

section \<open>The JSON rendering of a detection\<close>

definition opt_str :: "string \<Rightarrow> string \<Rightarrow> (string \<times> json) list" where
  "opt_str k v = (if v = [] then [] else [(k, JStr v)])"

definition opt_num :: "string \<Rightarrow> f64 \<Rightarrow> (string \<times> json) list" where
  "opt_num k v = (if f_eq v (Fin 0) then [] else [(k, JNum v)])"

definition opt_obj :: "string \<Rightarrow> ('a \<Rightarrow> json) \<Rightarrow> 'a option \<Rightarrow> (string \<times> json) list" where
  "opt_obj k f v = (case v of None \<Rightarrow> [] | Some x \<Rightarrow> [(k, f x)])"

definition ais_json :: "ais_payload \<Rightarrow> json" where
  "ais_json p = JObj ([(''mmsi'', JStr (ais_mmsi p)), (''speed_knots'', JNum (ais_speed_knots p)),
     (''heading_deg'', JNum (ais_heading_deg p)), (''nav_status'', JStr (ais_nav_status p))] @
     opt_str ''call_sign'' (ais_call_sign p) @ opt_str ''destination'' (ais_destination p))"

definition sar_json :: "sar_payload \<Rightarrow> json" where
  "sar_json p = JObj ([(''scene_ref'', JStr (sar_scene_ref p)), (''confidence'', JNum (sar_confidence p))] @
     opt_str ''vessel_class'' (sar_vessel_class p) @ opt_num ''length_m'' (sar_length_m p))"

definition rf_json :: "rf_payload \<Rightarrow> json" where
  "rf_json p = JObj ([(''frequency_band'', JStr (rf_frequency_band p)), (''bearing_deg'', JNum (rf_bearing_deg p))] @
     opt_num ''signal_dbm'' (rf_signal_dbm p) @ opt_str ''emitter_ref'' (rf_emitter_ref p))"

definition acoustic_json :: "acoustic_payload \<Rightarrow> json" where
  "acoustic_json p = JObj ([(''signature_ref'', JStr (ac_signature_ref p)), (''confidence'', JNum (ac_confidence p))] @
     opt_num ''bearing_deg'' (ac_bearing_deg p))"

definition box_json :: "detection_box \<Rightarrow> json" where
  "box_json b = JObj [(''x'', JNum (box_x b)), (''y'', JNum (box_y b)), (''width'', JNum (box_width b)),
     (''height'', JNum (box_height b)), (''confidence'', JNum (box_confidence b))]"

definition optical_json :: "optical_payload \<Rightarrow> json" where
  "optical_json p = JObj [(''image_ref'', JStr (op_image_ref p)), (''detection_boxes'', JArr (map box_json (op_boxes p)))]"

definition detection_fields :: "detection \<Rightarrow> (string \<times> json) list" where
  "detection_fields d =
     [(''event_id'', JStr (d_event_id d)), (''source_id'', JStr (d_source_id d)),
      (''source_event_id'', JStr (d_source_event_id d)), (''modality'', JStr (d_modality d)),
      (''classification'', JStr (d_classification d)), (''observed_at'', JStr (format_rfc3339nano (d_observed_at d))),
      (''has_position'', JBool (d_has_position d))] @
     opt_num ''latitude'' (d_latitude d) @ opt_num ''longitude'' (d_longitude d) @ opt_str ''mmsi'' (d_mmsi d) @
     opt_obj ''ais'' ais_json (d_ais d) @ opt_obj ''sar'' sar_json (d_sar d) @ opt_obj ''rf'' rf_json (d_rf d) @
     opt_obj ''acoustic'' acoustic_json (d_acoustic d) @ opt_obj ''optical'' optical_json (d_optical d) @
     (if d_correlation_refs d = [] then [] else [(''correlation_refs'', JArr (map JStr (d_correlation_refs d)))])"

definition detection_json :: "detection \<Rightarrow> json" where
  "detection_json d = JObj (detection_fields d)"

section \<open>What a sealed envelope carries\<close>

text \<open>The visibility order of the platform bands that labels map to.\<close>

definition band_rank :: "string \<Rightarrow> nat" where
  "band_rank b = (if b = EnvelopeClassificationInternal then 0 else if b = EnvelopeClassificationRestricted then 1 else 2)"

lemma EnvelopeClassificationOf_Inr:
  "EnvelopeClassificationOf l = Inr b \<Longrightarrow> valid_label l \<and> b \<noteq> EnvelopeClassificationPublic"
  by (auto simp: EnvelopeClassificationOf_def valid_label_def ParseClassification_def envelope_defs split: if_splits)

lemma EnvelopeClassificationOf_mono:
  "EnvelopeClassificationOf l = Inr b \<Longrightarrow> EnvelopeClassificationOf m = Inr d \<Longrightarrow> Rank l \<le> Rank m \<Longrightarrow> band_rank b \<le> band_rank d"
  by (auto simp: EnvelopeClassificationOf_def Rank_def band_rank_def envelope_defs label_defs split: if_splits)

lemma EnvelopeClassificationOf_valid: "valid_label l \<Longrightarrow> \<exists>b. EnvelopeClassificationOf l = Inr b"
  by (auto simp: valid_label_def ParseClassification_def EnvelopeClassificationOf_def label_defs split: if_splits)

lemma Seal_Inr:
  assumes "Seal c enc uuid topic ty key label t payload = Inr e"
  obtains fs b where "payload = JObj fs" "topic \<in> {TopicISR, TopicBehaviour, TopicOutcome}" "valid_label label"
    "EnvelopeClassificationOf label = Inr b" "identifierPattern key" "ty \<noteq> []" "length ty \<le> 128" "t \<noteq> 0"
    "probe_classification payload = Some label"
    "e = build_envelope c enc uuid topic ty key b label t payload
       ((map_of (rev fs))(''clearance'' \<mapsto> JStr label, ''aggregateKey'' \<mapsto> JStr key))"
proof -
  obtain b where b: "EnvelopeClassificationOf label = Inr b" and topic: "topic \<in> {TopicISR, TopicBehaviour, TopicOutcome}"
    and key: "identifierPattern key" and ty: "ty \<noteq> []" "length ty \<le> 128" and t: "t \<noteq> 0"
    using assms by (auto simp: Seal_def)
  have parse: "ParseClassification label = Inr label" using EnvelopeClassificationOf_Inr [OF b] by (simp add: ParseClassification_Inr)
  have v: "valid_label label" using EnvelopeClassificationOf_Inr [OF b] by simp
  obtain raw where raw: "probe_classification payload = Some raw"
    using assms by (cases "probe_classification payload") (simp_all add: Seal_def)
  have raw_eq: "raw = label"
    using assms raw by (cases "ParseClassification raw") (auto simp: Seal_def ParseClassification_Inr)
  obtain fs where fs: "payload = JObj fs"
    using raw raw_eq v by (cases payload) (auto simp: valid_label_def ParseClassification_def label_defs)
  have "e = build_envelope c enc uuid topic ty key b label t payload
       ((map_of (rev fs))(''clearance'' \<mapsto> JStr label, ''aggregateKey'' \<mapsto> JStr key))"
    using assms b raw raw_eq parse fs by (simp add: Seal_def Let_def)
  then show thesis using that [OF fs topic v b key ty t] raw raw_eq by simp
qed

lemma probe_fields_skip: "\<forall>x \<in> set fs. \<not> equal_fold (fst x) ''classification'' \<Longrightarrow> probe_fields (fs @ gs) acc = probe_fields gs acc"
  by (induction fs) auto

lemma equal_fold_length: "length a \<noteq> length b \<Longrightarrow> \<not> equal_fold a b"
  by (auto simp: equal_fold_def dest: map_eq_imp_length_eq)

lemma equal_fold_refl: "equal_fold a a"
  by (simp add: equal_fold_def)

lemma classification_fold_table [simp]:
  "\<not> equal_fold ''event_id'' ''classification''" "\<not> equal_fold ''source_id'' ''classification''"
  "\<not> equal_fold ''source_event_id'' ''classification''" "\<not> equal_fold ''modality'' ''classification''"
  "equal_fold ''classification'' ''classification''" "\<not> equal_fold ''observed_at'' ''classification''"
  "\<not> equal_fold ''has_position'' ''classification''" "\<not> equal_fold ''latitude'' ''classification''"
  "\<not> equal_fold ''longitude'' ''classification''" "\<not> equal_fold ''mmsi'' ''classification''"
  "\<not> equal_fold ''ais'' ''classification''" "\<not> equal_fold ''sar'' ''classification''"
  "\<not> equal_fold ''rf'' ''classification''" "\<not> equal_fold ''acoustic'' ''classification''"
  "\<not> equal_fold ''optical'' ''classification''" "\<not> equal_fold ''correlation_refs'' ''classification''"
  by (simp_all add: equal_fold_length equal_fold_refl)

lemma probe_detection: "probe_classification (detection_json d) = Some (d_classification d)"
proof -
  let ?rest = "opt_num ''latitude'' (d_latitude d) @ opt_num ''longitude'' (d_longitude d) @ opt_str ''mmsi'' (d_mmsi d) @
     opt_obj ''ais'' ais_json (d_ais d) @ opt_obj ''sar'' sar_json (d_sar d) @ opt_obj ''rf'' rf_json (d_rf d) @
     opt_obj ''acoustic'' acoustic_json (d_acoustic d) @ opt_obj ''optical'' optical_json (d_optical d) @
     (if d_correlation_refs d = [] then [] else [(''correlation_refs'', JArr (map JStr (d_correlation_refs d)))])"
  have "\<forall>x \<in> set ?rest. \<not> equal_fold (fst x) ''classification''"
    by (auto simp: opt_num_def opt_str_def opt_obj_def split: option.splits if_splits)
  then have "probe_fields ?rest acc = Some acc" for acc using probe_fields_skip [of ?rest "[]" acc] by simp
  then show ?thesis by (simp add: detection_json_def detection_fields_def del: append_assoc)
qed

lemma Seal_detection:
  assumes "detection_Validate d = None" and "t \<noteq> 0"
  shows "\<exists>e. Seal c enc uuid TopicISR ''isr.detection_admitted'' (d_event_id d) (d_classification d) t (detection_json d) = Inr e"
proof -
  have v: "valid_label (d_classification d)" and i: "identifierPattern (d_event_id d)"
    using assms(1) by (simp_all add: detection_Validate_None_iff)
  have p: "ParseClassification (d_classification d) = Inr (d_classification d)" using v by (simp add: ParseClassification_Inr)
  obtain b where "EnvelopeClassificationOf (d_classification d) = Inr b" using EnvelopeClassificationOf_valid [OF v] by blast
  then show ?thesis
    using p i assms(2) probe_detection [of d] by (simp add: Seal_def Let_def detection_json_def)
qed

text \<open>
  A sealed envelope loses no handling information: its payload is an object that carries the
  very label it was sealed with, the label also rides as the clearance of the bundle entry and of
  the routing metadata, and the platform band is the documented one, never public and never lower
  for a more sensitive label. A validated detection can always be sealed under its own label.
\<close>

theorem Seal_keeps_label:
  "(Seal c enc uuid topic ty key label t payload = Inr e \<longrightarrow>
      probe_classification payload = Some label \<and> valid_label label \<and> en_clearance e = label \<and> en_topic e = topic \<and>
      (\<forall>r \<in> set (fb_entry (en_fhir e)). r ''clearance'' = Some (JStr label) \<and> r ''aggregateKey'' = Some (JStr key)) \<and>
      EnvelopeClassificationOf label = Inr (en_classification e) \<and> en_classification e \<noteq> EnvelopeClassificationPublic \<and>
      (\<forall>m b. EnvelopeClassificationOf m = Inr b \<longrightarrow> Rank label \<le> Rank m \<longrightarrow> band_rank (en_classification e) \<le> band_rank b)) \<and>
   (detection_Validate d = None \<and> u \<noteq> 0 \<longrightarrow>
      (\<exists>e. Seal c enc uuid TopicISR ''isr.detection_admitted'' (d_event_id d) (d_classification d) u (detection_json d) = Inr e))"
proof (intro conjI impI)
  assume "Seal c enc uuid topic ty key label t payload = Inr e"
  then show "probe_classification payload = Some label" "valid_label label" "en_clearance e = label" "en_topic e = topic"
    "\<forall>r \<in> set (fb_entry (en_fhir e)). r ''clearance'' = Some (JStr label) \<and> r ''aggregateKey'' = Some (JStr key)"
    "EnvelopeClassificationOf label = Inr (en_classification e)" "en_classification e \<noteq> EnvelopeClassificationPublic"
    "\<forall>m b. EnvelopeClassificationOf m = Inr b \<longrightarrow> Rank label \<le> Rank m \<longrightarrow> band_rank (en_classification e) \<le> band_rank b"
    by (elim Seal_Inr; auto simp: build_envelope_def dest: EnvelopeClassificationOf_Inr intro: EnvelopeClassificationOf_mono)+
next
  assume d: "detection_Validate d = None \<and> u \<noteq> 0"
  then show "\<exists>e. Seal c enc uuid TopicISR ''isr.detection_admitted'' (d_event_id d) (d_classification d) u (detection_json d) = Inr e"
    by (intro Seal_detection) auto
qed

theorem Seal_keeps_label_witness:
  "\<exists>e. Seal toy_crypto (\<lambda>_. [0]) ''u'' TopicISR ''isr.detection_admitted'' ''ev-1'' ''SECRET'' 5 (detection_json sample_ais) = Inr e \<and>
     en_clearance e = ''SECRET'' \<and> en_classification e = ''CONFIDENTIAL''"
proof -
  have d: "d_event_id sample_ais = ''ev-1''" "d_classification sample_ais = ''SECRET''" by (simp_all add: sample_ais_def)
  obtain e where e: "Seal toy_crypto (\<lambda>_. [0]) ''u'' TopicISR ''isr.detection_admitted'' ''ev-1'' ''SECRET'' 5 (detection_json sample_ais) = Inr e"
    using Seal_keeps_label [where d = sample_ais and u = 5 and c = toy_crypto and enc = "\<lambda>_. [0]" and uuid = "''u''", THEN conjunct2]
    by (auto simp: sample_ais_valid d)
  have "EnvelopeClassificationOf ''SECRET'' = Inr (en_classification e)" and "en_clearance e = ''SECRET''"
    using Seal_keeps_label [where c = toy_crypto and enc = "\<lambda>_. [0]" and uuid = "''u''" and label = "''SECRET''"
        and payload = "detection_json sample_ais" and e = e] e by blast+
  then show ?thesis using e by (simp add: EnvelopeClassificationOf_def label_defs envelope_defs)
qed

end
