(* ===== verification/IsrStore.thy ===== *)
theory IsrStore
  imports Envelope
begin

text \<open>
  \<open>internal/isr/store.go\<close> and \<open>internal/isr/isr_outbox.go\<close>: signed admission of
  detections into the table of migration 0007 with their envelope in the ISR outbox, and the
  delivery operations of that outbox. The JSON decoder of a detection payload is a parameter:
  \<open>None\<close> when the strict decode fails, otherwise the detection and whether nothing follows it.
\<close>

section \<open>Requests and rows\<close>

text \<open>\<open>SignedDetectionRequest\<close> has the fields of a feed admission request.\<close>

type_synonym signed_detection = feed_request

type_synonym detection_decoder = "bytes \<Rightarrow> (detection \<times> bool) option"

record detection_admission =
  da_event_id :: string
  da_classification :: classification
  da_payload_sha256 :: string
  da_key_fingerprint :: string
  da_received_at :: gotime
  da_replayed :: bool

record isr_event =
  iv_event_id :: string
  iv_source_id :: string
  iv_source_event_id :: string
  iv_modality :: string
  iv_classification :: classification
  iv_observed_at :: gotime
  iv_has_position :: bool
  iv_latitude :: "f64 option"
  iv_longitude :: "f64 option"
  iv_mmsi :: "string option"
  iv_payload :: bytes
  iv_payload_sha256 :: string
  iv_signature :: bytes
  iv_correlation_refs :: "string list"
  iv_received_at :: gotime

text \<open>The payload column of the ISR outbox keeps the sealed envelope.\<close>

record isr_outbox_event =
  io_topic :: string
  io_event_type :: string
  io_classification :: classification
  io_aggregate_key :: string
  io_payload :: envelope

record isr_db = feed_db +
  isr_events :: "isr_event list"
  isr_outbox :: "isr_outbox_event outbox_row list"

definition isr_outbox_insert ::
  "db_env \<Rightarrow> string \<Rightarrow> isr_outbox_event \<Rightarrow> gotime \<Rightarrow> 'a isr_db_scheme \<Rightarrow> 'a isr_db_scheme result" where
  "isr_outbox_insert env ev body created db =
     require (io_topic body \<in> {TopicISR, TopicBehaviour, TopicOutcome} \<and> valid_label (io_classification body))
       (EDb ''violates check constraint'')
      (rbind (outbox_insert env ev body created (isr_outbox db)) (\<lambda>rows. Inr (db\<lparr>isr_outbox := rows\<rparr>)))"

section \<open>Admission\<close>

definition validateEnvelope :: "signed_detection \<Rightarrow> validation" where
  "validateEnvelope r =
     first_error
       [check (\<not> identifierPattern (fr_source_id r) \<or> \<not> identifierPattern (fr_source_event_id r)) ''source identifiers are invalid'',
        check (length (fr_payload r) = 0 \<or> 2 ^ 20 < length (fr_payload r)) ''payload must be between 1 byte and 1 MiB'',
        check (length (fr_signature r) \<noteq> 64) ''ed25519 signature is required'',
        check (fr_claimed_at r = 0) ''claimed_at must be an RFC3339 timestamp inside the signed preimage'']"

definition DecodeDetection :: "detection_decoder \<Rightarrow> bytes \<Rightarrow> detection result" where
  "DecodeDetection decode payload =
     (case decode payload of
        None \<Rightarrow> Inl (EMsg ''signed detection payload must be one detection object without unknown fields'')
      | Some (d, at_eof) \<Rightarrow>
          require at_eof (EMsg ''signed detection payload must contain exactly one detection object'') (Inr d))"

definition nullableFloat :: "bool \<Rightarrow> f64 \<Rightarrow> f64 option" where
  "nullableFloat present v = (if present then Some v else None)"

definition nullableString :: "string \<Rightarrow> string option" where
  "nullableString v = (if v = [] then None else Some v)"

text \<open>The comparison loop: the differences of all byte pairs are accumulated with OR.\<close>

fun diff_loop :: "bytes \<Rightarrow> bytes \<Rightarrow> byte \<Rightarrow> byte" where
  "diff_loop (a # as) (b # bs) d = diff_loop as bs (d OR (a XOR b))"
| "diff_loop _ _ d = d"

definition bytesEqual :: "bytes \<Rightarrow> bytes \<Rightarrow> bool" where
  "bytesEqual a b = (if length a \<noteq> length b then False else diff_loop a b 0 = 0)"

definition new_isr_event :: "crypto \<Rightarrow> db_env \<Rightarrow> signed_detection \<Rightarrow> detection \<Rightarrow> isr_event" where
  "new_isr_event c env r d =
     \<lparr>iv_event_id = d_event_id d, iv_source_id = d_source_id d, iv_source_event_id = d_source_event_id d,
      iv_modality = d_modality d, iv_classification = d_classification d, iv_observed_at = pg_ts env (d_observed_at d),
      iv_has_position = d_has_position d, iv_latitude = nullableFloat (d_has_position d) (d_latitude d),
      iv_longitude = nullableFloat (d_has_position d) (d_longitude d), iv_mmsi = nullableString (d_mmsi d),
      iv_payload = fr_payload r, iv_payload_sha256 = sha256_text c (fr_payload r), iv_signature = fr_signature r,
      iv_correlation_refs = d_correlation_refs d, iv_received_at = pg_ts env (clock env 2)\<rparr>"

definition detection_event :: "envelope \<Rightarrow> isr_outbox_event" where
  "detection_event e =
     \<lparr>io_topic = en_topic e, io_event_type = en_event_type e, io_classification = en_clearance e,
      io_aggregate_key = en_aggregate_key e, io_payload = e\<rparr>"

definition AdmitDetection ::
  "crypto \<Rightarrow> (json \<Rightarrow> bytes) \<Rightarrow> detection_decoder \<Rightarrow> db_env \<Rightarrow> signed_detection \<Rightarrow> 'a isr_db_scheme \<Rightarrow>
   (detection \<times> detection_admission) result \<times> 'a isr_db_scheme" where
  "AdmitDetection c enc decode env r db =
     run_tx db
      (validated (validateEnvelope r)
       (rbind (DecodeDetection decode (fr_payload r))
        (\<lambda>d.
          require (d_source_id d = fr_source_id r \<and> d_source_event_id d = fr_source_event_id r)
            (EMsg ''signed detection must bind source_id and source_event_id'')
           (validated (detection_Validate d)
            (db_call env 0 ''begin detection admission''
             (db_call env 1 ''load feed source''
              (case find_source (fr_source_id r) db of
                 None \<Rightarrow> Inl IsrErrNotFound
               | Some s \<Rightarrow>
                  require (fs_active s) (EMsg ''feed source is inactive'')
                   (validated (ValidateFeedFreshness (fr_claimed_at r) (clock env 0))
                    (require (signature_accepted c env r s db) (EMsg ''detection signature verification failed'')
                     (let row = new_isr_event c env r d; digest = sha256_text c (fr_payload r); receivedAt = clock env 2;
                          admission = \<lparr>da_event_id = d_event_id d, da_classification = d_classification d, da_payload_sha256 = digest,
                            da_key_fingerprint = fs_key_fingerprint s, da_received_at = iv_received_at row, da_replayed = False\<rparr> in
                      db_call env 3 ''record detection''
                       (case find (\<lambda>e. iv_source_id e = fr_source_id r \<and> iv_source_event_id e = fr_source_event_id r) (isr_events db) of
                          Some e \<Rightarrow>
                            db_call env 4 ''load retained detection''
                             (require (iv_payload_sha256 e = digest \<and> bytesEqual (iv_signature e) (fr_signature r) \<and> iv_event_id e = d_event_id d)
                               IsrErrConflict
                               (db_call env 5 ''commit detection replay''
                                 (Inr ((d, admission\<lparr>da_received_at := iv_received_at e, da_replayed := True\<rparr>), db))))
                        | None \<Rightarrow>
                            require (d_event_id d \<notin> set (map iv_event_id (isr_events db))) (EDb ''record detection: duplicate key'')
                             (rbind (Seal c enc (new_uuid env 0) TopicISR ''isr.detection_admitted'' (d_event_id d) (d_classification d)
                                       receivedAt (detection_json d))
                               (\<lambda>e. db_call env 6 ''write detection outbox event''
                                 (rbind (isr_outbox_insert env (new_uuid env 1) (detection_event e) receivedAt
                                           (db\<lparr>isr_events := isr_events db @ [row]\<rparr>))
                                   (\<lambda>db'. db_call env 7 ''commit detection admission'' (Inr ((d, admission), db')))))))))))))))))"

section \<open>Delivery of the ISR outbox\<close>

text \<open>The mark operations only refuse a blank worker id; they do not require it to be trimmed.\<close>

definition worker_nonblank :: "string \<Rightarrow> bool" where
  "worker_nonblank w = (trim_space w \<noteq> [])"

definition ClaimISROutbox ::
  "db_env \<Rightarrow> (string \<Rightarrow> bool) \<Rightarrow> string \<Rightarrow> duration \<Rightarrow> 'a isr_db_scheme \<Rightarrow>
   isr_outbox_event outbox_row result \<times> 'a isr_db_scheme" where
  "ClaimISROutbox env locked workerID lease db =
     run_tx db
      (require (worker_canonical workerID) worker_error
       (require (lease_ok lease) lease_error
        (rbind (claim_outbox_rows ''isr outbox'' env locked workerID lease ErrNoPendingISROutbox (isr_outbox db))
           (\<lambda>(r, rows). Inr (r, db\<lparr>isr_outbox := rows\<rparr>)))))"

definition MarkISROutboxPublished ::
  "db_env \<Rightarrow> string \<Rightarrow> string \<Rightarrow> 'a isr_db_scheme \<Rightarrow> unit result \<times> 'a isr_db_scheme" where
  "MarkISROutboxPublished env eventID workerID db =
     run_tx db
      (require (worker_nonblank workerID) worker_error
       (db_call env 0 ''mark isr outbox published''
        (rbind (update_owned eventID workerID (publish_row (db_now env)) ErrISROutboxOwnership (isr_outbox db))
           (\<lambda>rows. Inr ((), db\<lparr>isr_outbox := rows\<rparr>)))))"

definition MarkISROutboxFailed ::
  "db_env \<Rightarrow> string \<Rightarrow> string \<Rightarrow> string \<Rightarrow> gotime \<Rightarrow> 'a isr_db_scheme \<Rightarrow> unit result \<times> 'a isr_db_scheme" where
  "MarkISROutboxFailed env eventID workerID failure retryAt db =
     run_tx db
      (require (worker_nonblank workerID) worker_error
       (require (failure_ok failure) failure_error
        (db_call env 0 ''mark isr outbox failed''
         (rbind (update_owned eventID workerID (fail_row (pg_ts env retryAt) (trim_space failure)) ErrISROutboxOwnership (isr_outbox db))
            (\<lambda>rows. Inr ((), db\<lparr>isr_outbox := rows\<rparr>))))))"

text \<open>The ISR store is the second outbox store.\<close>

interpretation isr_ob: outbox_store isr_outbox ClaimISROutbox MarkISROutboxPublished MarkISROutboxFailed
  "''isr outbox''" ErrNoPendingISROutbox ErrISROutboxOwnership
proof
qed (auto simp: ClaimISROutbox_def MarkISROutboxPublished_def MarkISROutboxFailed_def run_tx_Inr_iff elim!: run_tx_cases)

section \<open>Comparison of signatures\<close>

lemma or_eq_0_byte: "(a OR b = (0 :: byte)) \<longleftrightarrow> a = 0 \<and> b = 0"
  by (auto simp: bit_eq_iff bit_simps)

lemma xor_eq_0_byte: "(a XOR b = (0 :: byte)) \<longleftrightarrow> a = b"
  by (auto simp: bit_eq_iff bit_simps)

lemma diff_loop_zero: "length a = length b \<Longrightarrow> diff_loop a b d = 0 \<longleftrightarrow> d = 0 \<and> a = b"
  by (induction a b d rule: diff_loop.induct) (auto simp: or_eq_0_byte xor_eq_0_byte)

lemma bytesEqual_eq [simp]: "bytesEqual a b \<longleftrightarrow> a = b"
  using diff_loop_zero [of a b 0] by (auto simp: bytesEqual_def)

text \<open>
  The constant-time comparison is equality of byte slices: of any length, with the early exit
  on different lengths.
\<close>

theorem bytesEqual_is_equality: "bytesEqual a b = (a = b)"
  by simp

section \<open>What an admission commits\<close>

lemma isr_outbox_insert_Inr:
  "isr_outbox_insert env ev body t db = Inr db' \<longleftrightarrow>
     io_topic body \<in> {TopicISR, TopicBehaviour, TopicOutcome} \<and> valid_label (io_classification body) \<and>
     ev \<notin> set (map ob_event_id (isr_outbox db)) \<and> db' = db\<lparr>isr_outbox := isr_outbox db @ [new_outbox_row env ev body t]\<rparr>"
  by (auto simp: isr_outbox_insert_def)

lemma DecodeDetection_Inr: "DecodeDetection decode p = Inr d \<longleftrightarrow> decode p = Some (d, True)"
  by (auto simp: DecodeDetection_def split: option.splits)

definition admission_checks :: "crypto \<Rightarrow> detection_decoder \<Rightarrow> db_env \<Rightarrow> signed_detection \<Rightarrow> detection \<Rightarrow> feed_source \<Rightarrow> 'a isr_db_scheme \<Rightarrow> bool" where
  "admission_checks c decode env r d s db =
     (validateEnvelope r = None \<and> decode (fr_payload r) = Some (d, True) \<and> detection_Validate d = None \<and>
      d_source_id d = fr_source_id r \<and> d_source_event_id d = fr_source_event_id r \<and>
      find_source (fr_source_id r) db = Some s \<and> fs_active s \<and>
      ValidateFeedFreshness (fr_claimed_at r) (clock env 0) = None \<and> signature_accepted c env r s db)"

lemma AdmitDetection_Inr:
  assumes "AdmitDetection c enc decode env r db = (Inr (d, a), db')"
  obtains (replayed) s e where "admission_checks c decode env r d s db" "e \<in> set (isr_events db)"
      "iv_source_id e = fr_source_id r" "iv_source_event_id e = fr_source_event_id r"
      "iv_payload_sha256 e = sha256_text c (fr_payload r)" "iv_signature e = fr_signature r" "iv_event_id e = d_event_id d"
      "da_replayed a" "da_received_at a = iv_received_at e" "db' = db"
  | (inserted) s e where "admission_checks c decode env r d s db" "\<not> da_replayed a"
      "(d_source_id d, d_source_event_id d) \<notin> (\<lambda>e. (iv_source_id e, iv_source_event_id e)) ` set (isr_events db)"
      "d_event_id d \<notin> iv_event_id ` set (isr_events db)"
      "Seal c enc (new_uuid env 0) TopicISR ''isr.detection_admitted'' (d_event_id d) (d_classification d) (clock env 2) (detection_json d) = Inr e"
      "new_uuid env 1 \<notin> set (map ob_event_id (isr_outbox db))"
      "db' = db\<lparr>isr_events := isr_events db @ [new_isr_event c env r d],
         isr_outbox := isr_outbox db @ [new_outbox_row env (new_uuid env 1) (detection_event e) (clock env 2)]\<rparr>"
proof -
  have run: "validateEnvelope r = None" "decode (fr_payload r) = Some (d, True)" "detection_Validate d = None"
    "d_source_id d = fr_source_id r" "d_source_event_id d = fr_source_event_id r"
    using assms by (auto simp: AdmitDetection_def run_tx_Inr_iff DecodeDetection_Inr Let_def split: option.splits)
  obtain s where s: "find_source (fr_source_id r) db = Some s"
    using assms run by (cases "find_source (fr_source_id r) db") (simp_all add: AdmitDetection_def run_tx_Inr_iff DecodeDetection_def)
  have chk: "admission_checks c decode env r d s db"
    using assms run s by (simp add: admission_checks_def AdmitDetection_def run_tx_Inr_iff DecodeDetection_def)
  let ?P = "\<lambda>e. iv_source_id e = fr_source_id r \<and> iv_source_event_id e = fr_source_event_id r"
  show thesis
  proof (cases "find ?P (isr_events db)")
    case None
    then have k: "(d_source_id d, d_source_event_id d) \<notin> (\<lambda>e. (iv_source_id e, iv_source_event_id e)) ` set (isr_events db)"
      using run by (auto simp: find_None_all)
    obtain e where e: "Seal c enc (new_uuid env 0) TopicISR ''isr.detection_admitted'' (d_event_id d) (d_classification d) (clock env 2) (detection_json d) = Inr e"
      and r: "d_event_id d \<notin> set (map iv_event_id (isr_events db))" "new_uuid env 1 \<notin> set (map ob_event_id (isr_outbox db))"
        "\<not> da_replayed a"
      and db': "db' = db\<lparr>isr_events := isr_events db @ [new_isr_event c env r d],
         isr_outbox := isr_outbox db @ [new_outbox_row env (new_uuid env 1) (detection_event e) (clock env 2)]\<rparr>"
      using assms run s None by (auto simp: AdmitDetection_def run_tx_Inr_iff DecodeDetection_def isr_outbox_insert_Inr Let_def)
    show thesis by (rule inserted [OF chk r(3) k _ e r(2) db']) (use r(1) in simp)
  next
    case (Some e)
    from find_SomeD [OF Some] show thesis
      using assms run s Some
      by (intro replayed [OF chk]) (auto simp: AdmitDetection_def run_tx_Inr_iff DecodeDetection_def Let_def)
  qed
qed


section \<open>Steps and invariant\<close>

lemma feed_more_of_incident_more:
  fixes db db' :: "'a feed_db_scheme"
  shows "incident_db.more db' = incident_db.more db \<Longrightarrow> feed_db.more db' = feed_db.more db"
  by (cases db; cases db'; simp)

lemma admitFeedEvent_more: "admitFeedEventInTransaction c env r db = Inr (a, db') \<Longrightarrow> feed_db.more db' = feed_db.more db"
  by (erule admitFeedEvent_Inr) auto

lemma update_source_more [simp]: "feed_db.more (update_source sid f db) = feed_db.more db"
  by (simp add: update_source_def)

lemma feed_step_more:
  assumes "feed_step c act db db'"
  shows "feed_db.more db' = feed_db.more db"
  using assms
proof cases
  case (admit_incident decode env q res)
  show ?thesis
  proof (cases res)
    case (Inl e)
    then show ?thesis using admit_incident by (auto simp: AdmitFeedIncident_def elim: run_tx_cases)
  next
    case (Inr ai)
    obtain a i where "ai = (a, i)" by (cases ai)
    then have "AdmitFeedIncident c decode env q db = (Inr (a, i), db')" using admit_incident Inr by simp
    then show ?thesis
      by (rule AdmitFeedIncident_Inr)
         (metis admitFeedEvent_more createIncident_more feed_more_of_incident_more)
  qed
next
  case incident_op
  then show ?thesis using incident_step_more feed_more_of_incident_more by blast
qed (auto simp: RegisterFeedSource_def AdmitFeedEvent_def RevokeFeedSource_def RotateFeedSourceKey_def Let_def
      elim!: run_tx_cases dest: admitFeedEvent_more split: option.splits if_splits)

lemma isr_tables_of_more:
  fixes db db' :: "'a isr_db_scheme"
  assumes "feed_db.more db' = feed_db.more db"
  shows "isr_events db' = isr_events db" "isr_outbox db' = isr_outbox db"
  using assms by (cases db; cases db'; simp)+

inductive isr_step :: "crypto \<Rightarrow> (json \<Rightarrow> bytes) \<Rightarrow> detection_decoder \<Rightarrow> 'a isr_db_scheme \<Rightarrow> 'a isr_db_scheme \<Rightarrow> bool" for c enc decode where
  admit: "AdmitDetection c enc decode env r db = (res, db') \<Longrightarrow> isr_step c enc decode db db'"
| feed: "feed_step c act db db' \<Longrightarrow> isr_step c enc decode db db'"
| announce: "isr_outbox_insert env ev body t db = Inr db' \<Longrightarrow> isr_step c enc decode db db'"
| claim: "ClaimISROutbox env locked w lease db = (res2, db') \<Longrightarrow> isr_step c enc decode db db'"
| published: "MarkISROutboxPublished env ev w db = (res3, db') \<Longrightarrow> isr_step c enc decode db db'"
| failed: "MarkISROutboxFailed env ev w m t db = (res3, db') \<Longrightarrow> isr_step c enc decode db db'"

inductive isr_reach :: "crypto \<Rightarrow> (json \<Rightarrow> bytes) \<Rightarrow> detection_decoder \<Rightarrow> 'a isr_db_scheme \<Rightarrow> 'a isr_db_scheme \<Rightarrow> bool" for c enc decode where
  refl: "isr_reach c enc decode db db"
| step: "isr_reach c enc decode db db' \<Longrightarrow> isr_step c enc decode db' db'' \<Longrightarrow> isr_reach c enc decode db db''"

definition announced :: "isr_outbox_event list \<Rightarrow> isr_event \<Rightarrow> bool" where
  "announced bodies e = (\<exists>b \<in> set bodies. io_topic b = TopicISR \<and> io_event_type b = ''isr.detection_admitted'' \<and>
     io_aggregate_key b = iv_event_id e \<and> io_classification b = iv_classification e)"

definition isr_events_ok :: "'a isr_db_scheme \<Rightarrow> bool" where
  "isr_events_ok db = (distinct (map iv_event_id (isr_events db)) \<and>
     distinct (map (\<lambda>e. (iv_source_id e, iv_source_event_id e)) (isr_events db)) \<and>
     (\<forall>e \<in> set (isr_events db). valid_label (iv_classification e) \<and> announced (map ob_body (isr_outbox db)) e))"

definition isr_outbox_ok :: "'a isr_db_scheme \<Rightarrow> bool" where
  "isr_outbox_ok db = (outbox_ok (isr_outbox db) \<and>
     (\<forall>b \<in> set (map ob_body (isr_outbox db)). valid_label (io_classification b) \<and> io_topic b \<in> {TopicISR, TopicBehaviour, TopicOutcome}))"

definition isr_ok :: "'a isr_db_scheme \<Rightarrow> bool" where
  "isr_ok db = (isr_events_ok db \<and> isr_outbox_ok db)"

lemma announced_mono: "set bs \<subseteq> set bs' \<Longrightarrow> announced bs e \<Longrightarrow> announced bs' e"
  by (auto simp: announced_def)

lemma isr_announce_ok:
  assumes "isr_outbox_insert env ev body t db = Inr db'" and "isr_ok db"
  shows "isr_ok db' \<and> isr_events db' = isr_events db"
proof -
  have ins: "valid_label (io_classification body)" "io_topic body \<in> {TopicISR, TopicBehaviour, TopicOutcome}"
    "ev \<notin> set (map ob_event_id (isr_outbox db))" "db' = db\<lparr>isr_outbox := isr_outbox db @ [new_outbox_row env ev body t]\<rparr>"
    using assms(1) unfolding isr_outbox_insert_Inr by blast+
  have "outbox_ok (isr_outbox db')" using ins assms(2) by (simp add: outbox_ok_append isr_ok_def isr_outbox_ok_def)
  then show ?thesis using ins assms(2)
    by (auto simp: isr_ok_def isr_events_ok_def isr_outbox_ok_def announced_def)
qed

lemma AdmitDetection_ok:
  assumes "AdmitDetection c enc decode env r db = (Inr (d, a), db')" and "isr_ok db"
  shows "isr_ok db' \<and> prefix (isr_events db) (isr_events db')"
  using assms(1)
proof (cases rule: AdmitDetection_Inr)
  case (replayed s e)
  then show ?thesis using assms(2) by simp
next
  case (inserted s e)
  let ?row = "new_isr_event c env r d"
  have row: "iv_event_id ?row = d_event_id d" "iv_source_id ?row = d_source_id d" "iv_source_event_id ?row = d_source_event_id d"
    "iv_classification ?row = d_classification d" by (simp_all add: new_isr_event_def)
  from inserted(5) have e: "en_topic e = TopicISR \<and> en_event_type e = ''isr.detection_admitted'' \<and> en_clearance e = d_classification d \<and>
      en_aggregate_key e = d_event_id d \<and> valid_label (d_classification d)"
    by (rule Seal_Inr) (simp add: build_envelope_def)
  have ob: "isr_outbox db' = isr_outbox db @ [new_outbox_row env (new_uuid env 1) (detection_event e) (clock env 2)]"
    and ev: "isr_events db' = isr_events db @ [?row]" using inserted(7) by simp_all
  have "announced (map ob_body (isr_outbox db')) ?row"
    using e row by (simp add: ob announced_def detection_event_def)
  moreover have "announced (map ob_body (isr_outbox db')) x" if "x \<in> set (isr_events db)" for x
    by (rule announced_mono [of "map ob_body (isr_outbox db)"]) (use that assms(2) in \<open>auto simp: ob isr_ok_def isr_events_ok_def\<close>)
  ultimately have "isr_events_ok db'"
    using assms(2) inserted(3,4) row e by (auto simp: isr_events_ok_def ev isr_ok_def)
  moreover have "isr_outbox_ok db'"
    using assms(2) inserted(6) e by (simp add: isr_outbox_ok_def ob isr_ok_def outbox_ok_append detection_event_def)
  ultimately show ?thesis by (simp add: isr_ok_def ev)
qed

lemma isr_delivery_ok:
  assumes "isr_ok db" and "outbox_reach (isr_outbox db) (isr_outbox db')" and "same_bodies (isr_outbox db) (isr_outbox db')"
    and "isr_events db' = isr_events db"
  shows "isr_ok db'"
proof -
  have m: "map ob_body (isr_outbox db') = map ob_body (isr_outbox db)" using assms(3) by (simp add: same_bodies_def)
  have "outbox_ok (isr_outbox db')"
    using assms(1,2) by (auto simp: isr_ok_def isr_outbox_ok_def dest: outbox_reach_ok)
  then show ?thesis
    using assms(1,4) m unfolding isr_ok_def isr_events_ok_def isr_outbox_ok_def by simp
qed

lemma isr_delivery:
  "ClaimISROutbox env l w lease db = (res, db') \<Longrightarrow> same_bodies (isr_outbox db) (isr_outbox db') \<and> isr_events db' = isr_events db"
  "MarkISROutboxPublished env ev w db = (res2, db') \<Longrightarrow> same_bodies (isr_outbox db) (isr_outbox db') \<and> isr_events db' = isr_events db"
  "MarkISROutboxFailed env ev w m t db = (res3, db') \<Longrightarrow> same_bodies (isr_outbox db) (isr_outbox db') \<and> isr_events db' = isr_events db"
  by (auto simp: ClaimISROutbox_def MarkISROutboxPublished_def MarkISROutboxFailed_def same_bodies_def
      elim!: run_tx_cases dest!: claim_same_bodies owned_same_bodies)

lemma isr_step_ok:
  assumes "isr_step c enc decode db db'" and "isr_ok db"
  shows "isr_ok db' \<and> prefix (isr_events db) (isr_events db')"
  using assms(1)
proof cases
  case (admit env r res)
  show ?thesis
  proof (cases res)
    case (Inl e)
    then have "db' = db" using admit by (auto simp: AdmitDetection_def elim: run_tx_cases)
    then show ?thesis using assms(2) by simp
  next
    case (Inr da)
    then show ?thesis using admit AdmitDetection_ok [OF _ assms(2)] by (cases da) auto
  qed
next
  case (feed act)
  note t = isr_tables_of_more [OF feed_step_more [OF feed]]
  show ?thesis using assms(2) by (simp add: isr_ok_def isr_events_ok_def isr_outbox_ok_def t)
next
  case announce
  then show ?thesis using isr_announce_ok [OF _ assms(2)] by auto
next
  case claim
  then show ?thesis using isr_delivery(1) [OF claim] isr_delivery_ok [OF assms(2) isr_ob.claim_reach [OF claim]] by simp
next
  case published
  then show ?thesis using isr_delivery(2) [OF published] isr_delivery_ok [OF assms(2) isr_ob.published_reach [OF published]] by simp
next
  case failed
  then show ?thesis using isr_delivery(3) [OF failed] isr_delivery_ok [OF assms(2) isr_ob.failed_reach [OF failed]] by simp
qed


lemma isr_reach_ok: "isr_reach c enc decode db db' \<Longrightarrow> isr_ok db \<Longrightarrow> isr_ok db' \<and> prefix (isr_events db) (isr_events db')"
proof (induction rule: isr_reach.induct)
  case (step db db' db'')
  then show ?case using isr_step_ok [OF step.hyps(2)] prefix_order.trans by blast
qed simp

definition bodies :: "'a isr_db_scheme \<Rightarrow> isr_outbox_event list" where
  "bodies db = map ob_body (isr_outbox db)"

definition outbox_ids :: "'a isr_db_scheme \<Rightarrow> string list" where
  "outbox_ids db = map ob_event_id (isr_outbox db)"

lemma Seal_event:
  assumes "Seal c enc u topic ty key label t payload = Inr e"
  shows "io_topic (detection_event e) = topic \<and> io_classification (detection_event e) = label"
  using assms by (rule Seal_Inr) (simp add: detection_event_def build_envelope_def)

section \<open>Properties\<close>



text \<open>
  C27. Safety of the ISR tables under every sequence of detection admissions, feed and incident
  operations, announcements of other components and outbox deliveries: event ids and (source,
  event) pairs stay unique, no retained detection is ever changed or removed, every event and
  outbox row has an approved label and topic, and every retained detection has its admission
  event in the outbox with the same label.
\<close>

theorem isr_reach_safe:
  assumes "isr_reach c enc decode db db'" and "isr_ok db"
  shows "distinct (map iv_event_id (isr_events db')) \<and>
    distinct (map (\<lambda>e. (iv_source_id e, iv_source_event_id e)) (isr_events db')) \<and> prefix (isr_events db) (isr_events db') \<and>
    outbox_ok (isr_outbox db') \<and>
    (\<forall>b \<in> set (map ob_body (isr_outbox db')). valid_label (io_classification b) \<and> io_topic b \<in> {TopicISR, TopicBehaviour, TopicOutcome}) \<and>
    (\<forall>e \<in> set (isr_events db'). valid_label (iv_classification e) \<and>
       (\<exists>b \<in> set (map ob_body (isr_outbox db')). io_topic b = TopicISR \<and> io_event_type b = ''isr.detection_admitted'' \<and>
          io_aggregate_key b = iv_event_id e \<and> io_classification b = iv_classification e))"
  using isr_reach_ok [OF assms]
  unfolding isr_ok_def isr_events_ok_def isr_outbox_ok_def announced_def by blast

definition sample_isr_db :: isr_db where
  "sample_isr_db = \<lparr>incidents = [], correlations = [], assignments = [], incident_outbox = [],
     feed_sources = [\<lparr>fs_source_id = ''ais-feed'', fs_source_kind = ''AIS'', fs_authority = ''nimasa'', fs_public_key = replicate 32 7,
       fs_key_fingerprint = sha256_text toy_crypto (replicate 32 7), fs_active = True, fs_created_at = 1, fs_updated_at = 1\<rparr>],
     feed_events = [], feed_revocations = [], key_rotations = [], isr_events = [], isr_outbox = []\<rparr>"

definition sample_signed :: signed_detection where
  "sample_signed = \<lparr>fr_source_id = ''ais-feed'', fr_source_event_id = ''se-1'', fr_claimed_at = unix_epoch,
     fr_payload = [1], fr_signature = replicate 64 7\<rparr>"

definition sample_isr_env :: db_env where
  "sample_isr_env = (calm_env unix_epoch ''u'')\<lparr>new_uuid := (\<lambda>n. if n = 0 then ''u0'' else ''u1'')\<rparr>"

lemma sample_isr_ok: "isr_ok sample_isr_db"
  by (simp add: isr_ok_def isr_events_ok_def isr_outbox_ok_def sample_isr_db_def)

lemma sample_signed_valid: "validateEnvelope sample_signed = None"
proof -
  have "identifierPattern ''ais-feed''" "identifierPattern ''se-1''" by code_simp+
  then show ?thesis by (simp add: validateEnvelope_def sample_signed_def unix_epoch_def second_def)
qed

lemma sample_detection_admitted_in:
  assumes "feed_sources db = feed_sources sample_isr_db" "isr_events db = []" "isr_outbox db = []"
  shows "\<exists>a db'. AdmitDetection toy_crypto (\<lambda>_. [0]) (\<lambda>_. Some (sample_ais, True)) sample_isr_env sample_signed db = (Inr (sample_ais, a), db') \<and>
     length (isr_events db') = 1 \<and> \<not> da_replayed a"
proof -
  have ids: "d_source_id sample_ais = fr_source_id sample_signed" "d_source_event_id sample_ais = fr_source_event_id sample_signed"
    "d_event_id sample_ais = ''ev-1''" "d_classification sample_ais = ''SECRET''"
    by (simp_all add: sample_ais_def sample_signed_def)
  have env: "db_faults sample_isr_env n = False" "clock sample_isr_env n = unix_epoch" "pg_ts sample_isr_env t = t" for n t
    by (simp_all add: sample_isr_env_def)
  have fresh: "ValidateFeedFreshness (fr_claimed_at sample_signed) unix_epoch = None" and epoch: "unix_epoch \<noteq> 0"
    by (simp_all add: ValidateFeedFreshness_None sample_signed_def FeedReplayWindow_def FeedClockSkew_def unix_epoch_def duration_defs)
  have src: "find_source (fr_source_id sample_signed) db = Some (hd (feed_sources sample_isr_db))"
    "fs_active (hd (feed_sources sample_isr_db))" "fs_public_key (hd (feed_sources sample_isr_db)) = replicate 32 7"
    unfolding find_source_def assms(1) by (simp_all add: sample_isr_db_def sample_signed_def)
  have "(replicate 64 7 :: bytes) = replicate 32 7 @ replicate 32 7" by (simp flip: replicate_add)
  then have sig: "signature_accepted toy_crypto sample_isr_env sample_signed (hd (feed_sources sample_isr_db)) db"
    using src(3) by (simp add: signature_accepted_def Let_def toy_crypto_def sample_signed_def)
  obtain e where e: "Seal toy_crypto (\<lambda>_. [0]) (new_uuid sample_isr_env 0) TopicISR ''isr.detection_admitted'' (d_event_id sample_ais) (d_classification sample_ais)
      unix_epoch (detection_json sample_ais) = Inr e"
    using Seal_detection [OF sample_ais_valid epoch] by blast
  then have "io_topic (detection_event e) = TopicISR" "io_classification (detection_event e) = ''SECRET''" "valid_label ''SECRET''"
    by (auto simp: detection_event_def build_envelope_def ids(4) elim!: Seal_Inr)
  then show ?thesis
    by (simp add: AdmitDetection_def run_tx_Inr_iff sample_signed_valid DecodeDetection_def ids(1,2) sample_ais_valid env src fresh sig
        Let_def assms(2,3) e isr_outbox_insert_def)
qed

lemma sample_detection_admitted:
  "\<exists>d a db'. AdmitDetection toy_crypto (\<lambda>_. [0]) (\<lambda>_. Some (sample_ais, True)) sample_isr_env sample_signed sample_isr_db = (Inr (d, a), db') \<and>
     length (isr_events db') = 1"
  using sample_detection_admitted_in [of sample_isr_db] by (auto simp: sample_isr_db_def)

theorem isr_reach_safe_witness:
  "\<exists>db'. isr_reach toy_crypto (\<lambda>_. [0]) (\<lambda>_. Some (sample_ais, True)) sample_isr_db db' \<and> length (isr_events db') = 1 \<and>
     (\<exists>e b. isr_events db' = [e] \<and> b \<in> set (map ob_body (isr_outbox db')) \<and> io_classification b = iv_classification e)"
proof -
  obtain d a db' where a: "AdmitDetection toy_crypto (\<lambda>_. [0]) (\<lambda>_. Some (sample_ais, True)) sample_isr_env sample_signed sample_isr_db = (Inr (d, a), db')"
    and l: "length (isr_events db') = 1" using sample_detection_admitted by blast
  have r: "isr_reach toy_crypto (\<lambda>_. [0]) (\<lambda>_. Some (sample_ais, True)) sample_isr_db db'"
    by (rule isr_reach.step [OF isr_reach.refl isr_step.admit [OF a]])
  obtain e where e: "isr_events db' = [e]" using l by (cases "isr_events db'") auto
  show ?thesis using r l e isr_reach_safe [OF r sample_isr_ok] by fastforce
qed

end
