(* ===== verification/Access.thy ===== *)
theory Access
  imports IsrStore
begin

text \<open>
  \<open>internal/isr/access.go\<close>: principals, the role sets and the clearance-filtered listing of
  detections. The roles of a principal are the keys of a Go map; the model keeps them as a list
  and counts distinct ones. SQL leaves the order of rows with equal sort keys open; the model
  keeps table order there. The listings of anomalies and of outcome aggregates are in the
  theories of their tables.
\<close>

section \<open>Roles and principals\<close>

definition RoleNIMASAOfficer :: string where "RoleNIMASAOfficer = ''nimasa-officer''"
definition RoleDefenceHQObserver :: string where "RoleDefenceHQObserver = ''defence-hq-observer''"
definition RoleNNOfficer :: string where "RoleNNOfficer = ''nn-officer''"
definition RoleONSAObserver :: string where "RoleONSAObserver = ''onsa-observer''"
definition RoleMarinePolice :: string where "RoleMarinePolice = ''marine-police''"
definition RoleFleetOperator :: string where "RoleFleetOperator = ''fleet-operator''"
definition RoleInsurerAggregator :: string where "RoleInsurerAggregator = ''insurer-aggregator''"
definition RoleAuditor :: string where "RoleAuditor = ''auditor''"
definition RoleFeedSourceAdmin :: string where "RoleFeedSourceAdmin = ''feed-source-admin''"

lemmas role_defs = RoleNIMASAOfficer_def RoleDefenceHQObserver_def RoleNNOfficer_def RoleONSAObserver_def
  RoleMarinePolice_def RoleFleetOperator_def RoleInsurerAggregator_def RoleAuditor_def RoleFeedSourceAdmin_def

definition readOnlyRoles :: "string list" where
  "readOnlyRoles = [RoleDefenceHQObserver, RoleONSAObserver, RoleInsurerAggregator, RoleAuditor]"

definition trackReaderRoles :: "string list" where
  "trackReaderRoles = [RoleNIMASAOfficer, RoleDefenceHQObserver, RoleNNOfficer, RoleONSAObserver, RoleMarinePolice,
     RoleFleetOperator, RoleAuditor]"

definition outcomeAggregateReaderRoles :: "string list" where
  "outcomeAggregateReaderRoles = [RoleNIMASAOfficer, RoleDefenceHQObserver, RoleNNOfficer, RoleONSAObserver, RoleMarinePolice,
     RoleFleetOperator, RoleInsurerAggregator, RoleAuditor]"

record principal =
  pr_subject :: string
  pr_roles :: "string list"
  pr_clearance :: classification

definition HasRole :: "principal \<Rightarrow> string \<Rightarrow> bool" where
  "HasRole p role = (role \<in> set (pr_roles p))"

definition IsReadOnly :: "principal \<Rightarrow> bool" where
  "IsReadOnly p = (if pr_roles p = [] then True else list_all (\<lambda>r. r \<in> set readOnlyRoles) (pr_roles p))"

definition CanReadTracks :: "principal \<Rightarrow> classification \<Rightarrow> validation" where
  "CanReadTracks p event =
     (if \<not> list_ex (\<lambda>r. r \<in> set trackReaderRoles) (pr_roles p) then Some ErrForbidden
      else if HasRole p RoleInsurerAggregator \<and> length (remdups (pr_roles p)) = 1 then Some ErrForbidden
      else if \<not> Covers (pr_clearance p) event then Some ErrForbidden
      else None)"

definition CanReadOutcomeAggregates :: "principal \<Rightarrow> validation" where
  "CanReadOutcomeAggregates p =
     (if list_ex (\<lambda>r. r \<in> set outcomeAggregateReaderRoles) (pr_roles p) then None else Some ErrForbidden)"

definition CanAdministerFeedSources :: "principal \<Rightarrow> validation" where
  "CanAdministerFeedSources p = (if \<not> HasRole p RoleFeedSourceAdmin then Some ErrForbidden else None)"

definition clearanceCeiling :: "principal \<Rightarrow> classification result" where
  "clearanceCeiling p = (case ParseClassification (pr_clearance p) of Inl _ \<Rightarrow> Inl ErrForbidden | Inr _ \<Rightarrow> Inr (pr_clearance p))"

definition coveredLabels :: "classification \<Rightarrow> string list" where
  "coveredLabels ceil =
     filter (Covers ceil)
       [ClassificationUnclassified, ClassificationRestricted, ClassificationConfidential, ClassificationSecret]"

section \<open>Listing detections\<close>

record detection_filter =
  df_modality :: string
  df_mmsi :: string
  df_since :: gotime
  df_limit :: int

definition effective_limit :: "int \<Rightarrow> nat" where
  "effective_limit limit = (if limit \<le> 0 \<or> 500 < limit then 500 else nat limit)"

definition detection_matches :: "detection_filter \<Rightarrow> string list \<Rightarrow> isr_event \<Rightarrow> bool" where
  "detection_matches f labels e =
     (iv_classification e \<in> set labels \<and> (df_modality f = [] \<or> iv_modality e = df_modality f) \<and>
      (df_mmsi f = [] \<or> iv_mmsi e = Some (df_mmsi f)) \<and> (df_since f = 0 \<or> df_since f \<le> iv_observed_at e))"

definition select_detections :: "detection_filter \<Rightarrow> string list \<Rightarrow> isr_event list \<Rightarrow> isr_event list" where
  "select_detections f labels rows =
     take (effective_limit (df_limit f)) (sort_key (\<lambda>e. - iv_observed_at e) (filter (detection_matches f labels) rows))"

text \<open>The loop over the rows; \<open>jsonb\<close> is the text PostgreSQL returns for a stored payload.\<close>

fun scan_detections :: "detection_decoder \<Rightarrow> (bytes \<Rightarrow> bytes) \<Rightarrow> principal \<Rightarrow> isr_event list \<Rightarrow> detection list result" where
  "scan_detections decode jsonb p [] = Inr []"
| "scan_detections decode jsonb p (e # es) =
     (case DecodeDetection decode (jsonb (iv_payload e)) of
        Inl err \<Rightarrow> Inl (EWrap ''decode retained detection'' err)
      | Inr d \<Rightarrow> validated (CanReadTracks p (d_classification d)) (rbind (scan_detections decode jsonb p es) (\<lambda>ds. Inr (d # ds))))"

definition ListDetections ::
  "detection_decoder \<Rightarrow> (bytes \<Rightarrow> bytes) \<Rightarrow> db_env \<Rightarrow> principal \<Rightarrow> detection_filter \<Rightarrow> 'a isr_db_scheme \<Rightarrow> detection list result" where
  "ListDetections decode jsonb env p f db =
     validated (CanReadTracks p ClassificationUnclassified)
      (rbind (clearanceCeiling p)
        (\<lambda>ceil. db_call env 0 ''list detections''
          (rbind (scan_detections decode jsonb p (select_detections f (coveredLabels ceil) (isr_events db)))
            (\<lambda>ds. db_call env 1 ''list detections'' (Inr ds)))))"

definition LoadFeedSourceActive :: "db_env \<Rightarrow> string \<Rightarrow> 'a feed_db_scheme \<Rightarrow> bool result" where
  "LoadFeedSourceActive env sid db =
     db_call env 0 ''load feed source''
       (case find_source sid db of None \<Rightarrow> Inl IsrErrNotFound | Some s \<Rightarrow> Inr (fs_active s))"

section \<open>Clearance\<close>

lemma CanReadTracks_None:
  "CanReadTracks p c = None \<longleftrightarrow> (\<exists>r \<in> set (pr_roles p). r \<in> set trackReaderRoles) \<and> Covers (pr_clearance p) c"
proof -
  have "\<not> (HasRole p RoleInsurerAggregator \<and> length (remdups (pr_roles p)) = 1)"
    if "\<exists>r \<in> set (pr_roles p). r \<in> set trackReaderRoles"
  proof
    assume a: "HasRole p RoleInsurerAggregator \<and> length (remdups (pr_roles p)) = 1"
    then have "card (set (pr_roles p)) = 1" by (metis length_remdups_card_conv)
    then obtain r where "set (pr_roles p) = {r}" by (auto simp: card_1_singleton_iff)
    then have "set (pr_roles p) = {RoleInsurerAggregator}" using a by (auto simp: HasRole_def)
    moreover have "RoleInsurerAggregator \<notin> set trackReaderRoles" by (simp add: trackReaderRoles_def role_defs)
    ultimately show False using that by simp
  qed
  then show ?thesis by (auto simp: CanReadTracks_def list_ex_iff)
qed

lemma valid_label_iff_consts: "valid_label c \<longleftrightarrow>
    c = ClassificationUnclassified \<or> c = ClassificationRestricted \<or> c = ClassificationConfidential \<or> c = ClassificationSecret"
  by (simp add: valid_label_def ParseClassification_def)

lemma coveredLabels_iff: "c \<in> set (coveredLabels ceil) \<longleftrightarrow> Covers ceil c"
  by (simp add: coveredLabels_def Covers_iff valid_label_iff_consts) blast

lemma clearanceCeiling_Inr: "clearanceCeiling p = Inr c \<longleftrightarrow> c = pr_clearance p \<and> valid_label c"
  by (auto simp: clearanceCeiling_def ParseClassification_Inr ParseClassification_Inl split: sum.splits)

lemma scan_detections_Inr:
  "scan_detections decode jsonb p es = Inr ds \<longleftrightarrow>
     length ds = length es \<and> (\<forall>i < length es. decode (jsonb (iv_payload (es ! i))) = Some (ds ! i, True) \<and> CanReadTracks p (d_classification (ds ! i)) = None)"
proof (induction es arbitrary: ds)
  case Nil
  then show ?case by auto
next
  case (Cons e es)
  have "scan_detections decode jsonb p (e # es) = Inr ds \<longleftrightarrow>
     (\<exists>d ds'. ds = d # ds' \<and> decode (jsonb (iv_payload e)) = Some (d, True) \<and> CanReadTracks p (d_classification d) = None \<and>
        scan_detections decode jsonb p es = Inr ds')"
    by (cases "DecodeDetection decode (jsonb (iv_payload e))") (auto simp: DecodeDetection_Inr [symmetric])
  then show ?case unfolding Cons.IH by (cases ds) (auto simp: nth_Cons' less_Suc_eq_0_disj All_less_Suc2)
qed

text \<open>
  No read up: whatever the table holds, a listing only ever returns detections whose label the
  caller's clearance covers, at most 500 of them, and only to a caller with a track-reader role;
  a principal whose only role is the insurer aggregator, or whose clearance is not an approved
  label, gets the forbidden error and no rows.
\<close>

theorem ListDetections_no_read_up:
  "(case ListDetections decode jsonb env p f db of
      Inl e \<Rightarrow> True
    | Inr ds \<Rightarrow> (\<exists>r \<in> set (pr_roles p). r \<in> set trackReaderRoles) \<and> length ds \<le> 500 \<and>
        list_all (\<lambda>d. Covers (pr_clearance p) (d_classification d)) ds) \<and>
   (set (pr_roles p) = {RoleInsurerAggregator} \<or> ParseClassification (pr_clearance p) = Inl ErrInvalidClassification \<longrightarrow>
      ListDetections decode jsonb env p f db = Inl ErrForbidden)"
proof (intro conjI impI)
  show "case ListDetections decode jsonb env p f db of
      Inl e \<Rightarrow> True
    | Inr ds \<Rightarrow> (\<exists>r \<in> set (pr_roles p). r \<in> set trackReaderRoles) \<and> length ds \<le> 500 \<and>
        list_all (\<lambda>d. Covers (pr_clearance p) (d_classification d)) ds"
  proof (cases "ListDetections decode jsonb env p f db")
    case (Inr ds)
    have len: "length (select_detections f labels rows) \<le> 500" for labels rows
      by (auto simp: select_detections_def effective_limit_def min_def)
    obtain es where "scan_detections decode jsonb p es = Inr ds" "length es \<le> 500"
      using Inr len by (auto simp: ListDetections_def)
    moreover have "\<exists>r \<in> set (pr_roles p). r \<in> set trackReaderRoles"
      using Inr by (auto simp: ListDetections_def CanReadTracks_None)
    moreover have "list_all (\<lambda>d. Covers (pr_clearance p) (d_classification d)) ds" "length ds = length es"
      if "scan_detections decode jsonb p es = Inr ds" for es
      using that unfolding scan_detections_Inr CanReadTracks_None by (simp_all add: list_all_length)
    ultimately show ?thesis using Inr by auto
  qed simp
next
  assume "set (pr_roles p) = {RoleInsurerAggregator} \<or> ParseClassification (pr_clearance p) = Inl ErrInvalidClassification"
  moreover have "RoleInsurerAggregator \<notin> set trackReaderRoles" by (simp add: trackReaderRoles_def role_defs)
  moreover have "ParseClassification l = Inl ErrInvalidClassification \<Longrightarrow> \<not> Covers l e" for l e
    by (simp add: ParseClassification_Inl Covers_iff)
  ultimately have "CanReadTracks p ClassificationUnclassified \<noteq> None"
    unfolding CanReadTracks_None by (metis singletonD)
  then have "CanReadTracks p ClassificationUnclassified = Some ErrForbidden"
    by (auto simp: CanReadTracks_def split: if_splits)
  then show "ListDetections decode jsonb env p f db = Inl ErrForbidden" by (simp add: ListDetections_def)
qed

definition any_filter :: detection_filter where
  "any_filter = \<lparr>df_modality = [], df_mmsi = [], df_since = 0, df_limit = 0\<rparr>"

theorem ListDetections_no_read_up_witness:
  "ListDetections (\<lambda>_. None) (\<lambda>b. b) (calm_env 1 ''u'') \<lparr>pr_subject = ''ins'', pr_roles = [''insurer-aggregator''], pr_clearance = ''SECRET''\<rparr>
     any_filter sample_isr_db = Inl ErrForbidden"
  using ListDetections_no_read_up [where p = "\<lparr>pr_subject = ''ins'', pr_roles = [''insurer-aggregator''], pr_clearance = ''SECRET''\<rparr>"
      and decode = "\<lambda>_. None" and jsonb = "\<lambda>b. b" and env = "calm_env 1 ''u''" and f = any_filter and db = sample_isr_db]
  by (simp add: RoleInsurerAggregator_def)

text \<open>
  Nothing is hidden from a cleared reader: with a reader role, an approved clearance and
  working database calls, and when stored payloads read back as the detections they were admitted
  as, the listing succeeds and returns the matching detections the clearance covers, newest
  first, up to the limit.
\<close>

theorem ListDetections_complete:
  assumes "\<exists>r \<in> set (pr_roles p). r \<in> set trackReaderRoles" and "valid_label (pr_clearance p)" and "\<And>n. \<not> db_faults env n"
    and "\<And>e. e \<in> set (isr_events db) \<Longrightarrow> decode (jsonb (iv_payload e)) = Some (of_row e, True) \<and> d_classification (of_row e) = iv_classification e"
  shows "ListDetections decode jsonb env p f db =
    Inr (map of_row (take (effective_limit (df_limit f))
       (sort_key (\<lambda>e. - iv_observed_at e)
         (filter (\<lambda>e. Covers (pr_clearance p) (iv_classification e) \<and> (df_modality f = [] \<or> iv_modality e = df_modality f) \<and>
            (df_mmsi f = [] \<or> iv_mmsi e = Some (df_mmsi f)) \<and> (df_since f = 0 \<or> df_since f \<le> iv_observed_at e)) (isr_events db)))))"
proof -
  let ?es = "select_detections f (coveredLabels (pr_clearance p)) (isr_events db)"
  have un: "CanReadTracks p ClassificationUnclassified = None"
    using assms(1,2) by (auto simp: CanReadTracks_None Covers_iff Rank_def)
  have sel: "e \<in> set (isr_events db) \<and> Covers (pr_clearance p) (iv_classification e)" if "e \<in> set ?es" for e
    using that by (auto simp: select_detections_def detection_matches_def coveredLabels_iff dest: in_set_takeD)
  have "scan_detections decode jsonb p ?es = Inr (map of_row ?es)"
    unfolding scan_detections_Inr using assms(1,4) sel by (auto simp: CanReadTracks_None)
  moreover have "clearanceCeiling p = Inr (pr_clearance p)" using assms(2) by (simp add: clearanceCeiling_Inr)
  ultimately have "ListDetections decode jsonb env p f db = Inr (map of_row ?es)"
    using un assms(3) by (simp add: ListDetections_def)
  moreover have "detection_matches f (coveredLabels (pr_clearance p)) =
     (\<lambda>e. Covers (pr_clearance p) (iv_classification e) \<and> (df_modality f = [] \<or> iv_modality e = df_modality f) \<and>
        (df_mmsi f = [] \<or> iv_mmsi e = Some (df_mmsi f)) \<and> (df_since f = 0 \<or> df_since f \<le> iv_observed_at e))"
    by (simp add: fun_eq_iff detection_matches_def coveredLabels_iff)
  ultimately show ?thesis by (simp add: select_detections_def)
qed


definition officer :: principal where
  "officer = \<lparr>pr_subject = ''off-1'', pr_roles = [''nimasa-officer''], pr_clearance = ''SECRET''\<rparr>"

definition one_event_db :: isr_db where
  "one_event_db = sample_isr_db\<lparr>isr_events := [new_isr_event toy_crypto sample_isr_env sample_signed sample_ais]\<rparr>"

theorem ListDetections_complete_witness:
  "ListDetections (\<lambda>_. Some (sample_ais, True)) (\<lambda>b. b) (calm_env 1 ''u'') officer any_filter one_event_db = Inr [sample_ais]"
proof -
  have l: "d_classification sample_ais = iv_classification e" if "e \<in> set (isr_events one_event_db)" for e
    using that by (simp add: one_event_db_def new_isr_event_def)
  have r: "\<exists>r \<in> set (pr_roles officer). r \<in> set trackReaderRoles" and v: "valid_label (pr_clearance officer)"
    by (simp_all add: officer_def trackReaderRoles_def RoleNIMASAOfficer_def valid_label_iff_consts ClassificationSecret_def)
  have c: "Covers ''SECRET'' ''SECRET''" by code_simp
  have "effective_limit (df_limit any_filter) = 500" by (simp add: effective_limit_def any_filter_def)
  then show ?thesis
    using ListDetections_complete [OF r v, of "calm_env 1 ''u''" one_event_db "\<lambda>_. Some (sample_ais, True)" "\<lambda>b. b" "\<lambda>_. sample_ais" any_filter] l c
    by (simp add: one_event_db_def officer_def any_filter_def new_isr_event_def sample_ais_def)
qed

end
