(* ===== verification/Fusion.thy ===== *)
theory Fusion
  imports Geo Detection
begin

text \<open>
  \<open>internal/tracks/fusion.go\<close>: the track fusion engine. The engine's maps are maps; a
  track pointer is its key in the track map (\<open>engine.tracks[track.TrackID] = track\<close>, so the
  key stands for \<open>TrackID\<close>; the invariant below proves that they agree). Go iterates over the track map in an unspecified
  order, so every loop over it takes the order as an argument; the clock reading and the fresh
  track id are arguments too, and the latency recorder is a log. The detail text of an anomaly
  is kept as its parts. The mutex makes each operation atomic.
\<close>

section \<open>Configuration\<close>

definition AnomalyDarkVessel :: string where "AnomalyDarkVessel = ''dark-vessel''"
definition AnomalySpeedOutlier :: string where "AnomalySpeedOutlier = ''speed-outlier''"
definition AnomalyRendezvous :: string where "AnomalyRendezvous = ''rendezvous''"
definition AnomalyLoitering :: string where "AnomalyLoitering = ''loitering''"

lemmas anomaly_kind_defs = AnomalyDarkVessel_def AnomalySpeedOutlier_def AnomalyRendezvous_def AnomalyLoitering_def

record fusion_config =
  CorrelationWindow :: duration
  CorrelationRadiusMeters :: f64
  RendezvousRadiusMeters :: f64
  RendezvousMinDuration :: duration
  LoiteringMinDuration :: duration
  DarkVesselAISGap :: duration
  BaselineMaxSpeedKnots :: f64

definition DefaultConfig :: fusion_config where
  "DefaultConfig =
     \<lparr>CorrelationWindow = 10 * minute, CorrelationRadiusMeters = Fin 2000, RendezvousRadiusMeters = Fin 500,
      RendezvousMinDuration = 10 * minute, LoiteringMinDuration = 30 * minute, DarkVesselAISGap = 30 * minute,
      BaselineMaxSpeedKnots = Fin 45\<rparr>"

definition positiveFinite :: "f64 \<Rightarrow> bool" where
  "positiveFinite x = (f_lt (Fin 0) x \<and> f_eq x x \<and> f_lt x (rnd (10 ^ 15)))"

definition Config_Validate :: "fusion_config \<Rightarrow> validation" where
  "Config_Validate c =
     first_error
       [check (CorrelationWindow c \<le> 0 \<or> 24 * hour < CorrelationWindow c) ''correlation window must be within (0, 24h]'',
        check (\<not> positiveFinite (CorrelationRadiusMeters c) \<or> f_lt (Fin 50000) (CorrelationRadiusMeters c))
          ''correlation radius must be within (0, 50000] meters'',
        check (\<not> positiveFinite (RendezvousRadiusMeters c) \<or> f_lt (Fin 10000) (RendezvousRadiusMeters c))
          ''rendezvous radius must be within (0, 10000] meters'',
        check (RendezvousMinDuration c \<le> 0 \<or> 24 * hour < RendezvousMinDuration c)
          ''rendezvous minimum duration must be within (0, 24h]'',
        check (LoiteringMinDuration c \<le> 0 \<or> 72 * hour < LoiteringMinDuration c)
          ''loitering minimum duration must be within (0, 72h]'',
        check (DarkVesselAISGap c \<le> 0 \<or> 7 * 24 * hour < DarkVesselAISGap c) ''dark-vessel AIS gap must be within (0, 168h]'',
        check (\<not> positiveFinite (BaselineMaxSpeedKnots c) \<or> f_lt (rnd (1022/10)) (BaselineMaxSpeedKnots c))
          ''baseline max speed must be within (0, 102.2] knots'']"

section \<open>Tracks and anomalies\<close>

record track_point =
  tp_detection_ref :: string
  tp_modality :: string
  tp_observed_at :: gotime
  tp_position :: position
  tp_speed_knots :: f64
  tp_heading_deg :: f64

record track =
  tk_id :: string
  tk_mmsi :: string
  tk_classification :: classification
  tk_points :: "track_point list"
  tk_last_ais_at :: gotime
  tk_zone_enter :: "string \<rightharpoonup> gotime"
  tk_loiter_alerted :: "string set"
  tk_near_since :: "string \<rightharpoonup> gotime"
  tk_rendez_alerted :: "string set"
  tk_dark_alerted :: bool

definition track_Last :: "track \<Rightarrow> track_point option" where
  "track_Last t = (if tk_points t = [] then None else Some (tk_points t ! (length (tk_points t) - 1)))"

datatype anomaly_detail =
    SpeedDetail f64 f64
  | LoiterDetail string duration
  | RendezvousDetail f64 duration
  | DarkDetail duration string
  | CvDetail string string f64 string

record anomaly =
  an_id :: string
  an_kind :: string
  an_track_ids :: "string list"
  an_zone_id :: string
  an_classification :: classification
  an_detected_at :: gotime
  an_detail :: anomaly_detail
  an_correlation_refs :: "string list"

type_synonym latency_log = "(string \<times> f64) list"

record engine =
  eg_config :: fusion_config
  eg_zones :: "zone list"
  eg_tracks :: "string \<rightharpoonup> track"
  eg_by_mmsi :: "string \<rightharpoonup> string"

fun zones_error :: "zone list \<Rightarrow> validation" where
  "zones_error [] = None"
| "zones_error (z # zs) =
     (case NewZone (zone_id z) (zone_kind z) (vertices z) of
        Inl e \<Rightarrow> Some (EWrap (''zone '' @ zone_id z) e)
      | Inr _ \<Rightarrow> zones_error zs)"

definition NewEngine :: "fusion_config \<Rightarrow> zone list \<Rightarrow> engine result" where
  "NewEngine config zones =
     validated (Config_Validate config)
      (validated (zones_error zones)
        (Inr \<lparr>eg_config = config, eg_zones = zones, eg_tracks = Map.empty, eg_by_mmsi = Map.empty\<rparr>))"

definition newTrack :: "string \<Rightarrow> classification \<Rightarrow> track" where
  "newTrack tid label =
     \<lparr>tk_id = tid, tk_mmsi = [], tk_classification = label, tk_points = [], tk_last_ais_at = 0,
      tk_zone_enter = Map.empty, tk_loiter_alerted = {}, tk_near_since = Map.empty, tk_rendez_alerted = {},
      tk_dark_alerted = False\<rparr>"

section \<open>Association\<close>

definition abs_gap :: "duration \<Rightarrow> duration" where
  "abs_gap gap = (if gap < 0 then wrap64 (- gap) else gap)"

text \<open>May the detection join this candidate, and at which distance?\<close>

definition candidate_distance ::
  "math_fns \<Rightarrow> fusion_config \<Rightarrow> detection \<Rightarrow> position \<Rightarrow> track \<Rightarrow> f64 option" where
  "candidate_distance mf c d p t =
     (if d_mmsi d \<noteq> [] \<and> tk_mmsi t \<noteq> [] \<and> tk_mmsi t \<noteq> d_mmsi d then None
      else case track_Last t of
        None \<Rightarrow> None
      | Some l \<Rightarrow>
          if CorrelationWindow c < abs_gap (time_sub (d_observed_at d) (tp_observed_at l)) then None
          else Some (DistanceMeters mf (tp_position l) p))"

fun best_track ::
  "math_fns \<Rightarrow> engine \<Rightarrow> detection \<Rightarrow> position \<Rightarrow> string list \<Rightarrow> string option \<Rightarrow> f64 \<Rightarrow> string option" where
  "best_track mf eng d p [] best bd = best"
| "best_track mf eng d p (k # ks) best bd =
     (case eg_tracks eng k of
        None \<Rightarrow> best_track mf eng d p ks best bd
      | Some t \<Rightarrow>
          (case candidate_distance mf (eg_config eng) d p t of
             None \<Rightarrow> best_track mf eng d p ks best bd
           | Some x \<Rightarrow> if f_le x bd then best_track mf eng d p ks (Some k) x else best_track mf eng d p ks best bd))"

definition associate ::
  "math_fns \<Rightarrow> string list \<Rightarrow> string \<Rightarrow> detection \<Rightarrow> position \<Rightarrow> engine \<Rightarrow> string \<times> engine" where
  "associate mf order newID d p eng =
     (case (if d_mmsi d \<noteq> [] then eg_by_mmsi eng (d_mmsi d) else None) of
        Some tid \<Rightarrow> (tid, eng)
      | None \<Rightarrow>
          (case best_track mf eng d p order None (CorrelationRadiusMeters (eg_config eng)) of
             Some tid \<Rightarrow> (tid, eng)
           | None \<Rightarrow>
               (let t = newTrack newID (d_classification d) in
                if d_mmsi d \<noteq> []
                then (newID, eng\<lparr>eg_tracks := (eg_tracks eng)(newID \<mapsto> t\<lparr>tk_mmsi := d_mmsi d\<rparr>),
                                 eg_by_mmsi := (eg_by_mmsi eng)(d_mmsi d \<mapsto> newID)\<rparr>)
                else (newID, eng\<lparr>eg_tracks := (eg_tracks eng)(newID \<mapsto> t)\<rparr>))))"

section \<open>Absorbing a point\<close>

definition detection_point :: "detection \<Rightarrow> position \<Rightarrow> track_point" where
  "detection_point d p =
     \<lparr>tp_detection_ref = d_source_id d @ '':'' @ d_source_event_id d, tp_modality = d_modality d,
      tp_observed_at = d_observed_at d, tp_position = p,
      tp_speed_knots = (case d_ais d of None \<Rightarrow> Fin 0 | Some a \<Rightarrow> ais_speed_knots a),
      tp_heading_deg = (case d_ais d of None \<Rightarrow> Fin 0 | Some a \<Rightarrow> ais_heading_deg a)\<rparr>"

definition cap_points :: "track_point list \<Rightarrow> track_point list" where
  "cap_points ps = (if 4096 < length ps then drop (length ps - 4096) ps else ps)"

definition absorb_ais :: "detection \<Rightarrow> track \<Rightarrow> track" where
  "absorb_ais d t =
     (case d_ais d of
        None \<Rightarrow> t
      | Some a \<Rightarrow>
          (let t = (if \<not> d_observed_at d < tk_last_ais_at t then t\<lparr>tk_dark_alerted := False\<rparr> else t);
               t = t\<lparr>tk_last_ais_at := d_observed_at d\<rparr>
           in if tk_mmsi t = [] then t\<lparr>tk_mmsi := ais_mmsi a\<rparr> else t))"

definition absorb_track :: "detection \<Rightarrow> position \<Rightarrow> track \<Rightarrow> track" where
  "absorb_track d p t =
     (let t = absorb_ais d t;
          t = (if d_mmsi d \<noteq> [] \<and> tk_mmsi t = [] then t\<lparr>tk_mmsi := d_mmsi d\<rparr> else t)
      in t\<lparr>tk_points := cap_points (tk_points t @ [detection_point d p]),
           tk_classification := MaxClassification (tk_classification t) (d_classification d)\<rparr>)"

text \<open>The MMSI index is updated exactly when the track takes a new MMSI.\<close>

definition absorbPoint :: "string \<Rightarrow> detection \<Rightarrow> position \<Rightarrow> engine \<Rightarrow> engine" where
  "absorbPoint tid d p eng =
     (case eg_tracks eng tid of
        None \<Rightarrow> eng
      | Some t \<Rightarrow>
          (let t' = absorb_track d p t in
           eng\<lparr>eg_tracks := (eg_tracks eng)(tid \<mapsto> t'),
               eg_by_mmsi := (if tk_mmsi t = [] \<and> tk_mmsi t' \<noteq> [] then (eg_by_mmsi eng)(tk_mmsi t' \<mapsto> tid) else eg_by_mmsi eng)\<rparr>))"

section \<open>Rule state\<close>

definition inside_restricted :: "zone list \<Rightarrow> position \<Rightarrow> string \<Rightarrow> bool" where
  "inside_restricted zones p zid = (\<exists>z \<in> set zones. zone_id z = zid \<and> zone_kind z = ZoneKindRestricted \<and> Contains z p)"

text \<open>Leaving a zone forgets when it was entered.\<close>

definition forget_left :: "zone list \<Rightarrow> position \<Rightarrow> track \<Rightarrow> track" where
  "forget_left zones p t = t\<lparr>tk_zone_enter := (\<lambda>z. if inside_restricted zones p z then tk_zone_enter t z else None)\<rparr>"

definition enter_zone :: "track_point \<Rightarrow> zone \<Rightarrow> track \<Rightarrow> track" where
  "enter_zone q z t =
     (if tk_zone_enter t (zone_id z) = None
      then t\<lparr>tk_zone_enter := (tk_zone_enter t)(zone_id z \<mapsto> tp_observed_at q)\<rparr> else t)"

datatype pair_outcome = PairSkip | PairSeparated | PairNear gotime

definition pair_state ::
  "math_fns \<Rightarrow> fusion_config \<Rightarrow> track_point \<Rightarrow> string \<Rightarrow> track \<Rightarrow> string \<Rightarrow> track \<Rightarrow> pair_outcome" where
  "pair_state mf c q tid t oid oth =
     (case track_Last oth of
        None \<Rightarrow> PairSkip
      | Some l \<Rightarrow>
          if RendezvousMinDuration c < time_sub (tp_observed_at q) (tp_observed_at l) \<or>
             RendezvousMinDuration c < time_sub (tp_observed_at l) (tp_observed_at q) then PairSeparated
          else if f_lt (RendezvousRadiusMeters c) (DistanceMeters mf (tp_position l) (tp_position q)) then PairSeparated
          else
            (let since = tk_near_since t oid;
                 since = (case tk_near_since oth tid of
                            None \<Rightarrow> since
                          | Some u \<Rightarrow> (case since of None \<Rightarrow> Some u | Some s \<Rightarrow> if u < s then Some u else Some s))
             in PairNear (case since of
                   Some s \<Rightarrow> s
                 | None \<Rightarrow> if tp_observed_at l < tp_observed_at q then tp_observed_at l else tp_observed_at q)))"

definition set_near :: "string \<Rightarrow> gotime option \<Rightarrow> track \<Rightarrow> track" where
  "set_near k v t = t\<lparr>tk_near_since := (tk_near_since t)(k := v)\<rparr>"

text \<open>Update both tracks of a pair: forget the proximity or record since when it lasts.\<close>

definition record_pair :: "string \<Rightarrow> string \<Rightarrow> pair_outcome \<Rightarrow> (string \<rightharpoonup> track) \<Rightarrow> (string \<rightharpoonup> track)" where
  "record_pair tid oid out tracks =
     (let v = (case out of PairNear s \<Rightarrow> Some s | _ \<Rightarrow> None) in
      if out = PairSkip then tracks
      else tracks(tid := map_option (set_near oid v) (tracks tid), oid := map_option (set_near tid v) (tracks oid)))"

section \<open>Replay\<close>

text \<open>One round of the loop over the other tracks.\<close>

definition restore_pair ::
  "math_fns \<Rightarrow> fusion_config \<Rightarrow> string \<Rightarrow> track_point \<Rightarrow> string \<Rightarrow> (string \<rightharpoonup> track) \<Rightarrow> (string \<rightharpoonup> track)" where
  "restore_pair mf c tid q k tracks =
     (case (tracks tid, tracks k) of
        (Some t, Some oth) \<Rightarrow> if k = tid then tracks else record_pair tid k (pair_state mf c q tid t k oth) tracks
      | _ \<Rightarrow> tracks)"

fun restore_zones :: "track_point \<Rightarrow> zone list \<Rightarrow> track \<Rightarrow> track" where
  "restore_zones q [] t = t"
| "restore_zones q (z # zs) t =
     restore_zones q zs
       (if zone_kind z = ZoneKindRestricted \<and> Contains z (tp_position q) then enter_zone q z t else t)"

definition restoreRuleState :: "math_fns \<Rightarrow> string list \<Rightarrow> string \<Rightarrow> track_point \<Rightarrow> engine \<Rightarrow> engine" where
  "restoreRuleState mf order tid q eng =
     (let tracks = (eg_tracks eng)(tid := map_option (\<lambda>t. forget_left (eg_zones eng) (tp_position q) (restore_zones q (eg_zones eng) t)) (eg_tracks eng tid))
      in eng\<lparr>eg_tracks := fold (restore_pair mf (eg_config eng) tid q) order tracks\<rparr>)"

definition Replay :: "math_fns \<Rightarrow> string list \<Rightarrow> string \<Rightarrow> detection \<Rightarrow> engine \<Rightarrow> unit result \<times> engine" where
  "Replay mf order tid d eng =
     run_tx eng
      (validated (detection_Validate d)
       (require (d_has_position d) (EMsg ''replayed association has no position'')
        (require (trim_space tid \<noteq> [] \<and> length tid \<le> 128) (EMsg ''replay requires the persisted track identity'')
         (rbind (NewPosition (d_latitude d) (d_longitude d))
          (\<lambda>p.
            let eng1 = (case eg_tracks eng tid of
                          Some _ \<Rightarrow> eng
                        | None \<Rightarrow> eng\<lparr>eg_tracks := (eg_tracks eng)(tid \<mapsto> newTrack tid (d_classification d))\<rparr>);
                eng2 = absorbPoint tid d p eng1
            in Inr ((), restoreRuleState mf order tid (detection_point d p) eng2))))))"

section \<open>Ingest\<close>

definition anomaly_id :: "string \<Rightarrow> string \<Rightarrow> gotime \<Rightarrow> string" where
  "anomaly_id kind tid now = ''anomaly-'' @ kind @ ''-'' @ tid @ ''-'' @ show_int (unix_nano now)"

definition latency_of :: "gotime \<Rightarrow> gotime \<Rightarrow> f64" where
  "latency_of now observed =
     (let s = duration_seconds (time_sub now observed) in if f_lt s (Fin 0) then Fin 0 else s)"

type_synonym emission = "anomaly list \<times> latency_log"

definition emit ::
  "gotime \<Rightarrow> track_point \<Rightarrow> detection \<Rightarrow> track \<Rightarrow> string \<Rightarrow> string list \<Rightarrow> string \<Rightarrow> anomaly_detail \<Rightarrow> emission \<Rightarrow> emission" where
  "emit now q d t kind ids zid detail em =
     (fst em @ [\<lparr>an_id = anomaly_id kind (tk_id t) now, an_kind = kind, an_track_ids = ids, an_zone_id = zid,
        an_classification = tk_classification t, an_detected_at = now, an_detail = detail,
        an_correlation_refs = d_correlation_refs d\<rparr>],
      snd em @ [(kind, latency_of now (tp_observed_at q))])"

definition speed_rule :: "math_fns \<Rightarrow> fusion_config \<Rightarrow> gotime \<Rightarrow> track_point \<Rightarrow> detection \<Rightarrow> track \<Rightarrow> emission \<Rightarrow> emission" where
  "speed_rule mf c now q d t em =
     (if 2 \<le> length (tk_points t)
      then (let previous = tk_points t ! (length (tk_points t) - 2);
                seconds = duration_seconds (time_sub (tp_observed_at q) (tp_observed_at previous))
            in if f_lt (Fin 0) seconds
               then (let distanceM = DistanceMeters mf (tp_position previous) (tp_position q);
                         knots = f_mul (f_div distanceM seconds) (rnd (194384 / 100000))
                     in if f_lt (BaselineMaxSpeedKnots c) knots
                        then emit now q d t AnomalySpeedOutlier [tk_id t] [] (SpeedDetail knots (BaselineMaxSpeedKnots c)) em
                        else em)
               else em)
      else em)"

fun loiter_rule ::
  "fusion_config \<Rightarrow> gotime \<Rightarrow> track_point \<Rightarrow> detection \<Rightarrow> zone list \<Rightarrow> track \<Rightarrow> emission \<Rightarrow> track \<times> emission" where
  "loiter_rule c now q d [] t em = (t, em)"
| "loiter_rule c now q d (z # zs) t em =
     (if Contains z (tp_position q) \<and> zone_kind z = ZoneKindRestricted
      then (let t = enter_zone q z t in
            if zone_id z \<notin> tk_loiter_alerted t \<and>
               LoiteringMinDuration c \<le> time_sub (tp_observed_at q) (the (tk_zone_enter t (zone_id z)))
            then (let t = t\<lparr>tk_loiter_alerted := insert (zone_id z) (tk_loiter_alerted t)\<rparr> in
                  loiter_rule c now q d zs t
                    (emit now q d t AnomalyLoitering [tk_id t] (zone_id z) (LoiterDetail (zone_id z) (LoiteringMinDuration c)) em))
            else loiter_rule c now q d zs t em)
      else loiter_rule c now q d zs t em)"

text \<open>
  The rendezvous branch: mark both tracks, raise this track's classification to the maximum of
  the pair, and emit.
\<close>

definition rendezvous_alert ::
  "fusion_config \<Rightarrow> gotime \<Rightarrow> track_point \<Rightarrow> detection \<Rightarrow> string \<Rightarrow> string \<Rightarrow> gotime \<Rightarrow>
   (string \<rightharpoonup> track) \<times> emission \<Rightarrow> (string \<rightharpoonup> track) \<times> emission" where
  "rendezvous_alert c now q d tid oid since st =
     (case (fst st tid, fst st oid) of
        (Some t, Some oth) \<Rightarrow>
          if oid \<notin> tk_rendez_alerted t \<and> RendezvousMinDuration c \<le> time_sub (tp_observed_at q) since
          then (let t' = t\<lparr>tk_rendez_alerted := insert oid (tk_rendez_alerted t),
                           tk_classification := MaxClassification (tk_classification t) (tk_classification oth)\<rparr>;
                    oth' = oth\<lparr>tk_rendez_alerted := insert tid (tk_rendez_alerted oth)\<rparr>
                in ((fst st)(tid \<mapsto> t', oid \<mapsto> oth'),
                    emit now q d t' AnomalyRendezvous [tid, oid] []
                      (RendezvousDetail (RendezvousRadiusMeters c) (RendezvousMinDuration c)) (snd st)))
          else st
      | _ \<Rightarrow> st)"

definition rendezvous_pair ::
  "math_fns \<Rightarrow> fusion_config \<Rightarrow> gotime \<Rightarrow> track_point \<Rightarrow> detection \<Rightarrow> string \<Rightarrow> string \<Rightarrow>
   (string \<rightharpoonup> track) \<times> emission \<Rightarrow> (string \<rightharpoonup> track) \<times> emission" where
  "rendezvous_pair mf c now q d tid k st =
     (case (fst st tid, fst st k) of
        (Some t, Some oth) \<Rightarrow>
          if k = tid then st
          else (let out = pair_state mf c q tid t k oth; st' = (record_pair tid k out (fst st), snd st) in
                case out of PairNear since \<Rightarrow> rendezvous_alert c now q d tid k since st' | _ \<Rightarrow> st')
      | _ \<Rightarrow> st)"

definition evaluate ::
  "math_fns \<Rightarrow> string list \<Rightarrow> gotime \<Rightarrow> string \<Rightarrow> track_point \<Rightarrow> detection \<Rightarrow> engine \<Rightarrow> emission \<times> engine" where
  "evaluate mf order now tid q d eng =
     (case eg_tracks eng tid of
        None \<Rightarrow> (([], []), eng)
      | Some t \<Rightarrow>
          (let em = speed_rule mf (eg_config eng) now q d t ([], []);
               (t1, em) = loiter_rule (eg_config eng) now q d (eg_zones eng) t em;
               t2 = forget_left (eg_zones eng) (tp_position q) t1;
               (tracks, em) = fold (rendezvous_pair mf (eg_config eng) now q d tid) order ((eg_tracks eng)(tid \<mapsto> t2), em)
           in (em, eng\<lparr>eg_tracks := tracks\<rparr>)))"

definition Ingest ::
  "math_fns \<Rightarrow> string list \<Rightarrow> string list \<Rightarrow> gotime \<Rightarrow> string \<Rightarrow> detection \<Rightarrow> engine \<Rightarrow> (string \<times> emission) result \<times> engine" where
  "Ingest mf order1 order2 now newID d eng =
     run_tx eng
      (validated (detection_Validate d)
       (require (d_has_position d) (EMsg ''detections without a position cannot enter track fusion'')
        (rbind (NewPosition (d_latitude d) (d_longitude d))
         (\<lambda>p.
           let (tid, eng1) = associate mf order1 newID d p eng;
               eng2 = absorbPoint tid d p eng1;
               (em, eng3) = evaluate mf order2 now tid (detection_point d p) d eng2
           in Inr ((tid, em), eng3)))))"

section \<open>Dark vessels\<close>

definition dark_track :: "fusion_config \<Rightarrow> zone list \<Rightarrow> gotime \<Rightarrow> track \<Rightarrow> zone option" where
  "dark_track c zones now t =
     (if tk_dark_alerted t \<or> tk_mmsi t = [] \<or> tk_last_ais_at t = 0 then None
      else case track_Last t of
        None \<Rightarrow> None
      | Some l \<Rightarrow>
          if time_sub now (tk_last_ais_at t) < DarkVesselAISGap c then None
          else (case ZonesContaining (tp_position l) zones of [] \<Rightarrow> None | z # _ \<Rightarrow> Some z))"

definition dark_anomaly :: "fusion_config \<Rightarrow> gotime \<Rightarrow> track \<Rightarrow> zone \<Rightarrow> anomaly" where
  "dark_anomaly c now t z =
     \<lparr>an_id = anomaly_id AnomalyDarkVessel (tk_id t) now, an_kind = AnomalyDarkVessel, an_track_ids = [tk_id t],
      an_zone_id = zone_id z, an_classification = tk_classification t, an_detected_at = now,
      an_detail = DarkDetail (DarkVesselAISGap c) (zone_id z), an_correlation_refs = []\<rparr>"

definition scan_track ::
  "fusion_config \<Rightarrow> zone list \<Rightarrow> gotime \<Rightarrow> string \<Rightarrow> (string \<rightharpoonup> track) \<times> emission \<Rightarrow> (string \<rightharpoonup> track) \<times> emission" where
  "scan_track c zones now k st =
     (case fst st k of
        None \<Rightarrow> st
      | Some t \<Rightarrow>
          (case dark_track c zones now t of
             None \<Rightarrow> st
           | Some z \<Rightarrow>
               ((fst st)(k \<mapsto> t\<lparr>tk_dark_alerted := True\<rparr>),
                (fst (snd st) @ [dark_anomaly c now t z],
                 snd (snd st) @ [(AnomalyDarkVessel,
                   latency_of now (case track_Last t of None \<Rightarrow> 0 | Some l \<Rightarrow> tp_observed_at l))]))))"

definition ScanDarkVessels :: "string list \<Rightarrow> gotime \<Rightarrow> engine \<Rightarrow> emission \<times> engine" where
  "ScanDarkVessels order now eng =
     (let (tracks, em) = fold (scan_track (eg_config eng) (eg_zones eng) now) order (eg_tracks eng, ([], []))
      in (em, eng\<lparr>eg_tracks := tracks\<rparr>))"

section \<open>Views\<close>

definition engine_Track :: "string \<Rightarrow> engine \<Rightarrow> track option" where
  "engine_Track tid eng = eg_tracks eng tid"

definition engine_Tracks :: "string list \<Rightarrow> engine \<Rightarrow> track list" where
  "engine_Tracks order eng = List.map_filter (eg_tracks eng) order"

definition FusionIdentity :: "track \<Rightarrow> string" where
  "FusionIdentity t = (if trim_space (tk_mmsi t) \<noteq> [] then ''mmsi:'' @ tk_mmsi t else tk_id t)"

end
