(* ===== verification/FusionInv.thy ===== *)
theory FusionInv
  imports Fusion
begin

text \<open>
  The invariant of the fusion engine and its preservation by every operation: tracks stored
  under their own id, a consistent MMSI index, symmetric pair state, what the rules leave
  unchanged, what they emit and latch, runs of the engine with their association log, and the
  effect of the dark-vessel scan.
\<close>

section \<open>The engine invariant\<close>

definition near :: "(string \<rightharpoonup> track) \<Rightarrow> string \<Rightarrow> string \<Rightarrow> gotime option" where
  "near tr a b = Option.bind (tr a) (\<lambda>t. tk_near_since t b)"

definition rendez_alerted :: "(string \<rightharpoonup> track) \<Rightarrow> string \<Rightarrow> string \<Rightarrow> bool" where
  "rendez_alerted tr a b = (case tr a of None \<Rightarrow> False | Some t \<Rightarrow> b \<in> tk_rendez_alerted t)"

definition track_ok :: "string \<Rightarrow> track \<Rightarrow> bool" where
  "track_ok k t = (tk_id t = k \<and> valid_label (tk_classification t) \<and> length (tk_points t) \<le> 4096)"

definition tracks_ok :: "(string \<rightharpoonup> track) \<Rightarrow> bool" where
  "tracks_ok tr = ((\<forall>k t. tr k = Some t \<longrightarrow> track_ok k t) \<and>
     (\<forall>a b. near tr a b = near tr b a) \<and> (\<forall>a b. rendez_alerted tr a b = rendez_alerted tr b a))"

definition index_ok :: "engine \<Rightarrow> bool" where
  "index_ok eng =
     ((\<forall>m k. eg_by_mmsi eng m = Some k \<longrightarrow> m \<noteq> [] \<and> (\<exists>t. eg_tracks eng k = Some t \<and> tk_mmsi t = m)) \<and>
      (\<forall>k t. eg_tracks eng k = Some t \<longrightarrow> tk_mmsi t \<noteq> [] \<longrightarrow> eg_by_mmsi eng (tk_mmsi t) \<noteq> None))"

definition engine_inv :: "engine \<Rightarrow> bool" where
  "engine_inv eng = (tracks_ok (eg_tracks eng) \<and> index_ok eng)"

definition no_empty_track :: "engine \<Rightarrow> bool" where
  "no_empty_track eng = (\<forall>k t. eg_tracks eng k = Some t \<longrightarrow> tk_points t \<noteq> [])"

text \<open>What the rules leave alone: everything but the classification, which only rises, and the rule state.\<close>

definition rule_frame :: "track \<Rightarrow> track \<Rightarrow> bool" where
  "rule_frame t t' =
     (tk_id t' = tk_id t \<and> tk_mmsi t' = tk_mmsi t \<and> tk_points t' = tk_points t \<and> tk_last_ais_at t' = tk_last_ais_at t \<and>
      (valid_label (tk_classification t) \<longrightarrow> Covers (tk_classification t') (tk_classification t)))"

definition frames :: "(string \<rightharpoonup> track) \<Rightarrow> (string \<rightharpoonup> track) \<Rightarrow> bool" where
  "frames tr tr' = (\<forall>k. rel_option rule_frame (tr k) (tr' k))"

lemma rule_frame_refl [simp]: "rule_frame t t"
  by (simp add: rule_frame_def cls.covers_refl)

lemma rule_frame_trans: "rule_frame t u \<Longrightarrow> rule_frame u v \<Longrightarrow> rule_frame t v"
  unfolding rule_frame_def using cls.covers_valid cls.covers_trans by metis

lemma frames_refl [simp]: "frames tr tr"
  by (simp add: frames_def option.rel_refl)

lemma frames_trans: "frames a b \<Longrightarrow> frames b c \<Longrightarrow> frames a c"
  unfolding frames_def by (metis (mono_tags, lifting) option.rel_sel rule_frame_trans)

lemma framesD: "frames tr tr' \<Longrightarrow> tr k = Some t \<Longrightarrow> \<exists>t'. tr' k = Some t' \<and> rule_frame t t'"
  unfolding frames_def by (metis option_rel_Some1)

lemma framesD2: "frames tr tr' \<Longrightarrow> tr' k = Some t' \<Longrightarrow> \<exists>t. tr k = Some t \<and> rule_frame t t'"
  unfolding frames_def by (metis option_rel_Some2)

lemma frames_dom: "frames tr tr' \<Longrightarrow> dom tr' = dom tr"
  by (auto simp: frames_def dom_def rel_option_iff split: option.splits) (metis option.distinct(1))+

lemma frames_upd: "tr k = Some t \<Longrightarrow> rule_frame t t' \<Longrightarrow> frames tr (tr(k \<mapsto> t'))"
  by (auto simp: frames_def option.rel_refl)

lemma frames_index_ok:
  assumes "frames (eg_tracks eng) tr" "index_ok eng" shows "index_ok (eng\<lparr>eg_tracks := tr\<rparr>)"
  unfolding index_ok_def
proof (intro conjI allI impI)
  fix m k assume "eg_by_mmsi (eng\<lparr>eg_tracks := tr\<rparr>) m = Some k"
  then obtain t where "m \<noteq> []" "eg_tracks eng k = Some t" "tk_mmsi t = m" using assms(2) by (auto simp: index_ok_def)
  then show "m \<noteq> []" "\<exists>t. eg_tracks (eng\<lparr>eg_tracks := tr\<rparr>) k = Some t \<and> tk_mmsi t = m"
    using framesD [OF assms(1)] by (auto simp: rule_frame_def)
next
  fix k t assume "eg_tracks (eng\<lparr>eg_tracks := tr\<rparr>) k = Some t" "tk_mmsi t \<noteq> []"
  then show "eg_by_mmsi (eng\<lparr>eg_tracks := tr\<rparr>) (tk_mmsi t) \<noteq> None"
    using framesD2 [OF assms(1)] assms(2) by (fastforce simp: index_ok_def rule_frame_def)
qed

lemma frames_no_empty: "frames (eg_tracks eng) tr \<Longrightarrow> no_empty_track eng \<Longrightarrow> no_empty_track (eng\<lparr>eg_tracks := tr\<rparr>)"
  unfolding no_empty_track_def by (metis engine.select_convs(3) engine.surjective engine.update_convs(3) framesD2 rule_frame_def)

lemma track_ok_frame: "track_ok k t \<Longrightarrow> rule_frame t t' \<Longrightarrow> track_ok k t'"
  by (auto simp: track_ok_def rule_frame_def dest: cls.covers_valid)

lemma frames_track_ok:
  assumes "frames tr tr'" "tracks_ok tr" "tr' k = Some t" shows "track_ok k t"
proof -
  obtain u where "tr k = Some u" "rule_frame u t" using framesD2 [OF assms(1,3)] by blast
  moreover have "track_ok k u" using assms(2) \<open>tr k = Some u\<close> by (simp add: tracks_ok_def)
  ultimately show ?thesis using track_ok_frame by blast
qed

text \<open>The symmetric relations after an update of two tracks.\<close>

lemma set_near_simps [simp]:
  "tk_id (set_near k v t) = tk_id t" "tk_points (set_near k v t) = tk_points t" "tk_mmsi (set_near k v t) = tk_mmsi t"
  "tk_classification (set_near k v t) = tk_classification t" "tk_rendez_alerted (set_near k v t) = tk_rendez_alerted t"
  "tk_near_since (set_near k v t) = (tk_near_since t)(k := v)" "tk_last_ais_at (set_near k v t) = tk_last_ais_at t"
  "tk_dark_alerted (set_near k v t) = tk_dark_alerted t" "tk_zone_enter (set_near k v t) = tk_zone_enter t"
  "tk_loiter_alerted (set_near k v t) = tk_loiter_alerted t"
  by (simp_all add: set_near_def)

lemma frames_record_pair: "frames tr (record_pair tid oid out tr)"
  by (auto simp: record_pair_def frames_def rule_frame_def Let_def cls.covers_refl rel_option_iff split: option.splits)

lemma near_record_pair:
  assumes "tid \<noteq> oid" "tid \<in> dom tr" "oid \<in> dom tr"
  shows "near (record_pair tid oid out tr) a b =
    (if out \<noteq> PairSkip \<and> ((a = tid \<and> b = oid) \<or> (a = oid \<and> b = tid)) then (case out of PairNear s \<Rightarrow> Some s | _ \<Rightarrow> None)
     else near tr a b)"
  using assms by (auto simp: near_def record_pair_def Let_def split: pair_outcome.splits)

lemma rendez_record_pair [simp]: "rendez_alerted (record_pair tid oid out tr) a b = rendez_alerted tr a b"
  by (auto simp: rendez_alerted_def record_pair_def Let_def split: option.splits pair_outcome.splits)

lemma tracks_ok_record_pair:
  assumes "tracks_ok tr" "tid \<noteq> oid" "tid \<in> dom tr" "oid \<in> dom tr"
  shows "tracks_ok (record_pair tid oid out tr)"
  unfolding tracks_ok_def
proof (intro conjI allI impI)
  fix k t assume "record_pair tid oid out tr k = Some t"
  then show "track_ok k t"
    by (rule frames_track_ok [OF frames_record_pair assms(1)])
next
  fix a b show "near (record_pair tid oid out tr) a b = near (record_pair tid oid out tr) b a"
    using assms by (auto simp: near_record_pair tracks_ok_def)
  show "rendez_alerted (record_pair tid oid out tr) a b = rendez_alerted (record_pair tid oid out tr) b a"
    using assms by (simp add: tracks_ok_def)
qed

lemma restore_pair_ok:
  "tracks_ok tr \<Longrightarrow> tracks_ok (restore_pair mf c tid q k tr) \<and> frames tr (restore_pair mf c tid q k tr)"
  by (auto simp: restore_pair_def frames_record_pair domI intro!: tracks_ok_record_pair split: option.splits)

lemma restore_pairs_ok:
  "tracks_ok tr \<Longrightarrow> tracks_ok (fold (restore_pair mf c tid q) ks tr) \<and> frames tr (fold (restore_pair mf c tid q) ks tr)"
  by (rule fold_preserves [where P = tracks_ok and R = frames])
     (auto dest: restore_pair_ok frames_trans)

text \<open>An update of one track that keeps its proximity and rendezvous state.\<close>

lemma tracks_ok_upd:
  assumes "tracks_ok tr" "tr k = Some t" "track_ok k t'"
    "tk_near_since t' = tk_near_since t" "tk_rendez_alerted t' = tk_rendez_alerted t"
  shows "tracks_ok (tr(k \<mapsto> t'))"
proof -
  have "near (tr(k \<mapsto> t')) a b = near tr a b" "rendez_alerted (tr(k \<mapsto> t')) a b = rendez_alerted tr a b" for a b
    using assms by (auto simp: near_def rendez_alerted_def)
  with assms show ?thesis by (simp add: tracks_ok_def)
qed

lemma rendezvous_alert_ok:
  assumes "tracks_ok (fst st)" "tid \<noteq> oid"
  shows "tracks_ok (fst (rendezvous_alert c now q d tid oid since st)) \<and> frames (fst st) (fst (rendezvous_alert c now q d tid oid since st))"
proof (cases "fst st tid = None \<or> fst st oid = None")
  case True then show ?thesis using assms by (auto simp: rendezvous_alert_def split: option.splits)
next
  case False
  then obtain t u where tu: "fst st tid = Some t" "fst st oid = Some u" by auto
  let ?m = "MaxClassification (tk_classification t) (tk_classification u)"
  let ?t = "t\<lparr>tk_rendez_alerted := insert oid (tk_rendez_alerted t), tk_classification := ?m\<rparr>"
  let ?u = "u\<lparr>tk_rendez_alerted := insert tid (tk_rendez_alerted u)\<rparr>"
  let ?tr = "(fst st)(tid \<mapsto> ?t, oid \<mapsto> ?u)"
  have v: "valid_label (tk_classification t)" "valid_label (tk_classification u)"
    using assms tu by (auto simp: tracks_ok_def track_ok_def)
  have cov: "Covers ?m (tk_classification t)" "valid_label ?m" using cls.join_upper [OF v] cls.join_valid [OF v] by auto
  have fr: "frames (fst st) ?tr"
    using tu cov assms(2) by (auto simp: frames_def rule_frame_def option.rel_refl cls.covers_refl)
  have n: "near ?tr a b = near (fst st) a b" for a b using tu assms(2) by (auto simp: near_def)
  have ra: "rendez_alerted ?tr a b \<longleftrightarrow> rendez_alerted (fst st) a b \<or> (a = tid \<and> b = oid) \<or> (a = oid \<and> b = tid)" for a b
    using tu assms(2) by (auto simp: rendez_alerted_def)
  have "tracks_ok ?tr" unfolding tracks_ok_def
  proof (intro conjI allI impI)
    fix k w assume "?tr k = Some w"
    then show "track_ok k w" by (rule frames_track_ok [OF fr assms(1)])
  qed (use assms n ra in \<open>auto simp: tracks_ok_def\<close>)
  then show ?thesis using fr tu assms by (simp add: rendezvous_alert_def Let_def)
qed

lemma rendezvous_pair_ok:
  assumes "tracks_ok (fst st)"
  shows "tracks_ok (fst (rendezvous_pair mf c now q d tid k st)) \<and> frames (fst st) (fst (rendezvous_pair mf c now q d tid k st))"
proof (cases "fst st tid = None \<or> fst st k = None \<or> k = tid")
  case True then show ?thesis using assms by (auto simp: rendezvous_pair_def split: option.splits)
next
  case False
  then obtain t u where tu: "fst st tid = Some t" "fst st k = Some u" "tid \<noteq> k" by auto
  let ?out = "pair_state mf c q tid t k u"
  have a: "tracks_ok (record_pair tid k ?out (fst st))" "frames (fst st) (record_pair tid k ?out (fst st))"
    using tu assms by (auto simp: frames_record_pair domI intro!: tracks_ok_record_pair)
  show ?thesis
  proof (cases ?out)
    case (PairNear s)
    have "tracks_ok (fst (rendezvous_alert c now q d tid k s (record_pair tid k ?out (fst st), snd st))) \<and>
      frames (fst (record_pair tid k ?out (fst st), snd st)) (fst (rendezvous_alert c now q d tid k s (record_pair tid k ?out (fst st), snd st)))"
      using rendezvous_alert_ok [of "(record_pair tid k ?out (fst st), snd st)"] a tu by simp
    with PairNear tu a show ?thesis by (auto simp: rendezvous_pair_def Let_def intro: frames_trans)
  qed (use tu a in \<open>auto simp: rendezvous_pair_def Let_def\<close>)
qed

lemma rendezvous_pairs_ok:
  "tracks_ok (fst st) \<Longrightarrow> tracks_ok (fst (fold (rendezvous_pair mf c now q d tid) ks st)) \<and>
     frames (fst st) (fst (fold (rendezvous_pair mf c now q d tid) ks st))"
  by (rule fold_preserves [where P = "\<lambda>st. tracks_ok (fst st)" and R = "\<lambda>a b. frames (fst a) (fst b)"])
     (erule rendezvous_pair_ok | rule frames_refl | erule (1) frames_trans | assumption)+

definition keeps_pairs :: "track \<Rightarrow> track \<Rightarrow> bool" where
  "keeps_pairs t t' = (rule_frame t t' \<and> tk_near_since t' = tk_near_since t \<and> tk_rendez_alerted t' = tk_rendez_alerted t)"

lemma keeps_pairs_trans: "keeps_pairs a b \<Longrightarrow> keeps_pairs b c \<Longrightarrow> keeps_pairs a c"
  unfolding keeps_pairs_def using rule_frame_trans by auto

lemma keeps_pairs_simps [simp]:
  "keeps_pairs t t" "keeps_pairs t (t\<lparr>tk_zone_enter := f\<rparr>)" "keeps_pairs t (t\<lparr>tk_loiter_alerted := s\<rparr>)"
  "keeps_pairs t (enter_zone q z t)" "keeps_pairs t (forget_left zs p t)" "keeps_pairs t (t\<lparr>tk_dark_alerted := b\<rparr>)"
  by (auto simp: keeps_pairs_def rule_frame_def enter_zone_def forget_left_def cls.covers_refl)

lemma restore_zones_keeps: "keeps_pairs t (restore_zones q zs t)"
proof (induction zs arbitrary: t)
  case (Cons z zs)
  show ?case using Cons [of t] Cons [of "enter_zone q z t"] by (auto intro: keeps_pairs_trans [of t "enter_zone q z t"])
qed simp

lemma loiter_rule_keeps: "keeps_pairs t (fst (loiter_rule c now q d zs t em))"
proof (induction zs arbitrary: t em)
  case (Cons z zs)
  let ?u = "enter_zone q z t"
  let ?v = "?u\<lparr>tk_loiter_alerted := insert (zone_id z) (tk_loiter_alerted ?u)\<rparr>"
  have u: "keeps_pairs t ?u" by simp
  have v: "keeps_pairs t ?v" by (rule keeps_pairs_trans [OF u]) simp
  show ?case using keeps_pairs_trans [OF u Cons] keeps_pairs_trans [OF v Cons] Cons by (simp add: Let_def)
qed simp

lemma tracks_ok_keeps:
  assumes "tracks_ok tr" "tr k = Some t" "keeps_pairs t t'"
  shows "tracks_ok (tr(k \<mapsto> t')) \<and> frames tr (tr(k \<mapsto> t'))"
  using assms tracks_ok_upd [of tr k t t'] frames_upd [of tr k t t'] track_ok_frame [of k t t']
  by (auto simp: keeps_pairs_def tracks_ok_def)

lemma evaluate_ok:
  assumes "tracks_ok (eg_tracks eng)"
  shows "\<exists>tr. snd (evaluate mf order now tid q d eng) = eng\<lparr>eg_tracks := tr\<rparr> \<and> tracks_ok tr \<and> frames (eg_tracks eng) tr"
proof (cases "eg_tracks eng tid")
  case None
  then show ?thesis using assms by (intro exI [of _ "eg_tracks eng"]) (simp add: evaluate_def)
next
  case (Some t)
  let ?em = "speed_rule mf (eg_config eng) now q d t ([], [])"
  obtain t1 em1 where l: "loiter_rule (eg_config eng) now q d (eg_zones eng) t ?em = (t1, em1)" by (cases "loiter_rule (eg_config eng) now q d (eg_zones eng) t ?em") auto
  let ?t2 = "forget_left (eg_zones eng) (tp_position q) t1"
  have "keeps_pairs t ?t2"
    using loiter_rule_keeps [of t "eg_config eng" now q d "eg_zones eng" ?em] l by (auto intro: keeps_pairs_trans [of t t1])
  then have a: "tracks_ok ((eg_tracks eng)(tid \<mapsto> ?t2))" "frames (eg_tracks eng) ((eg_tracks eng)(tid \<mapsto> ?t2))"
    using tracks_ok_keeps [OF assms Some] by auto
  show ?thesis
    using rendezvous_pairs_ok [of "((eg_tracks eng)(tid \<mapsto> ?t2), em1)" mf "eg_config eng" now q d tid order] a Some l
    frames_trans [OF a(2)]
    by (auto simp: evaluate_def Let_def split: prod.splits)
qed

lemma restoreRuleState_ok:
  assumes "tracks_ok (eg_tracks eng)"
  shows "\<exists>tr. restoreRuleState mf order tid q eng = eng\<lparr>eg_tracks := tr\<rparr> \<and> tracks_ok tr \<and> frames (eg_tracks eng) tr"
proof -
  let ?f = "\<lambda>t. forget_left (eg_zones eng) (tp_position q) (restore_zones q (eg_zones eng) t)"
  let ?tr = "(eg_tracks eng)(tid := map_option ?f (eg_tracks eng tid))"
  have "keeps_pairs t (?f t)" for t
    using restore_zones_keeps [of t q "eg_zones eng"] by (auto intro: keeps_pairs_trans [of t "restore_zones q (eg_zones eng) t"])
  then have "tracks_ok ?tr \<and> frames (eg_tracks eng) ?tr"
    using tracks_ok_keeps [OF assms, of tid] assms by (cases "eg_tracks eng tid") (auto simp: fun_upd_idem)
  then show ?thesis
    using restore_pairs_ok [of ?tr mf "eg_config eng" tid q order] by (auto simp: restoreRuleState_def Let_def intro: frames_trans)
qed

section \<open>Ingest, Replay and the scan keep the invariant\<close>

definition detection_pos :: "detection \<Rightarrow> position" where
  "detection_pos d = \<lparr>latitude = d_latitude d, longitude = d_longitude d\<rparr>"

lemma best_track_candidate:
  "best_track mf eng d p ks best bd = Some k \<Longrightarrow>
   best = Some k \<or> (\<exists>t. eg_tracks eng k = Some t \<and> candidate_distance mf (eg_config eng) d p t \<noteq> None)"
proof (induction ks arbitrary: best bd)
  case (Cons a ks)
  then show ?case by (fastforce split: option.splits if_splits)
qed simp

text \<open>Association picks a track of the engine, or adds an empty one.\<close>

lemma associate_cases:
  assumes "associate mf order nid d p eng = (tid, eng1)" "index_ok eng"
  obtains (bound) t where "eng1 = eng" "eg_tracks eng tid = Some t" "d_mmsi d \<noteq> []" "tk_mmsi t = d_mmsi d"
    | (spatial) t where "eng1 = eng" "eg_tracks eng tid = Some t" "candidate_distance mf (eg_config eng) d p t \<noteq> None"
    | (created) "tid = nid" "eng1 = eng\<lparr>eg_tracks := (eg_tracks eng)(nid \<mapsto> (newTrack nid (d_classification d))\<lparr>tk_mmsi := d_mmsi d\<rparr>),
        eg_by_mmsi := (if d_mmsi d = [] then eg_by_mmsi eng else (eg_by_mmsi eng)(d_mmsi d \<mapsto> nid))\<rparr>"
      "d_mmsi d = [] \<or> eg_by_mmsi eng (d_mmsi d) = None"
proof (cases "if d_mmsi d \<noteq> [] then eg_by_mmsi eng (d_mmsi d) else None")
  case (Some k)
  then obtain t where "eg_tracks eng k = Some t" "tk_mmsi t = d_mmsi d" "d_mmsi d \<noteq> []"
    using assms(2) unfolding index_ok_def by (metis option.distinct(1))
  with Some assms(1) bound show ?thesis by (simp add: associate_def)
next
  case None
  show ?thesis
  proof (cases "best_track mf eng d p order None (CorrelationRadiusMeters (eg_config eng))")
    case (Some k)
    then show ?thesis using None assms(1) best_track_candidate [OF Some] spatial by (auto simp: associate_def)
  next
    case None': None
    have "d_mmsi d = [] \<or> eg_by_mmsi eng (d_mmsi d) = None" using None by (auto split: if_splits)
    moreover have "tid = nid" "eng1 = eng\<lparr>eg_tracks := (eg_tracks eng)(nid \<mapsto> (newTrack nid (d_classification d))\<lparr>tk_mmsi := d_mmsi d\<rparr>),
        eg_by_mmsi := (if d_mmsi d = [] then eg_by_mmsi eng else (eg_by_mmsi eng)(d_mmsi d \<mapsto> nid))\<rparr>"
      using None None' assms(1) by (auto simp: associate_def Let_def newTrack_def split: if_splits)
    ultimately show ?thesis using created by blast
  qed
qed

lemma track_ok_newTrack: "valid_label c \<Longrightarrow> track_ok k ((newTrack k c)\<lparr>tk_mmsi := m\<rparr>)"
  by (simp add: track_ok_def newTrack_def)

lemma tracks_ok_fresh:
  assumes ok: "tracks_ok tr" and fresh: "tr k = None" and t: "track_ok k t" "tk_near_since t = Map.empty" "tk_rendez_alerted t = {}"
  shows "tracks_ok (tr(k \<mapsto> t))"
proof -
  have "near tr k a = None" "\<not> rendez_alerted tr k a" for a using fresh by (simp_all add: near_def rendez_alerted_def)
  then have "near tr a k = None" "\<not> rendez_alerted tr a k" for a using ok unfolding tracks_ok_def by metis+
  then have "near (tr(k \<mapsto> t)) a b = near tr a b" "rendez_alerted (tr(k \<mapsto> t)) a b = rendez_alerted tr a b" for a b
    using fresh t by (auto simp: near_def rendez_alerted_def)
  then show ?thesis using ok t(1) by (simp add: tracks_ok_def)
qed

definition takes_mmsi :: "detection \<Rightarrow> string" where
  "takes_mmsi d = (case d_ais d of Some a \<Rightarrow> ais_mmsi a | None \<Rightarrow> d_mmsi d)"

lemma absorb_track_simps:
  assumes "detection_Validate d = None"
  shows "tk_id (absorb_track d p t) = tk_id t"
    "tk_mmsi (absorb_track d p t) = (if tk_mmsi t = [] then takes_mmsi d else tk_mmsi t)"
    "tk_points (absorb_track d p t) = cap_points (tk_points t @ [detection_point d p])"
    "tk_classification (absorb_track d p t) = MaxClassification (tk_classification t) (d_classification d)"
    "tk_near_since (absorb_track d p t) = tk_near_since t" "tk_rendez_alerted (absorb_track d p t) = tk_rendez_alerted t"
    "tk_zone_enter (absorb_track d p t) = tk_zone_enter t" "tk_loiter_alerted (absorb_track d p t) = tk_loiter_alerted t"
    "tk_last_ais_at (absorb_track d p t) = (if d_ais d = None then tk_last_ais_at t else d_observed_at d)"
    "tk_dark_alerted (absorb_track d p t) =
       (tk_dark_alerted t \<and> (d_ais d = None \<or> d_observed_at d < tk_last_ais_at t))"
proof -
  have "ais_mmsi a \<noteq> []" if "d_ais d = Some a" for a
    using detection_Validate_ais [OF assms that] by (auto simp: mmsiPattern_def)
  then show "tk_mmsi (absorb_track d p t) = (if tk_mmsi t = [] then takes_mmsi d else tk_mmsi t)"
    by (auto simp: absorb_track_def absorb_ais_def takes_mmsi_def Let_def split: option.splits)
qed (auto simp: absorb_track_def absorb_ais_def Let_def split: option.splits)

lemma cap_points_props: "length (cap_points ps) \<le> 4096" "ps \<noteq> [] \<Longrightarrow> cap_points ps \<noteq> []"
  by (auto simp: cap_points_def)

lemma detection_label: "detection_Validate d = None \<Longrightarrow> valid_label (d_classification d)"
  by (simp add: detection_Validate_None_iff)

lemma absorbPoint_inv:
  assumes v: "detection_Validate d = None" and ok: "engine_inv eng" and t: "eg_tracks eng tid = Some t"
  shows "engine_inv (absorbPoint tid d p eng)"
proof -
  let ?t = "absorb_track d p t"
  have tok: "track_ok tid t" using ok t by (auto simp: engine_inv_def tracks_ok_def)
  have a: "tracks_ok ((eg_tracks eng)(tid \<mapsto> ?t))"
  proof (rule tracks_ok_upd [of _ _ t])
    show "tracks_ok (eg_tracks eng)" "eg_tracks eng tid = Some t" using ok t by (simp_all add: engine_inv_def)
    show "track_ok tid ?t" using tok cls.join_valid detection_label [OF v]
      by (simp add: track_ok_def absorb_track_simps [OF v] cap_points_props)
  qed (simp_all add: absorb_track_simps [OF v])
  have i: "eg_by_mmsi eng m = Some tid \<Longrightarrow> m \<noteq> [] \<and> tk_mmsi t = m" for m
    using ok t unfolding engine_inv_def index_ok_def by fastforce
  have b: "index_ok (absorbPoint tid d p eng)"
    using ok t i unfolding engine_inv_def index_ok_def absorbPoint_def
    by (auto simp: Let_def absorb_track_simps [OF v]) 
  show ?thesis using a b t by (simp add: engine_inv_def absorbPoint_def Let_def)
qed


lemma associate_inv:
  assumes as: "associate mf order nid d p eng = (tid, eng1)" and ok: "engine_inv eng" and fresh: "eg_tracks eng nid = None"
    and v: "detection_Validate d = None"
  shows "engine_inv eng1 \<and> (\<exists>t. eg_tracks eng1 tid = Some t)"
proof -
  have iok: "index_ok eng" and tok: "tracks_ok (eg_tracks eng)" using ok by (auto simp: engine_inv_def)
  from as iok show ?thesis
  proof (cases rule: associate_cases)
    case created
    let ?t = "(newTrack nid (d_classification d))\<lparr>tk_mmsi := d_mmsi d\<rparr>"
    have "tracks_ok ((eg_tracks eng)(nid \<mapsto> ?t))"
      by (rule tracks_ok_fresh [OF tok fresh track_ok_newTrack [OF detection_label [OF v]]]) (simp_all add: newTrack_def)
    moreover have "eg_by_mmsi eng m \<noteq> Some nid" for m
    proof
      assume "eg_by_mmsi eng m = Some nid"
      then show False using iok fresh unfolding index_ok_def by fastforce
    qed
    then have "index_ok eng1"
      using created fresh iok unfolding index_ok_def by (auto simp: newTrack_def)
    ultimately show ?thesis using created by (simp add: engine_inv_def)
  qed (use ok in auto)
qed

lemma Ingest_Inr:
  assumes "Ingest mf o1 o2 now nid d eng = (Inr (tid, em), eng')"
  obtains eng1 where "detection_Validate d = None" "d_has_position d" "valid_position (detection_pos d)"
    "associate mf o1 nid d (detection_pos d) eng = (tid, eng1)"
    "evaluate mf o2 now tid (detection_point d (detection_pos d)) d (absorbPoint tid d (detection_pos d) eng1) = (em, eng')"
  using assms that
  by (auto simp: Ingest_def run_tx_Inr_iff NewPosition_iff detection_pos_def Let_def split: prod.splits)

lemma Replay_Inr:
  assumes "Replay mf order tid d eng = (Inr (), eng')"
  obtains eng1 where "detection_Validate d = None" "d_has_position d" "valid_position (detection_pos d)"
    "trim_space tid \<noteq> []" "length tid \<le> 128"
    "eng1 = (if eg_tracks eng tid = None then eng\<lparr>eg_tracks := (eg_tracks eng)(tid \<mapsto> newTrack tid (d_classification d))\<rparr> else eng)"
    "eng' = restoreRuleState mf order tid (detection_point d (detection_pos d)) (absorbPoint tid d (detection_pos d) eng1)"
  using assms that
  by (auto simp: Replay_def run_tx_Inr_iff NewPosition_iff detection_pos_def Let_def split: option.splits)

lemma engine_inv_frames:
  "engine_inv eng \<Longrightarrow> tracks_ok tr \<Longrightarrow> frames (eg_tracks eng) tr \<Longrightarrow> engine_inv (eng\<lparr>eg_tracks := tr\<rparr>)"
  by (simp add: engine_inv_def frames_index_ok)

lemma Ingest_inv:
  assumes r: "Ingest mf o1 o2 now nid d eng = (Inr (tid, em), eng')" and ok: "engine_inv eng" and fresh: "eg_tracks eng nid = None"
  shows "engine_inv eng'"
  using r
proof (rule Ingest_Inr)
  fix eng1
  assume v: "detection_Validate d = None" and as: "associate mf o1 nid d (detection_pos d) eng = (tid, eng1)"
    and ev: "evaluate mf o2 now tid (detection_point d (detection_pos d)) d (absorbPoint tid d (detection_pos d) eng1) = (em, eng')"
  obtain t where "eg_tracks eng1 tid = Some t" "engine_inv eng1" using associate_inv [OF as ok fresh v] by auto
  then have a: "engine_inv (absorbPoint tid d (detection_pos d) eng1)" using absorbPoint_inv [OF v] by blast
  then show ?thesis
    using evaluate_ok [of "absorbPoint tid d (detection_pos d) eng1" mf o2 now tid "detection_point d (detection_pos d)" d] ev
    by (auto simp: engine_inv_def intro: frames_index_ok)
qed

lemma Replay_mid_inv:
  assumes v: "detection_Validate d = None" and ok: "engine_inv eng"
    and e1: "eng1 = (if eg_tracks eng tid = None then eng\<lparr>eg_tracks := (eg_tracks eng)(tid \<mapsto> newTrack tid (d_classification d))\<rparr> else eng)"
  shows "engine_inv (absorbPoint tid d p eng1)"
proof -
  have "engine_inv eng1"
  proof (cases "eg_tracks eng tid")
    case None
    have "tracks_ok ((eg_tracks eng)(tid \<mapsto> newTrack tid (d_classification d)))"
      using ok None track_ok_newTrack [OF detection_label [OF v], of tid "[]"]
      by (intro tracks_ok_fresh) (simp_all add: engine_inv_def newTrack_def)
    then show ?thesis using ok None e1 by (fastforce simp: engine_inv_def index_ok_def newTrack_def)
  qed (use ok e1 in simp)
  moreover obtain t where "eg_tracks eng1 tid = Some t" using e1 by fastforce
  ultimately show ?thesis using absorbPoint_inv [OF v] by blast
qed

lemma Replay_inv:
  assumes r: "Replay mf order tid d eng = (Inr (), eng')" and ok: "engine_inv eng"
  shows "engine_inv eng'"
  using r
proof (rule Replay_Inr)
  fix eng1
  assume v: "detection_Validate d = None"
    and e1: "eng1 = (if eg_tracks eng tid = None then eng\<lparr>eg_tracks := (eg_tracks eng)(tid \<mapsto> newTrack tid (d_classification d))\<rparr> else eng)"
    and e2: "eng' = restoreRuleState mf order tid (detection_point d (detection_pos d)) (absorbPoint tid d (detection_pos d) eng1)"
  show ?thesis
    using restoreRuleState_ok [of "absorbPoint tid d (detection_pos d) eng1" mf order tid "detection_point d (detection_pos d)"] e2
      Replay_mid_inv [OF v ok e1, of "detection_pos d"]
    by (auto simp: engine_inv_def intro: frames_index_ok)
qed

lemma scan_tracks_ok:
  "tracks_ok (fst st) \<Longrightarrow> tracks_ok (fst (fold (scan_track c zs now) ks st)) \<and> frames (fst st) (fst (fold (scan_track c zs now) ks st))"
proof (rule fold_preserves [where P = "\<lambda>st. tracks_ok (fst st)" and R = "\<lambda>a b. frames (fst a) (fst b)"])
  fix k and s :: "(string \<rightharpoonup> track) \<times> emission" assume "tracks_ok (fst s)"
  then show "tracks_ok (fst (scan_track c zs now k s)) \<and> frames (fst s) (fst (scan_track c zs now k s))"
    using tracks_ok_keeps [of "fst s" k] by (auto simp: scan_track_def split: option.splits)
qed (auto dest: frames_trans)

lemma ScanDarkVessels_inv: "engine_inv eng \<Longrightarrow> engine_inv (snd (ScanDarkVessels order now eng))"
  using scan_tracks_ok [of "(eg_tracks eng, ([], []))" "eg_config eng" "eg_zones eng" now order]
  by (auto simp: ScanDarkVessels_def engine_inv_def frames_index_ok split: prod.splits)

section \<open>What the rules emit\<close>

lemma anomaly_kinds_distinct [simp]:
  "AnomalyLoitering \<noteq> AnomalyRendezvous" "AnomalySpeedOutlier \<noteq> AnomalyLoitering" "AnomalySpeedOutlier \<noteq> AnomalyRendezvous"
  "AnomalyDarkVessel \<noteq> AnomalyLoitering" "AnomalyDarkVessel \<noteq> AnomalyRendezvous" "AnomalyRendezvous \<noteq> AnomalyLoitering"
  by (simp_all add: anomaly_kind_defs)

definition loiter_keys :: "anomaly list \<Rightarrow> (string list \<times> string) list" where
  "loiter_keys an = map (\<lambda>a. (an_track_ids a, an_zone_id a)) (filter (\<lambda>a. an_kind a = AnomalyLoitering) an)"

definition rendezvous_keys :: "anomaly list \<Rightarrow> string set list" where
  "rendezvous_keys an = map (\<lambda>a. set (an_track_ids a)) (filter (\<lambda>a. an_kind a = AnomalyRendezvous) an)"

lemma keys_append [simp]:
  "loiter_keys (xs @ ys) = loiter_keys xs @ loiter_keys ys" "rendezvous_keys (xs @ ys) = rendezvous_keys xs @ rendezvous_keys ys"
  "loiter_keys [] = []" "rendezvous_keys [] = []"
  "loiter_keys [a] = (if an_kind a = AnomalyLoitering then [(an_track_ids a, an_zone_id a)] else [])"
  "rendezvous_keys [a] = (if an_kind a = AnomalyRendezvous then [set (an_track_ids a)] else [])"
  by (simp_all add: loiter_keys_def rendezvous_keys_def)

definition loiter_alerted :: "(string \<rightharpoonup> track) \<Rightarrow> string \<Rightarrow> string \<Rightarrow> bool" where
  "loiter_alerted tr k z = (case tr k of None \<Rightarrow> False | Some t \<Rightarrow> z \<in> tk_loiter_alerted t)"

lemma loiter_record_pair [simp]: "loiter_alerted (record_pair tid oid out tr) k z = loiter_alerted tr k z"
  by (auto simp: loiter_alerted_def record_pair_def Let_def split: option.splits pair_outcome.splits)

definition pair_latched :: "(string \<rightharpoonup> track) \<Rightarrow> string set \<Rightarrow> bool" where
  "pair_latched tr x = (\<exists>j k. x = {j, k} \<and> j \<noteq> k \<and> rendez_alerted tr j k)"

text \<open>No loitering alert and no rendezvous alert is on the list twice, and each one is latched in the engine.\<close>

definition alerts_sound :: "(string \<rightharpoonup> track) \<Rightarrow> anomaly list \<Rightarrow> bool" where
  "alerts_sound tr an =
     (distinct (loiter_keys an) \<and> distinct (rendezvous_keys an) \<and>
      (\<forall>x \<in> set (loiter_keys an). \<exists>k. fst x = [k] \<and> loiter_alerted tr k (snd x)) \<and>
      (\<forall>x \<in> set (rendezvous_keys an). pair_latched tr x))"

lemma alerts_sound_mono:
  assumes "alerts_sound tr an" "\<And>k z. loiter_alerted tr k z \<Longrightarrow> loiter_alerted tr' k z"
    "\<And>j k. rendez_alerted tr j k \<Longrightarrow> rendez_alerted tr' j k"
  shows "alerts_sound tr' an"
  using assms unfolding alerts_sound_def pair_latched_def by meson

lemma alerts_sound_loiter: "alerts_sound tr an \<Longrightarrow> ([k], z) \<in> set (loiter_keys an) \<Longrightarrow> loiter_alerted tr k z"
  unfolding alerts_sound_def by fastforce

lemma alerts_sound_rendezvous:
  "alerts_sound tr an \<Longrightarrow> {j, k} \<in> set (rendezvous_keys an) \<Longrightarrow> rendez_alerted tr j k \<or> rendez_alerted tr k j"
  unfolding alerts_sound_def pair_latched_def by (metis doubleton_eq_iff)

definition labels_cover :: "(string \<rightharpoonup> track) \<Rightarrow> anomaly list \<Rightarrow> bool" where
  "labels_cover tr an = (\<forall>a \<in> set an. \<forall>k \<in> set (an_track_ids a). \<forall>t. tr k = Some t \<longrightarrow> Covers (an_classification a) (tk_classification t))"

text \<open>
  The state in the middle of the rules: \<open>tr0\<close> are the tracks at the start, \<open>pre\<close> the anomalies
  of earlier calls.
\<close>

definition rules_inv :: "(string \<rightharpoonup> track) \<Rightarrow> anomaly list \<Rightarrow> (string \<rightharpoonup> track) \<times> emission \<Rightarrow> bool" where
  "rules_inv tr0 pre st = (tracks_ok (fst st) \<and> frames tr0 (fst st) \<and> labels_cover tr0 (fst (snd st)) \<and>
     alerts_sound (fst st) (pre @ fst (snd st)))"

lemma fst_emit [simp]:
  "fst (emit now q d t kind ids zid det em) = fst em @ [\<lparr>an_id = anomaly_id kind (tk_id t) now, an_kind = kind, an_track_ids = ids, an_zone_id = zid,
        an_classification = tk_classification t, an_detected_at = now, an_detail = det, an_correlation_refs = d_correlation_refs d\<rparr>]"
  by (simp add: emit_def)

lemma labels_cover_snoc:
  "labels_cover tr (an @ [a]) \<longleftrightarrow> labels_cover tr an \<and>
     (\<forall>k \<in> set (an_track_ids a). \<forall>t. tr k = Some t \<longrightarrow> Covers (an_classification a) (tk_classification t))"
  by (auto simp: labels_cover_def)

lemma frames_covers:
  assumes "frames tr tr'" "tracks_ok tr" "tr k = Some t" "tr' k = Some t'"
  shows "Covers (tk_classification t') (tk_classification t)"
  using framesD [OF assms(1,3)] assms(2,3,4) by (auto simp: rule_frame_def tracks_ok_def track_ok_def)

lemma rules_inv_start:
  "tracks_ok tr \<Longrightarrow> alerts_sound tr pre \<Longrightarrow> rules_inv tr pre (tr, ([], []))"
  by (simp add: rules_inv_def labels_cover_def)

lemma rules_inv_id: "rules_inv tr0 pre (tr, em) \<Longrightarrow> tr tid = Some t \<Longrightarrow> tk_id t = tid"
  by (auto simp: rules_inv_def tracks_ok_def track_ok_def)

lemma rules_inv_speed:
  assumes "rules_inv tr0 pre (tr, em)" "tracks_ok tr0" "tr tid = Some t"
  shows "rules_inv tr0 pre (tr, speed_rule mf c now q d t em)"
proof -
  have id: "tk_id t = tid" using assms rules_inv_id by blast
  have cov: "tr0 tid = Some u \<Longrightarrow> Covers (tk_classification t) (tk_classification u)" for u
    using frames_covers [of tr0 tr] assms by (auto simp: rules_inv_def)
  show ?thesis using assms id cov
    by (auto simp: speed_rule_def rules_inv_def alerts_sound_def Let_def labels_cover_snoc)
qed

lemma rules_inv_track:
  assumes inv: "rules_inv tr0 pre (tr, em)" and t: "tr tid = Some t" and k: "keeps_pairs t t'"
    and l: "tk_loiter_alerted t \<subseteq> tk_loiter_alerted t'"
  shows "rules_inv tr0 pre (tr(tid \<mapsto> t'), em)"
proof -
  have "tracks_ok (tr(tid \<mapsto> t'))" "frames tr (tr(tid \<mapsto> t'))" using tracks_ok_keeps inv t k by (auto simp: rules_inv_def)
  moreover have "alerts_sound (tr(tid \<mapsto> t')) (pre @ fst em)"
    by (rule alerts_sound_mono [of tr])
       (use inv t k l in \<open>auto simp: rules_inv_def loiter_alerted_def rendez_alerted_def keeps_pairs_def split: if_splits\<close>)
  ultimately show ?thesis using inv frames_trans by (auto simp: rules_inv_def)
qed

lemma rules_inv_loiter:
  assumes "rules_inv tr0 pre (tr, em)" "tracks_ok tr0" "tr tid = Some t"
  shows "rules_inv tr0 pre (tr(tid \<mapsto> fst (loiter_rule c now q d zs t em)), snd (loiter_rule c now q d zs t em))"
  using assms
proof (induction zs arbitrary: tr t em)
  case Nil then show ?case by (simp add: map_upd_triv)
next
  case (Cons z zs)
  let ?u = "enter_zone q z t"
  let ?v = "?u\<lparr>tk_loiter_alerted := insert (zone_id z) (tk_loiter_alerted ?u)\<rparr>"
  let ?em = "emit now q d ?v AnomalyLoitering [tk_id ?v] (zone_id z) (LoiterDetail (zone_id z) (LoiteringMinDuration c)) em"
  have al: "tk_loiter_alerted ?u = tk_loiter_alerted t" by (simp add: enter_zone_def)
  have kv: "keeps_pairs t ?v" by (rule keeps_pairs_trans [of t ?u]) simp_all
  have u: "rules_inv tr0 pre (tr(tid \<mapsto> ?u), em)" by (rule rules_inv_track [OF Cons.prems(1,3)]) (simp_all add: al)
  have v: "rules_inv tr0 pre (tr(tid \<mapsto> ?v), em)" by (rule rules_inv_track [OF Cons.prems(1,3) kv]) (auto simp: al)
  have id: "tk_id ?v = tid" using rules_inv_id [OF Cons.prems(1,3)] kv by (simp add: keeps_pairs_def rule_frame_def)
  have cov: "tr0 tid = Some w \<Longrightarrow> Covers (tk_classification ?v) (tk_classification w)" for w
    using v frames_covers [of tr0 "tr(tid \<mapsto> ?v)" tid w ?v] Cons.prems(2) by (simp add: rules_inv_def)
  have emitted: "rules_inv tr0 pre (tr(tid \<mapsto> ?v), ?em)" if new: "zone_id z \<notin> tk_loiter_alerted ?u"
  proof -
    have "\<not> loiter_alerted tr tid (zone_id z)" using new al Cons.prems(3) by (simp add: loiter_alerted_def)
    then have "([tid], zone_id z) \<notin> set (loiter_keys (pre @ fst em))"
      using Cons.prems(1) alerts_sound_loiter by (auto simp: rules_inv_def simp del: keys_append)
    moreover have "loiter_alerted (tr(tid \<mapsto> ?v)) tid (zone_id z)" by (simp add: loiter_alerted_def)
    ultimately show ?thesis using v cov id by (auto simp: rules_inv_def alerts_sound_def labels_cover_snoc)
  qed
  let ?r = "\<lambda>t em. rules_inv tr0 pre (tr(tid \<mapsto> fst (loiter_rule c now q d zs t em)), snd (loiter_rule c now q d zs t em))"
  have a: "?r ?u em" using Cons.IH [OF u Cons.prems(2) fun_upd_same] by (simp only: fun_upd_upd)
  have b: "?r ?v ?em" if "zone_id z \<notin> tk_loiter_alerted ?u"
    using Cons.IH [OF emitted [OF that] Cons.prems(2) fun_upd_same] by (simp only: fun_upd_upd)
  show ?case using a b Cons.IH [OF Cons.prems]
    by (cases "Contains z (tp_position q) \<and> zone_kind z = ZoneKindRestricted";
        cases "zone_id z \<notin> tk_loiter_alerted ?u \<and> LoiteringMinDuration c \<le> time_sub (tp_observed_at q) (the (tk_zone_enter ?u (zone_id z)))")
       (simp_all add: Let_def del: fun_upd_apply)
qed

lemma rules_inv_record_pair:
  assumes "rules_inv tr0 pre (tr, em)" "tid \<noteq> k" "tid \<in> dom tr" "k \<in> dom tr"
  shows "rules_inv tr0 pre (record_pair tid k out tr, em)"
proof -
  have "alerts_sound (record_pair tid k out tr) (pre @ fst em)"
    by (rule alerts_sound_mono [of tr])
       (use assms in \<open>simp_all add: rules_inv_def\<close>)
  then show ?thesis
    using assms frames_trans [OF _ frames_record_pair] tracks_ok_record_pair by (simp add: rules_inv_def)
qed

lemma rules_inv_alert:
  assumes inv: "rules_inv tr0 pre (tr, em)" and "tracks_ok tr0" and ne: "tid \<noteq> oid"
  shows "rules_inv tr0 pre (rendezvous_alert c now q d tid oid since (tr, em))"
proof (cases "\<exists>t u. tr tid = Some t \<and> tr oid = Some u \<and> oid \<notin> tk_rendez_alerted t \<and> RendezvousMinDuration c \<le> time_sub (tp_observed_at q) since")
  case False
  then have "rendezvous_alert c now q d tid oid since (tr, em) = (tr, em)" by (auto simp: rendezvous_alert_def split: option.splits)
  then show ?thesis using inv by simp
next
  case True
  then obtain t u where tu: "tr tid = Some t" "tr oid = Some u" "oid \<notin> tk_rendez_alerted t"
    "RendezvousMinDuration c \<le> time_sub (tp_observed_at q) since" by blast
  let ?m = "MaxClassification (tk_classification t) (tk_classification u)"
  obtain tr' em' where r: "rendezvous_alert c now q d tid oid since (tr, em) = (tr', em')" by (metis surj_pair)
  have tr': "tr' = tr(tid \<mapsto> t\<lparr>tk_rendez_alerted := insert oid (tk_rendez_alerted t), tk_classification := ?m\<rparr>,
      oid \<mapsto> u\<lparr>tk_rendez_alerted := insert tid (tk_rendez_alerted u)\<rparr>)"
    and em': "\<exists>a. fst em' = fst em @ [a] \<and> an_kind a = AnomalyRendezvous \<and> an_track_ids a = [tid, oid] \<and> an_classification a = ?m"
    using r tu by (auto simp: rendezvous_alert_def Let_def)
  have ok: "tracks_ok tr'" "frames tr tr'" using rendezvous_alert_ok [of "(tr, em)" tid oid c now q d since] inv ne r by (auto simp: rules_inv_def)
  have v: "valid_label (tk_classification t)" "valid_label (tk_classification u)"
    using inv tu by (auto simp: rules_inv_def tracks_ok_def track_ok_def)
  have cov: "tr0 tid = Some w \<Longrightarrow> Covers ?m (tk_classification w)" "tr0 oid = Some w \<Longrightarrow> Covers ?m (tk_classification w)" for w
    using frames_covers [of tr0 tr] inv assms(2) tu cls.join_upper [OF v] cls.covers_trans by (auto simp: rules_inv_def)
  have lo: "loiter_alerted tr' k z = loiter_alerted tr k z" for k z using tu tr' ne by (auto simp: loiter_alerted_def)
  have re: "rendez_alerted tr' j k \<longleftrightarrow> rendez_alerted tr j k \<or> (j = tid \<and> k = oid) \<or> (j = oid \<and> k = tid)" for j k
    using tu tr' ne by (auto simp: rendez_alerted_def)
  have "\<not> rendez_alerted tr tid oid" "\<not> rendez_alerted tr oid tid"
    using tu inv unfolding rules_inv_def tracks_ok_def fst_conv by (simp_all add: rendez_alerted_def) (metis option.simps(5))
  then have "{tid, oid} \<notin> set (rendezvous_keys (pre @ fst em))"
    using inv alerts_sound_rendezvous by (auto simp: rules_inv_def simp del: keys_append)
  moreover have "alerts_sound tr' (pre @ fst em)" by (rule alerts_sound_mono [of tr]) (use inv lo re in \<open>auto simp: rules_inv_def\<close>)
  moreover have "pair_latched tr' {tid, oid}" using re ne unfolding pair_latched_def by blast
  ultimately have "alerts_sound tr' (pre @ fst em')" using em' by (auto simp: alerts_sound_def)
  then show ?thesis using r ok em' cov inv frames_trans by (auto simp: rules_inv_def labels_cover_snoc)
qed


lemma rules_inv_pair:
  assumes inv: "rules_inv tr0 pre st" and ok: "tracks_ok tr0"
  shows "rules_inv tr0 pre (rendezvous_pair mf c now q d tid k st)"
proof (cases "fst st tid = None \<or> fst st k = None \<or> k = tid")
  case True then show ?thesis using assms by (auto simp: rendezvous_pair_def split: option.splits)
next
  case False
  then obtain t u where tu: "fst st tid = Some t" "fst st k = Some u" "tid \<noteq> k" by auto
  let ?out = "pair_state mf c q tid t k u"
  have a: "rules_inv tr0 pre (record_pair tid k ?out (fst st), snd st)"
    using rules_inv_record_pair [of tr0 pre "fst st" "snd st" tid k ?out] inv tu by (simp add: domI)
  show ?thesis
    using tu a rules_inv_alert [OF a ok tu(3)] by (cases ?out) (simp_all add: rendezvous_pair_def Let_def)
qed

lemma rules_inv_pairs:
  "rules_inv tr0 pre st \<Longrightarrow> tracks_ok tr0 \<Longrightarrow> rules_inv tr0 pre (fold (rendezvous_pair mf c now q d tid) ks st)"
  using fold_preserves [where P = "rules_inv tr0 pre" and R = "\<lambda>_ _. True" and f = "rendezvous_pair mf c now q d tid"] rules_inv_pair
  by blast

lemma evaluate_rules_inv:
  assumes ok: "tracks_ok (eg_tracks eng)" and al: "alerts_sound (eg_tracks eng) pre"
    and ev: "evaluate mf order now tid q d eng = (em, eng')"
  shows "\<exists>tr. eng' = eng\<lparr>eg_tracks := tr\<rparr> \<and> rules_inv (eg_tracks eng) pre (tr, em)"
proof (cases "eg_tracks eng tid")
  case None
  then show ?thesis using ev rules_inv_start [OF ok al] by (intro exI [of _ "eg_tracks eng"]) (simp add: evaluate_def)
next
  case (Some t)
  let ?em0 = "speed_rule mf (eg_config eng) now q d t ([], [])"
  let ?l = "loiter_rule (eg_config eng) now q d (eg_zones eng) t ?em0"
  let ?t2 = "forget_left (eg_zones eng) (tp_position q) (fst ?l)"
  let ?st = "((eg_tracks eng)(tid \<mapsto> ?t2), snd ?l)"
  have "rules_inv (eg_tracks eng) pre ((eg_tracks eng)(tid \<mapsto> fst ?l), snd ?l)"
    by (rule rules_inv_loiter [OF rules_inv_speed [OF rules_inv_start [OF ok al] ok Some] ok Some])
  from rules_inv_track [OF this fun_upd_same, of ?t2] have "rules_inv (eg_tracks eng) pre ?st"
    by (simp only: fun_upd_upd) (simp add: forget_left_def)
  then have "rules_inv (eg_tracks eng) pre (fold (rendezvous_pair mf (eg_config eng) now q d tid) order ?st)"
    using rules_inv_pairs ok by blast
  moreover have "em = snd (fold (rendezvous_pair mf (eg_config eng) now q d tid) order ?st)"
    "eng' = eng\<lparr>eg_tracks := fst (fold (rendezvous_pair mf (eg_config eng) now q d tid) order ?st)\<rparr>"
    using ev Some by (simp_all add: evaluate_def Let_def split: prod.splits del: fun_upd_apply)
  ultimately show ?thesis by auto
qed

section \<open>Runs of the engine\<close>

text \<open>
  A run keeps the log of associations (which the store persists) and all anomalies returned so
  far. Iterating over a map visits every key once, in any order; a fresh track id is not the id
  of a track the engine holds.
\<close>

definition enumerates :: "string list \<Rightarrow> (string \<rightharpoonup> 'a) \<Rightarrow> bool" where
  "enumerates order m = (distinct order \<and> set order = dom m)"

record fusion_run =
  fn_engine :: engine
  fn_log :: "(string \<times> detection) list"
  fn_anomalies :: "anomaly list"

inductive fusion_reach :: "math_fns \<Rightarrow> fusion_config \<Rightarrow> zone list \<Rightarrow> fusion_run \<Rightarrow> bool" for mf c zs where
  start: "NewEngine c zs = Inr eng \<Longrightarrow> fusion_reach mf c zs \<lparr>fn_engine = eng, fn_log = [], fn_anomalies = []\<rparr>"
| ingest: "fusion_reach mf c zs s \<Longrightarrow> Ingest mf o1 o2 now nid d (fn_engine s) = (Inr (tid, (an, lat)), eng') \<Longrightarrow>
     eg_tracks (fn_engine s) nid = None \<Longrightarrow> enumerates o1 (eg_tracks (fn_engine s)) \<Longrightarrow> enumerates o2 (eg_tracks eng') \<Longrightarrow>
     fusion_reach mf c zs \<lparr>fn_engine = eng', fn_log = fn_log s @ [(tid, d)], fn_anomalies = fn_anomalies s @ an\<rparr>"
| replay: "fusion_reach mf c zs s \<Longrightarrow> Replay mf order tid d (fn_engine s) = (Inr (), eng') \<Longrightarrow> enumerates order (eg_tracks eng') \<Longrightarrow>
     fusion_reach mf c zs \<lparr>fn_engine = eng', fn_log = fn_log s @ [(tid, d)], fn_anomalies = fn_anomalies s\<rparr>"
| scan: "fusion_reach mf c zs s \<Longrightarrow> ScanDarkVessels order now (fn_engine s) = ((an, lat), eng') \<Longrightarrow> enumerates order (eg_tracks (fn_engine s)) \<Longrightarrow>
     fusion_reach mf c zs \<lparr>fn_engine = eng', fn_log = fn_log s, fn_anomalies = fn_anomalies s @ an\<rparr>"

definition track_log :: "string \<Rightarrow> (string \<times> detection) list \<Rightarrow> detection list" where
  "track_log tid lg = map snd (filter (\<lambda>e. fst e = tid) lg)"

lemma track_log_simps [simp]:
  "track_log tid [] = []" "track_log tid (lg @ [(k, d)]) = track_log tid lg @ (if k = tid then [d] else [])"
  by (simp_all add: track_log_def)

definition newest :: "nat \<Rightarrow> 'a list \<Rightarrow> 'a list" where
  "newest n xs = drop (length xs - n) xs"

lemma newest_snoc: "newest n (newest n xs @ [x]) = newest n (xs @ [x])"
  by (cases "length xs \<le> n") (auto simp: newest_def Suc_diff_le)

lemma cap_points_newest: "cap_points ps = newest 4096 ps"
  by (auto simp: cap_points_def newest_def)

definition last_ais :: "detection list \<Rightarrow> gotime" where
  "last_ais ds = fold (\<lambda>d acc. if d_ais d = None then acc else d_observed_at d) ds 0"

abbreviation point_of :: "detection \<Rightarrow> track_point" where
  "point_of d \<equiv> detection_point d (detection_pos d)"

definition log_ok :: "(string \<times> detection) list \<Rightarrow> string \<Rightarrow> track \<Rightarrow> bool" where
  "log_ok lg tid t =
     (tk_points t = newest 4096 (map point_of (track_log tid lg)) \<and> tk_last_ais_at t = last_ais (track_log tid lg) \<and>
      (\<forall>d \<in> set (track_log tid lg). Covers (tk_classification t) (d_classification d)))"

definition history_ok :: "fusion_run \<Rightarrow> bool" where
  "history_ok s =
     ((\<forall>tid t. eg_tracks (fn_engine s) tid = Some t \<longrightarrow> track_log tid (fn_log s) \<noteq> [] \<and> log_ok (fn_log s) tid t) \<and>
      (\<forall>e \<in> set (fn_log s). fst e \<in> dom (eg_tracks (fn_engine s)) \<and> valid_label (d_classification (snd e))))"

text \<open>What \<open>Ingest\<close> and \<open>Replay\<close> have in common: the detection is absorbed by one old or new track.\<close>

definition absorbed :: "string \<Rightarrow> detection \<Rightarrow> engine \<Rightarrow> engine \<Rightarrow> bool" where
  "absorbed tid d eng eng' =
     (detection_Validate d = None \<and> eg_config eng' = eg_config eng \<and> eg_zones eng' = eg_zones eng \<and>
      (\<exists>t0 t'. (eg_tracks eng tid = Some t0 \<or> eg_tracks eng tid = None \<and> (\<exists>m. t0 = (newTrack tid (d_classification d))\<lparr>tk_mmsi := m\<rparr>)) \<and>
         eg_tracks eng' tid = Some t' \<and> rule_frame (absorb_track d (detection_pos d) t0) t') \<and>
      (\<forall>k. k \<noteq> tid \<longrightarrow> rel_option rule_frame (eg_tracks eng k) (eg_tracks eng' k)))"

lemma absorbedI:
  assumes v: "detection_Validate d = None" and fr: "frames (eg_tracks (absorbPoint tid d (detection_pos d) eng1)) tr"
    and t0: "eg_tracks eng tid = Some t0 \<or> eg_tracks eng tid = None \<and> (\<exists>m. t0 = (newTrack tid (d_classification d))\<lparr>tk_mmsi := m\<rparr>)"
    and e1: "eg_tracks eng1 = (eg_tracks eng)(tid \<mapsto> t0)" "eg_config eng1 = eg_config eng" "eg_zones eng1 = eg_zones eng"
  shows "absorbed tid d eng ((absorbPoint tid d (detection_pos d) eng1)\<lparr>eg_tracks := tr\<rparr>)"
proof -
  let ?t = "absorb_track d (detection_pos d) t0"
  have a: "eg_tracks (absorbPoint tid d (detection_pos d) eng1) = (eg_tracks eng)(tid \<mapsto> ?t)"
    "eg_config (absorbPoint tid d (detection_pos d) eng1) = eg_config eng" "eg_zones (absorbPoint tid d (detection_pos d) eng1) = eg_zones eng"
    using e1 by (simp_all add: absorbPoint_def Let_def)
  obtain t' where "tr tid = Some t'" "rule_frame ?t t'" using framesD [OF fr, of tid ?t] a by auto
  moreover have "rel_option rule_frame (eg_tracks eng k) (tr k)" if "k \<noteq> tid" for k
    using fr that unfolding frames_def a by (metis fun_upd_other)
  ultimately show ?thesis unfolding absorbed_def using v t0 a by auto
qed

lemma Ingest_effect:
  assumes r: "Ingest mf o1 o2 now nid d eng = (Inr (tid, em), eng')" and ok: "engine_inv eng" and fresh: "eg_tracks eng nid = None"
    and al: "alerts_sound (eg_tracks eng) pre"
  shows "absorbed tid d eng eng' \<and> alerts_sound (eg_tracks eng') (pre @ fst em) \<and>
     (\<forall>a \<in> set (fst em). \<forall>k \<in> set (an_track_ids a). \<forall>t. eg_tracks eng k = Some t \<longrightarrow> Covers (an_classification a) (tk_classification t)) \<and>
     (\<forall>a \<in> set (fst em). tid \<in> set (an_track_ids a) \<longrightarrow> Covers (an_classification a) (d_classification d))"
  using r
proof (rule Ingest_Inr)
  fix eng1
  assume v: "detection_Validate d = None" and as: "associate mf o1 nid d (detection_pos d) eng = (tid, eng1)"
    and ev: "evaluate mf o2 now tid (point_of d) d (absorbPoint tid d (detection_pos d) eng1) = (em, eng')"
  let ?e2 = "absorbPoint tid d (detection_pos d) eng1"
  have iok: "index_ok eng" using ok by (simp add: engine_inv_def)
  have e1: "engine_inv eng1" "\<exists>t. eg_tracks eng1 tid = Some t" using associate_inv [OF as ok fresh v] by auto
  have "\<exists>t0. (eg_tracks eng tid = Some t0 \<or> eg_tracks eng tid = None \<and> (\<exists>m. t0 = (newTrack tid (d_classification d))\<lparr>tk_mmsi := m\<rparr>)) \<and>
      eg_tracks eng1 = (eg_tracks eng)(tid \<mapsto> t0) \<and> eg_config eng1 = eg_config eng \<and> eg_zones eng1 = eg_zones eng"
    using as iok by (cases rule: associate_cases) (use fresh in \<open>auto simp: map_upd_triv\<close>)
  then obtain t0 where t0: "eg_tracks eng tid = Some t0 \<or> eg_tracks eng tid = None \<and> (\<exists>m. t0 = (newTrack tid (d_classification d))\<lparr>tk_mmsi := m\<rparr>)"
      "eg_tracks eng1 = (eg_tracks eng)(tid \<mapsto> t0)" "eg_config eng1 = eg_config eng" "eg_zones eng1 = eg_zones eng" by blast
  let ?t = "absorb_track d (detection_pos d) t0"
  have e2: "eg_tracks ?e2 = (eg_tracks eng)(tid \<mapsto> ?t)" using t0 by (simp add: absorbPoint_def Let_def)
  have tok2: "tracks_ok (eg_tracks ?e2)" using absorbPoint_inv [OF v] e1 by (auto simp: engine_inv_def)
  have al2: "alerts_sound (eg_tracks ?e2) pre"
    by (rule alerts_sound_mono [OF al])
       (use t0(1) e2 in \<open>auto simp: loiter_alerted_def rendez_alerted_def absorb_track_simps [OF v] split: if_splits\<close>)
  obtain tr where tr: "eng' = ?e2\<lparr>eg_tracks := tr\<rparr>" "rules_inv (eg_tracks ?e2) pre (tr, em)"
    using evaluate_rules_inv [OF tok2 al2 ev] by blast
  have ab: "absorbed tid d eng eng'" using absorbedI [OF v _ t0] tr by (auto simp: rules_inv_def)
  have lab: "valid_label (tk_classification t0)" "valid_label (d_classification d)"
    using t0(1) ok detection_label [OF v] by (auto simp: engine_inv_def tracks_ok_def track_ok_def newTrack_def)
  have cov: "Covers (an_classification a) (tk_classification t)"
    if "a \<in> set (fst em)" "k \<in> set (an_track_ids a)" "eg_tracks ?e2 k = Some t" for a k t
    using tr(2) that by (auto simp: rules_inv_def labels_cover_def)
  have cov_t: "Covers (an_classification a) (tk_classification t0)" "Covers (an_classification a) (d_classification d)"
    if "a \<in> set (fst em)" "tid \<in> set (an_track_ids a)" for a
    using cov [OF that, of ?t] e2 cls.covers_join [OF lab] by (auto simp: absorb_track_simps [OF v])
  have "Covers (an_classification a) (tk_classification t)"
    if "a \<in> set (fst em)" "k \<in> set (an_track_ids a)" "eg_tracks eng k = Some t" for a k t
    using that cov [of a k t] cov_t [of a] e2 t0(1) by (cases "k = tid") auto
  then show ?thesis using ab tr cov_t by (auto simp: rules_inv_def)
qed

lemma last_ais_snoc [simp]: "last_ais (ds @ [d]) = (if d_ais d = None then last_ais ds else d_observed_at d)"
  by (simp add: last_ais_def)

lemma log_ok_absorb:
  assumes v: "detection_Validate d = None" and t0: "log_ok lg tid t0" and lab: "valid_label (tk_classification t0)"
    and fr: "rule_frame (absorb_track d (detection_pos d) t0) t'"
  shows "log_ok (lg @ [(tid, d)]) tid t'"
proof -
  let ?m = "MaxClassification (tk_classification t0) (d_classification d)"
  have dl: "valid_label (d_classification d)" by (rule detection_label [OF v])
  have cov: "Covers (tk_classification t') ?m"
    using fr cls.join_valid [OF lab dl] by (simp add: rule_frame_def absorb_track_simps [OF v])
  have "Covers ?m (d_classification d)" "Covers ?m (tk_classification t0)" using cls.join_upper [OF lab dl] by auto
  moreover have "tk_points t' = newest 4096 (map point_of (track_log tid lg) @ [point_of d])"
    using t0 fr by (simp add: log_ok_def rule_frame_def absorb_track_simps [OF v] cap_points_newest newest_snoc)
  moreover have "tk_last_ais_at t' = last_ais (track_log tid lg @ [d])"
    using t0 fr by (simp add: log_ok_def rule_frame_def absorb_track_simps [OF v])
  ultimately show ?thesis using t0 cov cls.covers_trans by (auto simp: log_ok_def)
qed

lemma log_ok_frame: "log_ok lg k t \<Longrightarrow> valid_label (tk_classification t) \<Longrightarrow> rule_frame t t' \<Longrightarrow> log_ok lg k t'"
  unfolding log_ok_def rule_frame_def using cls.covers_trans by metis

lemma track_log_other: "k \<noteq> tid \<Longrightarrow> log_ok (lg @ [(tid, d)]) k t = log_ok lg k t"
  by (simp add: log_ok_def)

lemma track_log_fresh:
  assumes "history_ok s" "eg_tracks (fn_engine s) tid = None" shows "track_log tid (fn_log s) = []"
  using assms by (fastforce simp: history_ok_def track_log_def filter_empty_conv)

lemma history_ok_absorbed:
  assumes h: "history_ok s" and inv: "engine_inv (fn_engine s)" and ab: "absorbed tid d (fn_engine s) eng'"
  shows "history_ok \<lparr>fn_engine = eng', fn_log = fn_log s @ [(tid, d)], fn_anomalies = an\<rparr>"
proof -
  have v: "detection_Validate d = None" using ab by (simp add: absorbed_def)
  obtain t0 t' where t0: "eg_tracks (fn_engine s) tid = Some t0 \<or> eg_tracks (fn_engine s) tid = None \<and> (\<exists>m. t0 = (newTrack tid (d_classification d))\<lparr>tk_mmsi := m\<rparr>)"
    and t': "eg_tracks eng' tid = Some t'" "rule_frame (absorb_track d (detection_pos d) t0) t'"
    and other: "\<And>k. k \<noteq> tid \<Longrightarrow> rel_option rule_frame (eg_tracks (fn_engine s) k) (eg_tracks eng' k)"
    using ab by (auto simp: absorbed_def)
  have lab: "valid_label (tk_classification t)" if "eg_tracks (fn_engine s) k = Some t" for k t
    using inv that by (auto simp: engine_inv_def tracks_ok_def track_ok_def)
  have "log_ok (fn_log s) tid t0 \<and> valid_label (tk_classification t0)"
    using t0
  proof
    assume "eg_tracks (fn_engine s) tid = Some t0"
    then show ?thesis using h lab by (auto simp: history_ok_def)
  next
    assume n: "eg_tracks (fn_engine s) tid = None \<and> (\<exists>m. t0 = (newTrack tid (d_classification d))\<lparr>tk_mmsi := m\<rparr>)"
    then show ?thesis using track_log_fresh [OF h] detection_label [OF v]
      by (auto simp: log_ok_def newTrack_def newest_def last_ais_def)
  qed
  then have a: "log_ok (fn_log s @ [(tid, d)]) tid t'" using log_ok_absorb [OF v] t'(2) by blast
  have b: "track_log k (fn_log s) \<noteq> [] \<and> log_ok (fn_log s @ [(tid, d)]) k t" if k: "k \<noteq> tid" and t: "eg_tracks eng' k = Some t" for k t
  proof -
    obtain u where u: "eg_tracks (fn_engine s) k = Some u" "rule_frame u t" using other [OF k] t by (metis option_rel_Some2)
    then have "track_log k (fn_log s) \<noteq> []" "log_ok (fn_log s) k u" using h by (auto simp: history_ok_def)
    then show ?thesis using log_ok_frame [OF _ lab [OF u(1)] u(2)] track_log_other [OF k] by blast
  qed
  have c: "k \<in> dom (eg_tracks eng')" if "k \<in> dom (eg_tracks (fn_engine s))" for k
    using that other [of k] t'(1) by (cases "k = tid") (auto simp: rel_option_iff split: option.splits)
  show ?thesis unfolding history_ok_def
  proof (intro conjI allI impI ballI)
    fix k t assume t: "eg_tracks (fn_engine \<lparr>fn_engine = eng', fn_log = fn_log s @ [(tid, d)], fn_anomalies = an\<rparr>) k = Some t"
    then show "track_log k (fn_log \<lparr>fn_engine = eng', fn_log = fn_log s @ [(tid, d)], fn_anomalies = an\<rparr>) \<noteq> []"
      using b by (cases "k = tid") simp_all
    show "log_ok (fn_log \<lparr>fn_engine = eng', fn_log = fn_log s @ [(tid, d)], fn_anomalies = an\<rparr>) k t"
      using a b t t'(1) by (cases "k = tid") simp_all
  next
    fix e assume "e \<in> set (fn_log \<lparr>fn_engine = eng', fn_log = fn_log s @ [(tid, d)], fn_anomalies = an\<rparr>)"
    then have "e \<in> set (fn_log s) \<or> e = (tid, d)" by auto
    moreover have "fst e \<in> dom (eg_tracks eng') \<and> valid_label (d_classification (snd e))" if "e \<in> set (fn_log s)"
      using h c that unfolding history_ok_def by blast
    ultimately have "fst e \<in> dom (eg_tracks eng') \<and> valid_label (d_classification (snd e))"
      using t'(1) detection_label [OF v] by auto
    then show "fst e \<in> dom (eg_tracks (fn_engine \<lparr>fn_engine = eng', fn_log = fn_log s @ [(tid, d)], fn_anomalies = an\<rparr>))"
      "valid_label (d_classification (snd e))" by simp_all
  qed
qed

section \<open>The dark-vessel scan\<close>

text \<open>
  The scan emits one anomaly for each track that is dark, in iteration order, and latches
  exactly these tracks.
\<close>

definition dark_of :: "fusion_config \<Rightarrow> zone list \<Rightarrow> gotime \<Rightarrow> (string \<rightharpoonup> track) \<Rightarrow> string \<Rightarrow> anomaly option" where
  "dark_of c zs now tr k = Option.bind (tr k) (\<lambda>t. map_option (dark_anomaly c now t) (dark_track c zs now t))"

definition latch_dark :: "fusion_config \<Rightarrow> zone list \<Rightarrow> gotime \<Rightarrow> string list \<Rightarrow> (string \<rightharpoonup> track) \<Rightarrow> (string \<rightharpoonup> track)" where
  "latch_dark c zs now ks tr =
     (\<lambda>k. if k \<in> set ks \<and> dark_of c zs now tr k \<noteq> None then map_option (\<lambda>t. t\<lparr>tk_dark_alerted := True\<rparr>) (tr k) else tr k)"

lemma scan_tracks_spec:
  "distinct ks \<Longrightarrow>
   fst (fold (scan_track c zs now) ks (tr, em)) = latch_dark c zs now ks tr \<and>
   fst (snd (fold (scan_track c zs now) ks (tr, em))) = fst em @ List.map_filter (dark_of c zs now tr) ks"
proof (induction ks arbitrary: tr em)
  case Nil then show ?case by (simp add: latch_dark_def map_filter_simps)
next
  case (Cons k ks)
  show ?case
  proof (cases "dark_of c zs now tr k")
    case None
    then have "scan_track c zs now k (tr, em) = (tr, em)"
      by (auto simp: scan_track_def dark_of_def split: option.splits)
    moreover have "latch_dark c zs now (k # ks) tr = latch_dark c zs now ks tr" using None by (auto simp: latch_dark_def fun_eq_iff)
    ultimately show ?thesis using Cons None by (simp add: map_filter_simps)
  next
    case (Some a)
    then obtain t z where t: "tr k = Some t" "dark_track c zs now t = Some z" "a = dark_anomaly c now t z"
      by (auto simp: dark_of_def bind_eq_Some_conv)
    let ?tr = "tr(k \<mapsto> t\<lparr>tk_dark_alerted := True\<rparr>)"
    obtain em' where s: "scan_track c zs now k (tr, em) = (?tr, em')" "fst em' = fst em @ [a]"
      using t by (simp add: scan_track_def)
    have same: "dark_of c zs now ?tr j = dark_of c zs now tr j" if "j \<in> set ks" for j
      using that Cons.prems by (auto simp: dark_of_def)
    have "List.map_filter (dark_of c zs now ?tr) ks = List.map_filter (dark_of c zs now tr) ks"
      using same by (simp add: List.map_filter_def cong: filter_cong map_cong) 
    moreover have "latch_dark c zs now ks ?tr = latch_dark c zs now (k # ks) tr"
      using Cons.prems same Some t by (auto simp: latch_dark_def fun_eq_iff)
    ultimately show ?thesis using Cons s Some by (simp add: map_filter_simps)
  qed
qed


lemma ScanDarkVessels_spec:
  assumes "enumerates order (eg_tracks eng)"
  shows "fst (fst (ScanDarkVessels order now eng)) = List.map_filter (dark_of (eg_config eng) (eg_zones eng) now (eg_tracks eng)) order \<and>
    snd (ScanDarkVessels order now eng) = eng\<lparr>eg_tracks := latch_dark (eg_config eng) (eg_zones eng) now order (eg_tracks eng)\<rparr>"
  using scan_tracks_spec [of order "eg_config eng" "eg_zones eng" now "eg_tracks eng" "([], [])"] assms
  by (auto simp: ScanDarkVessels_def enumerates_def split: prod.splits)

lemma latch_dark_frames: "frames tr (latch_dark c zs now ks tr)"
  by (auto simp: frames_def latch_dark_def rule_frame_def rel_option_iff cls.covers_refl split: option.splits)

lemma latch_dark_alerted [simp]:
  "loiter_alerted (latch_dark c zs now ks tr) k z = loiter_alerted tr k z"
  "rendez_alerted (latch_dark c zs now ks tr) j k = rendez_alerted tr j k"
  by (auto simp: loiter_alerted_def rendez_alerted_def latch_dark_def split: option.splits)

lemma dark_keys [simp]: "loiter_keys (List.map_filter (dark_of c zs now tr) ks) = []" "rendezvous_keys (List.map_filter (dark_of c zs now tr) ks) = []"
proof -
  have "a \<in> set (List.map_filter (dark_of c zs now tr) ks) \<Longrightarrow> an_kind a = AnomalyDarkVessel" for a
    by (auto simp: List.map_filter_def dark_of_def bind_eq_Some_conv dark_anomaly_def)
  then show "loiter_keys (List.map_filter (dark_of c zs now tr) ks) = []" "rendezvous_keys (List.map_filter (dark_of c zs now tr) ks) = []"
    by (auto simp: loiter_keys_def rendezvous_keys_def filter_empty_conv)
qed

lemma history_ok_frames:
  assumes h: "history_ok s" and inv: "engine_inv (fn_engine s)" and fr: "frames (eg_tracks (fn_engine s)) (eg_tracks eng')"
  shows "history_ok \<lparr>fn_engine = eng', fn_log = fn_log s, fn_anomalies = an\<rparr>"
proof -
  have "track_log k (fn_log s) \<noteq> [] \<and> log_ok (fn_log s) k t" if t: "eg_tracks eng' k = Some t" for k t
  proof -
    obtain u where u: "eg_tracks (fn_engine s) k = Some u" "rule_frame u t" using framesD2 [OF fr t] by blast
    then have "track_log k (fn_log s) \<noteq> []" "log_ok (fn_log s) k u" "valid_label (tk_classification u)"
      using h inv by (auto simp: history_ok_def engine_inv_def tracks_ok_def track_ok_def)
    then show ?thesis using log_ok_frame u(2) by blast
  qed
  then show ?thesis using h frames_dom [OF fr] by (simp add: history_ok_def)
qed

definition same_alerts :: "(string \<rightharpoonup> track) \<Rightarrow> (string \<rightharpoonup> track) \<Rightarrow> bool" where
  "same_alerts tr tr' = (loiter_alerted tr' = loiter_alerted tr \<and> rendez_alerted tr' = rendez_alerted tr)"

lemma restore_pairs_alerts: "same_alerts tr (fold (restore_pair mf c tid q) ks tr)"
proof -
  have "same_alerts tr (restore_pair mf c tid q k tr)" for k and tr :: "string \<rightharpoonup> track"
    by (auto simp: same_alerts_def restore_pair_def fun_eq_iff split: option.splits)
  then show ?thesis
    using fold_preserves [where P = "\<lambda>_. True" and R = same_alerts and f = "restore_pair mf c tid q"]
    by (simp add: same_alerts_def)
qed

lemma restore_zones_alerts [simp]:
  "tk_loiter_alerted (restore_zones q zs t) = tk_loiter_alerted t" "tk_rendez_alerted (restore_zones q zs t) = tk_rendez_alerted t"
  by (induction zs arbitrary: t) (auto simp: enter_zone_def)

lemma restoreRuleState_alerts: "same_alerts (eg_tracks eng) (eg_tracks (restoreRuleState mf order tid q eng))"
proof -
  let ?tr = "(eg_tracks eng)(tid := map_option (\<lambda>t. forget_left (eg_zones eng) (tp_position q) (restore_zones q (eg_zones eng) t)) (eg_tracks eng tid))"
  have "same_alerts (eg_tracks eng) ?tr"
    by (auto simp: same_alerts_def loiter_alerted_def rendez_alerted_def fun_eq_iff forget_left_def split: option.splits)
  then show ?thesis
    using restore_pairs_alerts [of ?tr mf "eg_config eng" tid q order] by (simp add: restoreRuleState_def same_alerts_def)
qed

lemma Replay_effect:
  assumes r: "Replay mf order tid d eng = (Inr (), eng')" and ok: "engine_inv eng" and al: "alerts_sound (eg_tracks eng) pre"
  shows "absorbed tid d eng eng' \<and> alerts_sound (eg_tracks eng') pre"
  using r
proof (rule Replay_Inr)
  fix eng1
  assume v: "detection_Validate d = None"
    and e1: "eng1 = (if eg_tracks eng tid = None then eng\<lparr>eg_tracks := (eg_tracks eng)(tid \<mapsto> newTrack tid (d_classification d))\<rparr> else eng)"
    and e2: "eng' = restoreRuleState mf order tid (point_of d) (absorbPoint tid d (detection_pos d) eng1)"
  let ?e2 = "absorbPoint tid d (detection_pos d) eng1"
  let ?t0 = "case eg_tracks eng tid of Some t \<Rightarrow> t | None \<Rightarrow> newTrack tid (d_classification d)"
  have t0: "eg_tracks eng tid = Some ?t0 \<or> eg_tracks eng tid = None \<and> (\<exists>m. ?t0 = (newTrack tid (d_classification d))\<lparr>tk_mmsi := m\<rparr>)"
    by (auto simp: newTrack_def split: option.splits)
  have e1': "eg_tracks eng1 = (eg_tracks eng)(tid \<mapsto> ?t0)" "eg_config eng1 = eg_config eng" "eg_zones eng1 = eg_zones eng"
    using e1 by (auto simp: map_upd_triv)
  have "eg_tracks ?e2 = (eg_tracks eng)(tid \<mapsto> absorb_track d (detection_pos d) ?t0)"
    using e1' by (simp add: absorbPoint_def Let_def)
  then have "alerts_sound (eg_tracks ?e2) pre"
    by (intro alerts_sound_mono [OF al])
       (auto simp: loiter_alerted_def rendez_alerted_def absorb_track_simps [OF v] split: if_splits option.splits)
  then have "alerts_sound (eg_tracks eng') pre"
    using restoreRuleState_alerts [of ?e2 mf order tid "point_of d"] e2 by (simp add: alerts_sound_def same_alerts_def pair_latched_def)
  moreover have "tracks_ok (eg_tracks ?e2)" using Replay_mid_inv [OF v ok e1] by (simp add: engine_inv_def)
  then have "absorbed tid d eng eng'"
    using restoreRuleState_ok [of ?e2 mf order tid "point_of d"] e2 absorbedI [OF v _ t0 e1'] by auto
  ultimately show ?thesis by simp
qed

lemma fusion_reach_inv:
  assumes "fusion_reach mf c zs s"
  shows "engine_inv (fn_engine s) \<and> history_ok s \<and> alerts_sound (eg_tracks (fn_engine s)) (fn_anomalies s) \<and>
    eg_config (fn_engine s) = c \<and> eg_zones (fn_engine s) = zs"
  using assms
proof induction
  case (start eng)
  then show ?case
    by (auto simp: NewEngine_def engine_inv_def tracks_ok_def index_ok_def near_def rendez_alerted_def history_ok_def alerts_sound_def)
next
  case (ingest s o1 o2 now nid d tid an lat eng')
  then have inv: "engine_inv (fn_engine s)" and al: "alerts_sound (eg_tracks (fn_engine s)) (fn_anomalies s)" by auto
  note e = Ingest_effect [OF ingest.hyps(2) inv ingest.hyps(3) al]
  then show ?case
    using Ingest_inv [OF ingest.hyps(2) inv ingest.hyps(3)] history_ok_absorbed [of s tid d eng'] ingest.IH
    by (simp add: absorbed_def)
next
  case (replay s order tid d eng')
  then have inv: "engine_inv (fn_engine s)" and al: "alerts_sound (eg_tracks (fn_engine s)) (fn_anomalies s)" by auto
  note e = Replay_effect [OF replay.hyps(2) inv al]
  then show ?case
    using Replay_inv [OF replay.hyps(2) inv] history_ok_absorbed [of s tid d eng'] replay.IH by (simp add: absorbed_def)
next
  case (scan s order now an lat eng')
  note sp = ScanDarkVessels_spec [OF scan.hyps(3), of now, unfolded scan.hyps(2) fst_conv snd_conv]
  have "engine_inv eng'" using ScanDarkVessels_inv [of "fn_engine s" order now] scan by simp
  moreover have "alerts_sound (eg_tracks eng') (fn_anomalies s @ an)"
    using scan.IH sp alerts_sound_mono [of "eg_tracks (fn_engine s)" "fn_anomalies s" "eg_tracks eng'"]
    by (simp add: alerts_sound_def)
  ultimately show ?case using scan.IH sp history_ok_frames [of s eng'] latch_dark_frames by simp
qed

end
