(* ===== verification/FusionProps.thy ===== *)
theory FusionProps
  imports FusionInv
begin

text \<open>
  The properties of the fusion engine over all its runs, and concrete runs on which they apply.
\<close>

section \<open>Properties of the engine\<close>

text \<open>
  C22. In every run of ingestions, replays and scans a track is stored under its own id, holds
  exactly the newest 4096 points of the detections associated with it, in arrival order and at
  least one, remembers the AIS report that arrived last, and carries an approved label that
  covers the label of every detection ever associated with it.
\<close>

theorem fusion_track_history:
  assumes "fusion_reach mf c zs s" and "eg_tracks (fn_engine s) tid = Some t"
  shows "tk_id t = tid \<and> tk_points t \<noteq> [] \<and> tk_points t = newest 4096 (map point_of (track_log tid (fn_log s))) \<and>
    tk_last_ais_at t = last_ais (track_log tid (fn_log s)) \<and> valid_label (tk_classification t) \<and>
    (\<forall>d \<in> set (track_log tid (fn_log s)). Covers (tk_classification t) (d_classification d))"
proof -
  have inv: "engine_inv (fn_engine s)" "history_ok s" using fusion_reach_inv [OF assms(1)] by auto
  have "track_ok tid t" using inv(1) assms(2) by (simp add: engine_inv_def tracks_ok_def)
  moreover have "track_log tid (fn_log s) \<noteq> []" "log_ok (fn_log s) tid t" using inv(2) assms(2) by (auto simp: history_ok_def)
  ultimately show ?thesis by (auto simp: track_ok_def log_ok_def newest_def)
qed

text \<open>
  In every run the MMSI index never dangles: an indexed MMSI names a track of the engine that
  carries this MMSI, and every track with an MMSI can be found through the index. Pair proximity
  and rendezvous latches agree on both tracks of a pair.
\<close>

theorem fusion_index_consistent:
  assumes "fusion_reach mf c zs s"
  shows "(eg_by_mmsi (fn_engine s) m = Some k \<longrightarrow> m \<noteq> [] \<and> (\<exists>t. eg_tracks (fn_engine s) k = Some t \<and> tk_mmsi t = m)) \<and>
    (eg_tracks (fn_engine s) k = Some t \<and> tk_mmsi t \<noteq> [] \<longrightarrow> eg_by_mmsi (fn_engine s) (tk_mmsi t) \<noteq> None) \<and>
    near (eg_tracks (fn_engine s)) j k = near (eg_tracks (fn_engine s)) k j \<and>
    rendez_alerted (eg_tracks (fn_engine s)) j k = rendez_alerted (eg_tracks (fn_engine s)) k j"
proof -
  have "tracks_ok (eg_tracks (fn_engine s))" "index_ok (fn_engine s)"
    using fusion_reach_inv [OF assms] by (auto simp: engine_inv_def)
  then show ?thesis unfolding tracks_ok_def index_ok_def by metis
qed

text \<open>
  Between two restarts a track raises at most one loitering alert per restricted zone, and a
  pair of tracks at most one rendezvous alert, whichever of the two reports.
\<close>

theorem fusion_alerts_once:
  assumes "fusion_reach mf c zs s"
  shows "distinct (loiter_keys (fn_anomalies s)) \<and> distinct (rendezvous_keys (fn_anomalies s))"
  using fusion_reach_inv [OF assms] by (simp add: alerts_sound_def)

text \<open>
  No downgrade: the label of an anomaly that an ingestion returns covers the label of every
  detection associated so far with any of the tracks it names, the new detection included.
\<close>

theorem Ingest_anomaly_labels:
  assumes reach: "fusion_reach mf c zs s" and fresh: "eg_tracks (fn_engine s) nid = None"
    and r: "Ingest mf o1 o2 now nid d (fn_engine s) = (Inr (tid, (an, lat)), eng')"
    and a: "a \<in> set an" "k \<in> set (an_track_ids a)" "d' \<in> set (track_log k (fn_log s @ [(tid, d)]))"
  shows "Covers (an_classification a) (d_classification d')"
proof -
  have inv: "engine_inv (fn_engine s)" "history_ok s" "alerts_sound (eg_tracks (fn_engine s)) (fn_anomalies s)"
    using fusion_reach_inv [OF reach] by auto
  note e = Ingest_effect [OF r inv(1) fresh inv(3), unfolded fst_conv]
  show ?thesis
  proof (cases "d' \<in> set (track_log k (fn_log s))")
    case True
    then have "(k, d') \<in> set (fn_log s)" by (auto simp: track_log_def)
    then have "k \<in> dom (eg_tracks (fn_engine s))" using inv(2) unfolding history_ok_def by force
    then obtain t where t: "eg_tracks (fn_engine s) k = Some t" by blast
    then have "Covers (tk_classification t) (d_classification d')"
      using inv(2) True by (auto simp: history_ok_def log_ok_def)
    then show ?thesis using e a(1,2) t cls.covers_trans by blast
  next
    case False
    then have "k = tid" "d' = d" using a(3) by (auto split: if_splits)
    then show ?thesis using e a(1,2) by blast
  qed
qed

lemma Ingest_takes_mmsi:
  assumes inv: "engine_inv eng" and fresh: "eg_tracks eng nid = None"
    and r: "Ingest mf o1 o2 now nid d eng = (Inr (tid, em), eng')"
    and m: "d_mmsi d \<noteq> []" and ais: "\<And>a. d_ais d = Some a \<Longrightarrow> ais_mmsi a = d_mmsi d"
  shows "\<exists>t. eg_tracks eng' tid = Some t \<and> tk_mmsi t = d_mmsi d"
  using r
proof (rule Ingest_Inr)
  fix eng1
  assume v: "detection_Validate d = None" and as: "associate mf o1 nid d (detection_pos d) eng = (tid, eng1)"
    and ev: "evaluate mf o2 now tid (point_of d) d (absorbPoint tid d (detection_pos d) eng1) = (em, eng')"
  have iok: "index_ok eng" using inv by (simp add: engine_inv_def)
  have "takes_mmsi d = d_mmsi d" using ais by (auto simp: takes_mmsi_def split: option.splits)
  moreover have "\<exists>t. eg_tracks eng1 tid = Some t \<and> (tk_mmsi t = [] \<or> tk_mmsi t = d_mmsi d)"
    using as iok by (cases rule: associate_cases) (use m in \<open>auto simp: candidate_distance_def split: if_splits\<close>)
  ultimately obtain t where t: "eg_tracks eng1 tid = Some t" "tk_mmsi (absorb_track d (detection_pos d) t) = d_mmsi d"
    by (auto simp: absorb_track_simps [OF v])
  let ?e2 = "absorbPoint tid d (detection_pos d) eng1"
  have "tracks_ok (eg_tracks ?e2)"
    using absorbPoint_inv [OF v _ t(1)] associate_inv [OF as inv fresh v] by (simp add: engine_inv_def)
  then obtain tr where "eng' = ?e2\<lparr>eg_tracks := tr\<rparr>" "frames (eg_tracks ?e2) tr"
    using evaluate_ok [of ?e2 mf o2 now tid "point_of d" d] ev by auto
  moreover have "eg_tracks ?e2 tid = Some (absorb_track d (detection_pos d) t)" using t by (simp add: absorbPoint_def Let_def)
  ultimately show ?thesis using framesD [of "eg_tracks ?e2" tr tid] t(2) by (force simp: rule_frame_def)
qed

text \<open>
  Identity: after a detection with an MMSI has been ingested, its track carries this MMSI and
  the index leads from the MMSI to a track with it, provided the detection does not contradict
  itself with another MMSI in its AIS payload.
\<close>

theorem Ingest_identity:
  assumes reach: "fusion_reach mf c zs s" and fresh: "eg_tracks (fn_engine s) nid = None"
    and r: "Ingest mf o1 o2 now nid d (fn_engine s) = (Inr (tid, em), eng')"
    and m: "d_mmsi d \<noteq> []" and ais: "\<And>a. d_ais d = Some a \<Longrightarrow> ais_mmsi a = d_mmsi d"
  shows "\<exists>t. eg_tracks eng' tid = Some t \<and> tk_mmsi t = d_mmsi d"
  using Ingest_takes_mmsi [OF _ fresh r m ais] fusion_reach_inv [OF reach] by blast

text \<open>
  A detection that carries its MMSI only in the AIS payload is matched by position alone: it
  joins the single track in range even when that track belongs to another vessel, and the track
  keeps the other vessel's MMSI.
\<close>

theorem AIS_only_joins_foreign_track:
  assumes v: "detection_Validate d = None" "d_has_position d" and a: "d_mmsi d = []" "d_ais d = Some a"
    and inv: "engine_inv eng" and t: "eg_tracks eng k = Some t" "tk_mmsi t \<noteq> []" "tk_mmsi t \<noteq> ais_mmsi a"
    and only: "eg_tracks eng = [k \<mapsto> t]"
    and near: "candidate_distance mf (eg_config eng) d (detection_pos d) t = Some x" "f_le x (CorrelationRadiusMeters (eg_config eng))"
  shows "\<exists>em eng' t'. Ingest mf [k] [k] now nid d eng = (Inr (k, em), eng') \<and> eg_tracks eng' k = Some t' \<and>
    tk_mmsi t' = tk_mmsi t \<and> last (tk_points t') = point_of d"
proof -
  have pos: "NewPosition (d_latitude d) (d_longitude d) = Inr (detection_pos d)"
    using v by (auto simp: detection_Validate_None_iff NewPosition_iff valid_position_def detection_pos_def)
  have as: "associate mf [k] nid d (detection_pos d) eng = (k, eng)"
    using a near t by (simp add: associate_def)
  obtain em eng' where ev: "evaluate mf [k] now k (point_of d) d (absorbPoint k d (detection_pos d) eng) = (em, eng')"
    by (metis surj_pair)
  let ?e2 = "absorbPoint k d (detection_pos d) eng"
  have e2: "eg_tracks ?e2 k = Some (absorb_track d (detection_pos d) t)" using t by (simp add: absorbPoint_def Let_def)
  have "tracks_ok (eg_tracks ?e2)" using absorbPoint_inv [OF v(1) inv t(1)] by (simp add: engine_inv_def)
  then obtain t' where "eg_tracks eng' k = Some t'" "rule_frame (absorb_track d (detection_pos d) t) t'"
    using evaluate_ok [of ?e2 mf "[k]" now k "point_of d" d] ev framesD [where tr = "eg_tracks ?e2" and k = k] e2 by fastforce
  moreover have "Ingest mf [k] [k] now nid d eng = (Inr (k, em), eng')"
    using v pos as ev by (simp add: Ingest_def)
  moreover have "last (cap_points (tk_points t @ [point_of d])) = point_of d" by (simp add: cap_points_def)
  ultimately show ?thesis using t(2) by (auto simp: rule_frame_def absorb_track_simps [OF v(1)])
qed


lemma ScanDarkVessels_names:
  assumes "enumerates order (eg_tracks eng)" and "\<And>k t. eg_tracks eng k = Some t \<Longrightarrow> tk_id t = k"
  shows "(k \<in> set (concat (map an_track_ids (fst (fst (ScanDarkVessels order now eng))))) \<longleftrightarrow>
      (\<exists>t. eg_tracks eng k = Some t \<and> dark_track (eg_config eng) (eg_zones eng) now t \<noteq> None)) \<and>
    distinct (concat (map an_track_ids (fst (fst (ScanDarkVessels order now eng))))) \<and>
    eg_tracks (snd (ScanDarkVessels order now eng)) k =
      (if k \<in> set (concat (map an_track_ids (fst (fst (ScanDarkVessels order now eng)))))
       then map_option (\<lambda>t. t\<lparr>tk_dark_alerted := True\<rparr>) (eg_tracks eng k) else eg_tracks eng k)"
proof -
  let ?f = "dark_of (eg_config eng) (eg_zones eng) now (eg_tracks eng)"
  note sp = ScanDarkVessels_spec [OF assms(1), of now]
  have ids: "an_track_ids a = [j]" if "?f j = Some a" for j a
    using that assms(2) by (auto simp: dark_of_def bind_eq_Some_conv dark_anomaly_def)
  have flat: "concat (map an_track_ids (List.map_filter ?f ks)) = filter (\<lambda>j. ?f j \<noteq> None) ks" for ks
  proof (induction ks)
    case (Cons j ks)
    then show ?case using ids [of j] by (cases "?f j") (simp_all add: map_filter_simps)
  qed (simp add: map_filter_simps)
  have dark: "?f j \<noteq> None \<longleftrightarrow> (\<exists>t. eg_tracks eng j = Some t \<and> dark_track (eg_config eng) (eg_zones eng) now t \<noteq> None)" for j
    by (auto simp: dark_of_def bind_eq_Some_conv)
  have dom: "set order = dom (eg_tracks eng)" "distinct order" using assms(1) by (auto simp: enumerates_def)
  have names: "k \<in> set (concat (map an_track_ids (fst (fst (ScanDarkVessels order now eng))))) \<longleftrightarrow> k \<in> set order \<and> ?f k \<noteq> None"
    using sp flat by auto
  show ?thesis using sp flat dom names dark by (auto simp: latch_dark_def)
qed


text \<open>
  Spatial association picks a nearest candidate: the chosen track lies within the correlation
  radius and window, and no other admissible track is nearer, whatever the iteration order.
\<close>

theorem best_track_nearest:
  assumes "best_track mf eng d p ks None bd = Some k" and "bd \<noteq> NaN"
  shows "\<exists>t x. k \<in> set ks \<and> eg_tracks eng k = Some t \<and> candidate_distance mf (eg_config eng) d p t = Some x \<and> f_le x bd \<and>
    (\<forall>j \<in> set ks. \<forall>u y. eg_tracks eng j = Some u \<and> candidate_distance mf (eg_config eng) d p u = Some y \<and> y \<noteq> NaN \<longrightarrow> f_le x y)"
proof -
  let ?D = "\<lambda>j. Option.bind (eg_tracks eng j) (candidate_distance mf (eg_config eng) d p)"
  have gen: "best_track mf eng d p ks best b = Some k \<Longrightarrow> b \<noteq> NaN \<Longrightarrow>
     \<exists>x. (best = Some k \<and> x = b \<or> k \<in> set ks \<and> ?D k = Some x) \<and> f_le x b \<and> (\<forall>j \<in> set ks. \<forall>y. ?D j = Some y \<and> y \<noteq> NaN \<longrightarrow> f_le x y)" for best b
  proof (induction ks arbitrary: best b)
    case (Cons j ks)
    show ?case
    proof (cases "\<exists>y. ?D j = Some y \<and> f_le y b")
      case True
      then obtain y where y: "?D j = Some y" "f_le y b" by blast
      then have "best_track mf eng d p ks (Some j) y = Some k" "y \<noteq> NaN"
        using Cons.prems(1) f_le_not_NaN by (auto simp: bind_eq_Some_conv)
      from Cons.IH [OF this] obtain x where x: "Some j = Some k \<and> x = y \<or> k \<in> set ks \<and> ?D k = Some x" "f_le x y"
        "\<forall>i \<in> set ks. \<forall>z. ?D i = Some z \<and> z \<noteq> NaN \<longrightarrow> f_le x z" by blast
      then show ?thesis using y f_le_trans by (intro exI [of _ x]) auto
    next
      case False
      then have "best_track mf eng d p ks best b = Some k" using Cons.prems(1) by (auto split: option.splits)
      from Cons.IH [OF this Cons.prems(2)] obtain x where x: "best = Some k \<and> x = b \<or> k \<in> set ks \<and> ?D k = Some x" "f_le x b"
        "\<forall>i \<in> set ks. \<forall>z. ?D i = Some z \<and> z \<noteq> NaN \<longrightarrow> f_le x z" by blast
      have "f_le x y" if "?D j = Some y" "y \<noteq> NaN" for y
        using False that x(2) f_le_total [of y b] f_le_trans Cons.prems(2) by blast
      then show ?thesis using x by (intro exI [of _ x]) auto
    qed
  qed auto
  from gen [OF assms] obtain x where "k \<in> set ks" "?D k = Some x" "f_le x bd"
    "\<forall>j \<in> set ks. \<forall>y. ?D j = Some y \<and> y \<noteq> NaN \<longrightarrow> f_le x y" by auto
  then show ?thesis by (auto simp: bind_eq_Some_conv)
qed


section \<open>Concrete runs\<close>

lemma DefaultConfig_ok: "NewEngine DefaultConfig [] =
  Inr \<lparr>eg_config = DefaultConfig, eg_zones = [], eg_tracks = Map.empty, eg_by_mmsi = Map.empty\<rparr>"
proof -
  have big: "f_lt (Fin a) (rnd (10 ^ 15))" if "a < 10 ^ 15" for a
    using rnd_int [of "10 ^ 15"] that by simp
  have small: "\<not> f_lt (rnd (1022/10)) (Fin 45)"
    using rnd_mono [of 45 "1022/10"] rnd_int [of 45] by (cases "rnd (1022/10)") (auto simp: f_lt_def)
  have "Config_Validate DefaultConfig = None"
    using big [of 2000] big [of 500] big [of 45] small
    by (simp add: Config_Validate_def DefaultConfig_def positiveFinite_def duration_defs)
  then show ?thesis by (simp add: NewEngine_def)
qed

definition sample_engine :: engine where
  "sample_engine = \<lparr>eg_config = DefaultConfig, eg_zones = [], eg_tracks = Map.empty, eg_by_mmsi = Map.empty\<rparr>"

lemma Ingest_first:
  assumes v: "detection_Validate d = None" "d_has_position d"
    and e: "eg_tracks eng = Map.empty" "eg_by_mmsi eng = Map.empty"
  obtains em eng' where "Ingest mf [] [nid] now nid d eng = (Inr (nid, em), eng')" "dom (eg_tracks eng') = {nid}"
proof -
  have pos: "NewPosition (d_latitude d) (d_longitude d) = Inr (detection_pos d)"
    using v by (auto simp: detection_Validate_None_iff NewPosition_iff valid_position_def detection_pos_def)
  obtain eng1 where as: "associate mf [] nid d (detection_pos d) eng = (nid, eng1)" "dom (eg_tracks eng1) = {nid}"
    using e that by (cases "d_mmsi d = []") (auto simp: associate_def Let_def)
  let ?e2 = "absorbPoint nid d (detection_pos d) eng1"
  obtain em eng' where ev: "evaluate mf [nid] now nid (point_of d) d ?e2 = (em, eng')" by (metis surj_pair)
  have inv: "engine_inv eng"
    using e by (simp add: engine_inv_def tracks_ok_def index_ok_def near_def rendez_alerted_def)
  have inv1: "engine_inv eng1" "\<exists>t. eg_tracks eng1 nid = Some t" using associate_inv [OF as(1) inv _ v(1)] e by auto
  then have "tracks_ok (eg_tracks ?e2)" using absorbPoint_inv [OF v(1)] by (auto simp: engine_inv_def)
  then have "dom (eg_tracks eng') = dom (eg_tracks ?e2)"
    using evaluate_ok [of ?e2 mf "[nid]" now nid "point_of d" d] ev frames_dom
    by (metis engine.select_convs(3) engine.surjective engine.update_convs(3) snd_conv)
  also have "\<dots> = {nid}" using as(2) inv1(2) by (auto simp: absorbPoint_def Let_def)
  finally show thesis using that v pos as ev by (simp add: Ingest_def)
qed

lemma sample_ingest:
  obtains em eng' where "Ingest mf [] [''fused-track-1''] 0 ''fused-track-1'' sample_ais sample_engine = (Inr (''fused-track-1'', em), eng')"
    "dom (eg_tracks eng') = {''fused-track-1''}"
  by (rule Ingest_first [OF sample_ais_valid, of sample_engine mf "''fused-track-1''" 0]) (auto simp: sample_engine_def sample_ais_def)

lemma sample_start: "fusion_reach mf DefaultConfig [] \<lparr>fn_engine = sample_engine, fn_log = [], fn_anomalies = []\<rparr>"
  using DefaultConfig_ok by (auto simp: sample_engine_def intro: fusion_reach.start)

lemma sample_run:
  obtains s t where "fusion_reach mf DefaultConfig [] s" "fn_log s = [(''fused-track-1'', sample_ais)]"
    "eg_tracks (fn_engine s) = [''fused-track-1'' \<mapsto> t]" "tk_mmsi t = ''123456789''"
proof -
  obtain em eng' where i: "Ingest mf [] [''fused-track-1''] 0 ''fused-track-1'' sample_ais sample_engine = (Inr (''fused-track-1'', em), eng')"
    "dom (eg_tracks eng') = {''fused-track-1''}" by (rule sample_ingest)
  have "fusion_reach mf DefaultConfig [] \<lparr>fn_engine = eng', fn_log = [] @ [(''fused-track-1'', sample_ais)], fn_anomalies = [] @ fst em\<rparr>"
    using fusion_reach.ingest [OF sample_start, where lat = "snd em" and ?o1.0 = "[]" and ?o2.0 = "[''fused-track-1'']" and now = 0
        and nid = "''fused-track-1''" and d = sample_ais and tid = "''fused-track-1''" and an = "fst em" and eng' = eng' and mf = mf] i
    by (simp add: enumerates_def) (simp add: sample_engine_def)
  moreover obtain t where t: "eg_tracks eng' = [''fused-track-1'' \<mapsto> t]" using i(2) by (metis dom_eq_singleton_conv)
  moreover have "engine_inv sample_engine" using fusion_reach_inv [OF sample_start] by simp
  from Ingest_takes_mmsi [OF this _ i(1)] t have "tk_mmsi t = ''123456789''" by (simp add: sample_engine_def sample_ais_def)
  ultimately show thesis using that by simp
qed

theorem fusion_track_history_witness:
  "\<exists>s t. fusion_reach l1_math DefaultConfig [] s \<and> eg_tracks (fn_engine s) ''fused-track-1'' = Some t \<and>
     tk_points t = [point_of sample_ais] \<and> Covers (tk_classification t) ''SECRET'' \<and> tk_last_ais_at t = unix_epoch"
proof -
  obtain s t where s: "fusion_reach l1_math DefaultConfig [] s" "fn_log s = [(''fused-track-1'', sample_ais)]"
    "eg_tracks (fn_engine s) = [''fused-track-1'' \<mapsto> t]" by (rule sample_run)
  have l: "track_log ''fused-track-1'' (fn_log s) = [sample_ais]" using s(2) by (simp add: track_log_def)
  have t: "eg_tracks (fn_engine s) ''fused-track-1'' = Some t" using s(3) by simp
  show ?thesis using fusion_track_history [OF s(1) t, unfolded l] s(1) t
    by (auto simp: newest_def last_ais_def sample_ais_def)
qed

theorem fusion_index_consistent_witness:
  "\<exists>s t. fusion_reach l1_math DefaultConfig [] s \<and> eg_tracks (fn_engine s) ''fused-track-1'' = Some t \<and>
     (tk_mmsi t \<noteq> [] \<longrightarrow> eg_by_mmsi (fn_engine s) (tk_mmsi t) \<noteq> None)"
proof -
  obtain s t where s: "fusion_reach l1_math DefaultConfig [] s" "eg_tracks (fn_engine s) = [''fused-track-1'' \<mapsto> t]" by (rule sample_run)
  then show ?thesis using fusion_index_consistent [OF s(1), of "[]" "''fused-track-1''" t "''fused-track-1''"] by auto
qed

theorem fusion_alerts_once_witness:
  "\<exists>s. fusion_reach l1_math DefaultConfig [] s \<and> fn_log s \<noteq> [] \<and> distinct (loiter_keys (fn_anomalies s))"
proof -
  obtain s where s: "fusion_reach l1_math DefaultConfig [] s" "fn_log s = [(''fused-track-1'', sample_ais)]" by (rule sample_run)
  then show ?thesis using fusion_alerts_once [OF s(1)] by auto
qed

theorem Ingest_identity_witness:
  "\<exists>em eng' t. Ingest l1_math [] [''fused-track-1''] 0 ''fused-track-1'' sample_ais sample_engine = (Inr (''fused-track-1'', em), eng') \<and>
     eg_tracks eng' ''fused-track-1'' = Some t \<and> tk_mmsi t = ''123456789''"
proof -
  obtain em eng' where i: "Ingest l1_math [] [''fused-track-1''] 0 ''fused-track-1'' sample_ais sample_engine = (Inr (''fused-track-1'', em), eng')"
    by (rule sample_ingest)
  have d: "d_mmsi sample_ais = ''123456789''" "\<And>a. d_ais sample_ais = Some a \<Longrightarrow> ais_mmsi a = ''123456789''" by (auto simp: sample_ais_def)
  have f: "eg_tracks (fn_engine \<lparr>fn_engine = sample_engine, fn_log = [], fn_anomalies = []\<rparr>) ''fused-track-1'' = None" by (simp add: sample_engine_def)
  have i': "Ingest l1_math [] [''fused-track-1''] 0 ''fused-track-1'' sample_ais (fn_engine \<lparr>fn_engine = sample_engine, fn_log = [], fn_anomalies = []\<rparr>) = (Inr (''fused-track-1'', em), eng')"
    using i by simp
  from Ingest_identity [OF sample_start f i', unfolded d(1)] d(2) i show ?thesis by auto
qed

text \<open>A second report of the same vessel, one second later; with a distance of a thousand kilometres it is a speed outlier.\<close>

definition sample_ais2 :: detection where
  "sample_ais2 = sample_ais\<lparr>d_source_event_id := ''se-2'', d_observed_at := unix_epoch + second, d_mmsi := ''123456789''\<rparr>"

lemma valid_variant:
  assumes "detection_Validate d = None" "identifierPattern x" "t \<noteq> 0" "m = [] \<or> mmsiPattern m"
  shows "detection_Validate (d\<lparr>d_source_event_id := x, d_observed_at := t, d_mmsi := m\<rparr>) = None"
proof -
  have "modality_payload (d\<lparr>d_source_event_id := x, d_observed_at := t, d_mmsi := m\<rparr>) = modality_payload d"
    "payload_presence (d\<lparr>d_source_event_id := x, d_observed_at := t, d_mmsi := m\<rparr>) = payload_presence d"
    by (simp_all add: modality_payload_def payload_presence_def)
  then show ?thesis using assms unfolding detection_Validate_None_iff by auto
qed

definition far_math :: math_fns where
  "far_math = \<lparr>cos_fn = (\<lambda>_. Fin 1), hypot_fn = (\<lambda>_ _. Fin 1000000)\<rparr>"

lemma sample_ais2_valid: "detection_Validate sample_ais2 = None"
proof -
  have "identifierPattern ''se-2''" "unix_epoch + second \<noteq> 0" "mmsiPattern ''123456789''" by code_simp+
  then show ?thesis unfolding sample_ais2_def by (intro valid_variant [OF sample_ais_valid]) simp_all
qed

lemma far_knots: "f_lt (Fin 45) (f_mul (f_div (Fin 1000000) (Fin 1)) (rnd (194384 / 100000)))"
proof -
  have a: "rnd 1000000 = Fin 1000000" using rnd_int [of 1000000] by simp
  obtain v where v: "rnd (194384 / 100000) = Fin v" by (rule rnd_bounded [of "194384 / 100000" 2]) auto
  have "f_le (rnd 1) (rnd (194384 / 100000))" by (rule rnd_mono) simp
  then have "1 \<le> v" using v rnd_int [of 1] by simp
  then have "f_le (rnd 1000000) (rnd (1000000 * v))" by (intro rnd_mono) simp
  then show ?thesis using a v by (cases "rnd (1000000 * v)") (auto simp: f_lt_def)
qed

lemma one_second: "duration_seconds (time_sub (unix_epoch + second) unix_epoch) = Fin 1"
proof -
  have "time_sub (unix_epoch + second) unix_epoch = second" by code_simp
  then show ?thesis by simp code_simp
qed


lemma associate_bound:
  "d_mmsi d \<noteq> [] \<Longrightarrow> eg_by_mmsi eng (d_mmsi d) = Some k \<Longrightarrow> associate mf order nid d p eng = (k, eng)"
  by (simp add: associate_def)

lemma sample_second_ingest:
  assumes s: "fusion_reach far_math DefaultConfig [] s" "fn_log s = [(''fused-track-1'', sample_ais)]"
    "eg_tracks (fn_engine s) = [''fused-track-1'' \<mapsto> t]" and m: "tk_mmsi t = ''123456789''"
  obtains a lat eng' where "Ingest far_math [''fused-track-1''] [''fused-track-1''] 0 ''x'' sample_ais2 (fn_engine s) = (Inr (''fused-track-1'', ([a], lat)), eng')"
    "an_track_ids a = [''fused-track-1'']"
proof -
  let ?k = "''fused-track-1''" and ?d = sample_ais2 and ?p = "detection_pos sample_ais2"
  have inv: "engine_inv (fn_engine s)" "history_ok s" "eg_config (fn_engine s) = DefaultConfig" "eg_zones (fn_engine s) = []"
    using fusion_reach_inv [OF s(1)] by auto
  have pts: "tk_points t = [point_of sample_ais]" "tk_id t = ?k"
    using inv(1,2) s(2,3) by (auto simp: history_ok_def log_ok_def track_log_def newest_def engine_inv_def tracks_ok_def track_ok_def)
  have iok: "index_ok (fn_engine s)" using inv(1) by (simp add: engine_inv_def)
  have "eg_tracks (fn_engine s) ?k = Some t" "tk_mmsi t \<noteq> []" using s(3) m by simp_all
  then obtain j where j: "eg_by_mmsi (fn_engine s) ''123456789'' = Some j" using iok m unfolding index_ok_def by (metis option.exhaust)
  then have "eg_tracks (fn_engine s) j \<noteq> None" using iok unfolding index_ok_def by (metis option.distinct(1))
  then have ix: "eg_by_mmsi (fn_engine s) ''123456789'' = Some ?k" using j s(3) by (auto split: if_splits)
  have as: "associate far_math [?k] ''x'' ?d ?p (fn_engine s) = (?k, fn_engine s)"
    by (rule associate_bound) (simp_all add: sample_ais2_def ix)
  let ?e2 = "absorbPoint ?k ?d ?p (fn_engine s)" and ?t2 = "absorb_track ?d ?p t"
  have e2: "eg_tracks ?e2 = [?k \<mapsto> ?t2]" "eg_config ?e2 = DefaultConfig" "eg_zones ?e2 = []"
    using s(3) inv(3,4) by (simp_all add: absorbPoint_def Let_def)
  have t2: "tk_points ?t2 = [point_of sample_ais, point_of ?d]" "tk_id ?t2 = ?k"
    using pts by (simp_all add: absorb_track_simps [OF sample_ais2_valid] cap_points_def)
  have secs: "duration_seconds (time_sub (tp_observed_at (point_of ?d)) (tp_observed_at (point_of sample_ais))) = Fin 1"
    using one_second by (simp add: detection_point_def sample_ais2_def sample_ais_def)
  have "DistanceMeters far_math q r = Fin 1000000" for q r by (simp add: DistanceMeters_def far_math_def Let_def)
  then obtain a lat where sp: "speed_rule far_math DefaultConfig 0 (point_of ?d) ?d ?t2 ([], []) = ([a], lat)" "an_track_ids a = [?k]"
    using t2 secs far_knots by (simp add: speed_rule_def emit_def DefaultConfig_def)
  have "evaluate far_math [?k] 0 ?k (point_of ?d) ?d ?e2 =
      (([a], lat), ?e2\<lparr>eg_tracks := [?k \<mapsto> forget_left [] (tp_position (point_of ?d)) ?t2]\<rparr>)"
    using e2 sp by (simp add: evaluate_def rendezvous_pair_def)
  moreover have "NewPosition (d_latitude ?d) (d_longitude ?d) = Inr ?p" "d_has_position ?d"
    by (simp_all add: NewPosition_iff detection_pos_def valid_position_def sample_ais2_def sample_ais_def)
  ultimately show thesis using that as sp sample_ais2_valid by (simp add: Ingest_def)
qed


theorem Ingest_anomaly_labels_witness:
  "\<exists>(s :: fusion_run) a lat eng'. Ingest far_math [''fused-track-1''] [''fused-track-1''] 0 ''x'' sample_ais2 (fn_engine s) =
     (Inr (''fused-track-1'', ([a], lat)), eng') \<and> Covers (an_classification a) ''SECRET''"
proof -
  obtain s t where s: "fusion_reach far_math DefaultConfig [] s" "fn_log s = [(''fused-track-1'', sample_ais)]"
    "eg_tracks (fn_engine s) = [''fused-track-1'' \<mapsto> t]" "tk_mmsi t = ''123456789''" by (rule sample_run)
  obtain a lat eng' where i: "Ingest far_math [''fused-track-1''] [''fused-track-1''] 0 ''x'' sample_ais2 (fn_engine s) = (Inr (''fused-track-1'', ([a], lat)), eng')"
    "an_track_ids a = [''fused-track-1'']" by (rule sample_second_ingest [OF s])
  have "Covers (an_classification a) (d_classification sample_ais)"
    by (rule Ingest_anomaly_labels [OF s(1) _ i(1), where k = "''fused-track-1''"]) (use s i in \<open>simp_all add: track_log_def\<close>)
  then have "Covers (an_classification a) ''SECRET''" by (simp add: sample_ais_def)
  with i(1) show ?thesis by blast
qed

text \<open>An engine with one track of another vessel, and an AIS report without a top-level MMSI at the same place.\<close>

definition other_track :: track where
  "other_track = \<lparr>tk_id = ''t'', tk_mmsi = ''987654321'', tk_classification = ''SECRET'',
     tk_points = [\<lparr>tp_detection_ref = ''r'', tp_modality = ''AIS'', tp_observed_at = unix_epoch,
       tp_position = \<lparr>latitude = Fin 0, longitude = Fin 10\<rparr>, tp_speed_knots = Fin 0, tp_heading_deg = Fin 0\<rparr>],
     tk_last_ais_at = unix_epoch, tk_zone_enter = Map.empty, tk_loiter_alerted = {}, tk_near_since = Map.empty,
     tk_rendez_alerted = {}, tk_dark_alerted = False\<rparr>"

definition other_engine :: engine where
  "other_engine = \<lparr>eg_config = DefaultConfig, eg_zones = [triangle_zone], eg_tracks = [''t'' \<mapsto> other_track],
     eg_by_mmsi = [''987654321'' \<mapsto> ''t'']\<rparr>"

definition ais_only :: detection where
  "ais_only = sample_ais\<lparr>d_source_event_id := ''se-2'', d_observed_at := unix_epoch + second, d_mmsi := []\<rparr>"

definition near_math :: math_fns where
  "near_math = \<lparr>cos_fn = (\<lambda>_. Fin 1), hypot_fn = (\<lambda>_ _. Fin 5)\<rparr>"

lemma other_engine_inv: "engine_inv other_engine"
  by (auto simp: engine_inv_def tracks_ok_def index_ok_def other_engine_def other_track_def near_def rendez_alerted_def track_ok_def
      label_defs [symmetric] split: if_splits)

theorem AIS_only_joins_foreign_track_witness:
  "\<exists>em eng' t'. Ingest near_math [''t''] [''t''] 0 ''x'' ais_only other_engine = (Inr (''t'', em), eng') \<and>
     eg_tracks eng' ''t'' = Some t' \<and> tk_mmsi t' = ''987654321''"
proof -
  have "identifierPattern ''se-2''" "unix_epoch + second \<noteq> 0" by code_simp+
  then have v: "detection_Validate ais_only = None" unfolding ais_only_def by (intro valid_variant [OF sample_ais_valid]) simp_all
  have t: "eg_tracks other_engine ''t'' = Some other_track" by (simp add: other_engine_def)
  obtain a where a: "d_ais ais_only = Some a" "ais_mmsi a = ''123456789''" by (simp add: ais_only_def sample_ais_def)
  have gap: "abs_gap (time_sub (unix_epoch + second) unix_epoch) \<le> 10 * minute" by code_simp
  have "DistanceMeters near_math q r = Fin 5" for q r by (simp add: DistanceMeters_def near_math_def Let_def)
  then have c: "candidate_distance near_math (eg_config other_engine) ais_only (detection_pos ais_only) other_track = Some (Fin 5)"
    using gap by (simp add: candidate_distance_def other_engine_def other_track_def track_Last_def ais_only_def DefaultConfig_def not_less)
  have "d_has_position ais_only" "d_mmsi ais_only = []" by (simp_all add: ais_only_def sample_ais_def)
  then show ?thesis
    using AIS_only_joins_foreign_track [OF v _ _ a(1) other_engine_inv t, of near_math "Fin 5" 0 "''x''"] c a(2)
    by (auto simp: other_track_def other_engine_def DefaultConfig_def)
qed


theorem best_track_nearest_witness:
  "best_track near_math other_engine ais_only (detection_pos ais_only) [''t''] None (Fin 2000) = Some ''t'' \<and>
   (\<exists>x. candidate_distance near_math DefaultConfig ais_only (detection_pos ais_only) other_track = Some x \<and> f_le x (Fin 2000))"
proof -
  have gap: "abs_gap (time_sub (unix_epoch + second) unix_epoch) \<le> 10 * minute" by code_simp
  have "DistanceMeters near_math q r = Fin 5" for q r by (simp add: DistanceMeters_def near_math_def Let_def)
  then have b: "best_track near_math other_engine ais_only (detection_pos ais_only) [''t''] None (Fin 2000) = Some ''t''"
    using gap by (simp add: candidate_distance_def other_engine_def other_track_def track_Last_def ais_only_def DefaultConfig_def not_less)
  from best_track_nearest [OF b] show ?thesis using b by (auto simp: other_engine_def split: if_splits)
qed

end
