(* ===== verification/FusionReplay.thy ===== *)
theory FusionReplay
  imports FusionProps "HOL-Library.Multiset"
begin

text \<open>
  Rebuilding the engine from the persisted associations: on the state that survives a restart
  the evaluation of the rules does what \<open>restoreRuleStateLocked\<close> does, the iteration order does
  not matter, and a replay of the log leads to the engine of the original run.
\<close>

section \<open>Replay restores the engine\<close>

text \<open>
  The state that survives a restart: identities, MMSI, points, last AIS report, zone entries and
  proximity. The classification and the alert latches are left out.
\<close>

definition core :: "track \<Rightarrow> track" where
  "core t = t\<lparr>tk_classification := [], tk_loiter_alerted := {}, tk_rendez_alerted := {}, tk_dark_alerted := False\<rparr>"

definition core_tracks :: "(string \<rightharpoonup> track) \<Rightarrow> (string \<rightharpoonup> track)" where
  "core_tracks tr = (\<lambda>k. map_option core (tr k))"

definition core_engine :: "engine \<Rightarrow> engine" where
  "core_engine eng = eng\<lparr>eg_tracks := core_tracks (eg_tracks eng)\<rparr>"

lemma core_simps [simp]:
  "tk_id (core t) = tk_id t" "tk_mmsi (core t) = tk_mmsi t" "tk_points (core t) = tk_points t" "tk_last_ais_at (core t) = tk_last_ais_at t"
  "tk_zone_enter (core t) = tk_zone_enter t" "tk_near_since (core t) = tk_near_since t" "track_Last (core t) = track_Last t"
  "core (core t) = core t"
  by (simp_all add: core_def track_Last_def)

lemma core_ops:
  "core (enter_zone q z t) = enter_zone q z (core t)" "core (forget_left zs p t) = forget_left zs p (core t)"
  "core (set_near k v t) = set_near k v (core t)" "core (t\<lparr>tk_loiter_alerted := s\<rparr>) = core t"
  "core (t\<lparr>tk_rendez_alerted := s, tk_classification := l\<rparr>) = core t" "core (t\<lparr>tk_rendez_alerted := s\<rparr>) = core t"
  "core (t\<lparr>tk_dark_alerted := b\<rparr>) = core t"
  by (simp_all add: core_def enter_zone_def forget_left_def set_near_def cong: if_cong)

lemma core_restore_zones: "core (restore_zones q zs t) = restore_zones q zs (core t)"
  by (induction zs arbitrary: t) (simp_all add: core_ops)

lemma core_loiter: "core (fst (loiter_rule c now q d zs t em)) = restore_zones q zs (core t)"
proof (induction zs arbitrary: t em)
  case (Cons z zs)
  then show ?case by (simp add: Let_def core_ops)
qed simp

lemma pair_state_cong:
  assumes "tk_near_since t k = tk_near_since t' k" "tk_near_since u tid = tk_near_since u' tid" "track_Last u = track_Last u'"
  shows "pair_state mf c q tid t k u = pair_state mf c q tid t' k u'"
  unfolding pair_state_def assms ..

lemma pair_state_core: "pair_state mf c q tid (core t) k (core u) = pair_state mf c q tid t k u"
  by (rule pair_state_cong) simp_all

lemma core_tracks_upd [simp]: "core_tracks (tr(k := v)) = (core_tracks tr)(k := map_option core v)"
  by (auto simp: core_tracks_def)

lemma core_tracks_apply: "core_tracks tr k = map_option core (tr k)"
  by (simp add: core_tracks_def)

lemma core_record_pair: "core_tracks (record_pair tid k out tr) = record_pair tid k out (core_tracks tr)"
  by (auto simp: record_pair_def Let_def core_tracks_apply option.map_comp o_def core_ops)

lemma core_restore_pair: "core_tracks (restore_pair mf c tid q k tr) = restore_pair mf c tid q k (core_tracks tr)"
  by (auto simp: restore_pair_def core_tracks_apply core_record_pair pair_state_core split: option.splits)

lemma core_rendezvous_alert: "core_tracks (fst (rendezvous_alert c now q d tid oid since st)) = core_tracks (fst st)"
proof (cases "fst st tid")
  case (Some t)
  show ?thesis
  proof (cases "fst st oid")
    case (Some u)
    with \<open>fst st tid = Some t\<close> show ?thesis
      by (auto simp: rendezvous_alert_def Let_def core_ops fun_eq_iff core_tracks_apply)
  qed (use Some in \<open>simp add: rendezvous_alert_def\<close>)
qed (simp add: rendezvous_alert_def)

lemma core_rendezvous_pair:
  "core_tracks (fst (rendezvous_pair mf c now q d tid k st)) = restore_pair mf c tid q k (core_tracks (fst st))"
proof (cases "fst st tid = None \<or> fst st k = None \<or> k = tid")
  case True then show ?thesis
    by (auto simp: rendezvous_pair_def restore_pair_def core_tracks_apply split: option.splits)
next
  case False
  then obtain t u where tu: "fst st tid = Some t" "fst st k = Some u" "k \<noteq> tid" by auto
  then have "restore_pair mf c tid q k (core_tracks (fst st)) = core_tracks (record_pair tid k (pair_state mf c q tid t k u) (fst st))"
    by (simp add: restore_pair_def core_tracks_apply pair_state_core core_record_pair)
  then show ?thesis
    using tu by (cases "pair_state mf c q tid t k u") (simp_all add: rendezvous_pair_def Let_def core_rendezvous_alert)
qed

lemma core_fold_rendezvous:
  "core_tracks (fst (fold (rendezvous_pair mf c now q d tid) ks st)) = fold (restore_pair mf c tid q) ks (core_tracks (fst st))"
  by (induction ks arbitrary: st) (simp_all add: core_rendezvous_pair)

lemma core_fold_restore:
  "core_tracks (fold (restore_pair mf c tid q) ks tr) = fold (restore_pair mf c tid q) ks (core_tracks tr)"
  by (induction ks arbitrary: tr) (simp_all add: core_restore_pair)

lemma core_engine_upd: "core_engine (eng\<lparr>eg_tracks := tr\<rparr>) = (core_engine eng)\<lparr>eg_tracks := core_tracks tr\<rparr>"
  by (simp add: core_engine_def)

lemma core_engine_sel [simp]:
  "eg_tracks (core_engine eng) = core_tracks (eg_tracks eng)" "eg_config (core_engine eng) = eg_config eng"
  "eg_zones (core_engine eng) = eg_zones eng" "eg_by_mmsi (core_engine eng) = eg_by_mmsi eng"
  by (simp_all add: core_engine_def)

text \<open>On the surviving state the evaluation of the rules is the restoring of the rule state.\<close>

lemma core_restoreRuleState: "core_engine (restoreRuleState mf order tid q eng) = restoreRuleState mf order tid q (core_engine eng)"
  by (simp add: restoreRuleState_def Let_def core_engine_upd core_fold_restore core_tracks_apply option.map_comp o_def core_ops core_restore_zones)

lemma core_evaluate:
  assumes "eg_tracks eng tid = Some t"
  shows "core_engine (snd (evaluate mf order now tid q d eng)) = restoreRuleState mf order tid q (core_engine eng)"
proof -
  let ?em0 = "speed_rule mf (eg_config eng) now q d t ([], [])"
  let ?l = "loiter_rule (eg_config eng) now q d (eg_zones eng) t ?em0"
  let ?st = "((eg_tracks eng)(tid \<mapsto> forget_left (eg_zones eng) (tp_position q) (fst ?l)), snd ?l)"
  have "snd (evaluate mf order now tid q d eng) =
      eng\<lparr>eg_tracks := fst (fold (rendezvous_pair mf (eg_config eng) now q d tid) order ?st)\<rparr>"
    using assms by (simp add: evaluate_def Let_def split: prod.splits del: fun_upd_apply)
  then show ?thesis
    using assms by (simp add: core_engine_upd core_fold_rendezvous restoreRuleState_def Let_def core_tracks_apply core_ops core_loiter)
qed

lemma restore_pair_idle: "tr tid = None \<or> tr k = None \<or> k = tid \<Longrightarrow> restore_pair mf c tid q k tr = tr"
  by (auto simp: restore_pair_def split: option.splits)

lemma restore_pair_None [simp]: "restore_pair mf c tid q k tr j = None \<longleftrightarrow> tr j = None"
  by (auto simp: restore_pair_def record_pair_def Let_def split: option.splits)

text \<open>The order in which the other tracks are visited does not matter.\<close>

lemma set_near_swap: "j \<noteq> k \<Longrightarrow> set_near j x (set_near k y t) = set_near k y (set_near j x t)"
  using fun_upd_twist [of j k "tk_near_since t" x y] by (simp add: set_near_def)

lemma record_pair_swap:
  assumes "j \<noteq> k" "j \<noteq> tid" "k \<noteq> tid"
  shows "record_pair tid j x (record_pair tid k y tr) = record_pair tid k y (record_pair tid j x tr)"
proof
  fix i show "record_pair tid j x (record_pair tid k y tr) i = record_pair tid k y (record_pair tid j x tr) i"
    using assms by (cases "tr tid") (auto simp: record_pair_def Let_def set_near_swap [OF assms(1)])
qed

lemma restore_pair_after:
  assumes "j \<noteq> k" "j \<noteq> tid" "k \<noteq> tid" and t: "tr tid = Some t" and v: "tr k = Some v"
  shows "restore_pair mf c tid q k (record_pair tid j x tr) = record_pair tid k (pair_state mf c q tid t k v) (record_pair tid j x tr)"
proof -
  have "pair_state mf c q tid (set_near j y t) k v = pair_state mf c q tid t k v" for y
    using assms(1) by (auto intro!: pair_state_cong)
  then show ?thesis using assms by (cases x) (simp_all add: restore_pair_def record_pair_def Let_def)
qed

lemma restore_pair_swap:
  "restore_pair mf c tid q j (restore_pair mf c tid q k tr) = restore_pair mf c tid q k (restore_pair mf c tid q j tr)"
proof (cases "j = k \<or> j = tid \<or> k = tid \<or> tr tid = None \<or> tr j = None \<or> tr k = None")
  case True then show ?thesis by (auto simp: restore_pair_idle)
next
  case False
  then obtain t u v where tuv: "tr tid = Some t" "tr j = Some u" "tr k = Some v" by auto
  have "restore_pair mf c tid q j tr = record_pair tid j (pair_state mf c q tid t j u) tr"
    "restore_pair mf c tid q k tr = record_pair tid k (pair_state mf c q tid t k v) tr"
    using False tuv by (simp_all add: restore_pair_def)
  moreover have "k \<noteq> j" using False by auto
  ultimately show ?thesis
    using restore_pair_after [of j k tid tr t v] restore_pair_after [of k j tid tr t u] record_pair_swap [of j k tid] False tuv by simp
qed

lemma restore_pair_commute:
  "restore_pair mf c tid q j \<circ> restore_pair mf c tid q k = restore_pair mf c tid q k \<circ> restore_pair mf c tid q j"
  by (rule ext) (simp add: restore_pair_swap)

lemma restoreRuleState_order:
  assumes "enumerates o1 m" "enumerates o2 m"
  shows "restoreRuleState mf o1 tid q eng = restoreRuleState mf o2 tid q eng"
proof -
  have "mset o1 = mset o2" using assms set_eq_iff_mset_eq_distinct [of o1 o2] by (simp add: enumerates_def)
  then have "fold (restore_pair mf c tid q) o1 = fold (restore_pair mf c tid q) o2" for c
    by (intro fold_multiset_equiv restore_pair_commute)
  then show ?thesis by (simp add: restoreRuleState_def)
qed


lemma core_absorb_track: "core t = core u \<Longrightarrow> core (absorb_track d p t) = core (absorb_track d p u)"
  by (cases t; cases u) (auto simp: core_def absorb_track_def absorb_ais_def Let_def split: option.splits)

lemma core_absorbPoint:
  assumes "core_engine e1 = core_engine e2"
  shows "core_engine (absorbPoint tid d p e1) = core_engine (absorbPoint tid d p e2)"
proof -
  have eqs: "eg_config e1 = eg_config e2" "eg_zones e1 = eg_zones e2" "eg_by_mmsi e1 = eg_by_mmsi e2"
    "core_tracks (eg_tracks e1) = core_tracks (eg_tracks e2)"
    using assms core_engine_sel by metis+
  have tid: "map_option core (eg_tracks e1 tid) = map_option core (eg_tracks e2 tid)"
    using eqs(4) by (metis core_tracks_apply)
  show ?thesis
  proof (cases "eg_tracks e1 tid")
    case None
    then show ?thesis using tid assms by (simp add: absorbPoint_def)
  next
    case (Some t)
    then obtain u where u: "eg_tracks e2 tid = Some u" "core t = core u" using tid by (cases "eg_tracks e2 tid") auto
    have m: "tk_mmsi t = tk_mmsi u" using u(2) core_simps(2) by metis
    have m': "tk_mmsi (absorb_track d p t) = tk_mmsi (absorb_track d p u)"
      using core_absorb_track [OF u(2)] core_simps(2) by metis
    show ?thesis using Some u eqs m m' core_absorb_track [OF u(2)]
      by (simp add: absorbPoint_def Let_def core_engine_def)
  qed
qed

definition ais_consistent :: "detection \<Rightarrow> bool" where
  "ais_consistent d = (d_mmsi d \<noteq> [] \<longrightarrow> takes_mmsi d = d_mmsi d)"

text \<open>The rounds of the startup loop: each persisted association is replayed, in order.\<close>

inductive replays :: "math_fns \<Rightarrow> engine \<Rightarrow> (string \<times> detection) list \<Rightarrow> engine \<Rightarrow> bool" for mf eng where
  none: "replays mf eng [] eng"
| more: "replays mf eng lg eng1 \<Longrightarrow> Replay mf order tid d eng1 = (Inr (), eng2) \<Longrightarrow> enumerates order (eg_tracks eng2) \<Longrightarrow>
     replays mf eng (lg @ [(tid, d)]) eng2"

definition replay_start :: "string \<Rightarrow> detection \<Rightarrow> engine \<Rightarrow> engine" where
  "replay_start tid d eng =
     (if eg_tracks eng tid = None then eng\<lparr>eg_tracks := (eg_tracks eng)(tid \<mapsto> newTrack tid (d_classification d))\<rparr> else eng)"

lemma Replay_eq:
  assumes "detection_Validate d = None" "d_has_position d" "valid_position (detection_pos d)" "trim_space tid \<noteq> []" "length tid \<le> 128"
  shows "Replay mf order tid d eng =
    (Inr (), restoreRuleState mf order tid (point_of d) (absorbPoint tid d (detection_pos d) (replay_start tid d eng)))"
proof -
  have "NewPosition (d_latitude d) (d_longitude d) = Inr (detection_pos d)"
    using assms(3) by (simp add: NewPosition_iff detection_pos_def)
  then show ?thesis using assms by (simp add: Replay_def replay_start_def Let_def split: option.splits)
qed

lemma core_replay_start:
  assumes "core_engine e1 = core_engine e2" shows "core_engine (replay_start tid d e1) = core_engine (replay_start tid d e2)"
proof -
  have "core_tracks (eg_tracks e1) = core_tracks (eg_tracks e2)" using assms core_engine_sel(1) by metis
  then have "eg_tracks e1 tid = None \<longleftrightarrow> eg_tracks e2 tid = None" by (metis core_tracks_apply option.map_disc_iff)
  then show ?thesis using assms by (simp add: replay_start_def core_engine_upd) (metis core_engine_sel(1))
qed

text \<open>Association followed by absorption leaves the same surviving state as the pinned absorption of a replay.\<close>

lemma absorb_associate_core:
  assumes as: "associate mf order nid d p eng = (tid, eng1)" and iok: "index_ok eng" and fresh: "eg_tracks eng nid = None"
    and v: "detection_Validate d = None" and cons: "ais_consistent d"
  shows "core_engine (absorbPoint tid d p eng1) = core_engine (absorbPoint tid d p (replay_start tid d eng))"
  using as iok
proof (cases rule: associate_cases)
  case created
  let ?n = "newTrack nid (d_classification d)"
  have "core (absorb_track d p (?n\<lparr>tk_mmsi := d_mmsi d\<rparr>)) = core (absorb_track d p ?n)"
    by (rule track.equality)
       (use cons in \<open>auto simp: core_def absorb_track_simps [OF v] newTrack_def ais_consistent_def\<close>)
  moreover have "tk_mmsi (absorb_track d p ?n) = takes_mmsi d" "tk_mmsi (absorb_track d p (?n\<lparr>tk_mmsi := d_mmsi d\<rparr>)) = (if d_mmsi d = [] then takes_mmsi d else d_mmsi d)"
    by (simp_all add: absorb_track_simps [OF v] newTrack_def)
  ultimately show ?thesis
    using created fresh cons
    by (cases "d_mmsi d = []") (auto simp: absorbPoint_def Let_def replay_start_def core_engine_def newTrack_def ais_consistent_def)
qed (simp_all add: replay_start_def)


lemma restoreRuleState_dom: "dom (eg_tracks (restoreRuleState mf order tid q eng)) = dom (eg_tracks eng)"
proof -
  have "dom (fold (restore_pair mf c tid q) ks tr) = dom tr" for c ks and tr :: "string \<rightharpoonup> track"
  proof (induction ks arbitrary: tr)
    case (Cons k ks)
    have "dom (restore_pair mf c tid q k tr) = dom tr" unfolding dom_def by (metis restore_pair_None)
    then show ?case using Cons by simp
  qed simp
  then show ?thesis by (auto simp: restoreRuleState_def Let_def split: if_splits)
qed

lemma absorbPoint_replay_dom: "dom (eg_tracks (absorbPoint tid d p (replay_start tid d eng))) = insert tid (dom (eg_tracks eng))"
  by (auto simp: absorbPoint_def replay_start_def Let_def split: option.splits if_splits)

lemma core_dom: "core_engine e1 = core_engine e2 \<Longrightarrow> dom (eg_tracks e1) = dom (eg_tracks e2)"
proof -
  assume "core_engine e1 = core_engine e2"
  then have "core_tracks (eg_tracks e1) = core_tracks (eg_tracks e2)" using core_engine_sel(1) by metis
  then have "map_option core (eg_tracks e1 k) = map_option core (eg_tracks e2 k)" for k by (metis core_tracks_apply)
  then show ?thesis unfolding dom_def by (metis option.map_disc_iff)
qed

lemma core_tracks_dom: "dom (core_tracks tr) = dom tr"
  by (auto simp: core_tracks_def)

lemma Replay_dom: "Replay mf order tid d eng = (Inr (), eng') \<Longrightarrow> dom (eg_tracks eng') = insert tid (dom (eg_tracks eng))"
  by (erule Replay_Inr) (simp add: restoreRuleState_dom absorbPoint_replay_dom [unfolded replay_start_def])

lemma enumerates_dom: "enumerates o1 m \<Longrightarrow> dom m' = dom m \<Longrightarrow> enumerates o1 m'"
  by (simp add: enumerates_def)

lemma Ingest_core:
  assumes r: "Ingest mf o1 o2 now nid d eng = (Inr (tid, em), eng')" and inv: "engine_inv eng" and fresh: "eg_tracks eng nid = None"
    and cons: "ais_consistent d"
  shows "core_engine eng' = restoreRuleState mf o2 tid (point_of d) (core_engine (absorbPoint tid d (detection_pos d) (replay_start tid d eng)))"
  using r
proof (rule Ingest_Inr)
  fix eng1
  assume v: "detection_Validate d = None" and as: "associate mf o1 nid d (detection_pos d) eng = (tid, eng1)"
    and ev: "evaluate mf o2 now tid (point_of d) d (absorbPoint tid d (detection_pos d) eng1) = (em, eng')"
  obtain t where t: "eg_tracks eng1 tid = Some t" using associate_inv [OF as inv fresh v] by blast
  have "eg_tracks (absorbPoint tid d (detection_pos d) eng1) tid = Some (absorb_track d (detection_pos d) t)"
    using t by (simp add: absorbPoint_def Let_def)
  from core_evaluate [OF this, of mf o2 now "point_of d" d] show ?thesis
    using ev absorb_associate_core [OF as _ fresh v cons] inv by (simp add: engine_inv_def)
qed

definition replayable :: "(string \<times> detection) list \<Rightarrow> bool" where
  "replayable lg = (\<forall>e \<in> set lg. ais_consistent (snd e) \<and> trim_space (fst e) \<noteq> [] \<and> length (fst e) \<le> 128)"

lemma replays_snoc:
  assumes "replays mf eng (lg @ [(tid, d)]) eng'"
  obtains eng1 order where "replays mf eng lg eng1" "Replay mf order tid d eng1 = (Inr (), eng')" "enumerates order (eg_tracks eng')"
  using assms by (auto elim: replays.cases)

lemma Replay_core_eq:
  assumes r1: "Replay mf o1 tid d e1 = (Inr (), e1')" and n1: "enumerates o1 (eg_tracks e1')" and c: "core_engine e1 = core_engine e2"
    and n2: "enumerates o2 m" and m: "dom m = dom (eg_tracks e1')"
  shows "core_engine e1' = restoreRuleState mf o2 tid (point_of d) (core_engine (absorbPoint tid d (detection_pos d) (replay_start tid d e2)))"
proof -
  have "detection_Validate d = None" "d_has_position d" "valid_position (detection_pos d)" "trim_space tid \<noteq> []" "length tid \<le> 128"
    using r1 by (rule Replay_Inr, blast)+
  then have "e1' = restoreRuleState mf o1 tid (point_of d) (absorbPoint tid d (detection_pos d) (replay_start tid d e1))"
    using Replay_eq r1 by simp
  moreover have "restoreRuleState mf o1 tid q e = restoreRuleState mf o2 tid q e" for q e
    using restoreRuleState_order [OF n1 enumerates_dom [OF n2 m [symmetric]]] .
  ultimately show ?thesis using core_absorbPoint [OF core_replay_start [OF c]] by (simp add: core_restoreRuleState)
qed

lemma replay_restores_core:
  assumes "fusion_reach mf c zs s" "replayable (fn_log s)" "NewEngine c zs = Inr eng0" "replays mf eng0 (fn_log s) eng'"
  shows "core_engine eng' = core_engine (fn_engine s)"
  using assms
proof (induction arbitrary: eng')
  case (start eng)
  then show ?case by (auto elim: replays.cases)
next
  case (ingest s o1 o2 now nid d tid an lat eng2)
  have inv: "engine_inv (fn_engine s)" using fusion_reach_inv [OF ingest.hyps(1)] by simp
  obtain eng1 order where r: "replays mf eng0 (fn_log s) eng1" "Replay mf order tid d eng1 = (Inr (), eng')" "enumerates order (eg_tracks eng')"
    using ingest.prems by (auto elim: replays_snoc)
  have rp: "replayable (fn_log s)" "ais_consistent d" using ingest.prems(1) by (auto simp: replayable_def)
  have core: "core_engine eng1 = core_engine (fn_engine s)" using ingest.IH [OF rp(1) ingest.prems(2) r(1)] .
  note i = Ingest_core [OF ingest.hyps(2) inv ingest.hyps(3) rp(2)]
  have "dom (eg_tracks eng2) = insert tid (dom (eg_tracks (fn_engine s)))"
    using arg_cong [OF i, of "\<lambda>e. dom (eg_tracks e)"] absorbPoint_replay_dom by (simp add: restoreRuleState_dom core_tracks_dom)
  moreover have "dom (eg_tracks eng') = insert tid (dom (eg_tracks eng1))" by (rule Replay_dom [OF r(2)])
  ultimately have "dom (eg_tracks eng2) = dom (eg_tracks eng')" using core_dom [OF core] by simp
  then show ?case using Replay_core_eq [OF r(2,3) core ingest.hyps(5)] i by simp
next
  case (replay s order tid d eng2)
  obtain eng1 o' where r: "replays mf eng0 (fn_log s) eng1" "Replay mf o' tid d eng1 = (Inr (), eng')" "enumerates o' (eg_tracks eng')"
    using replay.prems by (auto elim: replays_snoc)
  have rp: "replayable (fn_log s)" using replay.prems(1) by (auto simp: replayable_def)
  have core: "core_engine eng1 = core_engine (fn_engine s)" using replay.IH [OF rp replay.prems(2) r(1)] .
  have "dom (eg_tracks eng2) = dom (eg_tracks eng')"
    using Replay_dom [OF r(2)] Replay_dom [OF replay.hyps(2)] core_dom [OF core] by simp
  then show ?case
    using Replay_core_eq [OF r(2,3) core replay.hyps(3)] Replay_core_eq [OF replay.hyps(2,3) refl replay.hyps(3)] by simp
next
  case (scan s order now an lat eng2)
  have "core_tracks (latch_dark c zs now order tr) = core_tracks tr" for c zs tr
    by (auto simp: latch_dark_def core_tracks_def fun_eq_iff option.map_comp o_def core_ops)
  then have "core_engine eng2 = core_engine (fn_engine s)"
    using ScanDarkVessels_spec [OF scan.hyps(3), of now] scan.hyps(2) by (simp add: core_engine_def)
  then show ?case using scan by simp
qed

section \<open>Every log can be replayed\<close>

definition log_entry_ok :: "detection \<Rightarrow> bool" where
  "log_entry_ok d = (detection_Validate d = None \<and> d_has_position d \<and> valid_position (detection_pos d))"

lemma fusion_reach_log: "fusion_reach mf c zs s \<Longrightarrow> \<forall>e \<in> set (fn_log s). log_entry_ok (snd e)"
proof (induction rule: fusion_reach.induct)
  case (ingest s o1 o2 now nid d tid an lat eng')
  have "log_entry_ok d" using ingest.hyps(2) by (rule Ingest_Inr) (simp add: log_entry_ok_def)
  then show ?case using ingest.IH by simp
next
  case (replay s order tid d eng')
  have "log_entry_ok d" using replay.hyps(2) by (rule Replay_Inr) (simp add: log_entry_ok_def)
  then show ?case using replay.IH by simp
qed simp_all

lemma replays_exist:
  assumes "\<forall>e \<in> set lg. log_entry_ok (snd e)" "replayable lg" "finite (dom (eg_tracks eng))"
  shows "\<exists>eng'. replays mf eng lg eng' \<and> finite (dom (eg_tracks eng'))"
  using assms
proof (induction lg rule: rev_induct)
  case Nil then show ?case using replays.none by blast
next
  case (snoc e lg)
  obtain tid d where e: "e = (tid, d)" by (cases e)
  obtain eng1 where e1: "replays mf eng lg eng1" "finite (dom (eg_tracks eng1))"
    using snoc by (auto simp: replayable_def)
  obtain order where o: "set order = insert tid (dom (eg_tracks eng1))" "distinct order"
    using finite_distinct_list e1(2) by (metis finite_insert)
  obtain eng2 where r: "Replay mf order tid d eng1 = (Inr (), eng2)"
    using Replay_eq snoc.prems e by (auto simp: log_entry_ok_def replayable_def)
  have "enumerates order (eg_tracks eng2)" using Replay_dom [OF r] o by (simp add: enumerates_def)
  then show ?case using replays.more [OF e1(1) r] Replay_dom [OF r] e1(2) e by auto
qed

text \<open>
  Restart: replaying the association log of any run into a fresh engine of the same
  configuration succeeds and rebuilds every track under its old id with the same MMSI, points,
  last AIS report, zone entries and pair proximity, and the same MMSI index, in whatever order
  the maps are iterated. Labels and alert latches are not part of the claim. The log must be
  replayed in arrival order, its track ids must be storable, and no detection may contradict
  itself about its MMSI.
\<close>

theorem Replay_restores:
  assumes "fusion_reach mf c zs s" and "replayable (fn_log s)" and "NewEngine c zs = Inr eng0"
  shows "(\<exists>eng'. replays mf eng0 (fn_log s) eng') \<and>
    (\<forall>eng'. replays mf eng0 (fn_log s) eng' \<longrightarrow> core_engine eng' = core_engine (fn_engine s))"
proof -
  have "finite (dom (eg_tracks eng0))" using assms(3) by (auto simp: NewEngine_def)
  then show ?thesis
    using replays_exist [OF fusion_reach_log [OF assms(1)] assms(2)] replay_restores_core [OF assms] by blast
qed

theorem Replay_restores_witness:
  "\<exists>(s :: fusion_run) eng' t. fusion_reach l1_math DefaultConfig [] s \<and> replays l1_math sample_engine (fn_log s) eng' \<and>
     fn_log s \<noteq> [] \<and> core_engine eng' = core_engine (fn_engine s)"
proof -
  obtain s t where s: "fusion_reach l1_math DefaultConfig [] s" "fn_log s = [(''fused-track-1'', sample_ais)]" by (rule sample_run)
  have "trim_space ''fused-track-1'' = ''fused-track-1''" by code_simp
  then have "replayable (fn_log s)"
    using s(2) by (simp add: replayable_def ais_consistent_def takes_mmsi_def sample_ais_def)
  moreover have "NewEngine DefaultConfig [] = Inr sample_engine" using DefaultConfig_ok by (simp add: sample_engine_def)
  ultimately have "(\<exists>eng'. replays l1_math sample_engine (fn_log s) eng') \<and>
      (\<forall>eng'. replays l1_math sample_engine (fn_log s) eng' \<longrightarrow> core_engine eng' = core_engine (fn_engine s))"
    by (rule Replay_restores [OF s(1)])
  moreover have "fn_log s \<noteq> []" using s(2) by simp
  ultimately show ?thesis using s(1) by blast
qed

end
