(* ===== verification/Workflow.thy ===== *)
theory Workflow
  imports IsrStore
begin

text \<open>
  \<open>internal/workflow/isr.go\<close> with the activities of \<open>cmd/isr-worker/main.go\<close>: one alert goes
  through classification, dispatch, interdiction and outcome capture. Each stage waits for its
  signal (\<open>None\<close> while none has arrived), checks it and writes an audit entry. The Temporal
  service is outside the repository: an activity is executed by a finite list of attempts, each
  of which runs the activity function once against the database and may lose its reply; the
  execution ends with the first attempt whose success is reported.
\<close>

section \<open>Data\<close>

datatype response_state = StateAlerted | StateClassified | StateDispatched | StateInterdicted | StateOutcomeCapture | StateRejected

fun state_text :: "response_state \<Rightarrow> string" where
  "state_text StateAlerted = ''ALERTED''"
| "state_text StateClassified = ''CLASSIFIED''"
| "state_text StateDispatched = ''DISPATCHED''"
| "state_text StateInterdicted = ''INTERDICTED''"
| "state_text StateOutcomeCapture = ''OUTCOME_CAPTURED''"
| "state_text StateRejected = ''REJECTED''"

record alert_input =
  ai_alert_id :: string
  ai_anomaly_id :: string
  ai_classification :: classification

record classification_signal =
  cs_analyst_id :: string
  cs_clearance :: classification
  cs_confirmed :: bool
  cs_assessment :: string

record dispatch_signal =
  ds_officer_id :: string
  ds_unit :: string
  ds_approved :: bool

record interdiction_signal =
  is_officer_id :: string
  is_outcome :: string

record outcome_signal =
  os_recorder_id :: string
  os_incident_ref :: string
  os_verified :: bool

record audit_entry =
  ae_from :: response_state
  ae_to :: response_state
  ae_actor :: string
  ae_detail :: string

record response_result =
  rr_alert_id :: string
  rr_state :: response_state

text \<open>The four signal channels, each with the first signal that arrives on it.\<close>

record wf_signals =
  sg_classification :: "classification_signal option"
  sg_dispatch :: "dispatch_signal option"
  sg_interdiction :: "interdiction_signal option"
  sg_outcome :: "outcome_signal option"

section \<open>Activities\<close>

text \<open>What an attempt knows: its database environment, and whether its reply arrives.\<close>

record attempt =
  at_env :: db_env
  at_reported :: bool

type_synonym 's activity = "db_env \<Rightarrow> 's \<Rightarrow> unit result \<times> 's"

fun ExecuteActivity :: "'s activity \<Rightarrow> attempt list \<Rightarrow> 's \<Rightarrow> unit result \<times> 's" where
  "ExecuteActivity act [] db = (Inl (EMsg ''activity did not complete''), db)"
| "ExecuteActivity act (a # as) db =
     (let (r, db') = act (at_env a) db in
      if at_reported a \<and> r = Inr () then (Inr (), db') else ExecuteActivity act as db')"

definition transition_json :: "string \<Rightarrow> audit_entry \<Rightarrow> json" where
  "transition_json alertID e =
     JObj [(''alert_id'', JStr alertID), (''from'', JStr (state_text (ae_from e))), (''to'', JStr (state_text (ae_to e))),
           (''actor'', JStr (ae_actor e)), (''detail'', JStr (ae_detail e)), (''classification'', JStr ClassificationRestricted)]"

definition outcome_json :: "string \<Rightarrow> string \<Rightarrow> bool \<Rightarrow> json" where
  "outcome_json alertID incidentRef verified =
     JObj [(''alert_id'', JStr alertID), (''incident_ref'', JStr incidentRef), (''verified'', JBool verified),
           (''classification'', JStr ClassificationRestricted)]"

definition appendOutbox ::
  "crypto \<Rightarrow> (json \<Rightarrow> bytes) \<Rightarrow> string \<Rightarrow> string \<Rightarrow> string \<Rightarrow> json \<Rightarrow> ('a isr_db_scheme) activity" where
  "appendOutbox c enc topic eventType aggregateKey payload env db =
     run_tx db
      (rbind (Seal c enc (new_uuid env 0) topic eventType aggregateKey ClassificationRestricted (clock env 0) payload)
        (\<lambda>e. db_call env 0 (''write '' @ eventType @ '' outbox event'')
          (rbind (isr_outbox_insert env (new_uuid env 1) (detection_event e) (clock env 0) db) (\<lambda>db'. Inr ((), db')))))"

definition auditTransition :: "crypto \<Rightarrow> (json \<Rightarrow> bytes) \<Rightarrow> string \<Rightarrow> audit_entry \<Rightarrow> ('a isr_db_scheme) activity" where
  "auditTransition c enc alertID e = appendOutbox c enc TopicISR ''isr.response_transition'' alertID (transition_json alertID e)"

definition recordOutcome :: "crypto \<Rightarrow> (json \<Rightarrow> bytes) \<Rightarrow> string \<Rightarrow> string \<Rightarrow> bool \<Rightarrow> ('a isr_db_scheme) activity" where
  "recordOutcome c enc alertID incidentRef verified =
     appendOutbox c enc TopicOutcome ''isr.outcome_recorded'' alertID (outcome_json alertID incidentRef verified)"

section \<open>The workflow\<close>

text \<open>
  The state of a run: the result that the state query serves, the audit history that the history
  query serves, the database, and how many activities have been executed.
\<close>

record 'd wf_run =
  wf_state :: response_state
  wf_history :: "audit_entry list"
  wf_db :: 'd
  wf_activities :: nat

text \<open>\<open>WfRefused\<close> is an error with the zero result, before the run starts.\<close>

datatype wf_outcome = WfBlocked | WfRefused go_error | WfReturned response_result | WfFailed response_result go_error

text \<open>The parameters of a workflow: crypto, JSON encoder and the attempts of the n-th activity.\<close>

record wf_env =
  we_crypto :: crypto
  we_enc :: "json \<Rightarrow> bytes"
  we_attempts :: "nat \<Rightarrow> attempt list"

definition run_activity :: "wf_env \<Rightarrow> 'd activity \<Rightarrow> 'd wf_run \<Rightarrow> unit result \<times> 'd wf_run" where
  "run_activity W act w =
     (let (r, db') = ExecuteActivity act (we_attempts W (wf_activities w)) (wf_db w)
      in (r, w\<lparr>wf_db := db', wf_activities := Suc (wf_activities w)\<rparr>))"

text \<open>The closure \<open>audit\<close>: the entry enters the history, and the state moves, only after the activity succeeded.\<close>

definition audit ::
  "wf_env \<Rightarrow> alert_input \<Rightarrow> response_state \<Rightarrow> response_state \<Rightarrow> string \<Rightarrow> string \<Rightarrow>
   ('a isr_db_scheme) wf_run \<Rightarrow> unit result \<times> ('a isr_db_scheme) wf_run" where
  "audit W input frm to actor detail w =
     (let entry = \<lparr>ae_from = frm, ae_to = to, ae_actor = actor, ae_detail = detail\<rparr> in
      case run_activity W (auditTransition (we_crypto W) (we_enc W) (ai_alert_id input) entry) w of
        (Inl e, w') \<Rightarrow> (Inl (EWrap (''audit transition '' @ state_text frm @ '' -> '' @ state_text to) e), w')
      | (Inr _, w') \<Rightarrow> (Inr (), w'\<lparr>wf_history := wf_history w' @ [entry], wf_state := to\<rparr>))"

definition wf_result :: "alert_input \<Rightarrow> 'd wf_run \<Rightarrow> response_result" where
  "wf_result input w = \<lparr>rr_alert_id = ai_alert_id input, rr_state = wf_state w\<rparr>"

definition fail_with :: "alert_input \<Rightarrow> go_error \<Rightarrow> 'd wf_run \<Rightarrow> wf_outcome \<times> 'd wf_run" where
  "fail_with input e w = (WfFailed (wf_result input w) e, w)"

definition return_with :: "alert_input \<Rightarrow> 'd wf_run \<Rightarrow> wf_outcome \<times> 'd wf_run" where
  "return_with input w = (WfReturned (wf_result input w), w)"

text \<open>\<open>if err := audit(...); err != nil { return result, err }\<close>, then go on.\<close>

definition audited ::
  "wf_env \<Rightarrow> alert_input \<Rightarrow> response_state \<Rightarrow> response_state \<Rightarrow> string \<Rightarrow> string \<Rightarrow>
   (('a isr_db_scheme) wf_run \<Rightarrow> wf_outcome \<times> ('a isr_db_scheme) wf_run) \<Rightarrow>
   ('a isr_db_scheme) wf_run \<Rightarrow> wf_outcome \<times> ('a isr_db_scheme) wf_run" where
  "audited W input frm to actor detail k w =
     (case audit W input frm to actor detail w of
        (Inl e, w') \<Rightarrow> fail_with input e w'
      | (Inr _, w') \<Rightarrow> k w')"

definition stage_outcome where
  "stage_outcome W input sg w =
     (case sg_outcome sg of
        None \<Rightarrow> (WfBlocked, w)
      | Some s \<Rightarrow>
          if os_recorder_id s = [] \<or> os_incident_ref s = []
          then fail_with input (EMsg ''outcome signal requires a recorder identity and incident reference'') w
          else (case run_activity W (recordOutcome (we_crypto W) (we_enc W) (ai_alert_id input) (os_incident_ref s) (os_verified s)) w of
                  (Inl e, w') \<Rightarrow> fail_with input (EWrap ''record outcome'' e) w'
                | (Inr _, w') \<Rightarrow>
                    audited W input StateInterdicted StateOutcomeCapture (os_recorder_id s) (''incident '' @ os_incident_ref s)
                      (return_with input) w'))"

definition stage_interdiction where
  "stage_interdiction W input sg w =
     (case sg_interdiction sg of
        None \<Rightarrow> (WfBlocked, w)
      | Some s \<Rightarrow>
          if is_officer_id s = [] \<or> is_outcome s = []
          then fail_with input (EMsg ''interdiction signal requires an officer identity and outcome'') w
          else audited W input StateDispatched StateInterdicted (is_officer_id s) (is_outcome s) (stage_outcome W input sg) w)"

definition stage_dispatch where
  "stage_dispatch W input sg w =
     (case sg_dispatch sg of
        None \<Rightarrow> (WfBlocked, w)
      | Some s \<Rightarrow>
          if ds_officer_id s = [] \<or> ds_unit s = []
          then fail_with input (EMsg ''dispatch signal requires an officer identity and unit'') w
          else if \<not> ds_approved s
          then audited W input StateClassified StateRejected (ds_officer_id s) ''dispatch not approved'' (return_with input) w
          else audited W input StateClassified StateDispatched (ds_officer_id s) (''unit '' @ ds_unit s) (stage_interdiction W input sg) w)"

definition stage_classification where
  "stage_classification W input sg w =
     (case sg_classification sg of
        None \<Rightarrow> (WfBlocked, w)
      | Some s \<Rightarrow>
          if cs_analyst_id s = [] then fail_with input (EMsg ''classification signal requires an analyst identity'') w
          else (case ParseClassification (cs_clearance s) of
                  Inl e \<Rightarrow> fail_with input (EWrap ''classification signal carries an invalid clearance'' e) w
                | Inr clearance \<Rightarrow>
                    if \<not> Covers clearance (ai_classification input)
                    then audited W input StateAlerted StateRejected (cs_analyst_id s) ''analyst clearance below alert classification''
                           (fail_with input (EMsg ''analyst clearance does not cover the alert classification (fail-closed)'')) w
                    else if \<not> cs_confirmed s
                    then audited W input StateAlerted StateRejected (cs_analyst_id s) ''analyst did not confirm the alert'' (return_with input) w
                    else audited W input StateAlerted StateClassified (cs_analyst_id s) (cs_assessment s) (stage_dispatch W input sg) w))"

definition ISRResponseWorkflow where
  "ISRResponseWorkflow W input sg db =
     (let start = \<lparr>wf_state = StateAlerted, wf_history = [], wf_db = db, wf_activities = 0\<rparr> in
      if ai_alert_id input = [] \<or> ai_anomaly_id input = []
      then (WfRefused (EMsg ''alert_id and anomaly_id are required''), start)
      else (case ParseClassification (ai_classification input) of
              Inl e \<Rightarrow> (WfRefused e, start)
            | Inr _ \<Rightarrow> stage_classification W input sg start))"

section \<open>What an activity leaves behind\<close>

text \<open>A sealed event of this topic, type and aggregate key whose bundle entry has the given fields.\<close>

definition published_as :: "string \<Rightarrow> string \<Rightarrow> string \<Rightarrow> (string \<times> json) list \<Rightarrow> isr_outbox_event \<Rightarrow> bool" where
  "published_as topic ty key fs b =
     (io_topic b = topic \<and> io_event_type b = ty \<and> io_aggregate_key b = key \<and> io_classification b = ClassificationRestricted \<and>
      (\<exists>r. fb_entry (en_fhir (io_payload b)) = [r] \<and> (\<forall>f \<in> set fs. r (fst f) = Some (snd f))))"

text \<open>The effect of running an activity: events are only appended, and only of its own kind.\<close>

definition appends :: "(isr_outbox_event \<Rightarrow> bool) \<Rightarrow> ('a isr_db_scheme) activity \<Rightarrow> bool" where
  "appends P act = (\<forall>env db r db'. act env db = (r, db') \<longrightarrow>
     isr_events db' = isr_events db \<and> (isr_ok db \<longrightarrow> isr_ok db') \<and>
     (\<exists>bs. bodies db' = bodies db @ bs \<and> (\<forall>b \<in> set bs. P b) \<and> (r = Inr () \<longrightarrow> bs \<noteq> [])) \<and>
     set (outbox_ids db') \<subseteq> insert (new_uuid env 1) (set (outbox_ids db)))"

lemma appendOutbox_Inr:
  assumes "appendOutbox c enc topic ty key payload env db = (Inr (), db')"
  obtains e where "Seal c enc (new_uuid env 0) topic ty key ClassificationRestricted (clock env 0) payload = Inr e"
    "isr_outbox_insert env (new_uuid env 1) (detection_event e) (clock env 0) db = Inr db'"
  using assms by (auto simp: appendOutbox_def run_tx_Inr_iff)

lemma appendOutbox_Inl: "appendOutbox c enc topic ty key payload env db = (Inl e, db') \<Longrightarrow> db' = db"
  by (auto simp: appendOutbox_def elim: run_tx_cases)

lemma Seal_published_as:
  assumes "Seal c enc u topic ty key ClassificationRestricted t (JObj fs) = Inr e"
    and "distinct (map fst fs)" "''clearance'' \<notin> fst ` set fs" "''aggregateKey'' \<notin> fst ` set fs"
  shows "published_as topic ty key fs (detection_event e)"
  using assms(1)
proof (rule Seal_Inr)
  fix gs b assume g: "JObj fs = JObj gs" and e: "e = build_envelope c enc u topic ty key b ClassificationRestricted t (JObj fs)
       ((map_of (rev gs))(''clearance'' \<mapsto> JStr ClassificationRestricted, ''aggregateKey'' \<mapsto> JStr key))"
  have "map_of (rev fs) (fst f) = Some (snd f)" if "f \<in> set fs" for f
    using that assms(2) map_of_is_SomeI [of "rev fs" "fst f" "snd f"] by (simp flip: rev_map)
  moreover have "fst f \<noteq> ''clearance''" "fst f \<noteq> ''aggregateKey''" if "f \<in> set fs" for f using assms(3,4) that by force+
  ultimately show ?thesis using e g by (simp add: published_as_def detection_event_def build_envelope_def)
qed

lemma appendOutbox_appends:
  assumes "distinct (map fst fs)" "''clearance'' \<notin> fst ` set fs" "''aggregateKey'' \<notin> fst ` set fs"
  shows "appends (published_as topic ty key fs) (appendOutbox c enc topic ty key (JObj fs))"
  unfolding appends_def
proof (intro allI impI)
  fix env and db db' :: "'a isr_db_scheme" and r
  assume a: "appendOutbox c enc topic ty key (JObj fs) env db = (r, db')"
  show "isr_events db' = isr_events db \<and> (isr_ok db \<longrightarrow> isr_ok db') \<and>
     (\<exists>bs. bodies db' = bodies db @ bs \<and> (\<forall>b \<in> set bs. published_as topic ty key fs b) \<and> (r = Inr () \<longrightarrow> bs \<noteq> [])) \<and>
     set (outbox_ids db') \<subseteq> insert (new_uuid env 1) (set (outbox_ids db))"
  proof (cases r)
    case (Inl e)
    then have "db' = db" using a appendOutbox_Inl by blast
    then show ?thesis using Inl by auto
  next
    case (Inr u)
    then obtain e where s: "Seal c enc (new_uuid env 0) topic ty key ClassificationRestricted (clock env 0) (JObj fs) = Inr e"
      and i: "isr_outbox_insert env (new_uuid env 1) (detection_event e) (clock env 0) db = Inr db'"
      using a appendOutbox_Inr [of c enc topic ty key "JObj fs" env db db'] by auto
    have "bodies db' = bodies db @ [detection_event e]" "set (outbox_ids db') = insert (new_uuid env 1) (set (outbox_ids db))"
      using i by (auto simp: isr_outbox_insert_Inr bodies_def outbox_ids_def)
    then show ?thesis using isr_announce_ok [OF i] Seal_published_as [OF s assms] i
      by (auto simp: isr_outbox_insert_Inr)
  qed
qed

definition transition_fields :: "string \<Rightarrow> audit_entry \<Rightarrow> (string \<times> json) list" where
  "transition_fields alertID e =
     [(''alert_id'', JStr alertID), (''from'', JStr (state_text (ae_from e))), (''to'', JStr (state_text (ae_to e))),
      (''actor'', JStr (ae_actor e)), (''detail'', JStr (ae_detail e)), (''classification'', JStr ClassificationRestricted)]"

definition is_transition :: "string \<Rightarrow> audit_entry \<Rightarrow> isr_outbox_event \<Rightarrow> bool" where
  "is_transition alertID e = published_as TopicISR ''isr.response_transition'' alertID (transition_fields alertID e)"

definition outcome_fields :: "string \<Rightarrow> string \<Rightarrow> bool \<Rightarrow> (string \<times> json) list" where
  "outcome_fields alertID ref verified =
     [(''alert_id'', JStr alertID), (''incident_ref'', JStr ref), (''verified'', JBool verified),
      (''classification'', JStr ClassificationRestricted)]"

definition is_outcome_record :: "string \<Rightarrow> string \<Rightarrow> bool \<Rightarrow> isr_outbox_event \<Rightarrow> bool" where
  "is_outcome_record alertID ref verified = published_as TopicOutcome ''isr.outcome_recorded'' alertID (outcome_fields alertID ref verified)"

lemma auditTransition_appends: "appends (is_transition alertID e) (auditTransition c enc alertID e)"
  using appendOutbox_appends [of "transition_fields alertID e" TopicISR "''isr.response_transition''" alertID c enc]
  by (simp add: is_transition_def auditTransition_def transition_json_def transition_fields_def)

lemma recordOutcome_appends: "appends (is_outcome_record alertID ref v) (recordOutcome c enc alertID ref v)"
  using appendOutbox_appends [of "outcome_fields alertID ref v" TopicOutcome "''isr.outcome_recorded''" alertID c enc]
  by (simp add: is_outcome_record_def recordOutcome_def outcome_json_def outcome_fields_def)

text \<open>Retries only add further copies; a reported success left at least one.\<close>

lemma ExecuteActivity_appends:
  assumes "appends P act" "ExecuteActivity act as db = (r, db')"
  shows "isr_events db' = isr_events db \<and> (isr_ok db \<longrightarrow> isr_ok db') \<and>
    (\<exists>bs. bodies db' = bodies db @ bs \<and> (\<forall>b \<in> set bs. P b) \<and> (r = Inr () \<longrightarrow> bs \<noteq> [])) \<and>
    set (outbox_ids db') \<subseteq> (\<lambda>a. new_uuid (at_env a) 1) ` set as \<union> set (outbox_ids db)"
  using assms(2)
proof (induction as arbitrary: db)
  case Nil then show ?case by auto
next
  case (Cons a as)
  obtain r1 db1 where a: "act (at_env a) db = (r1, db1)" by fastforce
  obtain bs where e: "isr_events db1 = isr_events db" "isr_ok db \<longrightarrow> isr_ok db1" "bodies db1 = bodies db @ bs" "\<forall>b \<in> set bs. P b"
    "r1 = Inr () \<longrightarrow> bs \<noteq> []" "set (outbox_ids db1) \<subseteq> insert (new_uuid (at_env a) 1) (set (outbox_ids db))"
    using assms(1) a unfolding appends_def by blast
  show ?case
  proof (cases "at_reported a \<and> r1 = Inr ()")
    case True
    then have "r = Inr ()" "db' = db1" using Cons.prems a by auto
    then show ?thesis using e True by auto
  next
    case False
    then have "ExecuteActivity act as db1 = (r, db')" using Cons.prems a by auto
    from Cons.IH [OF this] obtain cs where "isr_events db' = isr_events db1" "isr_ok db1 \<longrightarrow> isr_ok db'"
      "bodies db' = bodies db1 @ cs" "\<forall>b \<in> set cs. P b" "r = Inr () \<longrightarrow> cs \<noteq> []"
      "set (outbox_ids db') \<subseteq> (\<lambda>a. new_uuid (at_env a) 1) ` set as \<union> set (outbox_ids db1)" by blast
    then show ?thesis using e by (intro conjI exI [of _ "bs @ cs"]) auto
  qed
qed


section \<open>The lifecycle\<close>

fun lifecycle_edge :: "response_state \<Rightarrow> response_state \<Rightarrow> bool" where
  "lifecycle_edge StateAlerted StateClassified = True"
| "lifecycle_edge StateAlerted StateRejected = True"
| "lifecycle_edge StateClassified StateDispatched = True"
| "lifecycle_edge StateClassified StateRejected = True"
| "lifecycle_edge StateDispatched StateInterdicted = True"
| "lifecycle_edge StateInterdicted StateOutcomeCapture = True"
| "lifecycle_edge _ _ = False"

text \<open>The entries lead along the edges from one state to another.\<close>

fun walks :: "response_state \<Rightarrow> audit_entry list \<Rightarrow> response_state \<Rightarrow> bool" where
  "walks s [] t = (s = t)"
| "walks s (e # es) t = (ae_from e = s \<and> lifecycle_edge s (ae_to e) \<and> walks (ae_to e) es t)"

lemma walks_snoc: "walks s es (ae_from e) \<Longrightarrow> lifecycle_edge (ae_from e) (ae_to e) \<Longrightarrow> walks s (es @ [e]) (ae_to e)"
  by (induction es arbitrary: s) auto

definition classification_gate :: "alert_input \<Rightarrow> wf_signals \<Rightarrow> bool" where
  "classification_gate input sg = (\<exists>s. sg_classification sg = Some s \<and> cs_analyst_id s \<noteq> [] \<and> cs_confirmed s \<and>
     Covers (cs_clearance s) (ai_classification input))"

definition dispatch_gate :: "wf_signals \<Rightarrow> bool" where
  "dispatch_gate sg = (\<exists>s. sg_dispatch sg = Some s \<and> ds_officer_id s \<noteq> [] \<and> ds_unit s \<noteq> [] \<and> ds_approved s)"

definition interdiction_gate :: "wf_signals \<Rightarrow> bool" where
  "interdiction_gate sg = (\<exists>s. sg_interdiction sg = Some s \<and> is_officer_id s \<noteq> [] \<and> is_outcome s \<noteq> [])"

text \<open>What must have been signalled for a state to be reached.\<close>

fun gates :: "alert_input \<Rightarrow> wf_signals \<Rightarrow> isr_outbox_event list \<Rightarrow> response_state \<Rightarrow> bool" where
  "gates input sg bs StateClassified = classification_gate input sg"
| "gates input sg bs StateDispatched = (classification_gate input sg \<and> dispatch_gate sg)"
| "gates input sg bs StateInterdicted = (classification_gate input sg \<and> dispatch_gate sg \<and> interdiction_gate sg)"
| "gates input sg bs StateOutcomeCapture = (classification_gate input sg \<and> dispatch_gate sg \<and> interdiction_gate sg \<and>
     (\<exists>s. sg_outcome sg = Some s \<and> os_recorder_id s \<noteq> [] \<and> os_incident_ref s \<noteq> [] \<and>
        (\<exists>b \<in> set bs. is_outcome_record (ai_alert_id input) (os_incident_ref s) (os_verified s) b)))"
| "gates input sg bs _ = True"

lemma gates_mono: "gates input sg bs st \<Longrightarrow> set bs \<subseteq> set bs' \<Longrightarrow> gates input sg bs' st"
  by (cases st) auto

definition wf_inv :: "alert_input \<Rightarrow> wf_signals \<Rightarrow> 'a isr_db_scheme \<Rightarrow> ('a isr_db_scheme) wf_run \<Rightarrow> bool" where
  "wf_inv input sg db0 w =
     (walks StateAlerted (wf_history w) (wf_state w) \<and> gates input sg (bodies (wf_db w)) (wf_state w) \<and>
      (\<forall>e \<in> set (wf_history w). \<exists>b \<in> set (bodies (wf_db w)). is_transition (ai_alert_id input) e b) \<and>
      prefix (bodies db0) (bodies (wf_db w)) \<and> isr_events (wf_db w) = isr_events db0 \<and> (isr_ok db0 \<longrightarrow> isr_ok (wf_db w)))"

lemma run_activity_inv:
  assumes "appends P act" "run_activity W act w = (r, w')" "wf_inv input sg db0 w"
  shows "wf_inv input sg db0 w' \<and> wf_state w' = wf_state w \<and> wf_history w' = wf_history w \<and> prefix (bodies (wf_db w)) (bodies (wf_db w')) \<and>
    (r = Inr () \<longrightarrow> (\<exists>b \<in> set (bodies (wf_db w')). P b))"
proof -
  obtain db' where x: "ExecuteActivity act (we_attempts W (wf_activities w)) (wf_db w) = (r, db')"
    and w': "w' = w\<lparr>wf_db := db', wf_activities := Suc (wf_activities w)\<rparr>"
    using assms(2) by (auto simp: run_activity_def split: prod.splits)
  obtain bs where e: "isr_events db' = isr_events (wf_db w)" "isr_ok (wf_db w) \<longrightarrow> isr_ok db'" "bodies db' = bodies (wf_db w) @ bs"
    "\<forall>b \<in> set bs. P b" "r = Inr () \<longrightarrow> bs \<noteq> []"
    using ExecuteActivity_appends [OF assms(1) x] by blast
  have g: "gates input sg (bodies db') (wf_state w)"
    using assms(3) e(3) gates_mono [of input sg "bodies (wf_db w)" "wf_state w" "bodies db'"] by (simp add: wf_inv_def)
  have p: "prefix (bodies db0) (bodies db')" using assms(3) e(3) prefix_prefix by (auto simp: wf_inv_def)
  have "\<exists>b \<in> set (bodies db'). P b" if "r = Inr ()" using e(3-5) that by (cases bs) auto
  then show ?thesis using assms(3) e w' g p by (auto simp: wf_inv_def)
qed

lemma audited_inv:
  assumes inv: "wf_inv input sg db0 w" "wf_state w = frm" and edge: "lifecycle_edge frm to"
    and gate: "gates input sg (bodies (wf_db w)) to"
    and k: "\<And>w'. wf_inv input sg db0 w' \<Longrightarrow> wf_state w' = to \<Longrightarrow> wf_inv input sg db0 (snd (k w'))"
  shows "wf_inv input sg db0 (snd (audited W input frm to actor detail k w))"
proof -
  let ?e = "\<lparr>ae_from = frm, ae_to = to, ae_actor = actor, ae_detail = detail\<rparr>"
  obtain r w1 where r: "run_activity W (auditTransition (we_crypto W) (we_enc W) (ai_alert_id input) ?e) w = (r, w1)" by (metis surj_pair)
  note i = run_activity_inv [OF auditTransition_appends r inv(1)]
  have g: "gates input sg (bodies (wf_db w1)) to" using gate gates_mono set_mono_prefix i by metis
  show ?thesis
  proof (cases r)
    case (Inl e)
    then show ?thesis using r i by (simp add: audited_def audit_def fail_with_def Let_def)
  next
    case (Inr u)
    let ?w2 = "w1\<lparr>wf_history := wf_history w1 @ [?e], wf_state := to\<rparr>"
    have "walks StateAlerted (wf_history w1 @ [?e]) to"
      using i inv edge walks_snoc [of StateAlerted "wf_history w1" ?e] by (simp add: wf_inv_def)
    then have "wf_inv input sg db0 ?w2" using i g Inr by (auto simp: wf_inv_def)
    then show ?thesis using r Inr k [of ?w2] by (simp add: audited_def audit_def Let_def)
  qed
qed


lemma wf_inv_outcome: "wf_inv input sg db0 w \<Longrightarrow> wf_state w = StateInterdicted \<Longrightarrow> wf_inv input sg db0 (snd (stage_outcome W input sg w))"
proof -
  assume inv: "wf_inv input sg db0 w" "wf_state w = StateInterdicted"
  show ?thesis
  proof (cases "\<exists>s. sg_outcome sg = Some s \<and> os_recorder_id s \<noteq> [] \<and> os_incident_ref s \<noteq> []")
    case False
    then show ?thesis using inv by (auto simp: stage_outcome_def fail_with_def split: option.splits)
  next
    case True
    then obtain s where s: "sg_outcome sg = Some s" "os_recorder_id s \<noteq> []" "os_incident_ref s \<noteq> []" by blast
    obtain r w1 where r: "run_activity W (recordOutcome (we_crypto W) (we_enc W) (ai_alert_id input) (os_incident_ref s) (os_verified s)) w = (r, w1)"
      by (metis surj_pair)
    note i = run_activity_inv [OF recordOutcome_appends r inv(1)]
    show ?thesis
    proof (cases r)
      case (Inl e) then show ?thesis using s r i by (simp add: stage_outcome_def fail_with_def)
    next
      case (Inr u)
      have "gates input sg (bodies (wf_db w1)) StateOutcomeCapture"
        using i inv Inr s by (auto simp: wf_inv_def)
      then have "wf_inv input sg db0 (snd (audited W input StateInterdicted StateOutcomeCapture (os_recorder_id s)
          (''incident '' @ os_incident_ref s) (return_with input) w1))"
        using i inv by (intro audited_inv) (simp_all add: return_with_def)
      then show ?thesis using s r Inr by (simp add: stage_outcome_def)
    qed
  qed
qed

lemma wf_inv_interdiction: "wf_inv input sg db0 w \<Longrightarrow> wf_state w = StateDispatched \<Longrightarrow> wf_inv input sg db0 (snd (stage_interdiction W input sg w))"
  by (auto simp: stage_interdiction_def fail_with_def wf_inv_def [of _ _ _ w] interdiction_gate_def split: option.splits
      intro!: audited_inv wf_inv_outcome)

lemma wf_inv_dispatch:
  assumes "wf_inv input sg db0 w" "wf_state w = StateClassified"
  shows "wf_inv input sg db0 (snd (stage_dispatch W input sg w))"
proof -
  have "gates input sg (bodies (wf_db w)) StateClassified" using assms by (simp add: wf_inv_def)
  then show ?thesis using assms
    by (auto simp: stage_dispatch_def fail_with_def return_with_def dispatch_gate_def split: option.splits
        intro!: audited_inv wf_inv_interdiction)
qed

lemma wf_inv_classification:
  assumes "wf_inv input sg db0 w" "wf_state w = StateAlerted"
  shows "wf_inv input sg db0 (snd (stage_classification W input sg w))"
  using assms
  by (auto simp: stage_classification_def fail_with_def return_with_def classification_gate_def ParseClassification_Inr
      split: option.splits sum.splits intro!: audited_inv wf_inv_dispatch)


text \<open>
  C14. The response rail is gated and audited: whatever signals arrive and however the activities
  fail and are retried, the history is a walk along the lifecycle that ends in the current state,
  a state is only reached when the signals it needs carried an identity and an approval, beyond
  the alert only when the analyst's clearance covers the alert's label, every entry of the history
  is already durable in the outbox, a captured outcome is durable too, and nothing else is written.
\<close>

theorem ISRResponseWorkflow_gated:
  assumes "ISRResponseWorkflow W input sg db = (out, w)"
  shows "walks StateAlerted (wf_history w) (wf_state w) \<and> gates input sg (bodies (wf_db w)) (wf_state w) \<and>
    (\<forall>e \<in> set (wf_history w). \<exists>b \<in> set (bodies (wf_db w)). is_transition (ai_alert_id input) e b) \<and>
    prefix (bodies db) (bodies (wf_db w)) \<and> isr_events (wf_db w) = isr_events db"
proof -
  let ?start = "\<lparr>wf_state = StateAlerted, wf_history = [], wf_db = db, wf_activities = 0\<rparr>"
  have "wf_inv input sg db ?start" by (simp add: wf_inv_def)
  then have "wf_inv input sg db w"
    using assms wf_inv_classification [of input sg db ?start W]
    by (auto simp: ISRResponseWorkflow_def Let_def split: if_splits sum.splits)
  then show ?thesis by (simp add: wf_inv_def)
qed

section \<open>The rail can be completed\<close>

definition good_attempt :: "attempt \<Rightarrow> bool" where
  "good_attempt a = (at_reported a \<and> \<not> db_faults (at_env a) 0 \<and> clock (at_env a) 0 \<noteq> 0)"

definition attempt_ids :: "attempt list \<Rightarrow> string list" where
  "attempt_ids as = map (\<lambda>a. new_uuid (at_env a) 1) as"

lemma attempt_ids_Cons [simp]: "attempt_ids (a # as) = new_uuid (at_env a) 1 # attempt_ids as"
  by (simp add: attempt_ids_def)

definition enabled :: "('a isr_db_scheme) activity \<Rightarrow> bool" where
  "enabled act = (\<forall>env db. \<not> db_faults env 0 \<and> clock env 0 \<noteq> 0 \<and> new_uuid env 1 \<notin> set (outbox_ids db) \<longrightarrow> fst (act env db) = Inr ())"

lemma ExecuteActivity_succeeds:
  assumes "enabled act" "appends P act" "\<exists>a \<in> set as. good_attempt a" "distinct (attempt_ids as)"
    "set (attempt_ids as) \<inter> set (outbox_ids db) = {}"
  shows "fst (ExecuteActivity act as db) = Inr ()"
  using assms(3-5)
proof (induction as arbitrary: db)
  case (Cons a as)
  obtain r1 db1 where a: "act (at_env a) db = (r1, db1)" by (metis surj_pair)
  have ids: "set (outbox_ids db1) \<subseteq> insert (new_uuid (at_env a) 1) (set (outbox_ids db))"
    using assms(2) a unfolding appends_def by blast
  show ?case
  proof (cases "at_reported a \<and> r1 = Inr ()")
    case True then show ?thesis using a by simp
  next
    case False
    have "new_uuid (at_env a) 1 \<notin> set (outbox_ids db)" using Cons.prems(3) by simp
    then have "\<not> good_attempt a" using assms(1) a False unfolding enabled_def good_attempt_def by (metis fst_conv)
    then have "\<exists>a \<in> set as. good_attempt a" using Cons.prems(1) by auto
    moreover have "distinct (attempt_ids as)" "set (attempt_ids as) \<inter> set (outbox_ids db1) = {}"
      using Cons.prems(2,3) ids unfolding attempt_ids_Cons distinct.simps list.set by blast+
    ultimately show ?thesis using Cons.IH a False by auto
  qed
qed simp

lemma appendOutbox_enabled:
  assumes "topic = TopicISR \<or> topic = TopicBehaviour \<or> topic = TopicOutcome" "identifierPattern key" "ty \<noteq> []" "length ty \<le> 128"
    "probe_classification (JObj fs) = Some ClassificationRestricted"
  shows "enabled (appendOutbox c enc topic ty key (JObj fs))"
proof -
  have p: "ParseClassification ClassificationRestricted = Inr ClassificationRestricted" by (simp add: ParseClassification_Inr)
  obtain b where b: "EnvelopeClassificationOf ClassificationRestricted = Inr b" using EnvelopeClassificationOf_valid by force
  have "\<exists>e. Seal c enc u topic ty key ClassificationRestricted t (JObj fs) = Inr e" if "t \<noteq> 0" for u t
    using assms p b that by (auto simp: Seal_def Let_def)
  then have s: "\<exists>e. Seal c enc u topic ty key ClassificationRestricted t (JObj fs) = Inr e \<and> io_topic (detection_event e) = topic \<and>
      io_classification (detection_event e) = ClassificationRestricted" if "t \<noteq> 0" for u t
    using that Seal_event by metis
  show ?thesis unfolding enabled_def
  proof (intro allI impI)
    fix env :: db_env and db :: "'a isr_db_scheme" assume h: "\<not> db_faults env 0 \<and> clock env 0 \<noteq> 0 \<and> new_uuid env 1 \<notin> set (outbox_ids db)"
    then obtain e where e: "Seal c enc (new_uuid env 0) topic ty key ClassificationRestricted (clock env 0) (JObj fs) = Inr e"
      "io_topic (detection_event e) = topic" "io_classification (detection_event e) = ClassificationRestricted" using s by blast
    then show "fst (appendOutbox c enc topic ty key (JObj fs) env db) = Inr ()"
      using h assms(1) by (auto simp: appendOutbox_def isr_outbox_insert_def outbox_insert_def outbox_ids_def)
  qed
qed

lemma auditTransition_enabled: "identifierPattern alertID \<Longrightarrow> enabled (auditTransition c enc alertID e)"
proof -
  assume "identifierPattern alertID"
  moreover have "probe_classification (transition_json alertID e) = Some ClassificationRestricted"
    by (simp add: transition_json_def equal_fold_length)
  ultimately show ?thesis unfolding auditTransition_def transition_json_def by (intro appendOutbox_enabled) auto
qed

lemma recordOutcome_enabled: "identifierPattern alertID \<Longrightarrow> enabled (recordOutcome c enc alertID ref v)"
proof -
  assume "identifierPattern alertID"
  moreover have "probe_classification (outcome_json alertID ref v) = Some ClassificationRestricted"
    by (simp add: outcome_json_def equal_fold_length)
  ultimately show ?thesis unfolding recordOutcome_def outcome_json_def by (intro appendOutbox_enabled) auto
qed

text \<open>From the n-th activity on, each activity has an attempt that works, and all row ids are fresh.\<close>

definition ready_from :: "wf_env \<Rightarrow> nat \<Rightarrow> 'a isr_db_scheme \<Rightarrow> bool" where
  "ready_from W n db = ((\<forall>m. n \<le> m \<and> m < 5 \<longrightarrow> (\<exists>a \<in> set (we_attempts W m). good_attempt a)) \<and>
     distinct (concat (map (\<lambda>m. attempt_ids (we_attempts W m)) [n..<5])) \<and>
     set (concat (map (\<lambda>m. attempt_ids (we_attempts W m)) [n..<5])) \<inter> set (outbox_ids db) = {})"

lemma run_activity_ready:
  assumes "enabled act" "appends P act" "ready_from W (wf_activities w) (wf_db w)" "wf_activities w < 5"
  shows "\<exists>w'. run_activity W act w = (Inr (), w') \<and> ready_from W (wf_activities w') (wf_db w') \<and>
    wf_activities w' = Suc (wf_activities w) \<and> wf_history w' = wf_history w \<and> wf_state w' = wf_state w"
proof -
  let ?n = "wf_activities w" and ?ids = "\<lambda>m. attempt_ids (we_attempts W m)"
  obtain r db' where x: "ExecuteActivity act (we_attempts W ?n) (wf_db w) = (r, db')" by (metis surj_pair)
  have up: "[?n..<5] = ?n # [Suc ?n..<5]" using assms(4) by (simp add: upt_conv_Cons)
  have "r = Inr ()"
    using ExecuteActivity_succeeds [OF assms(1,2), of "we_attempts W ?n" "wf_db w"] assms(3,4) x unfolding ready_from_def up
    by auto
  moreover have "set (outbox_ids db') \<subseteq> set (?ids ?n) \<union> set (outbox_ids (wf_db w))"
    using ExecuteActivity_appends [OF assms(2) x] by (auto simp: attempt_ids_def)
  then have "ready_from W (Suc ?n) db'"
    using assms(3) unfolding ready_from_def up list.map concat.simps distinct_append set_append by (simp del: upt_Suc) blast
  ultimately show ?thesis using x by (simp add: run_activity_def)
qed

lemma audited_ready:
  assumes "identifierPattern (ai_alert_id input)" "ready_from W (wf_activities w) (wf_db w)" "wf_activities w < 5"
  shows "\<exists>w'. audited W input frm to actor detail k w = k w' \<and> ready_from W (wf_activities w') (wf_db w') \<and>
    wf_activities w' = Suc (wf_activities w) \<and> length (wf_history w') = Suc (length (wf_history w)) \<and> wf_state w' = to"
proof -
  let ?e = "\<lparr>ae_from = frm, ae_to = to, ae_actor = actor, ae_detail = detail\<rparr>"
  obtain w1 where w1: "run_activity W (auditTransition (we_crypto W) (we_enc W) (ai_alert_id input) ?e) w = (Inr (), w1)"
    "ready_from W (wf_activities w1) (wf_db w1)" "wf_activities w1 = Suc (wf_activities w)" "wf_history w1 = wf_history w"
    using run_activity_ready [OF auditTransition_enabled [OF assms(1)] auditTransition_appends assms(2,3)] by blast
  then show ?thesis
    by (intro exI [of _ "w1\<lparr>wf_history := wf_history w1 @ [?e], wf_state := to\<rparr>"]) (simp add: audited_def audit_def Let_def)
qed

text \<open>
  C20. The rail can be completed: if the four signals arrive and pass their gates, the alert id is
  a canonical identifier and each of the five activities has one working attempt among its
  retries, the workflow returns with the outcome captured and four audited transitions.
\<close>

theorem ISRResponseWorkflow_completes:
  assumes ids: "identifierPattern (ai_alert_id input)" "ai_anomaly_id input \<noteq> []"
    and gates: "classification_gate input sg" "dispatch_gate sg" "interdiction_gate sg"
    and out: "sg_outcome sg = Some so" "os_recorder_id so \<noteq> []" "os_incident_ref so \<noteq> []"
    and ready: "ready_from W 0 db"
  shows "\<exists>w. ISRResponseWorkflow W input sg db = (WfReturned \<lparr>rr_alert_id = ai_alert_id input, rr_state = StateOutcomeCapture\<rparr>, w) \<and>
    length (wf_history w) = 4 \<and> wf_state w = StateOutcomeCapture"
proof -
  obtain sc where sc: "sg_classification sg = Some sc" "cs_analyst_id sc \<noteq> []" "cs_confirmed sc" "Covers (cs_clearance sc) (ai_classification input)"
    using gates(1) by (auto simp: classification_gate_def)
  obtain sd where sd: "sg_dispatch sg = Some sd" "ds_officer_id sd \<noteq> []" "ds_unit sd \<noteq> []" "ds_approved sd"
    using gates(2) by (auto simp: dispatch_gate_def)
  obtain si where si: "sg_interdiction sg = Some si" "is_officer_id si \<noteq> []" "is_outcome si \<noteq> []"
    using gates(3) by (auto simp: interdiction_gate_def)
  have v: "ParseClassification (cs_clearance sc) = Inr (cs_clearance sc)" "ParseClassification (ai_classification input) = Inr (ai_classification input)"
    using cls.covers_valid [OF sc(4)] by (simp_all add: ParseClassification_Inr)
  have "ai_alert_id input \<noteq> []" using ids(1) by (auto simp: identifierPattern_def dest: matches_ident_nonempty)
  let ?w0 = "\<lparr>wf_state = StateAlerted, wf_history = [], wf_db = db, wf_activities = 0\<rparr>"
  have s0: "ISRResponseWorkflow W input sg db = stage_classification W input sg ?w0"
    using \<open>ai_alert_id input \<noteq> []\<close> ids(2) v by (simp add: ISRResponseWorkflow_def)
  obtain w1 where w1: "stage_classification W input sg ?w0 = stage_dispatch W input sg w1" "ready_from W 1 (wf_db w1)"
    "wf_activities w1 = 1" "length (wf_history w1) = 1"
    using audited_ready [OF ids(1), of W ?w0] ready sc v by (fastforce simp: stage_classification_def)
  obtain w2 where w2: "stage_dispatch W input sg w1 = stage_interdiction W input sg w2" "ready_from W 2 (wf_db w2)"
    "wf_activities w2 = 2" "length (wf_history w2) = 2"
    using audited_ready [OF ids(1), of W w1] w1(2-) sd by (fastforce simp: stage_dispatch_def numeral_2_eq_2)
  obtain w3 where w3: "stage_interdiction W input sg w2 = stage_outcome W input sg w3" "ready_from W 3 (wf_db w3)"
    "wf_activities w3 = 3" "length (wf_history w3) = 3"
    using audited_ready [OF ids(1), of W w2] w2(2-) si by (fastforce simp: stage_interdiction_def numeral_3_eq_3)
  obtain w4 where w4: "run_activity W (recordOutcome (we_crypto W) (we_enc W) (ai_alert_id input) (os_incident_ref so) (os_verified so)) w3 = (Inr (), w4)"
    "ready_from W (wf_activities w4) (wf_db w4)" "wf_activities w4 = 4" "length (wf_history w4) = 3"
    using run_activity_ready [OF recordOutcome_enabled [OF ids(1)] recordOutcome_appends, of W w3] w3(2-) by force
  obtain w5 where w5: "audited W input StateInterdicted StateOutcomeCapture (os_recorder_id so) (''incident '' @ os_incident_ref so) (return_with input) w4
      = return_with input w5" "length (wf_history w5) = 4" "wf_state w5 = StateOutcomeCapture"
    using audited_ready [OF ids(1), of W w4] w4(2-) by force
  have "stage_outcome W input sg w3 = return_with input w5" using out w4(1) w5(1) by (simp add: stage_outcome_def)
  then show ?thesis using s0 w1(1) w2(1) w3(1) w5 by (simp add: return_with_def wf_result_def)
qed


section \<open>A concrete rail\<close>

definition sample_alert :: alert_input where
  "sample_alert = \<lparr>ai_alert_id = ''alert-1'', ai_anomaly_id = ''an-1'', ai_classification = ''CONFIDENTIAL''\<rparr>"

definition sample_signals :: wf_signals where
  "sample_signals =
     \<lparr>sg_classification = Some \<lparr>cs_analyst_id = ''ana'', cs_clearance = ''SECRET'', cs_confirmed = True, cs_assessment = ''real''\<rparr>,
      sg_dispatch = Some \<lparr>ds_officer_id = ''off'', ds_unit = ''u7'', ds_approved = True\<rparr>,
      sg_interdiction = Some \<lparr>is_officer_id = ''off'', is_outcome = ''boarded''\<rparr>,
      sg_outcome = Some \<lparr>os_recorder_id = ''rec'', os_incident_ref = ''inc-1'', os_verified = True\<rparr>\<rparr>"

definition sample_attempt :: "nat \<Rightarrow> attempt" where
  "sample_attempt n = \<lparr>at_env = (calm_env 5 [])\<lparr>new_uuid := (\<lambda>k. [''abcde'' ! n])\<rparr>, at_reported = True\<rparr>"

definition sample_wf_env :: wf_env where
  "sample_wf_env = \<lparr>we_crypto = toy_crypto, we_enc = (\<lambda>_. [0]), we_attempts = (\<lambda>n. [sample_attempt n])\<rparr>"

lemma sample_ready: "ready_from sample_wf_env 0 sample_isr_db"
proof -
  have "[0..<5] = [0, 1, 2, 3, 4 :: nat]" by (simp add: upt_rec)
  moreover have "good_attempt (sample_attempt n)" for n by (simp add: good_attempt_def sample_attempt_def calm_env_def)
  ultimately show ?thesis
    by (simp add: ready_from_def sample_wf_env_def attempt_ids_def sample_attempt_def outbox_ids_def sample_isr_db_def)
qed

lemma sample_gates: "classification_gate sample_alert sample_signals" "dispatch_gate sample_signals" "interdiction_gate sample_signals"
  by (simp_all add: classification_gate_def dispatch_gate_def interdiction_gate_def sample_signals_def sample_alert_def
      Covers_iff Rank_def label_defs valid_label_def ParseClassification_def)

theorem ISRResponseWorkflow_completes_witness:
  "\<exists>w. ISRResponseWorkflow sample_wf_env sample_alert sample_signals sample_isr_db =
     (WfReturned \<lparr>rr_alert_id = ''alert-1'', rr_state = StateOutcomeCapture\<rparr>, w) \<and> length (wf_history w) = 4"
proof -
  have i: "identifierPattern (ai_alert_id sample_alert)" by code_simp
  have a: "ai_anomaly_id sample_alert \<noteq> []" by (simp add: sample_alert_def)
  have o: "sg_outcome sample_signals = Some \<lparr>os_recorder_id = ''rec'', os_incident_ref = ''inc-1'', os_verified = True\<rparr>"
    by (simp add: sample_signals_def)
  have "\<exists>w. ISRResponseWorkflow sample_wf_env sample_alert sample_signals sample_isr_db =
     (WfReturned \<lparr>rr_alert_id = ai_alert_id sample_alert, rr_state = StateOutcomeCapture\<rparr>, w) \<and> length (wf_history w) = 4 \<and>
     wf_state w = StateOutcomeCapture"
    by (rule ISRResponseWorkflow_completes [OF i a sample_gates o _ _ sample_ready]) simp_all
  then show ?thesis by (auto simp: sample_alert_def)
qed

text \<open>An analyst with too low a clearance: whatever the run does, the alert is not classified.\<close>

definition low_signals :: wf_signals where
  "low_signals = sample_signals\<lparr>sg_classification := Some \<lparr>cs_analyst_id = ''ana'', cs_clearance = ''RESTRICTED'', cs_confirmed = True, cs_assessment = []\<rparr>\<rparr>"

theorem ISRResponseWorkflow_gated_witness:
  "\<exists>out w. ISRResponseWorkflow sample_wf_env sample_alert low_signals sample_isr_db = (out, w) \<and>
     wf_state w \<in> {StateAlerted, StateRejected}"
proof -
  obtain out w where r: "ISRResponseWorkflow sample_wf_env sample_alert low_signals sample_isr_db = (out, w)" by (metis surj_pair)
  have "\<not> classification_gate sample_alert low_signals"
    by (simp add: classification_gate_def low_signals_def sample_alert_def Covers_iff Rank_def label_defs)
  then have "wf_state w \<in> {StateAlerted, StateRejected}"
    using ISRResponseWorkflow_gated [OF r] by (cases "wf_state w") auto
  with r show ?thesis by blast
qed

end
