(* ===== verification/Ledger.thy ===== *)
theory Ledger
  imports Access
begin

text \<open>
  \<open>internal/ledger/outcome.go\<close> and \<open>internal/ledger/store.go\<close>: dual-control outcome proposals,
  their confirmation with a TigerBeetle transfer, the immutable entries and the outcome envelope,
  on the tables of migration 0009; and \<open>OutcomeAggregates\<close> of \<open>internal/isr/access.go\<close>.
  TigerBeetle is outside the repository: its client is a parameter over an abstract state. A
  transfer stays posted when the database transaction that follows it rolls back.
\<close>

section \<open>The TigerBeetle side\<close>

definition EntryKindIncidentVerified :: string where "EntryKindIncidentVerified = ''incident-verified''"
definition EntryKindPremiumDelta :: string where "EntryKindPremiumDelta = ''premium-delta''"
definition MetricIncidentReduction :: string where "MetricIncidentReduction = ''incident-reduction-count''"
definition MetricPremiumDelta :: string where "MetricPremiumDelta = ''premium-delta-basis-points''"
definition UnitIncidents :: string where "UnitIncidents = ''incidents''"
definition UnitBasisPoints :: string where "UnitBasisPoints = ''basis-points''"

text \<open>A 128-bit identifier is its sixteen bytes, least significant first.\<close>

type_synonym uint128 = bytes

definition ToUint128 :: "nat \<Rightarrow> uint128" where
  "ToUint128 n = map (\<lambda>i. of_nat (n div 256 ^ i)) [0..<16]"

definition IncidentReductionAccountID :: uint128 where "IncidentReductionAccountID = ToUint128 1"
definition PremiumDeltaAccountID :: uint128 where "PremiumDeltaAccountID = ToUint128 2"

record tb_account =
  ac_id :: uint128
  ac_ledger :: nat
  ac_code :: nat

record tb_transfer =
  tf_id :: uint128
  tf_debit_account :: uint128
  tf_credit_account :: uint128
  tf_amount :: nat
  tf_ledger :: nat
  tf_code :: nat

datatype tb_status = TBCreated | TBExists | TBStatus nat

record 't tb_client =
  CreateAccounts :: "tb_account list \<Rightarrow> 't \<Rightarrow> tb_status list result \<times> 't"
  CreateTransfers :: "tb_transfer list \<Rightarrow> 't \<Rightarrow> tb_status list result \<times> 't"

record 't ledger_service =
  sv_client :: "'t tb_client"
  sv_ledger :: nat
  sv_code :: nat

definition ledger_New :: "'t tb_client option \<Rightarrow> nat \<Rightarrow> nat \<Rightarrow> 't ledger_service result" where
  "ledger_New client ledgerID code =
     (case client of
        None \<Rightarrow> Inl (EMsg ''TigerBeetle client is required (fail-closed)'')
      | Some cl \<Rightarrow>
          require (ledgerID \<noteq> 0) (EMsg ''TigerBeetle ledger id must be non-zero'')
           (require (code \<noteq> 0) (EMsg ''TigerBeetle code must be non-zero'')
             (Inr \<lparr>sv_client = cl, sv_ledger = ledgerID, sv_code = code\<rparr>)))"

definition status_ok :: "tb_status \<Rightarrow> bool" where
  "status_ok s = (s = TBCreated \<or> s = TBExists)"

definition EnsureAccounts :: "'t ledger_service \<Rightarrow> 't \<Rightarrow> unit result \<times> 't" where
  "EnsureAccounts sv tb =
     (case CreateAccounts (sv_client sv)
             [\<lparr>ac_id = IncidentReductionAccountID, ac_ledger = sv_ledger sv, ac_code = sv_code sv\<rparr>,
              \<lparr>ac_id = PremiumDeltaAccountID, ac_ledger = sv_ledger sv, ac_code = sv_code sv\<rparr>] tb of
        (Inl e, tb') \<Rightarrow> (Inl (EWrap ''create outcome accounts'' e), tb')
      | (Inr results, tb') \<Rightarrow>
          (if list_all status_ok results then Inr () else Inl (EMsg ''create outcome account returned a failure''), tb'))"

definition EntryTransferID :: "crypto \<Rightarrow> string \<Rightarrow> uint128 result" where
  "EntryTransferID c entryID =
     require (trim_space entryID \<noteq> [] \<and> length entryID \<le> 128) (EMsg ''entry_id must be canonical non-empty text'')
      (Inr (take 16 (sha256_fn c (bytes_of_string (''outcome-ledger:'' @ entryID)))))"

text \<open>The rendering loop: bytes from the most significant down, two digits each.\<close>

fun hex_loop :: "uint128 \<Rightarrow> nat \<Rightarrow> string \<Rightarrow> string" where
  "hex_loop bs 0 acc = acc"
| "hex_loop bs (Suc i) acc = hex_loop bs i (acc @ [hex_digit (unat (drop_bit 4 (bs ! i))), hex_digit (unat (bs ! i AND 15))])"

definition TransferIDHex :: "uint128 \<Rightarrow> string" where
  "TransferIDHex bs = hex_loop bs (length bs) []"

definition outcome_transfer :: "'t ledger_service \<Rightarrow> uint128 \<Rightarrow> nat \<Rightarrow> tb_transfer" where
  "outcome_transfer sv tid quantity =
     \<lparr>tf_id = tid, tf_debit_account = IncidentReductionAccountID, tf_credit_account = PremiumDeltaAccountID,
      tf_amount = quantity, tf_ledger = sv_ledger sv, tf_code = sv_code sv\<rparr>"

definition PostOutcome :: "crypto \<Rightarrow> 't ledger_service \<Rightarrow> string \<Rightarrow> nat \<Rightarrow> 't \<Rightarrow> uint128 result \<times> 't" where
  "PostOutcome c sv entryID quantity tb =
     (case EntryTransferID c entryID of
        Inl e \<Rightarrow> (Inl e, tb)
      | Inr tid \<Rightarrow>
          if quantity = 0 then (Inl (EMsg ''outcome quantity must be non-zero''), tb)
          else (case CreateTransfers (sv_client sv) [outcome_transfer sv tid quantity] tb of
                  (Inl e, tb') \<Rightarrow> (Inl (EWrap ''post outcome transfer'' e), tb')
                | (Inr results, tb') \<Rightarrow>
                    (if 1 < length results then Inl (EMsg ''post outcome transfer returned several failures, want at most 1'')
                     else if length results = 1 \<and> \<not> status_ok (hd results) then Inl (EMsg ''post outcome transfer returned a failure'')
                     else Inr tid, tb')))"

section \<open>Proposals and entries\<close>

record proposal =
  pp_entry_id :: string
  pp_entry_kind :: string
  pp_incident_ref :: string
  pp_classification :: classification
  pp_metric :: string
  pp_quantity :: int
  pp_unit :: string
  pp_proposed_by :: string

record proposal_row =
  pr_proposal :: proposal
  pr_proposed_at :: gotime
  pr_confirmed :: bool

record outcome_entry =
  oe_proposal :: proposal
  oe_transfer_id :: string
  oe_proposed_at :: gotime
  oe_confirmed_by :: string
  oe_confirmed_at :: gotime

record ledger_db = isr_db +
  proposals :: "proposal_row list"
  entries :: "outcome_entry list"

definition kind_binding :: "proposal \<Rightarrow> bool" where
  "kind_binding p =
     ((pp_entry_kind p = EntryKindIncidentVerified \<and> pp_metric p = MetricIncidentReduction \<and> pp_unit p = UnitIncidents) \<or>
      (pp_entry_kind p = EntryKindPremiumDelta \<and> pp_metric p = MetricPremiumDelta \<and> pp_unit p = UnitBasisPoints))"

definition Proposal_Validate :: "proposal \<Rightarrow> validation" where
  "Proposal_Validate p =
     first_error
       [check (pp_entry_kind p \<noteq> EntryKindIncidentVerified \<and> pp_entry_kind p \<noteq> EntryKindPremiumDelta) ''entry_kind is unsupported'',
        (case ParseClassification (pp_classification p) of Inl e \<Rightarrow> Some e | Inr _ \<Rightarrow> None),
        check (pp_entry_id p = [] \<or> pp_incident_ref p = [] \<or> pp_proposed_by p = [] \<or> 128 < length (pp_entry_id p) \<or>
               128 < length (pp_incident_ref p) \<or> 128 < length (pp_proposed_by p))
          ''entry_id, incident_ref and proposed_by must be canonical non-empty text'',
        check (pp_quantity p \<le> 0) ''quantity must be positive'',
        check (pp_entry_kind p = EntryKindIncidentVerified \<and> (pp_metric p \<noteq> MetricIncidentReduction \<or> pp_unit p \<noteq> UnitIncidents))
          ''incident-verified entries must carry the incident-reduction-count metric in incidents'',
        check (pp_entry_kind p = EntryKindPremiumDelta \<and> (pp_metric p \<noteq> MetricPremiumDelta \<or> pp_unit p \<noteq> UnitBasisPoints))
          ''premium-delta entries must carry the premium-delta-basis-points metric in basis-points'']"

text \<open>The CHECK constraints of the proposal table.\<close>

definition proposal_checks :: "proposal \<Rightarrow> bool" where
  "proposal_checks p = (identifierPattern (pp_entry_id p) \<and> identifierPattern (pp_incident_ref p) \<and> identifierPattern (pp_proposed_by p) \<and>
     valid_label (pp_classification p) \<and> 0 < pp_quantity p \<and> kind_binding p)"

definition find_proposal :: "string \<Rightarrow> 'a ledger_db_scheme \<Rightarrow> proposal_row option" where
  "find_proposal entryID db = find (\<lambda>r. pp_entry_id (pr_proposal r) = entryID) (proposals db)"

text \<open>
  INSERT with ON CONFLICT DO NOTHING, then the comparison with the retained row. PostgreSQL checks
  the row before it looks for a conflict.
\<close>

definition Propose :: "db_env \<Rightarrow> proposal \<Rightarrow> 'a ledger_db_scheme \<Rightarrow> unit result \<times> 'a ledger_db_scheme" where
  "Propose env p db =
     run_tx db
      (validated (Proposal_Validate p)
       (db_call env 0 ''record outcome proposal''
        (require (proposal_checks p) (EDb ''record outcome proposal: violates check constraint'')
         (case find_proposal (pp_entry_id p) db of
            None \<Rightarrow>
              Inr ((), db\<lparr>proposals := proposals db @
                [\<lparr>pr_proposal = p, pr_proposed_at = pg_ts env (clock env 0), pr_confirmed = False\<rparr>]\<rparr>)
          | Some r \<Rightarrow>
              db_call env 1 ''load retained proposal''
               (require (pr_proposal r = p) LedgerErrConflict (Inr ((), db)))))))"

section \<open>Confirmation\<close>

definition entry_json :: "outcome_entry \<Rightarrow> json" where
  "entry_json e =
     (let p = oe_proposal e in
      JObj [(''entry_id'', JStr (pp_entry_id p)), (''entry_kind'', JStr (pp_entry_kind p)), (''incident_ref'', JStr (pp_incident_ref p)),
            (''classification'', JStr (pp_classification p)), (''metric'', JStr (pp_metric p)), (''quantity'', JNum (f_of_int (pp_quantity p))),
            (''unit'', JStr (pp_unit p)), (''proposed_by'', JStr (pp_proposed_by p)), (''tigerbeetle_transfer_id'', JStr (oe_transfer_id e)),
            (''proposed_at'', JStr (format_rfc3339nano (oe_proposed_at e))), (''confirmed_by'', JStr (oe_confirmed_by e)),
            (''confirmed_at'', JStr (format_rfc3339nano (oe_confirmed_at e)))])"

text \<open>The primary key, the reference to the proposal and the CHECK constraints of the entry table.\<close>

definition entry_checks :: "outcome_entry \<Rightarrow> gotime \<Rightarrow> 'a ledger_db_scheme \<Rightarrow> bool" where
  "entry_checks e ts db =
     (pp_entry_id (oe_proposal e) \<notin> set (map (\<lambda>x. pp_entry_id (oe_proposal x)) (entries db)) \<and>
      find_proposal (pp_entry_id (oe_proposal e)) db \<noteq> None \<and> 0 < pp_quantity (oe_proposal e) \<and>
      valid_label (pp_classification (oe_proposal e)) \<and> length (oe_transfer_id e) = 32 \<and> list_all is_lower_hex (oe_transfer_id e) \<and>
      pp_proposed_by (oe_proposal e) \<noteq> oe_confirmed_by e \<and> oe_proposed_at e \<le> ts)"

definition close_proposal :: "string \<Rightarrow> proposal_row \<Rightarrow> proposal_row" where
  "close_proposal entryID r = (if pp_entry_id (pr_proposal r) = entryID \<and> \<not> pr_confirmed r then r\<lparr>pr_confirmed := True\<rparr> else r)"

text \<open>The outbox row takes the band of the envelope, not its clearance, as classification.\<close>

definition outcome_event :: "envelope \<Rightarrow> isr_outbox_event" where
  "outcome_event e =
     \<lparr>io_topic = en_topic e, io_event_type = en_event_type e, io_classification = en_classification e,
      io_aggregate_key = en_aggregate_key e, io_payload = e\<rparr>"

definition confirm_checks :: "db_env \<Rightarrow> string \<Rightarrow> string \<Rightarrow> 'a ledger_db_scheme \<Rightarrow> proposal_row result" where
  "confirm_checks env entryID confirmedBy db =
     require (confirmedBy \<noteq> [] \<and> length confirmedBy \<le> 128) (EMsg ''confirmed_by must be canonical non-empty text'')
      (db_call env 0 ''begin outcome confirmation''
       (db_call env 1 ''load outcome proposal''
        (case find_proposal entryID db of
           None \<Rightarrow> Inl LedgerErrNotFound
         | Some r \<Rightarrow>
             require (pp_proposed_by (pr_proposal r) \<noteq> confirmedBy) ErrDualControl
              (require (\<not> pr_confirmed r) ErrAlreadyConfirmed (Inr r)))))"

definition new_entry :: "db_env \<Rightarrow> proposal_row \<Rightarrow> uint128 \<Rightarrow> string \<Rightarrow> outcome_entry" where
  "new_entry env r tid confirmedBy =
     \<lparr>oe_proposal = pr_proposal r, oe_transfer_id = TransferIDHex tid, oe_proposed_at = pr_proposed_at r,
      oe_confirmed_by = confirmedBy, oe_confirmed_at = clock env 0\<rparr>"

definition record_entry ::
  "crypto \<Rightarrow> (json \<Rightarrow> bytes) \<Rightarrow> db_env \<Rightarrow> string \<Rightarrow> outcome_entry \<Rightarrow> 'a ledger_db_scheme \<Rightarrow> (outcome_entry \<times> 'a ledger_db_scheme) result" where
  "record_entry c enc env entryID entry db =
     db_call env 2 ''record immutable outcome entry''
      (require (entry_checks entry (pg_ts env (oe_confirmed_at entry)) db) (EDb ''record immutable outcome entry: violates constraint'')
       (db_call env 3 ''close outcome proposal''
        (let db1 = db\<lparr>entries := entries db @ [entry\<lparr>oe_confirmed_at := pg_ts env (oe_confirmed_at entry)\<rparr>],
                      proposals := map (close_proposal entryID) (proposals db)\<rparr> in
         rbind (Seal c enc (new_uuid env 0) TopicOutcome (''outcome.'' @ pp_entry_kind (oe_proposal entry)) (pp_entry_id (oe_proposal entry))
                  (pp_classification (oe_proposal entry)) (oe_confirmed_at entry) (entry_json entry))
          (\<lambda>e. db_call env 4 ''write outcome outbox event''
            (rbind (isr_outbox_insert env (new_uuid env 1) (outcome_event e) (oe_confirmed_at entry) db1)
              (\<lambda>db2. db_call env 5 ''commit outcome confirmation'' (Inr (entry, db2))))))))"

definition Confirm ::
  "crypto \<Rightarrow> (json \<Rightarrow> bytes) \<Rightarrow> 't ledger_service \<Rightarrow> db_env \<Rightarrow> string \<Rightarrow> string \<Rightarrow> 'a ledger_db_scheme \<times> 't \<Rightarrow>
   outcome_entry result \<times> ('a ledger_db_scheme \<times> 't)" where
  "Confirm c enc sv env entryID confirmedBy st =
     (case confirm_checks env entryID confirmedBy (fst st) of
        Inl e \<Rightarrow> (Inl e, st)
      | Inr r \<Rightarrow>
          (case PostOutcome c sv (pp_entry_id (pr_proposal r)) (nat (pp_quantity (pr_proposal r) mod 2 ^ 64)) (snd st) of
             (Inl e, tb') \<Rightarrow> (Inl e, (fst st, tb'))
           | (Inr tid, tb') \<Rightarrow>
               (let (res, db') = run_tx (fst st) (record_entry c enc env entryID (new_entry env r tid confirmedBy) (fst st))
                in (res, (db', tb')))))"

section \<open>Aggregates\<close>

record outcome_aggregate =
  oa_entry_kind :: string
  oa_metric :: string
  oa_unit :: string
  oa_entries :: nat
  oa_total :: int
  oa_latest_at :: gotime

definition group_key :: "outcome_entry \<Rightarrow> string \<times> string \<times> string" where
  "group_key e = (pp_entry_kind (oe_proposal e), pp_metric (oe_proposal e), pp_unit (oe_proposal e))"

definition aggregate_row :: "outcome_entry list \<Rightarrow> string \<times> string \<times> string \<Rightarrow> outcome_aggregate" where
  "aggregate_row es k =
     (let g = filter (\<lambda>e. group_key e = k) es in
      \<lparr>oa_entry_kind = fst k, oa_metric = fst (snd k), oa_unit = snd (snd k), oa_entries = length g,
       oa_total = sum_list (map (\<lambda>e. pp_quantity (oe_proposal e)) g),
       oa_latest_at = fold max (map oe_confirmed_at g) 0\<rparr>)"

text \<open>GROUP BY and ORDER BY entry_kind; a total outside int64 cannot be scanned.\<close>

definition OutcomeAggregates :: "db_env \<Rightarrow> principal \<Rightarrow> 'a ledger_db_scheme \<Rightarrow> outcome_aggregate list result" where
  "OutcomeAggregates env p db =
     validated (CanReadOutcomeAggregates p)
      (db_call env 0 ''outcome aggregates''
        (let rows = map (aggregate_row (entries db)) (sort_key fst (remdups (map group_key (entries db)))) in
         require (list_all (\<lambda>a. oa_total a \<le> max_int64) rows) (EDb ''scan outcome aggregate'') (Inr rows)))"

section \<open>Transfer identifiers\<close>

lemma hex_loop_acc: "hex_loop bs n acc = acc @ hex_loop bs n []"
proof (induction n arbitrary: acc)
  case (Suc n)
  show ?case using Suc [of "acc @ [hex_digit (unat (drop_bit 4 (bs ! n))), hex_digit (unat (bs ! n AND 15))]"]
      Suc [of "[hex_digit (unat (drop_bit 4 (bs ! n))), hex_digit (unat (bs ! n AND 15))]"] by simp
qed simp

lemma TransferIDHex_eq: "TransferIDHex bs = hex_encode (rev bs)"
proof -
  have "n \<le> length bs \<Longrightarrow> hex_loop bs n [] = hex_encode (rev (take n bs))" for n
  proof (induction n)
    case (Suc n)
    have "rev (take (Suc n) bs) = bs ! n # rev (take n bs)" using Suc.prems by (simp add: take_Suc_conv_app_nth)
    then show ?case using Suc hex_loop_acc [of bs n "hex_byte (bs ! n)"] by (simp add: hex_byte_def hex_encode_def)
  qed (simp add: hex_encode_def)
  then show ?thesis by (simp add: TransferIDHex_def)
qed

lemma hex_digit_code: "n < 16 \<Longrightarrow> code_of (hex_digit n) = (if n < 10 then 48 + n else 87 + n)"
  by (simp add: hex_digit_def code_of_def)

lemma hex_digit_inj:
  assumes "m < 16" "n < 16" "hex_digit m = hex_digit n" shows "m = n"
proof -
  have "code_of (hex_digit m) = code_of (hex_digit n)" using assms(3) by simp
  then show ?thesis using assms(1,2) unfolding hex_digit_code [OF assms(1)] hex_digit_code [OF assms(2)]
    by (simp split: if_splits)
qed

lemma nibbles: "unat (drop_bit 4 (b :: byte)) < 16" "unat (b AND 15) < 16"
proof -
  have "unat b < 256" using unsigned_less [of b, where ?'a = nat] by simp
  then show "unat (drop_bit 4 b) < 16" by (simp add: unat_drop_bit_eq drop_bit_eq_div unat_div_distrib)
  have "b AND 15 = take_bit 4 b" by (simp add: take_bit_eq_mask mask_eq_exp_minus_1)
  then show "unat (b AND 15) < 16" by (simp add: unsigned_take_bit_eq take_bit_nat_def)
qed

lemma hex_byte_inj: "hex_byte a = hex_byte b \<Longrightarrow> a = b"
proof -
  assume h: "hex_byte a = hex_byte b"
  have "unat (drop_bit 4 a) = unat (drop_bit 4 b)" "unat (a AND 15) = unat (b AND 15)"
    using h nibbles hex_digit_inj by (auto simp: hex_byte_def)
  then have "drop_bit 4 a = drop_bit 4 b" "a AND 15 = b AND 15" by (auto intro: unsigned_word_eqI)
  then have "drop_bit 4 a = drop_bit 4 b" "take_bit 4 a = take_bit 4 b"
    by (simp_all add: take_bit_eq_mask mask_eq_exp_minus_1)
  then show "a = b" by (metis bits_ident)
qed

lemma hex_encode_inj: "hex_encode xs = hex_encode ys \<Longrightarrow> xs = ys"
proof (induction xs arbitrary: ys)
  case Nil then show ?case by (cases ys) (simp_all add: hex_encode_def hex_byte_def)
next
  case (Cons x xs)
  then obtain y zs where "ys = y # zs" by (cases ys) (auto simp: hex_encode_def hex_byte_def)
  then show ?case using Cons hex_byte_inj [of x y] by (auto simp: hex_encode_def hex_byte_def)
qed

lemma hex_encode_lower: "length (hex_encode bs) = 2 * length bs \<and> list_all is_lower_hex (hex_encode bs)"
proof (induction bs)
  case (Cons b bs)
  have "is_lower_hex (hex_digit n)" if "n < 16" for n
    using hex_digit_code [OF that] that by (auto simp: is_lower_hex_def is_digit_def)
  then show ?case using Cons nibbles by (simp add: hex_encode_def hex_byte_def)
qed (simp add: hex_encode_def)

text \<open>
  The rendering of a transfer id is lossless and always satisfies the CHECK of the entry table:
  sixteen bytes become thirty-two lower-case hex digits, most significant byte first, and two ids
  with the same rendering are equal.
\<close>

theorem TransferIDHex_faithful:
  "TransferIDHex bs = hex_encode (rev bs) \<and> length (TransferIDHex bs) = 2 * length bs \<and> list_all is_lower_hex (TransferIDHex bs) \<and>
   (TransferIDHex bs = TransferIDHex bs' \<longleftrightarrow> bs = bs')"
  using hex_encode_lower [of "rev bs"] hex_encode_inj by (auto simp: TransferIDHex_eq)

section \<open>The invariant of the ledger tables\<close>

definition xid :: "crypto \<Rightarrow> string \<Rightarrow> uint128" where
  "xid c entryID = take 16 (sha256_fn c (bytes_of_string (''outcome-ledger:'' @ entryID)))"

abbreviation row_id :: "proposal_row \<Rightarrow> string" where "row_id r \<equiv> pp_entry_id (pr_proposal r)"
abbreviation entry_id :: "outcome_entry \<Rightarrow> string" where "entry_id e \<equiv> pp_entry_id (oe_proposal e)"

definition outcome_announced :: "isr_outbox_event list \<Rightarrow> outcome_entry \<Rightarrow> bool" where
  "outcome_announced bs e = (\<exists>b \<in> set bs. io_topic b = TopicOutcome \<and> io_aggregate_key b = entry_id e \<and>
     en_clearance (io_payload b) = pp_classification (oe_proposal e))"

definition proposal_row_ok :: "outcome_entry list \<Rightarrow> proposal_row \<Rightarrow> bool" where
  "proposal_row_ok es r = (proposal_checks (pr_proposal r) \<and> pp_quantity (pr_proposal r) \<le> max_int64 \<and>
     (pr_confirmed r \<longleftrightarrow> pr_proposal r \<in> oe_proposal ` set es))"

definition entry_ok :: "crypto \<Rightarrow> proposal_row list \<Rightarrow> isr_outbox_event list \<Rightarrow> outcome_entry \<Rightarrow> bool" where
  "entry_ok c ps bs e = (pp_proposed_by (oe_proposal e) \<noteq> oe_confirmed_by e \<and> oe_transfer_id e = TransferIDHex (xid c (entry_id e)) \<and>
     oe_proposal e \<in> pr_proposal ` set ps \<and> outcome_announced bs e)"

definition ledger_ok :: "crypto \<Rightarrow> 'a ledger_db_scheme \<Rightarrow> bool" where
  "ledger_ok c db = (distinct (map row_id (proposals db)) \<and> distinct (map entry_id (entries db)) \<and>
     (\<forall>r \<in> set (proposals db). proposal_row_ok (entries db) r) \<and>
     (\<forall>e \<in> set (entries db). entry_ok c (proposals db) (bodies db) e))"

lemma find_proposal_Some: "find_proposal k db = Some r \<Longrightarrow> r \<in> set (proposals db) \<and> row_id r = k"
  unfolding find_proposal_def by (drule find_SomeD) simp

lemma find_proposal_None: "find_proposal k db = None \<longleftrightarrow> k \<notin> set (map row_id (proposals db))"
  by (auto simp: find_proposal_def find_None_all)

lemma close_proposal_simps [simp]:
  "pr_proposal (close_proposal k r) = pr_proposal r" "pr_proposed_at (close_proposal k r) = pr_proposed_at r"
  "pr_confirmed (close_proposal k r) \<longleftrightarrow> pr_confirmed r \<or> row_id r = k"
  by (auto simp: close_proposal_def)

lemma confirm_checks_Inr:
  "confirm_checks env k who db = Inr r \<longleftrightarrow> who \<noteq> [] \<and> length who \<le> 128 \<and> \<not> db_faults env 0 \<and> \<not> db_faults env 1 \<and>
     find_proposal k db = Some r \<and> pp_proposed_by (pr_proposal r) \<noteq> who \<and> \<not> pr_confirmed r"
  by (auto simp: confirm_checks_def split: option.splits)

lemma record_entry_Inr:
  assumes "record_entry c enc env k entry db = Inr (e', db')"
  obtains e where "e' = entry" "entry_checks entry (pg_ts env (oe_confirmed_at entry)) db"
    "Seal c enc (new_uuid env 0) TopicOutcome (''outcome.'' @ pp_entry_kind (oe_proposal entry)) (entry_id entry)
       (pp_classification (oe_proposal entry)) (oe_confirmed_at entry) (entry_json entry) = Inr e"
    "valid_label (en_classification e)"
    "db' = db\<lparr>entries := entries db @ [entry\<lparr>oe_confirmed_at := pg_ts env (oe_confirmed_at entry)\<rparr>],
              proposals := map (close_proposal k) (proposals db),
              isr_outbox := isr_outbox db @ [new_outbox_row env (new_uuid env 1) (outcome_event e) (oe_confirmed_at entry)]\<rparr>"
  using assms that by (auto simp: record_entry_def isr_outbox_insert_Inr Let_def outcome_event_def)

lemma Confirm_Inr:
  assumes "Confirm c enc sv env k who (db, tb) = (Inr entry, (db', tb'))"
  obtains r tid where "confirm_checks env k who db = Inr r"
    "PostOutcome c sv (row_id r) (nat (pp_quantity (pr_proposal r) mod 2 ^ 64)) tb = (Inr tid, tb')"
    "record_entry c enc env k (new_entry env r tid who) db = Inr (entry, db')"
  using assms that by (auto simp: Confirm_def run_tx_Inr_iff split: sum.splits prod.splits)

lemma Confirm_Inl: "Confirm c enc sv env k who (db, tb) = (Inl e, (db', tb')) \<Longrightarrow> db' = db"
  by (auto simp: Confirm_def split: sum.splits prod.splits elim!: run_tx_cases)

lemma PostOutcome_Inr:
  assumes "PostOutcome c sv k q tb = (Inr tid, tb')"
  shows "tid = xid c k \<and> q \<noteq> 0 \<and> (\<exists>rs. CreateTransfers (sv_client sv) [outcome_transfer sv tid q] tb = (Inr rs, tb') \<and>
     (rs = [] \<or> (\<exists>s. rs = [s] \<and> status_ok s)))"
proof -
  obtain rs where "EntryTransferID c k = Inr tid" "q \<noteq> 0" "CreateTransfers (sv_client sv) [outcome_transfer sv tid q] tb = (Inr rs, tb')"
    "\<not> 1 < length rs" "length rs = 1 \<longrightarrow> status_ok (hd rs)"
    using assms by (auto simp: PostOutcome_def split: sum.splits prod.splits if_splits)
  then show ?thesis by (cases rs) (auto simp: EntryTransferID_def xid_def)
qed

lemma entry_ok_mono:
  "entry_ok c ps bs e \<Longrightarrow> pr_proposal ` set ps \<subseteq> pr_proposal ` set ps' \<Longrightarrow> set bs \<subseteq> set bs' \<Longrightarrow> entry_ok c ps' bs' e"
  by (auto simp: entry_ok_def outcome_announced_def)

lemma Propose_ok:
  assumes "Propose env p db = (r, db')" "ledger_ok c db" "pp_quantity p \<le> max_int64"
  shows "ledger_ok c db' \<and> entries db' = entries db \<and> isr_outbox db' = isr_outbox db \<and> prefix (proposals db) (proposals db')"
proof (cases "db' = db")
  case False
  then have n: "find_proposal (pp_entry_id p) db = None" "proposal_checks p"
    "db' = db\<lparr>proposals := proposals db @ [\<lparr>pr_proposal = p, pr_proposed_at = pg_ts env (clock env 0), pr_confirmed = False\<rparr>]\<rparr>"
    using assms(1) by (auto simp: Propose_def split: option.splits elim!: run_tx_cases)
  have "p \<notin> oe_proposal ` set (entries db)"
  proof
    assume "p \<in> oe_proposal ` set (entries db)"
    then have "p \<in> pr_proposal ` set (proposals db)" using assms(2) by (auto simp: ledger_ok_def entry_ok_def)
    then show False using n(1) by (auto simp: find_proposal_None)
  qed
  moreover have "entry_ok c (proposals db') (bodies db') e" if "e \<in> set (entries db)" for e
    by (rule entry_ok_mono [of c "proposals db" "bodies db"]) (use that assms(2) n in \<open>auto simp: ledger_ok_def bodies_def\<close>)
  ultimately show ?thesis using assms(2,3) n by (auto simp: ledger_ok_def proposal_row_ok_def find_proposal_None)
qed (use assms in auto)

lemma Confirm_ok:
  assumes cf: "Confirm c enc sv env k who (db, tb) = (r, (db', tb'))" and ok: "ledger_ok c db"
  shows "ledger_ok c db' \<and> prefix (entries db) (entries db') \<and> map pr_proposal (proposals db') = map pr_proposal (proposals db) \<and>
    map pr_proposed_at (proposals db') = map pr_proposed_at (proposals db)"
proof (cases r)
  case (Inl e)
  then have "db' = db" using cf by (auto dest: Confirm_Inl)
  then show ?thesis using ok by simp
next
  case (Inr entry)
  obtain p tid where p: "confirm_checks env k who db = Inr p"
    and post: "PostOutcome c sv (row_id p) (nat (pp_quantity (pr_proposal p) mod 2 ^ 64)) tb = (Inr tid, tb')"
    and rec: "record_entry c enc env k (new_entry env p tid who) db = Inr (entry, db')"
    using Confirm_Inr cf Inr by metis
  let ?e = "new_entry env p tid who"
  let ?row = "?e\<lparr>oe_confirmed_at := pg_ts env (oe_confirmed_at ?e)\<rparr>"
  have ps: "p \<in> set (proposals db)" "row_id p = k" "\<not> pr_confirmed p" "pp_proposed_by (pr_proposal p) \<noteq> who"
    using p find_proposal_Some by (auto simp: confirm_checks_Inr)
  obtain e where e: "entry_checks ?e (pg_ts env (oe_confirmed_at ?e)) db"
    "Seal c enc (new_uuid env 0) TopicOutcome (''outcome.'' @ pp_entry_kind (oe_proposal ?e)) (entry_id ?e)
       (pp_classification (oe_proposal ?e)) (oe_confirmed_at ?e) (entry_json ?e) = Inr e"
    "db' = db\<lparr>entries := entries db @ [?row], proposals := map (close_proposal k) (proposals db),
       isr_outbox := isr_outbox db @ [new_outbox_row env (new_uuid env 1) (outcome_event e) (oe_confirmed_at ?e)]\<rparr>"
    using rec by (rule record_entry_Inr)
  have se: "en_topic e = TopicOutcome \<and> en_aggregate_key e = entry_id ?e \<and> en_clearance e = pp_classification (oe_proposal ?e)"
    using e(2) by (rule Seal_Inr) (simp add: build_envelope_def)
  have bo: "bodies db' = bodies db @ [outcome_event e]" using e(3) by (simp add: bodies_def)
  have new: "entry_ok c (proposals db') (bodies db') ?row"
    using ps se PostOutcome_Inr [OF post] bo e(3)
    by (auto simp: entry_ok_def new_entry_def outcome_announced_def outcome_event_def image_image)
  have old: "entry_ok c (proposals db') (bodies db') x" if "x \<in> set (entries db)" for x
    by (rule entry_ok_mono [of c "proposals db" "bodies db"]) (use that ok bo e(3) in \<open>auto simp: ledger_ok_def image_image\<close>)
  have uniq: "pr_proposal q = pr_proposal p" if "q \<in> set (proposals db)" "row_id q = k" for q
    using ok that ps distinct_key_eq [of row_id "proposals db" q p] by (auto simp: ledger_ok_def)
  have "proposal_row_ok (entries db') (close_proposal k q)" if "q \<in> set (proposals db)" for q
    using ok that uniq [OF that] e(3) ps by (auto simp: ledger_ok_def proposal_row_ok_def new_entry_def)
  moreover have "entry_id ?row \<notin> set (map entry_id (entries db))" using e(1) by (auto simp: entry_checks_def)
  moreover have "map row_id (map (close_proposal k) (proposals db)) = map row_id (proposals db)" by simp
  ultimately have "ledger_ok c db'" using ok new old e(3) by (auto simp: ledger_ok_def comp_def)
  then show ?thesis using e(3) by (simp add: comp_def)
qed

section \<open>Runs of the ledger beside the rest of the platform\<close>

lemma isr_step_frame:
  fixes db db' :: "'a isr_db_scheme"
  assumes "isr_step c enc decode db db'"
  shows "isr_db.more db' = isr_db.more db \<and> prefix (bodies db) (bodies db')"
  using assms
proof cases
  case (admit env r res)
  show ?thesis
  proof (cases res)
    case (Inl e)
    then have "db' = db" using admit by (auto simp: AdmitDetection_def elim: run_tx_cases)
    then show ?thesis by simp
  next
    case (Inr da)
    obtain d a where "da = (d, a)" by (cases da)
    then have "AdmitDetection c enc decode env r db = (Inr (d, a), db')" using admit Inr by simp
    then show ?thesis by (rule AdmitDetection_Inr) (simp_all add: bodies_def)
  qed
next
  case (feed act)
  have "feed_db.more db' = feed_db.more db" by (rule feed_step_more [OF feed])
  then show ?thesis by (cases db; cases db') (simp add: bodies_def)
next
  case announce
  then show ?thesis by (auto simp: isr_outbox_insert_Inr bodies_def)
next
  case claim
  then show ?thesis using isr_delivery(1) [OF claim]
    by (auto simp: ClaimISROutbox_def same_bodies_def bodies_def elim!: run_tx_cases)
next
  case published
  then show ?thesis using isr_delivery(2) [OF published]
    by (auto simp: MarkISROutboxPublished_def same_bodies_def bodies_def elim!: run_tx_cases)
next
  case failed
  then show ?thesis using isr_delivery(3) [OF failed]
    by (auto simp: MarkISROutboxFailed_def same_bodies_def bodies_def elim!: run_tx_cases)
qed

lemma ledger_tables_of_more:
  fixes db db' :: "'a ledger_db_scheme"
  assumes "isr_db.more db' = isr_db.more db"
  shows "proposals db' = proposals db" "entries db' = entries db"
  using assms by (cases db; cases db'; simp)+

text \<open>The quantity of a proposal is an int64 in Go, so a caller cannot exceed its range.\<close>

inductive ledger_step ::
  "crypto \<Rightarrow> (json \<Rightarrow> bytes) \<Rightarrow> 't ledger_service \<Rightarrow> 'a ledger_db_scheme \<times> 't \<Rightarrow> 'a ledger_db_scheme \<times> 't \<Rightarrow> bool" for c enc sv where
  propose: "Propose env p db = (r, db') \<Longrightarrow> pp_quantity p \<le> max_int64 \<Longrightarrow> ledger_step c enc sv (db, tb) (db', tb)"
| confirm: "Confirm c enc sv env k who (db, tb) = (res, (db', tb')) \<Longrightarrow> ledger_step c enc sv (db, tb) (db', tb')"
| platform: "isr_step c enc decode db db' \<Longrightarrow> ledger_step c enc sv (db, tb) (db', tb)"

inductive ledger_reach ::
  "crypto \<Rightarrow> (json \<Rightarrow> bytes) \<Rightarrow> 't ledger_service \<Rightarrow> 'a ledger_db_scheme \<times> 't \<Rightarrow> 'a ledger_db_scheme \<times> 't \<Rightarrow> bool" for c enc sv where
  refl: "ledger_reach c enc sv st st"
| step: "ledger_reach c enc sv st st' \<Longrightarrow> ledger_step c enc sv st' st'' \<Longrightarrow> ledger_reach c enc sv st st''"

lemma ledger_step_ok:
  assumes "ledger_step c enc sv (db, tb) (db', tb')" "ledger_ok c db"
  shows "ledger_ok c db' \<and> prefix (entries db) (entries db') \<and> prefix (map pr_proposal (proposals db)) (map pr_proposal (proposals db'))"
  using assms(1)
proof cases
  case propose
  then show ?thesis using Propose_ok [OF propose(2) assms(2)] map_mono_prefix by auto
next
  case confirm
  then show ?thesis using Confirm_ok [OF confirm assms(2)] by simp
next
  case platform
  note fr = isr_step_frame [OF platform(2)]
  have f: "proposals db' = proposals db" "entries db' = entries db" "set (bodies db) \<subseteq> set (bodies db')"
    using fr ledger_tables_of_more [of db' db] set_mono_prefix [of "bodies db" "bodies db'"] by simp_all
  have "entry_ok c (proposals db') (bodies db') e" if "e \<in> set (entries db)" for e
    by (rule entry_ok_mono [of c "proposals db" "bodies db"]) (use that assms(2) f in \<open>auto simp: ledger_ok_def\<close>)
  then show ?thesis using assms(2) f by (simp add: ledger_ok_def)
qed

lemma ledger_reach_ok:
  assumes "ledger_reach c enc sv st st'" "ledger_ok c (fst st)"
  shows "ledger_ok c (fst st') \<and> prefix (entries (fst st)) (entries (fst st')) \<and>
    prefix (map pr_proposal (proposals (fst st))) (map pr_proposal (proposals (fst st')))"
  using assms
proof (induction rule: ledger_reach.induct)
  case (step st st' st'')
  obtain db tb db' tb' where s: "st' = (db, tb)" "st'' = (db', tb')" by (metis surj_pair)
  have "ledger_ok c db' \<and> prefix (entries db) (entries db') \<and> prefix (map pr_proposal (proposals db)) (map pr_proposal (proposals db'))"
    by (rule ledger_step_ok) (use step s in auto)
  then show ?case using step s by (auto intro: prefix_order.trans)
qed simp

section \<open>The books in TigerBeetle\<close>

text \<open>
  What TigerBeetle documents of one-transfer batches: a stored transfer never changes and no other
  transfer is touched; a request stores the transfer or nothing, also when the reply is lost; an
  accepted reply, empty or created or exists, means that exactly this transfer is stored.
\<close>

definition tb_spec :: "'t tb_client \<Rightarrow> ('t \<Rightarrow> uint128 \<Rightarrow> tb_transfer option) \<Rightarrow> bool" where
  "tb_spec cl look = (\<forall>t tb res tb'. CreateTransfers cl [t] tb = (res, tb') \<longrightarrow>
     (\<forall>i. i \<noteq> tf_id t \<longrightarrow> look tb' i = look tb i) \<and>
     look tb' (tf_id t) \<in> (if look tb (tf_id t) = None then {None, Some t} else {look tb (tf_id t)}) \<and>
     (\<forall>rs. res = Inr rs \<and> list_all status_ok rs \<longrightarrow> look tb' (tf_id t) = Some t))"

definition booked :: "crypto \<Rightarrow> 't ledger_service \<Rightarrow> ('t \<Rightarrow> uint128 \<Rightarrow> tb_transfer option) \<Rightarrow> 't \<Rightarrow> proposal \<Rightarrow> bool" where
  "booked c sv look tb p = (look tb (xid c (pp_entry_id p)) = Some (outcome_transfer sv (xid c (pp_entry_id p)) (nat (pp_quantity p))))"

text \<open>Entries are booked, and every transfer that was not there at the start is that of a proposal.\<close>

definition books_ok ::
  "crypto \<Rightarrow> 't ledger_service \<Rightarrow> ('t \<Rightarrow> uint128 \<Rightarrow> tb_transfer option) \<Rightarrow> 't \<Rightarrow> 'a ledger_db_scheme \<times> 't \<Rightarrow> bool" where
  "books_ok c sv look tb0 st =
     ((\<forall>e \<in> set (entries (fst st)). booked c sv look (snd st) (oe_proposal e)) \<and>
      (\<forall>i. look tb0 i \<noteq> None \<longrightarrow> look (snd st) i = look tb0 i) \<and>
      (\<forall>i. look tb0 i = None \<and> look (snd st) i \<noteq> None \<longrightarrow>
         (\<exists>p \<in> set (map pr_proposal (proposals (fst st))). i = xid c (pp_entry_id p) \<and> booked c sv look (snd st) p)))"

lemma PostOutcome_any:
  assumes "PostOutcome c sv k q tb = (res, tb')"
  shows "tb' = tb \<or> (\<exists>rs. CreateTransfers (sv_client sv) [outcome_transfer sv (xid c k) q] tb = (rs, tb'))"
  using assms by (auto simp: PostOutcome_def EntryTransferID_def xid_def split: sum.splits prod.splits if_splits)

lemma PostOutcome_book:
  assumes sp: "tb_spec (sv_client sv) look" and post: "PostOutcome c sv k q tb = (res, tb')"
  shows "(\<forall>i. i \<noteq> xid c k \<longrightarrow> look tb' i = look tb i) \<and>
    look tb' (xid c k) \<in> (if look tb (xid c k) = None then {None, Some (outcome_transfer sv (xid c k) q)} else {look tb (xid c k)}) \<and>
    (\<forall>tid. res = Inr tid \<longrightarrow> look tb' (xid c k) = Some (outcome_transfer sv (xid c k) q))"
proof -
  let ?t = "outcome_transfer sv (xid c k) q"
  have id: "tf_id ?t = xid c k" by (simp add: outcome_transfer_def)
  have law: "CreateTransfers (sv_client sv) [?t] tb = (r, tb') \<Longrightarrow>
     (\<forall>i. i \<noteq> xid c k \<longrightarrow> look tb' i = look tb i) \<and>
     look tb' (xid c k) \<in> (if look tb (xid c k) = None then {None, Some ?t} else {look tb (xid c k)}) \<and>
     (\<forall>rs. r = Inr rs \<and> list_all status_ok rs \<longrightarrow> look tb' (xid c k) = Some ?t)" for r
    using sp id unfolding tb_spec_def by metis
  have "look tb' (xid c k) = Some ?t" if "res = Inr tid" for tid
    using PostOutcome_Inr [of c sv k q tb tid tb'] post that law by force
  moreover have "tb' = tb \<or> (\<exists>r. CreateTransfers (sv_client sv) [?t] tb = (r, tb'))" using PostOutcome_any [OF post] .
  ultimately show ?thesis using law by (auto split: if_splits)
qed

lemma Confirm_post:
  assumes "Confirm c enc sv env k who (db, tb) = (res, (db', tb'))"
  shows "tb' = tb \<and> db' = db \<or> (\<exists>r r2. confirm_checks env k who db = Inr r \<and>
    PostOutcome c sv (row_id r) (nat (pp_quantity (pr_proposal r) mod 2 ^ 64)) tb = (r2, tb') \<and> (r2 = Inl (projl r2) \<longrightarrow> db' = db))"
  using assms by (auto simp: Confirm_def split: sum.splits prod.splits)


lemma booked_mono:
  assumes "booked c sv look tb p" "\<And>i. look tb i \<noteq> None \<Longrightarrow> look tb' i = look tb i"
  shows "booked c sv look tb' p"
  using assms(1) assms(2) [of "xid c (pp_entry_id p)"] by (simp add: booked_def)

lemma books_ok_db:
  assumes "books_ok c sv look tb0 (db, tb)" "entries db' = entries db" "prefix (map pr_proposal (proposals db)) (map pr_proposal (proposals db'))"
  shows "books_ok c sv look tb0 (db', tb)"
  using assms set_mono_prefix [OF assms(3)] unfolding books_ok_def by (auto 0 4)

lemma ledger_quantity:
  assumes "ledger_ok c db" "r \<in> set (proposals db)"
  shows "nat (pp_quantity (pr_proposal r) mod 2 ^ 64) = nat (pp_quantity (pr_proposal r))"
  using assms by (auto simp: ledger_ok_def proposal_row_ok_def proposal_checks_def max_int64_def)

lemma Confirm_books:
  assumes sp: "tb_spec (sv_client sv) look" and cf: "Confirm c enc sv env k who (db, tb) = (res, (db', tb'))"
    and ok: "ledger_ok c db" and bk: "books_ok c sv look tb0 (db, tb)"
  shows "books_ok c sv look tb0 (db', tb')"
proof (cases "tb' = tb \<and> db' = db")
  case False
  then obtain r r2 where cc: "confirm_checks env k who db = Inr r"
    and post: "PostOutcome c sv (row_id r) (nat (pp_quantity (pr_proposal r) mod 2 ^ 64)) tb = (r2, tb')"
    and keep: "r2 = Inl (projl r2) \<longrightarrow> db' = db" using Confirm_post [OF cf] by blast
  have r: "r \<in> set (proposals db)" using cc find_proposal_Some by (auto simp: confirm_checks_Inr)
  let ?i = "xid c (row_id r)" and ?t = "outcome_transfer sv (xid c (row_id r)) (nat (pp_quantity (pr_proposal r)))"
  have bo: "\<And>i. i \<noteq> ?i \<Longrightarrow> look tb' i = look tb i"
    "look tb' ?i \<in> (if look tb ?i = None then {None, Some ?t} else {look tb ?i})" "\<And>tid. r2 = Inr tid \<Longrightarrow> look tb' ?i = Some ?t"
    using PostOutcome_book [OF sp post] unfolding ledger_quantity [OF ok r] by blast+
  have mono: "look tb' i = look tb i" if "look tb i \<noteq> None" for i
    using bo(1) [of i] bo(2) that by (cases "i = ?i") auto
  have old: "booked c sv look tb' p" if "booked c sv look tb p" for p using booked_mono [OF that mono] .
  have ps: "map pr_proposal (proposals db') = map pr_proposal (proposals db)" using Confirm_ok [OF cf ok] by simp
  have new: "booked c sv look tb' (pr_proposal r)" if "look tb' ?i \<noteq> look tb ?i"
    using bo(2) that by (auto simp: booked_def split: if_splits)
  have ent: "booked c sv look tb' (oe_proposal e)" if e: "e \<in> set (entries db')" for e
  proof (cases "e \<in> set (entries db)")
    case True
    then show ?thesis using bk old by (simp add: books_ok_def)
  next
    case False
    then obtain entry where res: "res = Inr entry" using e cf by (cases res) (auto dest: Confirm_Inl)
    then obtain q tid where q: "confirm_checks env k who db = Inr q"
      "PostOutcome c sv (row_id q) (nat (pp_quantity (pr_proposal q) mod 2 ^ 64)) tb = (Inr tid, tb')"
      "record_entry c enc env k (new_entry env q tid who) db = Inr (entry, db')" using Confirm_Inr cf by metis
    have "oe_proposal e = pr_proposal q" using q(3) by (rule record_entry_Inr) (use e False in \<open>auto simp: new_entry_def\<close>)
    moreover have "q = r" "r2 = Inr tid" using q cc post by auto
    ultimately show ?thesis using bo(3) by (simp add: booked_def)
  qed
  have "\<exists>p \<in> set (map pr_proposal (proposals db')). i = xid c (pp_entry_id p) \<and> booked c sv look tb' p"
    if i: "look tb0 i = None" "look tb' i \<noteq> None" for i
  proof (cases "look tb' i = look tb i")
    case True
    then have "look tb0 i = None \<and> look tb i \<noteq> None" using i by simp
    then obtain p where "p \<in> set (map pr_proposal (proposals db))" "i = xid c (pp_entry_id p)" "booked c sv look tb p"
      using bk unfolding books_ok_def fst_conv snd_conv by blast
    then show ?thesis using old unfolding ps by blast
  next
    case False
    then have "i = ?i" using bo(1) by blast
    then show ?thesis using False new r unfolding ps by auto
  qed
  moreover have "look tb' i = look tb0 i" if "look tb0 i \<noteq> None" for i
    using bk that mono [of i] by (auto simp: books_ok_def)
  ultimately show ?thesis using ent by (simp add: books_ok_def)
qed (use bk in simp)

lemma ledger_reach_books:
  assumes "ledger_reach c enc sv st st'" "tb_spec (sv_client sv) look" "ledger_ok c (fst st)" "books_ok c sv look tb0 st"
  shows "books_ok c sv look tb0 st'"
  using assms
proof (induction rule: ledger_reach.induct)
  case (step st st' st'')
  obtain db tb where s: "st' = (db, tb)" by (metis surj_pair)
  have ok: "ledger_ok c db" using ledger_reach_ok [OF step.hyps(1)] step.prems s by simp
  have bk: "books_ok c sv look tb0 (db, tb)" using step s by simp
  show ?case using step.hyps(2) unfolding s
  proof cases
    case (propose env p r db')
    then show ?thesis using books_ok_db [OF bk] Propose_ok [OF propose(2) ok] map_mono_prefix by auto
  next
    case (confirm env k who res db' tb')
    then show ?thesis using Confirm_books [OF step.prems(1) confirm(2) ok bk] by simp
  next
    case (platform decode db')
    then show ?thesis using books_ok_db [OF bk, of db'] isr_step_frame [OF platform(2)] ledger_tables_of_more [of db' db] by simp
  qed
qed simp

section \<open>Which proposals can be confirmed\<close>

lemma probe_entry: "probe_classification (entry_json e) = Some (pp_classification (oe_proposal e))"
  by (simp add: entry_json_def Let_def equal_fold_length)

lemma outcome_type_length: "kind_binding p \<Longrightarrow> length (''outcome.'' @ pp_entry_kind p) \<le> 128"
  by (auto simp: kind_binding_def EntryKindIncidentVerified_def EntryKindPremiumDelta_def)

lemma Seal_entry:
  assumes "proposal_checks (oe_proposal e)" "t \<noteq> 0"
  shows "\<exists>b env. EnvelopeClassificationOf (pp_classification (oe_proposal e)) = Inr b \<and> en_classification env = b \<and> en_topic env = TopicOutcome \<and>
    Seal c enc u TopicOutcome (''outcome.'' @ pp_entry_kind (oe_proposal e)) (entry_id e) (pp_classification (oe_proposal e)) t (entry_json e) = Inr env"
proof -
  let ?l = "pp_classification (oe_proposal e)"
  have v: "valid_label ?l" "identifierPattern (entry_id e)" "length (''outcome.'' @ pp_entry_kind (oe_proposal e)) \<le> 128"
    using assms(1) outcome_type_length by (auto simp: proposal_checks_def)
  obtain b where b: "EnvelopeClassificationOf ?l = Inr b" using EnvelopeClassificationOf_valid [OF v(1)] by blast
  have pl: "ParseClassification ?l = Inr ?l" using v(1) by (simp add: ParseClassification_Inr)
  obtain fs where fs: "entry_json e = JObj fs" by (simp add: entry_json_def Let_def)
  have "\<exists>env. Seal c enc u TopicOutcome (''outcome.'' @ pp_entry_kind (oe_proposal e)) (entry_id e) ?l t (entry_json e) = Inr env"
    using v b assms(2) probe_entry [of e] unfolding fs by (simp add: Seal_def Let_def pl)
  then obtain env where s: "Seal c enc u TopicOutcome (''outcome.'' @ pp_entry_kind (oe_proposal e)) (entry_id e) ?l t (entry_json e) = Inr env" by blast
  then have "en_classification env = b \<and> en_topic env = TopicOutcome" by (rule Seal_Inr) (use b in \<open>simp add: build_envelope_def\<close>)
  then show ?thesis using s b by blast
qed

lemma band_label: "EnvelopeClassificationOf l = Inr b \<Longrightarrow> valid_label b \<longleftrightarrow> l \<noteq> ClassificationUnclassified"
  by (auto simp: EnvelopeClassificationOf_def envelope_defs label_defs valid_label_def ParseClassification_def split: if_splits)

text \<open>The conditions under which a confirmation meets no fault and no race.\<close>

definition confirmable :: "db_env \<Rightarrow> string \<Rightarrow> string \<Rightarrow> proposal_row \<Rightarrow> 'a ledger_db_scheme \<Rightarrow> bool" where
  "confirmable env k who r db = ((\<forall>n. \<not> db_faults env n) \<and> who \<noteq> [] \<and> length who \<le> 128 \<and> find_proposal k db = Some r \<and>
     \<not> pr_confirmed r \<and> pp_proposed_by (pr_proposal r) \<noteq> who \<and> clock env 0 \<noteq> 0 \<and> pr_proposed_at r \<le> pg_ts env (clock env 0) \<and>
     new_uuid env 1 \<notin> set (outbox_ids db))"

lemma Confirm_confirmable:
  assumes ok: "ledger_ok c db" and cf: "confirmable env k who r db" and sha: "\<forall>m. length (sha256_fn c m) = 32"
    and post: "PostOutcome c sv k (nat (pp_quantity (pr_proposal r))) tb = (Inr tid, tb')"
  shows "if pp_classification (pr_proposal r) = ClassificationUnclassified
     then \<exists>e. Confirm c enc sv env k who (db, tb) = (Inl e, (db, tb'))
     else \<exists>entry db' row. Confirm c enc sv env k who (db, tb) = (Inr entry, (db', tb')) \<and> isr_outbox db' = isr_outbox db @ [row] \<and>
       EnvelopeClassificationOf (pp_classification (pr_proposal r)) = Inr (io_classification (ob_body row))"
proof -
  let ?e = "new_entry env r tid who"
  have r: "r \<in> set (proposals db)" "row_id r = k" using cf find_proposal_Some by (auto simp: confirmable_def)
  have pc: "proposal_checks (pr_proposal r)" and q: "nat (pp_quantity (pr_proposal r) mod 2 ^ 64) = nat (pp_quantity (pr_proposal r))"
    and un: "pr_proposal r \<notin> oe_proposal ` set (entries db)"
    using ok r cf ledger_quantity [OF ok r(1)] by (auto simp: ledger_ok_def proposal_row_ok_def confirmable_def)
  have dom: "oe_proposal x \<in> pr_proposal ` set (proposals db)" if "x \<in> set (entries db)" for x
    using ok that by (auto simp: ledger_ok_def entry_ok_def)
  have "k \<notin> entry_id ` set (entries db)"
  proof
    assume "k \<in> entry_id ` set (entries db)"
    then obtain x s where x: "x \<in> set (entries db)" "entry_id x = k" "s \<in> set (proposals db)" "oe_proposal x = pr_proposal s" using dom by blast
    then have "s = r" using ok r distinct_key_eq [of row_id "proposals db" s r] by (auto simp: ledger_ok_def)
    then show False using un x(1) x(4) [symmetric] by (metis imageI)
  qed
  moreover have "length (TransferIDHex tid) = 32 \<and> list_all is_lower_hex (TransferIDHex tid)"
    using hex_encode_lower [of "rev tid"] PostOutcome_Inr [OF post] sha by (simp add: TransferIDHex_eq xid_def)
  ultimately have chk: "entry_checks ?e (pg_ts env (oe_confirmed_at ?e)) db"
    using pc cf r by (auto simp: entry_checks_def new_entry_def proposal_checks_def confirmable_def)
  have cc: "confirm_checks env k who db = Inr r" using cf by (simp add: confirmable_def confirm_checks_Inr)
  have conf: "Confirm c enc sv env k who (db, tb) = (let (res, db') = run_tx db (record_entry c enc env k ?e db) in (res, (db', tb')))"
    using cc post r(2) q by (simp add: Confirm_def)
  obtain b ev where b: "EnvelopeClassificationOf (pp_classification (pr_proposal r)) = Inr b" "en_classification ev = b" "en_topic ev = TopicOutcome"
    "Seal c enc (new_uuid env 0) TopicOutcome (''outcome.'' @ pp_entry_kind (oe_proposal ?e)) (entry_id ?e) (pp_classification (oe_proposal ?e))
      (oe_confirmed_at ?e) (entry_json ?e) = Inr ev"
    using Seal_entry [of ?e "oe_confirmed_at ?e" c enc "new_uuid env 0"] pc cf by (auto simp: new_entry_def confirmable_def)
  have rec: "record_entry c enc env k ?e db = rbind (isr_outbox_insert env (new_uuid env 1) (outcome_event ev) (oe_confirmed_at ?e)
      (db\<lparr>entries := entries db @ [?e\<lparr>oe_confirmed_at := pg_ts env (oe_confirmed_at ?e)\<rparr>], proposals := map (close_proposal k) (proposals db)\<rparr>))
      (\<lambda>db2. Inr (?e, db2))"
    using cf chk b(4) by (simp add: record_entry_def confirmable_def Let_def)
  have fresh: "new_uuid env 1 \<notin> ob_event_id ` set (isr_outbox db)" using cf by (simp add: confirmable_def outbox_ids_def)
  show ?thesis
  proof (cases "valid_label b")
    case False
    then have "record_entry c enc env k ?e db = Inl (EDb ''violates check constraint'')"
      unfolding rec using b by (simp add: isr_outbox_insert_def outcome_event_def)
    then show ?thesis using False band_label [OF b(1)] conf by (simp add: run_tx_def)
  next
    case True
    then show ?thesis unfolding conf rec using b fresh band_label [OF b(1)]
      by (simp add: isr_outbox_insert_def outcome_event_def outbox_insert_def run_tx_def)
  qed
qed

section \<open>A concrete ledger\<close>

type_synonym tb_map = "uint128 \<Rightarrow> tb_transfer option"

definition map_transfer :: "tb_transfer \<Rightarrow> tb_map \<Rightarrow> tb_status \<times> tb_map" where
  "map_transfer t tb = (case tb (tf_id t) of None \<Rightarrow> (TBCreated, tb(tf_id t \<mapsto> t)) | Some u \<Rightarrow> (if u = t then TBExists else TBStatus 36, tb))"

fun map_transfers :: "tb_transfer list \<Rightarrow> tb_map \<Rightarrow> tb_status list \<times> tb_map" where
  "map_transfers [] tb = ([], tb)"
| "map_transfers (t # ts) tb = (let (s, tb1) = map_transfer t tb; (ss, tb2) = map_transfers ts tb1 in (s # ss, tb2))"

definition sample_service :: "tb_map ledger_service" where
  "sample_service = \<lparr>sv_client = \<lparr>CreateAccounts = (\<lambda>as tb. (Inr [], tb)),
     CreateTransfers = (\<lambda>ts tb. (Inr (fst (map_transfers ts tb)), snd (map_transfers ts tb)))\<rparr>, sv_ledger = 1, sv_code = 1\<rparr>"

lemma sample_service_spec: "tb_spec (sv_client sample_service) (\<lambda>tb i. tb i)"
  by (auto simp: tb_spec_def sample_service_def map_transfer_def status_ok_def Let_def split: option.splits if_splits)

definition sample_proposal :: "string \<Rightarrow> proposal" where
  "sample_proposal label = \<lparr>pp_entry_id = ''oe-1'', pp_entry_kind = EntryKindIncidentVerified, pp_incident_ref = ''inc-1'', pp_classification = label,
     pp_metric = MetricIncidentReduction, pp_quantity = 3, pp_unit = UnitIncidents, pp_proposed_by = ''ana''\<rparr>"

definition empty_ledger :: ledger_db where
  "empty_ledger = \<lparr>incidents = [], correlations = [], assignments = [], incident_outbox = [], feed_sources = [], feed_events = [],
     feed_revocations = [], key_rotations = [], isr_events = [], isr_outbox = [], proposals = [], entries = []\<rparr>"

definition proposed_ledger :: "string \<Rightarrow> ledger_db" where
  "proposed_ledger label = empty_ledger\<lparr>proposals := [\<lparr>pr_proposal = sample_proposal label, pr_proposed_at = 7, pr_confirmed = False\<rparr>]\<rparr>"

lemma empty_ledger_ok: "ledger_ok c empty_ledger" "entries empty_ledger = []"
  by (simp_all add: ledger_ok_def empty_ledger_def)

lemma sample_proposal_checks: "valid_label label \<Longrightarrow> proposal_checks (sample_proposal label)"
proof -
  assume "valid_label label"
  moreover have "identifierPattern ''oe-1''" "identifierPattern ''inc-1''" "identifierPattern ''ana''" by code_simp+
  ultimately show ?thesis by (simp add: proposal_checks_def sample_proposal_def kind_binding_def)
qed

lemma sample_propose:
  assumes "valid_label label"
  shows "Propose (calm_env 7 ''u'') (sample_proposal label) empty_ledger = (Inr (), proposed_ledger label)"
proof -
  have "Proposal_Validate (sample_proposal label) = None"
    using assms by (simp add: Proposal_Validate_def sample_proposal_def valid_label_def EntryKindIncidentVerified_def EntryKindPremiumDelta_def
        split: sum.splits)
  then show ?thesis using sample_proposal_checks [OF assms]
    by (simp add: Propose_def find_proposal_def empty_ledger_def proposed_ledger_def run_tx_def calm_env_def)
qed

lemma proposed_ledger_ok: "valid_label label \<Longrightarrow> ledger_ok c (proposed_ledger label)"
  using Propose_ok [OF sample_propose empty_ledger_ok(1)] by (simp add: sample_proposal_def max_int64_def)

lemma sample_confirmable:
  "confirmable (calm_env 9 ''u'') ''oe-1'' ''ben'' \<lparr>pr_proposal = sample_proposal label, pr_proposed_at = 7, pr_confirmed = False\<rparr> (proposed_ledger label)"
  by (simp add: confirmable_def calm_env_def find_proposal_def proposed_ledger_def sample_proposal_def empty_ledger_def outbox_ids_def)

lemma sample_post:
  "PostOutcome toy_crypto sample_service ''oe-1'' 3 Map.empty =
     (Inr (xid toy_crypto ''oe-1''), [xid toy_crypto ''oe-1'' \<mapsto> outcome_transfer sample_service (xid toy_crypto ''oe-1'') 3])"
proof -
  have "trim_space ''oe-1'' \<noteq> []" by code_simp
  then show ?thesis by (simp add: PostOutcome_def EntryTransferID_def xid_def sample_service_def map_transfer_def outcome_transfer_def status_ok_def)
qed

lemma toy_sha_length: "\<forall>m. length (sha256_fn toy_crypto m) = 32" by (simp add: toy_crypto_def)

lemma sample_quantity [simp]: "pp_quantity (sample_proposal label) = 3" "pp_classification (sample_proposal label) = label"
  by (simp_all add: sample_proposal_def)

lemma sample_secret:
  obtains e db tb where "Confirm toy_crypto (\<lambda>_. [0]) sample_service (calm_env 9 ''u'') ''oe-1'' ''ben'' (proposed_ledger ''SECRET'', Map.empty) = (Inr e, (db, tb))"
    "ledger_reach toy_crypto (\<lambda>_. [0]) sample_service (empty_ledger, Map.empty) (db, tb)" "length (entries db) = 1"
proof -
  have v: "valid_label ''SECRET''" by code_simp
  obtain e db tb where cf: "Confirm toy_crypto (\<lambda>_. [0]) sample_service (calm_env 9 ''u'') ''oe-1'' ''ben'' (proposed_ledger ''SECRET'', Map.empty) = (Inr e, (db, tb))"
    using Confirm_confirmable [OF proposed_ledger_ok [OF v] sample_confirmable toy_sha_length, of sample_service Map.empty "xid toy_crypto ''oe-1''"
        "[xid toy_crypto ''oe-1'' \<mapsto> outcome_transfer sample_service (xid toy_crypto ''oe-1'') 3]" "\<lambda>_. [0]"] sample_post
    by (auto simp: label_defs)
  have "ledger_reach toy_crypto (\<lambda>_. [0]) sample_service (empty_ledger, Map.empty) (proposed_ledger ''SECRET'', Map.empty)"
    by (rule ledger_reach.step [OF ledger_reach.refl ledger_step.propose [OF sample_propose [OF v]]]) (simp add: max_int64_def)
  then have reach: "ledger_reach toy_crypto (\<lambda>_. [0]) sample_service (empty_ledger, Map.empty) (db, tb)"
    by (rule ledger_reach.step) (rule ledger_step.confirm [OF cf])
  obtain r tid where "record_entry toy_crypto (\<lambda>_. [0]) (calm_env 9 ''u'') ''oe-1'' (new_entry (calm_env 9 ''u'') r tid ''ben'') (proposed_ledger ''SECRET'') = Inr (e, db)"
    using Confirm_Inr [OF cf] by metis
  then have "length (entries db) = 1" by (rule record_entry_Inr) (simp add: proposed_ledger_def empty_ledger_def)
  then show thesis using that cf reach by blast
qed

section \<open>Properties of the outcome ledger\<close>

text \<open>
  C13. Safety of the outcome ledger through every sequence of proposals, confirmations (with faults
  at any statement) and other platform steps. Entry ids stay unique; a confirmed entry is never
  changed or removed, and a proposal only ever closes; a proposal is closed exactly when its entry
  exists; every entry restates its proposal, was confirmed by a second principal, has a positive
  quantity that fits int64, carries the transfer id derived from its entry id, and has its
  envelope in the outbox with the label of the proposal as clearance.
\<close>

theorem ledger_reach_safe:
  assumes "ledger_reach c enc sv (db0, tb0) (db, tb)" and "ledger_ok c db0"
  shows "distinct (map row_id (proposals db)) \<and> distinct (map entry_id (entries db)) \<and> prefix (entries db0) (entries db) \<and>
    prefix (map pr_proposal (proposals db0)) (map pr_proposal (proposals db)) \<and>
    (\<forall>r \<in> set (proposals db). pr_confirmed r \<longleftrightarrow> (\<exists>e \<in> set (entries db). oe_proposal e = pr_proposal r)) \<and>
    (\<forall>e \<in> set (entries db). oe_proposal e \<in> set (map pr_proposal (proposals db)) \<and> pp_proposed_by (oe_proposal e) \<noteq> oe_confirmed_by e \<and>
       0 < pp_quantity (oe_proposal e) \<and> pp_quantity (oe_proposal e) \<le> max_int64 \<and> kind_binding (oe_proposal e) \<and>
       oe_transfer_id e = TransferIDHex (take 16 (sha256_fn c (bytes_of_string (''outcome-ledger:'' @ entry_id e)))) \<and>
       (\<exists>b \<in> set (bodies db). io_topic b = TopicOutcome \<and> io_aggregate_key b = entry_id e \<and>
          en_clearance (io_payload b) = pp_classification (oe_proposal e)))"
proof -
  have ok: "ledger_ok c db" "prefix (entries db0) (entries db)" "prefix (map pr_proposal (proposals db0)) (map pr_proposal (proposals db))"
    using ledger_reach_ok [OF assms(1)] assms(2) by simp_all
  have row: "proposal_checks (pr_proposal r) \<and> pp_quantity (pr_proposal r) \<le> max_int64 \<and> (pr_confirmed r \<longleftrightarrow> (\<exists>e \<in> set (entries db). oe_proposal e = pr_proposal r))"
    if "r \<in> set (proposals db)" for r using ok(1) that by (auto simp: ledger_ok_def proposal_row_ok_def image_iff Bex_def)
  have ent: "pp_proposed_by (oe_proposal e) \<noteq> oe_confirmed_by e \<and> oe_transfer_id e = TransferIDHex (xid c (entry_id e)) \<and>
      oe_proposal e \<in> pr_proposal ` set (proposals db) \<and> outcome_announced (bodies db) e" if "e \<in> set (entries db)" for e
    using ok(1) that by (simp add: ledger_ok_def entry_ok_def)
  have "0 < pp_quantity p \<and> pp_quantity p \<le> max_int64 \<and> kind_binding p" if "p \<in> pr_proposal ` set (proposals db)" for p
    using that row by (auto simp: proposal_checks_def)
  then show ?thesis using ok row ent by (auto simp: ledger_ok_def xid_def outcome_announced_def)
qed

theorem ledger_reach_safe_witness:
  "\<exists>db tb. ledger_reach toy_crypto (\<lambda>_. [0]) sample_service (empty_ledger, Map.empty) (db, tb) \<and>
     (\<exists>e. entries db = [e] \<and> pp_proposed_by (oe_proposal e) \<noteq> oe_confirmed_by e)"
proof -
  obtain e db tb where r: "ledger_reach toy_crypto (\<lambda>_. [0]) sample_service (empty_ledger, Map.empty) (db, tb)" "length (entries db) = 1"
    by (rule sample_secret) blast
  then obtain e where "entries db = [e]" by (cases "entries db") auto
  then show ?thesis using r ledger_reach_safe [OF r(1) empty_ledger_ok(1)] by auto
qed

text \<open>
  C5. Database and TigerBeetle agree through every run, whatever fails on the way: every confirmed
  entry has its transfer, debit and credit accounts, ledger, code and exact quantity included; a
  transfer that was there before is untouched; and every transfer posted since belongs to a
  recorded proposal with exactly its quantity, so a confirmation that was retried after a crash
  between the two stores has posted once. TigerBeetle is assumed to behave as documented.
\<close>

theorem ledger_books_agree:
  assumes "tb_spec (sv_client sv) look" and "ledger_reach c enc sv (db0, tb0) (db, tb)" and "ledger_ok c db0" and "entries db0 = []"
  shows "(\<forall>e \<in> set (entries db). look tb (xid c (entry_id e)) = Some (outcome_transfer sv (xid c (entry_id e)) (nat (pp_quantity (oe_proposal e))))) \<and>
    (\<forall>i. look tb i = look tb0 i \<or> (look tb0 i = None \<and> (\<exists>r \<in> set (proposals db). i = xid c (row_id r) \<and>
       look tb i = Some (outcome_transfer sv i (nat (pp_quantity (pr_proposal r)))))))"
proof -
  have "books_ok c sv look tb0 (db0, tb0)" using assms(4) by (auto simp: books_ok_def)
  then have bk: "books_ok c sv look tb0 (db, tb)" by (intro ledger_reach_books [OF assms(2,1)]) (use assms in simp_all)
  have "look tb i = look tb0 i \<or> (look tb0 i = None \<and> (\<exists>r \<in> set (proposals db). i = xid c (row_id r) \<and>
       look tb i = Some (outcome_transfer sv i (nat (pp_quantity (pr_proposal r))))))" for i
  proof (cases "look tb0 i = None \<and> look tb i \<noteq> None")
    case True
    then obtain p where "p \<in> set (map pr_proposal (proposals db))" "i = xid c (pp_entry_id p)" "booked c sv look tb p"
      using bk unfolding books_ok_def fst_conv snd_conv by blast
    then show ?thesis using True by (auto simp: booked_def)
  next
    case False
    have "look tb0 i \<noteq> None \<longrightarrow> look tb i = look tb0 i" using bk unfolding books_ok_def by simp
    then have "look tb i = look tb0 i" using False by metis
    then show ?thesis by simp
  qed
  then show ?thesis using bk by (simp add: books_ok_def booked_def)
qed

theorem ledger_books_agree_witness:
  "\<exists>db tb. ledger_reach toy_crypto (\<lambda>_. [0]) sample_service (empty_ledger, Map.empty) (db, tb) \<and>
     (\<exists>e t. entries db = [e] \<and> tb (xid toy_crypto (entry_id e)) = Some t \<and> tf_amount t = nat (pp_quantity (oe_proposal e)))"
proof -
  obtain e db tb where r: "ledger_reach toy_crypto (\<lambda>_. [0]) sample_service (empty_ledger, Map.empty) (db, tb)" "length (entries db) = 1"
    by (rule sample_secret) blast
  then obtain e where e: "entries db = [e]" by (cases "entries db") auto
  then have "tb (xid toy_crypto (entry_id e)) = Some (outcome_transfer sample_service (xid toy_crypto (entry_id e)) (nat (pp_quantity (oe_proposal e))))"
    using ledger_books_agree [OF sample_service_spec r(1) empty_ledger_ok, THEN conjunct1] by simp
  moreover have "tf_amount (outcome_transfer sv i q) = q" for sv :: "tb_map ledger_service" and i q by (simp add: outcome_transfer_def)
  ultimately show ?thesis using r(1) e by blast
qed

text \<open>
  C34. The outcome of a confirmation that meets no fault, no race and an accepting TigerBeetle
  depends on the label of the proposal. The outbox row is labelled with the platform band of the
  envelope: for an UNCLASSIFIED proposal that band is not a label the table accepts, so the
  confirmation always fails after its transfer has been posted and the entry never exists; for the
  other labels it succeeds with the band as label, which is CONFIDENTIAL for a SECRET proposal.
\<close>

theorem Confirm_depends_on_label:
  assumes "ledger_ok c db" and "confirmable env k who r db" and "\<forall>m. length (sha256_fn c m) = 32"
    and "PostOutcome c sv k (nat (pp_quantity (pr_proposal r))) tb = (Inr tid, tb')"
  shows "if pp_classification (pr_proposal r) = ClassificationUnclassified
     then \<exists>e. Confirm c enc sv env k who (db, tb) = (Inl e, (db, tb'))
     else \<exists>entry db' row. Confirm c enc sv env k who (db, tb) = (Inr entry, (db', tb')) \<and> isr_outbox db' = isr_outbox db @ [row] \<and>
       EnvelopeClassificationOf (pp_classification (pr_proposal r)) = Inr (io_classification (ob_body row))"
  using assms by (rule Confirm_confirmable)

theorem Confirm_depends_on_label_witness:
  "(\<exists>e tb. Confirm toy_crypto (\<lambda>_. [0]) sample_service (calm_env 9 ''u'') ''oe-1'' ''ben'' (proposed_ledger ''UNCLASSIFIED'', Map.empty) =
      (Inl e, (proposed_ledger ''UNCLASSIFIED'', tb)) \<and> tb \<noteq> Map.empty) \<and>
   (\<exists>e db tb row. Confirm toy_crypto (\<lambda>_. [0]) sample_service (calm_env 9 ''u'') ''oe-1'' ''ben'' (proposed_ledger ''SECRET'', Map.empty) =
      (Inr e, (db, tb)) \<and> isr_outbox db = [row] \<and> io_classification (ob_body row) = ''CONFIDENTIAL'')"
proof -
  have v: "valid_label ''UNCLASSIFIED''" "valid_label ''SECRET''" by code_simp+
  have p: "PostOutcome toy_crypto sample_service ''oe-1'' (nat (pp_quantity (pr_proposal \<lparr>pr_proposal = sample_proposal l, pr_proposed_at = 7, pr_confirmed = False\<rparr>))) Map.empty =
     (Inr (xid toy_crypto ''oe-1''), [xid toy_crypto ''oe-1'' \<mapsto> outcome_transfer sample_service (xid toy_crypto ''oe-1'') 3])" for l
    using sample_post by simp
  have n: "[xid toy_crypto ''oe-1'' \<mapsto> outcome_transfer sample_service (xid toy_crypto ''oe-1'') 3] \<noteq> Map.empty" by simp
  have e: "isr_outbox (proposed_ledger l) = []" for l by (simp add: proposed_ledger_def empty_ledger_def)
  show ?thesis
    using Confirm_depends_on_label [OF proposed_ledger_ok [OF v(1)] sample_confirmable toy_sha_length p, of "\<lambda>_. [0]"] n
      Confirm_depends_on_label [OF proposed_ledger_ok [OF v(2)] sample_confirmable toy_sha_length p, of "\<lambda>_. [0]"]
    by (fastforce simp: label_defs e EnvelopeClassificationOf_def envelope_defs)
qed

end
