(* ===== verification/TrackStore.thy ===== *)
theory TrackStore
  imports Ledger FusionProps
begin

text \<open>
  \<open>internal/tracks/store.go\<close>, \<open>internal/tracks/scanner.go\<close> and \<open>ListAnomalies\<close> of
  \<open>internal/isr/access.go\<close>: the tables of migration 0008 with their constraints, the recording
  of a fusion result and of scan anomalies, the association listing for the startup replay, and
  the scanner. The text of an anomaly is rendered from the parts the engine model keeps. The
  collation of the database is a parameter.
\<close>

section \<open>Rendering anomaly texts\<close>

text \<open>\<open>%.1f\<close> and \<open>%.0f\<close>: the exact value rounded to the given number of decimals.\<close>

fun show_fixed :: "nat \<Rightarrow> f64 \<Rightarrow> string" where
  "show_fixed p NaN = ''NaN''"
| "show_fixed p PInf = ''+Inf''"
| "show_fixed p NInf = ''-Inf''"
| "show_fixed p (Fin q) =
     (let n = rne (\<bar>q\<bar> * 10 ^ p)
      in (if q < 0 then ''-'' else []) @ show_dec (n div 10 ^ p) @ (if p = 0 then [] else ''.'' @ pad_int p (n mod 10 ^ p)))"

definition show_frac :: "nat \<Rightarrow> int \<Rightarrow> string" where
  "show_frac p v = (if v = 0 then [] else CHR ''.'' # rev (dropWhile (\<lambda>c. c = CHR ''0'') (rev (pad_int p v))))"

text \<open>\<open>time.Duration.String\<close> of a non-negative duration.\<close>

definition duration_String :: "duration \<Rightarrow> string" where
  "duration_String u =
     (if u = 0 then ''0s''
      else if u < 1000 then show_dec u @ ''ns''
      else if u < 1000000 then show_dec (u div 1000) @ show_frac 3 (u mod 1000) @ [CHR 0xC2, CHR 0xB5, CHR ''s'']
      else if u < second then show_dec (u div 1000000) @ show_frac 6 (u mod 1000000) @ ''ms''
      else (let s = u div second; m = s div 60; h = m div 60 in
            (if 0 < h then show_dec h @ ''h'' else []) @ (if 0 < m then show_dec (m mod 60) @ ''m'' else []) @
            show_dec (s mod 60) @ show_frac 9 (u mod second) @ ''s''))"

fun detail_text :: "anomaly_detail \<Rightarrow> string" where
  "detail_text (SpeedDetail knots base) = ''implied leg speed '' @ show_fixed 1 knots @ '' kn exceeds baseline '' @ show_fixed 1 base @ '' kn''"
| "detail_text (LoiterDetail zid d) = ''track inside restricted zone '' @ zid @ '' for >= '' @ duration_String d"
| "detail_text (RendezvousDetail r d) = ''tracks within '' @ show_fixed 0 r @ '' m for >= '' @ duration_String d"
| "detail_text (DarkDetail d zid) = ''AIS silent for >= '' @ duration_String d @ '' inside zone '' @ zid"
| "detail_text (CvDetail camera track confidence model) =
     ''cv dark-vessel observation camera='' @ camera @ '' track='' @ track @ '' confidence='' @ show_fixed 2 confidence @ '' model='' @ model"

text \<open>PostgreSQL's \<open>length\<close> counts characters, that is bytes that do not continue one in UTF-8.\<close>

definition pg_length :: "string \<Rightarrow> nat" where
  "pg_length s = length (filter (\<lambda>c. code_of c < 128 \<or> 192 \<le> code_of c) s)"

section \<open>Tables\<close>

record track_row =
  vt_track_id :: string
  vt_mmsi :: "string option"
  vt_classification :: classification
  vt_first_observed_at :: gotime
  vt_last_observed_at :: gotime
  vt_point_count :: nat
  vt_updated_at :: gotime

record association =
  as_track_id :: string
  as_source_id :: string
  as_source_event_id :: string
  as_modality :: string
  as_classification :: classification
  as_observed_at :: gotime
  as_associated_at :: gotime

record retained_anomaly =
  ra_id :: string
  ra_kind :: string
  ra_classification :: classification
  ra_track_ids :: "string list"
  ra_zone_id :: "string option"
  ra_detail :: string
  ra_correlation_refs :: "string list"
  ra_detected_at :: gotime

record track_db = ledger_db +
  vessel_tracks :: "track_row list"
  associations :: "association list"
  anomalies :: "retained_anomaly list"

definition nullable :: "string \<Rightarrow> string option" where
  "nullable v = (if v = [] then None else Some v)"

section \<open>Recording\<close>

definition new_track_row :: "db_env \<Rightarrow> track \<Rightarrow> track_row" where
  "new_track_row env t =
     \<lparr>vt_track_id = tk_id t, vt_mmsi = nullable (tk_mmsi t), vt_classification = tk_classification t,
      vt_first_observed_at = pg_ts env (tp_observed_at (hd (tk_points t))),
      vt_last_observed_at = pg_ts env (tp_observed_at (last (tk_points t))),
      vt_point_count = length (tk_points t), vt_updated_at = pg_ts env (clock env 0)\<rparr>"

definition track_row_checks :: "track_row \<Rightarrow> bool" where
  "track_row_checks r = (identifierPattern (vt_track_id r) \<and> (case vt_mmsi r of None \<Rightarrow> True | Some m \<Rightarrow> mmsiPattern m) \<and>
     valid_label (vt_classification r) \<and> vt_point_count r < 2 ^ 31)"

text \<open>The SET list of the conflict branch: the known MMSI stays, the last observation is the later one.\<close>

definition merge_track_row :: "track_row \<Rightarrow> track_row \<Rightarrow> track_row" where
  "merge_track_row new old =
     old\<lparr>vt_mmsi := (case vt_mmsi old of None \<Rightarrow> vt_mmsi new | Some m \<Rightarrow> Some m), vt_classification := vt_classification new,
         vt_last_observed_at := max (vt_last_observed_at old) (vt_last_observed_at new),
         vt_point_count := vt_point_count new, vt_updated_at := vt_updated_at new\<rparr>"

definition upsert_track :: "track_row \<Rightarrow> track_row list \<Rightarrow> track_row list" where
  "upsert_track r rows =
     (if vt_track_id r \<in> set (map vt_track_id rows)
      then map (\<lambda>x. if vt_track_id x = vt_track_id r then merge_track_row r x else x) rows
      else rows @ [r])"

definition new_association :: "db_env \<Rightarrow> track \<Rightarrow> detection \<Rightarrow> association" where
  "new_association env t d =
     \<lparr>as_track_id = tk_id t, as_source_id = d_source_id d, as_source_event_id = d_source_event_id d, as_modality = d_modality d,
      as_classification = d_classification d, as_observed_at = pg_ts env (d_observed_at d), as_associated_at = pg_ts env (clock env 1)\<rparr>"

definition as_key :: "association \<Rightarrow> string \<times> string" where
  "as_key a = (as_source_id a, as_source_event_id a)"

definition insert_association :: "association \<Rightarrow> association list \<Rightarrow> association list" where
  "insert_association a rows = (if as_key a \<in> set (map as_key rows) then rows else rows @ [a])"

definition association_checks :: "association \<Rightarrow> track_row list \<Rightarrow> bool" where
  "association_checks a rows = (as_track_id a \<in> set (map vt_track_id rows) \<and> valid_label (as_classification a) \<and>
     as_modality a \<in> {ModalityAIS, ModalitySAR, ModalityRF, ModalityAcoustic, ModalityOptical})"

definition anomaly_json :: "anomaly \<Rightarrow> json" where
  "anomaly_json a =
     JObj ([(''anomaly_id'', JStr (an_id a)), (''kind'', JStr (an_kind a)), (''track_ids'', JArr (map JStr (an_track_ids a)))] @
       opt_str ''zone_id'' (an_zone_id a) @
       [(''classification'', JStr (an_classification a)), (''detected_at'', JStr (format_rfc3339nano (an_detected_at a))),
        (''detail'', JStr (detail_text (an_detail a)))] @
       (if an_correlation_refs a = [] then [] else [(''correlation_refs'', JArr (map JStr (an_correlation_refs a)))]))"

definition anomaly_row :: "db_env \<Rightarrow> anomaly \<Rightarrow> retained_anomaly" where
  "anomaly_row env a =
     \<lparr>ra_id = an_id a, ra_kind = an_kind a, ra_classification = an_classification a, ra_track_ids = an_track_ids a,
      ra_zone_id = nullable (an_zone_id a), ra_detail = detail_text (an_detail a), ra_correlation_refs = an_correlation_refs a,
      ra_detected_at = pg_ts env (an_detected_at a)\<rparr>"

definition anomaly_id_pattern :: "string \<Rightarrow> bool" where
  "anomaly_id_pattern s = matches_ident 191 s"

definition anomaly_checks :: "retained_anomaly \<Rightarrow> bool" where
  "anomaly_checks r = (anomaly_id_pattern (ra_id r) \<and> ra_kind r \<in> {AnomalyDarkVessel, AnomalySpeedOutlier, AnomalyRendezvous, AnomalyLoitering} \<and>
     valid_label (ra_classification r) \<and> 1 \<le> pg_length (ra_detail r) \<and> pg_length (ra_detail r) \<le> 1024)"

text \<open>The n-th anomaly of a transaction whose anomaly statements start at call b.\<close>

definition recordAnomalyInTransaction ::
  "crypto \<Rightarrow> (json \<Rightarrow> bytes) \<Rightarrow> db_env \<Rightarrow> nat \<Rightarrow> nat \<Rightarrow> anomaly \<Rightarrow> 'a track_db_scheme \<Rightarrow> 'a track_db_scheme result" where
  "recordAnomalyInTransaction c enc env b n a db =
     db_call env (b + 2 * n) ''record anomaly''
      (require (anomaly_checks (anomaly_row env a)) (EDb ''record anomaly: violates check constraint'')
       (if an_id a \<in> set (map ra_id (anomalies db)) then Inr db
        else rbind (Seal c enc (new_uuid env (2 * n)) TopicBehaviour (''behaviour.'' @ an_kind a) (an_id a) (an_classification a) (an_detected_at a) (anomaly_json a))
          (\<lambda>e. db_call env (b + 2 * n + 1) ''write anomaly outbox event''
            (isr_outbox_insert env (new_uuid env (2 * n + 1)) (detection_event e) (an_detected_at a)
              (db\<lparr>anomalies := anomalies db @ [anomaly_row env a]\<rparr>)))))"

fun record_all ::
  "crypto \<Rightarrow> (json \<Rightarrow> bytes) \<Rightarrow> db_env \<Rightarrow> nat \<Rightarrow> nat \<Rightarrow> anomaly list \<Rightarrow> 'a track_db_scheme \<Rightarrow> 'a track_db_scheme result" where
  "record_all c enc env b n [] db = Inr db"
| "record_all c enc env b n (a # as) db =
     rbind (recordAnomalyInTransaction c enc env b n a db) (record_all c enc env b (Suc n) as)"

definition RecordFusion ::
  "crypto \<Rightarrow> (json \<Rightarrow> bytes) \<Rightarrow> db_env \<Rightarrow> track \<Rightarrow> detection \<Rightarrow> anomaly list \<Rightarrow> 'a track_db_scheme \<Rightarrow> unit result \<times> 'a track_db_scheme" where
  "RecordFusion c enc env t d as db =
     run_tx db
      (require (tk_points t \<noteq> []) (EMsg ''track has no points'')
       (db_call env 0 ''begin fusion record''
        (db_call env 1 ''upsert track''
         (require (track_row_checks (new_track_row env t)) (EDb ''upsert track: violates check constraint'')
          (let db1 = db\<lparr>vessel_tracks := upsert_track (new_track_row env t) (vessel_tracks db)\<rparr> in
           db_call env 2 ''record association audit''
            (require (association_checks (new_association env t d) (vessel_tracks db1)) (EDb ''record association audit: violates constraint'')
             (let db2 = db1\<lparr>associations := insert_association (new_association env t d) (associations db1)\<rparr> in
              rbind (record_all c enc env 3 0 as db2)
               (\<lambda>db3. db_call env (3 + 2 * length as) ''commit fusion record'' (Inr ((), db3))))))))))"

definition RecordAnomalies ::
  "crypto \<Rightarrow> (json \<Rightarrow> bytes) \<Rightarrow> db_env \<Rightarrow> anomaly list \<Rightarrow> 'a track_db_scheme \<Rightarrow> unit result \<times> 'a track_db_scheme" where
  "RecordAnomalies c enc env as db =
     run_tx db
      (if as = [] then Inr ((), db)
       else db_call env 0 ''begin anomaly record''
        (rbind (record_all c enc env 1 0 as db) (\<lambda>db'. db_call env (1 + 2 * length as) ''commit'' (Inr ((), db')))))"

section \<open>Startup listing\<close>

record association_replay =
  ar_track_id :: string
  ar_payload :: bytes

definition join_event :: "(bytes \<Rightarrow> bytes) \<Rightarrow> isr_event list \<Rightarrow> association \<Rightarrow> association_replay list" where
  "join_event jsonb evs a =
     map (\<lambda>e. \<lparr>ar_track_id = as_track_id a, ar_payload = jsonb (iv_payload e)\<rparr>)
       (filter (\<lambda>e. iv_source_id e = as_source_id a \<and> iv_source_event_id e = as_source_event_id a) evs)"

definition replay_order :: "(string \<Rightarrow> string) \<Rightarrow> association \<Rightarrow> gotime \<times> gotime \<times> string \<times> string" where
  "replay_order coll a = (as_observed_at a, as_associated_at a, coll (as_source_id a), coll (as_source_event_id a))"

definition ListAssociationsForReplay ::
  "(string \<Rightarrow> string) \<Rightarrow> (bytes \<Rightarrow> bytes) \<Rightarrow> db_env \<Rightarrow> 'a track_db_scheme \<Rightarrow> association_replay list result" where
  "ListAssociationsForReplay coll jsonb env db =
     db_call env 0 ''query track associations for replay''
      (db_call env 1 ''iterate track association replay''
        (Inr (concat (map (join_event jsonb (isr_events db)) (sort_key (replay_order coll) (associations db))))))"

section \<open>The scanner\<close>

record scanner =
  sc_interval :: duration

definition NewDarkVesselScanner :: "bool \<Rightarrow> bool \<Rightarrow> duration \<Rightarrow> scanner result" where
  "NewDarkVesselScanner hasEngine hasRecorder interval =
     require hasEngine (EMsg ''dark-vessel scanner requires a fusion engine'')
      (require hasRecorder (EMsg ''dark-vessel scanner requires an anomaly recorder'')
       (require (0 < interval) (EMsg ''dark-vessel scan interval must be positive'')
        (Inr \<lparr>sc_interval = interval\<rparr>)))"

text \<open>One tick: its map order, its clock and its database environment.\<close>

record tick =
  ti_order :: "string list"
  ti_now :: gotime
  ti_env :: db_env

definition scanOnce ::
  "crypto \<Rightarrow> (json \<Rightarrow> bytes) \<Rightarrow> tick \<Rightarrow> engine \<times> 'a track_db_scheme \<Rightarrow> engine \<times> 'a track_db_scheme" where
  "scanOnce c enc i st =
     (let ((as, lat), eng') = ScanDarkVessels (ti_order i) (ti_now i) (fst st) in
      if as = [] then (eng', snd st)
      else (case RecordAnomalies c enc (ti_env i) as (snd st) of
              (Inl e, db') \<Rightarrow> (eng', db')
            | (Inr _, db') \<Rightarrow> (eng', db')))"

text \<open>The scanner runs once at the start and on each tick until it is cancelled.\<close>

definition scanner_Run ::
  "crypto \<Rightarrow> (json \<Rightarrow> bytes) \<Rightarrow> tick \<Rightarrow> tick list \<Rightarrow> engine \<times> 'a track_db_scheme \<Rightarrow> engine \<times> 'a track_db_scheme" where
  "scanner_Run c enc first ticks st = fold (scanOnce c enc) ticks (scanOnce c enc first st)"

section \<open>Listing anomalies\<close>

record anomaly_filter =
  af_kind :: string
  af_since :: gotime
  af_limit :: int

definition anomaly_matches :: "anomaly_filter \<Rightarrow> string list \<Rightarrow> retained_anomaly \<Rightarrow> bool" where
  "anomaly_matches f labels r =
     (ra_classification r \<in> set labels \<and> (af_kind f = [] \<or> ra_kind r = af_kind f) \<and> (af_since f = 0 \<or> af_since f \<le> ra_detected_at r))"

definition select_anomalies :: "anomaly_filter \<Rightarrow> string list \<Rightarrow> retained_anomaly list \<Rightarrow> retained_anomaly list" where
  "select_anomalies f labels rows =
     take (effective_limit (af_limit f)) (sort_key (\<lambda>r. - ra_detected_at r) (filter (anomaly_matches f labels) rows))"

fun scan_anomalies :: "principal \<Rightarrow> retained_anomaly list \<Rightarrow> retained_anomaly list result" where
  "scan_anomalies p [] = Inr []"
| "scan_anomalies p (r # rs) =
     validated (CanReadTracks p (ra_classification r)) (rbind (scan_anomalies p rs) (\<lambda>ys. Inr (r # ys)))"

definition ListAnomalies :: "db_env \<Rightarrow> principal \<Rightarrow> anomaly_filter \<Rightarrow> 'a track_db_scheme \<Rightarrow> retained_anomaly list result" where
  "ListAnomalies env p f db =
     validated (CanReadTracks p ClassificationUnclassified)
      (rbind (clearanceCeiling p)
        (\<lambda>ceil. db_call env 0 ''list anomalies''
          (rbind (scan_anomalies p (select_anomalies f (coveredLabels ceil) (anomalies db)))
            (\<lambda>rs. db_call env 1 ''list anomalies'' (Inr rs)))))"

section \<open>The invariant of the track tables\<close>

definition behaviour_announced :: "isr_outbox_event list \<Rightarrow> retained_anomaly \<Rightarrow> bool" where
  "behaviour_announced bs r = (\<exists>b \<in> set bs. io_topic b = TopicBehaviour \<and> io_event_type b = ''behaviour.'' @ ra_kind r \<and>
     io_aggregate_key b = ra_id r \<and> io_classification b = ra_classification r)"

definition anomalies_ok :: "'a track_db_scheme \<Rightarrow> bool" where
  "anomalies_ok db = (distinct (map ra_id (anomalies db)) \<and>
     (\<forall>r \<in> set (anomalies db). anomaly_checks r \<and> behaviour_announced (bodies db) r))"

definition track_rows_ok :: "'a track_db_scheme \<Rightarrow> bool" where
  "track_rows_ok db = (distinct (map vt_track_id (vessel_tracks db)) \<and> (\<forall>r \<in> set (vessel_tracks db). track_row_checks r) \<and>
     distinct (map as_key (associations db)) \<and> (\<forall>a \<in> set (associations db). association_checks a (vessel_tracks db)))"

lemma behaviour_announced_mono: "behaviour_announced bs r \<Longrightarrow> set bs \<subseteq> set bs' \<Longrightarrow> behaviour_announced bs' r"
  by (auto simp: behaviour_announced_def)

lemma recordAnomaly_Inr:
  assumes "recordAnomalyInTransaction c enc env b n a db = Inr db'"
  obtains (known) "db' = db" "an_id a \<in> set (map ra_id (anomalies db))"
  | (recorded) e where "an_id a \<notin> set (map ra_id (anomalies db))" "anomaly_checks (anomaly_row env a)"
      "Seal c enc (new_uuid env (2 * n)) TopicBehaviour (''behaviour.'' @ an_kind a) (an_id a) (an_classification a) (an_detected_at a) (anomaly_json a) = Inr e"
      "db' = db\<lparr>anomalies := anomalies db @ [anomaly_row env a],
         isr_outbox := isr_outbox db @ [new_outbox_row env (new_uuid env (2 * n + 1)) (detection_event e) (an_detected_at a)]\<rparr>"
proof (cases "an_id a \<in> set (map ra_id (anomalies db))")
  case True
  then have "db' = db" using assms by (simp add: recordAnomalyInTransaction_def del: set_map)
  then show thesis using known True by blast
next
  case False
  let ?seal = "Seal c enc (new_uuid env (2 * n)) TopicBehaviour (''behaviour.'' @ an_kind a) (an_id a) (an_classification a) (an_detected_at a) (anomaly_json a)"
  have ins: "rbind ?seal (\<lambda>e. db_call env (b + 2 * n + 1) ''write anomaly outbox event''
      (isr_outbox_insert env (new_uuid env (2 * n + 1)) (detection_event e) (an_detected_at a)
        (db\<lparr>anomalies := anomalies db @ [anomaly_row env a]\<rparr>))) = Inr db'" and chk: "anomaly_checks (anomaly_row env a)"
    using assms False by (simp_all add: recordAnomalyInTransaction_def del: set_map)
  obtain e where e: "?seal = Inr e" using ins by (cases ?seal) auto
  then have "isr_outbox_insert env (new_uuid env (2 * n + 1)) (detection_event e) (an_detected_at a)
        (db\<lparr>anomalies := anomalies db @ [anomaly_row env a]\<rparr>) = Inr db'" using ins by simp
  then have "db' = db\<lparr>anomalies := anomalies db @ [anomaly_row env a],
      isr_outbox := isr_outbox db @ [new_outbox_row env (new_uuid env (2 * n + 1)) (detection_event e) (an_detected_at a)]\<rparr>"
    unfolding isr_outbox_insert_Inr by simp
  then show thesis using recorded False chk e by blast
qed

text \<open>What recording anomalies leaves alone, and what it adds.\<close>

definition anomaly_frame :: "'a track_db_scheme \<Rightarrow> 'a track_db_scheme \<Rightarrow> bool" where
  "anomaly_frame db db' = (vessel_tracks db' = vessel_tracks db \<and> associations db' = associations db \<and> isr_events db' = isr_events db \<and>
     prefix (anomalies db) (anomalies db') \<and> prefix (bodies db) (bodies db'))"

lemma anomaly_frame_refl [simp]: "anomaly_frame db db"
  by (simp add: anomaly_frame_def)

lemma anomaly_frame_trans: "anomaly_frame a b \<Longrightarrow> anomaly_frame b d \<Longrightarrow> anomaly_frame a d"
  unfolding anomaly_frame_def using prefix_order.trans by metis

lemma recordAnomaly_ok:
  assumes "recordAnomalyInTransaction c enc env b n a db = Inr db'"
  shows "anomaly_frame db db' \<and> (anomalies_ok db \<longrightarrow> anomalies_ok db') \<and> an_id a \<in> set (map ra_id (anomalies db'))"
  using assms
proof (cases rule: recordAnomaly_Inr)
  case (recorded e)
  have bo: "bodies db' = bodies db @ [detection_event e]" using recorded(4) by (simp add: bodies_def)
  have s: "en_topic e = TopicBehaviour \<and> en_event_type e = ''behaviour.'' @ an_kind a \<and> en_aggregate_key e = an_id a \<and> en_clearance e = an_classification a"
    using recorded(3) by (rule Seal_Inr) (simp add: build_envelope_def)
  then have new: "behaviour_announced (bodies db') (anomaly_row env a)"
    by (simp add: behaviour_announced_def bo detection_event_def anomaly_row_def)
  have old: "behaviour_announced (bodies db') r" if "behaviour_announced (bodies db) r" for r
    by (rule behaviour_announced_mono [OF that]) (auto simp: bo)
  have "ra_id (anomaly_row env a) = an_id a" by (simp add: anomaly_row_def)
  moreover have "bodies (db\<lparr>anomalies := x\<rparr>) = bodies db" for x by (simp add: bodies_def)
  ultimately show ?thesis using recorded(1,2,4) new old bo
    by (auto simp: anomaly_frame_def anomalies_ok_def)
qed (auto simp: anomaly_frame_def)

lemma record_all_ok:
  "record_all c enc env b n as db = Inr db' \<Longrightarrow>
     anomaly_frame db db' \<and> (anomalies_ok db \<longrightarrow> anomalies_ok db') \<and> an_id ` set as \<subseteq> set (map ra_id (anomalies db'))"
proof (induction as arbitrary: n db)
  case (Cons a as)
  then obtain db1 where r: "recordAnomalyInTransaction c enc env b n a db = Inr db1" "record_all c enc env b (Suc n) as db1 = Inr db'"
    by (cases "recordAnomalyInTransaction c enc env b n a db") auto
  note h = recordAnomaly_ok [OF r(1)] Cons.IH [OF r(2)]
  moreover have "set (map ra_id (anomalies db1)) \<subseteq> set (map ra_id (anomalies db'))"
    using h(2) set_mono_prefix unfolding anomaly_frame_def by fastforce
  ultimately show ?case using anomaly_frame_trans by auto
qed simp

lemma RecordAnomalies_ok:
  assumes "RecordAnomalies c enc env as db = (r, db')"
  shows "(r \<noteq> Inr () \<longrightarrow> db' = db) \<and> anomaly_frame db db' \<and> (anomalies_ok db \<longrightarrow> anomalies_ok db') \<and>
    (r = Inr () \<longrightarrow> an_id ` set as \<subseteq> set (map ra_id (anomalies db')))"
proof (cases "r = Inr ()")
  case True
  show ?thesis
  proof (cases "as = []")
    case False
    then have "record_all c enc env 1 0 as db = Inr db'" using assms True by (auto simp: RecordAnomalies_def run_tx_Inr_iff)
    then show ?thesis using record_all_ok True by blast
  qed (use assms True in \<open>auto simp: RecordAnomalies_def run_tx_Inr_iff\<close>)
next
  case False
  then show ?thesis using assms by (auto simp: RecordAnomalies_def elim!: run_tx_cases)
qed

text \<open>How the row of a track may develop.\<close>

definition track_grows :: "track_row \<Rightarrow> track_row \<Rightarrow> bool" where
  "track_grows r r' = (vt_track_id r' = vt_track_id r \<and> vt_first_observed_at r' = vt_first_observed_at r \<and>
     vt_last_observed_at r \<le> vt_last_observed_at r' \<and> (vt_mmsi r \<noteq> None \<longrightarrow> vt_mmsi r' = vt_mmsi r))"

definition tracks_grow :: "track_row list \<Rightarrow> track_row list \<Rightarrow> bool" where
  "tracks_grow rs rs' = (\<forall>r \<in> set rs. \<exists>r' \<in> set rs'. track_grows r r')"

lemma tracks_grow_refl [simp]: "tracks_grow rs rs"
  unfolding tracks_grow_def track_grows_def by (intro ballI bexI) simp_all

lemma tracks_grow_trans: "tracks_grow a b \<Longrightarrow> tracks_grow b d \<Longrightarrow> tracks_grow a d"
proof -
  have "track_grows r s \<Longrightarrow> track_grows s t \<Longrightarrow> track_grows r t" for r s t by (auto simp: track_grows_def)
  then show "tracks_grow a b \<Longrightarrow> tracks_grow b d \<Longrightarrow> tracks_grow a d" unfolding tracks_grow_def by meson
qed

lemma merge_grows: "vt_track_id r = vt_track_id x \<Longrightarrow> track_grows x (merge_track_row r x)"
  by (auto simp: track_grows_def merge_track_row_def)

lemma merge_checks: "track_row_checks r \<Longrightarrow> track_row_checks x \<Longrightarrow> track_row_checks (merge_track_row r x)"
  by (auto simp: track_row_checks_def merge_track_row_def split: option.splits)

lemma upsert_track_ok:
  assumes "track_row_checks r" "distinct (map vt_track_id rows)" "\<forall>x \<in> set rows. track_row_checks x"
  shows "distinct (map vt_track_id (upsert_track r rows)) \<and> (\<forall>x \<in> set (upsert_track r rows). track_row_checks x) \<and>
    tracks_grow rows (upsert_track r rows) \<and> set (map vt_track_id (upsert_track r rows)) = insert (vt_track_id r) (set (map vt_track_id rows))"
proof (cases "vt_track_id r \<in> set (map vt_track_id rows)")
  case True
  let ?f = "\<lambda>x. if vt_track_id x = vt_track_id r then merge_track_row r x else x"
  have k: "vt_track_id (?f x) = vt_track_id x" for x by (simp add: merge_track_row_def)
  then have m: "map vt_track_id (map ?f rows) = map vt_track_id rows" by (simp add: comp_def)
  have "track_grows x (?f x)" for x using merge_grows [of r x] by (auto simp: track_grows_def)
  then have "tracks_grow rows (map ?f rows)" unfolding tracks_grow_def set_map by blast
  moreover have "\<forall>x \<in> set (map ?f rows). track_row_checks x" using assms merge_checks by auto
  ultimately show ?thesis using True assms(2) m by (simp add: upsert_track_def insert_absorb flip: m)
next
  case False
  moreover have "tracks_grow rows (rows @ [r])" by (auto simp: tracks_grow_def track_grows_def)
  ultimately show ?thesis using assms by (auto simp: upsert_track_def)
qed

section \<open>Runs of the track tables\<close>

definition fused_db :: "db_env \<Rightarrow> track \<Rightarrow> detection \<Rightarrow> 'a track_db_scheme \<Rightarrow> 'a track_db_scheme" where
  "fused_db env t d db = db\<lparr>vessel_tracks := upsert_track (new_track_row env t) (vessel_tracks db),
     associations := insert_association (new_association env t d) (associations db)\<rparr>"

lemma RecordFusion_Inr:
  assumes "RecordFusion c enc env t d as db = (Inr (), db')"
  shows "tk_points t \<noteq> [] \<and> track_row_checks (new_track_row env t) \<and>
    association_checks (new_association env t d) (upsert_track (new_track_row env t) (vessel_tracks db)) \<and>
    record_all c enc env 3 0 as (fused_db env t d db) = Inr db'"
  using assms by (auto simp: RecordFusion_def run_tx_Inr_iff Let_def fused_db_def)

lemma RecordFusion_Inl: "RecordFusion c enc env t d as db = (r, db') \<Longrightarrow> r \<noteq> Inr () \<Longrightarrow> db' = db"
  by (auto simp: RecordFusion_def elim!: run_tx_cases)

lemma association_checks_mono: "association_checks a rows \<Longrightarrow> set (map vt_track_id rows) \<subseteq> set (map vt_track_id rows') \<Longrightarrow> association_checks a rows'"
  unfolding association_checks_def by blast

lemma insert_association_ok:
  "distinct (map as_key rows) \<Longrightarrow> distinct (map as_key (insert_association a rows))"
  "prefix rows (insert_association a rows)" "set (insert_association a rows) \<subseteq> insert a (set rows)"
  by (auto simp: insert_association_def)

lemma RecordFusion_ok:
  assumes rf: "RecordFusion c enc env t d as db = (r, db')" and ok: "track_rows_ok db"
  shows "track_rows_ok db' \<and> (anomalies_ok db \<longrightarrow> anomalies_ok db') \<and> tracks_grow (vessel_tracks db) (vessel_tracks db') \<and>
    prefix (associations db) (associations db') \<and> prefix (anomalies db) (anomalies db') \<and> isr_events db' = isr_events db"
proof (cases "r = Inr ()")
  case False
  then have "db' = db" using RecordFusion_Inl [OF rf] by blast
  then show ?thesis using ok by simp
next
  case True
  let ?r = "new_track_row env t" and ?a = "new_association env t d"
  have h: "track_row_checks ?r" "association_checks ?a (upsert_track ?r (vessel_tracks db))"
    "record_all c enc env 3 0 as (fused_db env t d db) = Inr db'"
    using RecordFusion_Inr rf True by blast+
  have f: "anomaly_frame (fused_db env t d db) db'" "anomalies_ok (fused_db env t d db) \<longrightarrow> anomalies_ok db'"
    using record_all_ok [OF h(3)] by blast+
  have v: "vessel_tracks db' = upsert_track ?r (vessel_tracks db)" "associations db' = insert_association ?a (associations db)"
    "isr_events db' = isr_events db" "prefix (anomalies db) (anomalies db')"
    using f(1) by (simp_all add: anomaly_frame_def fused_db_def)
  have an: "anomalies_ok db \<longrightarrow> anomalies_ok (fused_db env t d db)" by (simp add: anomalies_ok_def fused_db_def bodies_def)
  have up: "distinct (map vt_track_id (vessel_tracks db'))" "\<forall>x \<in> set (vessel_tracks db'). track_row_checks x"
    "tracks_grow (vessel_tracks db) (vessel_tracks db')"
    "set (map vt_track_id (vessel_tracks db')) = insert (vt_track_id ?r) (set (map vt_track_id (vessel_tracks db)))"
    using upsert_track_ok [OF h(1), of "vessel_tracks db"] ok unfolding v(1) track_rows_ok_def by blast+
  have "association_checks x (vessel_tracks db')" if "x \<in> set (associations db')" for x
  proof (cases "x = ?a")
    case True
    then show ?thesis using h(2) v(1) by simp
  next
    case False
    then have "x \<in> set (associations db)" using that insert_association_ok(3) unfolding v(2) by blast
    then have "association_checks x (vessel_tracks db)" using ok by (simp add: track_rows_ok_def)
    then show ?thesis by (rule association_checks_mono) (use up(4) in blast)
  qed
  then have "track_rows_ok db'" using ok up(1,2) insert_association_ok(1) [of "associations db" ?a] by (simp add: track_rows_ok_def v(2))
  then show ?thesis using f(2) an up(3) v insert_association_ok(2) [of "associations db" ?a] by auto
qed

lemma track_tables_of_more:
  fixes db db' :: "'a track_db_scheme"
  assumes "isr_db.more db' = isr_db.more db"
  shows "vessel_tracks db' = vessel_tracks db" "associations db' = associations db" "anomalies db' = anomalies db"
  using assms by (cases db; cases db'; simp)+

inductive track_step :: "crypto \<Rightarrow> (json \<Rightarrow> bytes) \<Rightarrow> 'a track_db_scheme \<Rightarrow> 'a track_db_scheme \<Rightarrow> bool" for c enc where
  fusion: "RecordFusion c enc env t d as db = (r, db') \<Longrightarrow> track_step c enc db db'"
| scan: "RecordAnomalies c enc env as db = (r, db') \<Longrightarrow> track_step c enc db db'"
| platform: "isr_step c enc decode db db' \<Longrightarrow> track_step c enc db db'"

inductive track_reach :: "crypto \<Rightarrow> (json \<Rightarrow> bytes) \<Rightarrow> 'a track_db_scheme \<Rightarrow> 'a track_db_scheme \<Rightarrow> bool" for c enc where
  refl: "track_reach c enc db db"
| step: "track_reach c enc db db' \<Longrightarrow> track_step c enc db' db'' \<Longrightarrow> track_reach c enc db db''"

definition track_frame :: "'a track_db_scheme \<Rightarrow> 'a track_db_scheme \<Rightarrow> bool" where
  "track_frame db db' = (tracks_grow (vessel_tracks db) (vessel_tracks db') \<and> prefix (associations db) (associations db') \<and>
     prefix (anomalies db) (anomalies db'))"

lemma track_frame_trans: "track_frame a b \<Longrightarrow> track_frame b d \<Longrightarrow> track_frame a d"
  unfolding track_frame_def using tracks_grow_trans prefix_order.trans by metis

lemma track_step_ok:
  assumes "track_step c enc db db'" "track_rows_ok db \<and> anomalies_ok db"
  shows "(track_rows_ok db' \<and> anomalies_ok db') \<and> track_frame db db'"
  using assms(1)
proof cases
  case fusion
  then show ?thesis using RecordFusion_ok [OF fusion] assms(2) by (simp add: track_frame_def)
next
  case scan
  then show ?thesis using RecordAnomalies_ok [OF scan] assms(2) by (simp add: track_frame_def anomaly_frame_def track_rows_ok_def)
next
  case platform
  note fr = isr_step_frame [OF platform] and t = track_tables_of_more [of db' db]
  have "set (bodies db) \<subseteq> set (bodies db')" using fr set_mono_prefix by blast
  then have "behaviour_announced (bodies db') r" if "r \<in> set (anomalies db)" for r
    using assms(2) that by (auto simp: anomalies_ok_def intro: behaviour_announced_mono)
  then show ?thesis using assms(2) fr t by (simp add: track_frame_def track_rows_ok_def anomalies_ok_def)
qed

lemma track_reach_ok:
  assumes "track_reach c enc db db'" "track_rows_ok db \<and> anomalies_ok db"
  shows "(track_rows_ok db' \<and> anomalies_ok db') \<and> track_frame db db'"
  using assms
proof (induction rule: track_reach.induct)
  case (step db db' db'')
  then show ?case using track_step_ok [OF step.hyps(2)] track_frame_trans by blast
qed (simp add: track_frame_def)

section \<open>Sample tables\<close>

definition empty_track_db :: track_db where
  "empty_track_db = ledger_db.extend empty_ledger (track_db.fields [] [] [])"

lemma empty_track_db_ok: "track_rows_ok empty_track_db \<and> anomalies_ok empty_track_db"
  by (simp add: track_rows_ok_def anomalies_ok_def empty_track_db_def ledger_db.extend_def track_db.fields_def)

definition sample_track :: track where
  "sample_track = (newTrack ''fused-1'' ''SECRET'')\<lparr>tk_mmsi := ''123456789'', tk_points := [detection_point sample_ais \<lparr>latitude = Fin 1, longitude = Fin 2\<rparr>]\<rparr>"

definition sample_anomaly :: anomaly where
  "sample_anomaly = \<lparr>an_id = ''anomaly-1'', an_kind = AnomalySpeedOutlier, an_track_ids = [''fused-1''], an_zone_id = [],
     an_classification = ''SECRET'', an_detected_at = 5, an_detail = SpeedDetail (Fin 60) (Fin 45), an_correlation_refs = []\<rparr>"

lemma probe_anomaly: "probe_classification (anomaly_json a) = Some (an_classification a)"
  by (simp add: anomaly_json_def opt_str_def equal_fold_length)

lemma sample_anomaly_checks: "anomaly_checks (anomaly_row (calm_env 9 ''u'') sample_anomaly)"
proof -
  have "anomaly_id_pattern ''anomaly-1''" "valid_label ''SECRET''" "pg_length (detail_text (SpeedDetail (Fin 60) (Fin 45))) = 50" by code_simp+
  then show ?thesis by (simp add: anomaly_checks_def anomaly_row_def sample_anomaly_def)
qed

lemma Seal_sample_anomaly:
  "\<exists>e. Seal c enc u TopicBehaviour (''behaviour.'' @ an_kind sample_anomaly) (an_id sample_anomaly) (an_classification sample_anomaly)
     (an_detected_at sample_anomaly) (anomaly_json sample_anomaly) = Inr e"
proof -
  have k: "identifierPattern (an_id sample_anomaly)" "ParseClassification (an_classification sample_anomaly) = Inr (an_classification sample_anomaly)"
    "EnvelopeClassificationOf (an_classification sample_anomaly) = Inr ''CONFIDENTIAL''"
    unfolding sample_anomaly_def anomaly.simps by code_simp+
  have l: "length (''behaviour.'' @ an_kind sample_anomaly) \<le> 128" "an_detected_at sample_anomaly \<noteq> 0"
    by (simp_all add: sample_anomaly_def AnomalySpeedOutlier_def)
  obtain fs where fs: "anomaly_json sample_anomaly = JObj fs" by (simp add: anomaly_json_def)
  show ?thesis using k l probe_anomaly [of sample_anomaly] unfolding fs by (auto simp: Seal_def Let_def)
qed


lemma sample_fusion:
  obtains db' where "RecordFusion toy_crypto (\<lambda>_. [0]) (calm_env 9 ''u'') sample_track sample_ais [sample_anomaly] empty_track_db = (Inr (), db')"
    "length (anomalies db') = 1" "length (associations db') = 1"
proof -
  let ?env = "calm_env 9 ''u''"
  have v: "valid_label ''SECRET''" "identifierPattern ''fused-1''" "mmsiPattern ''123456789''" by code_simp+
  have t: "tk_points sample_track \<noteq> []" "length (tk_points sample_track) = 1" by (simp_all add: sample_track_def)
  have r: "track_row_checks (new_track_row ?env sample_track)"
    using v by (simp add: track_row_checks_def new_track_row_def sample_track_def newTrack_def nullable_def)
  have a: "association_checks (new_association ?env sample_track sample_ais) (upsert_track (new_track_row ?env sample_track) [])"
    using v(1) by (simp add: association_checks_def new_association_def upsert_track_def new_track_row_def sample_ais_def modality_defs)
  have e: "vessel_tracks empty_track_db = []" "associations empty_track_db = []" "anomalies empty_track_db = []" "isr_outbox empty_track_db = []"
    by (simp_all add: empty_track_db_def ledger_db.extend_def track_db.fields_def empty_ledger_def)
  obtain ev where s: "Seal toy_crypto (\<lambda>_. [0]) ''u'' TopicBehaviour (''behaviour.'' @ an_kind sample_anomaly) (an_id sample_anomaly)
      (an_classification sample_anomaly) (an_detected_at sample_anomaly) (anomaly_json sample_anomaly) = Inr ev"
    using Seal_sample_anomaly by blast
  have se: "io_topic (detection_event ev) = TopicBehaviour" "valid_label (io_classification (detection_event ev))"
    using Seal_event [OF s] v(1) by (simp_all add: sample_anomaly_def)
  let ?db = "fused_db ?env sample_track sample_ais empty_track_db"
  have f: "anomalies ?db = []" "isr_outbox ?db = []" "associations ?db = [new_association ?env sample_track sample_ais]"
    by (simp_all add: fused_db_def e insert_association_def)
  obtain db' where i: "isr_outbox_insert ?env ''u'' (detection_event ev) (an_detected_at sample_anomaly)
      (?db\<lparr>anomalies := anomalies ?db @ [anomaly_row ?env sample_anomaly]\<rparr>) = Inr db'"
    using se f(2) by (simp add: isr_outbox_insert_def outbox_insert_def)
  then have "record_all toy_crypto (\<lambda>_. [0]) ?env 3 0 [sample_anomaly] ?db = Inr db'"
    using s sample_anomaly_checks f(1) by (simp add: recordAnomalyInTransaction_def)
  then have "RecordFusion toy_crypto (\<lambda>_. [0]) ?env sample_track sample_ais [sample_anomaly] empty_track_db = (Inr (), db')"
    using t(1) r a by (simp add: RecordFusion_def run_tx_Inr_iff Let_def fused_db_def e)
  moreover have "length (anomalies db') = 1" "length (associations db') = 1"
    using i f unfolding isr_outbox_insert_Inr by simp_all
  ultimately show thesis using that by blast
qed

section \<open>Properties of the track tables and the scanner\<close>

text \<open>
  C28. Safety of the track tables through every sequence of fusion records, scan records and other
  platform steps, with faults at any statement: track, association and anomaly keys stay unique;
  the association audit and the anomalies are append-only; every association points to a retained
  track; a track keeps its first observation and, once known, its MMSI, and its last observation
  never moves back; every retained anomaly has its behaviour event in the outbox under the same
  label.
\<close>

theorem track_reach_safe:
  assumes "track_reach c enc db db'" and "track_rows_ok db \<and> anomalies_ok db"
  shows "distinct (map vt_track_id (vessel_tracks db')) \<and> distinct (map as_key (associations db')) \<and> distinct (map ra_id (anomalies db')) \<and>
    prefix (associations db) (associations db') \<and> prefix (anomalies db) (anomalies db') \<and>
    (\<forall>a \<in> set (associations db'). \<exists>r \<in> set (vessel_tracks db'). as_track_id a = vt_track_id r) \<and>
    (\<forall>r \<in> set (vessel_tracks db). \<exists>r' \<in> set (vessel_tracks db'). vt_track_id r' = vt_track_id r \<and>
       vt_first_observed_at r' = vt_first_observed_at r \<and> vt_last_observed_at r \<le> vt_last_observed_at r' \<and>
       (vt_mmsi r \<noteq> None \<longrightarrow> vt_mmsi r' = vt_mmsi r)) \<and>
    (\<forall>r \<in> set (anomalies db'). \<exists>b \<in> set (bodies db'). io_topic b = TopicBehaviour \<and> io_event_type b = ''behaviour.'' @ ra_kind r \<and>
       io_aggregate_key b = ra_id r \<and> io_classification b = ra_classification r)"
  using track_reach_ok [OF assms] unfolding track_rows_ok_def anomalies_ok_def track_frame_def tracks_grow_def track_grows_def
    association_checks_def behaviour_announced_def by (auto simp: image_iff)

theorem track_reach_safe_witness:
  "\<exists>db'. track_reach toy_crypto (\<lambda>_. [0]) empty_track_db db' \<and>
     (\<exists>r b. anomalies db' = [r] \<and> b \<in> set (bodies db') \<and> io_aggregate_key b = ra_id r)"
proof -
  obtain db' where f: "RecordFusion toy_crypto (\<lambda>_. [0]) (calm_env 9 ''u'') sample_track sample_ais [sample_anomaly] empty_track_db = (Inr (), db')"
    "length (anomalies db') = 1" by (rule sample_fusion)
  have r: "track_reach toy_crypto (\<lambda>_. [0]) empty_track_db db'"
    by (rule track_reach.step [OF track_reach.refl track_step.fusion [OF f(1)]])
  obtain x where x: "anomalies db' = [x]" using f(2) by (cases "anomalies db'") auto
  then have "\<exists>b \<in> set (bodies db'). io_aggregate_key b = ra_id x" using track_reach_safe [OF r empty_track_db_ok] by auto
  then show ?thesis using r x by blast
qed

text \<open>
  A dark-vessel scan reports at most once, even when it fails to record: if the record
  succeeds every anomaly of the scan is retained; if it fails the tables are unchanged, and in
  both cases no later scan of the engine names a track of this one, so that a failed record is
  not made up for by a later tick.
\<close>

theorem scanOnce_not_retried:
  assumes "enumerates (ti_order i) (eg_tracks eng)" and "\<And>k t. eg_tracks eng k = Some t \<Longrightarrow> tk_id t = k"
    and "ScanDarkVessels (ti_order i) (ti_now i) eng = ((as, lat), eng')" and "as \<noteq> []" and "enumerates order (eg_tracks eng')"
  shows "fst (scanOnce c enc i (eng, db)) = eng' \<and>
    (if fst (RecordAnomalies c enc (ti_env i) as db) = Inr ()
     then an_id ` set as \<subseteq> set (map ra_id (anomalies (snd (scanOnce c enc i (eng, db)))))
     else snd (scanOnce c enc i (eng, db)) = db) \<and>
    set (concat (map an_track_ids as)) \<inter> set (concat (map an_track_ids (fst (fst (ScanDarkVessels order now eng'))))) = {}"
proof -
  obtain r db' where rec: "RecordAnomalies c enc (ti_env i) as db = (r, db')" by (metis surj_pair)
  have once: "scanOnce c enc i (eng, db) = (eng', db')" using assms(3,4) rec by (simp add: scanOnce_def split: sum.splits)
  have "k \<notin> set (concat (map an_track_ids (fst (fst (ScanDarkVessels order now eng')))))"
    if "k \<in> set (concat (map an_track_ids as))" for k
  proof -
    have h: "eg_tracks eng' j = (if j \<in> set (concat (map an_track_ids as))
        then map_option (\<lambda>t. t\<lparr>tk_dark_alerted := True\<rparr>) (eg_tracks eng j) else eg_tracks eng j)" for j
      using ScanDarkVessels_names [OF assms(1,2), of j "ti_now i"] assms(3) by simp
    have id: "tk_id t = j" if "eg_tracks eng' j = Some t" for j t
      using that assms(2) unfolding h [of j] by (auto split: if_splits)
    have "tk_dark_alerted t" if "eg_tracks eng' k = Some t" for t using that \<open>k \<in> _\<close> unfolding h [of k] by (auto split: if_splits)
    then have "\<not> (\<exists>t. eg_tracks eng' k = Some t \<and> dark_track (eg_config eng') (eg_zones eng') now t \<noteq> None)" by (auto simp: dark_track_def)
    then show ?thesis using ScanDarkVessels_names [OF assms(5) id, of k now] by blast
  qed
  then show ?thesis using once rec RecordAnomalies_ok [OF rec] by auto
qed


definition down_tick :: tick where
  "down_tick = \<lparr>ti_order = [''t''], ti_now = unix_epoch + hour, ti_env = (calm_env 9 ''u'')\<lparr>db_faults := (\<lambda>_. True)\<rparr>\<rparr>"

lemma other_engine_dark: "dark_track (eg_config other_engine) (eg_zones other_engine) (unix_epoch + hour) other_track \<noteq> None"
proof -
  have "Contains triangle_zone \<lparr>latitude = Fin 0, longitude = Fin 10\<rparr>"
    by (rule NewZone_vertex_inside [OF NewZone_triangle]) (simp add: triangle_def)
  moreover have "30 * minute \<le> time_sub (unix_epoch + hour) unix_epoch" "unix_epoch \<noteq> 0" by code_simp+
  ultimately show ?thesis by (simp add: dark_track_def other_engine_def other_track_def track_Last_def DefaultConfig_def not_less)
qed

theorem scanOnce_not_retried_witness:
  "snd (scanOnce toy_crypto (\<lambda>_. [0]) down_tick (other_engine, empty_track_db)) = empty_track_db \<and>
   ''t'' \<notin> set (concat (map an_track_ids (fst (fst (ScanDarkVessels [''t''] (unix_epoch + 2 * hour)
      (fst (scanOnce toy_crypto (\<lambda>_. [0]) down_tick (other_engine, empty_track_db))))))))"
proof -
  obtain as lat eng' where s: "ScanDarkVessels (ti_order down_tick) (ti_now down_tick) other_engine = ((as, lat), eng')" by (metis surj_pair)
  have e: "enumerates (ti_order down_tick) (eg_tracks other_engine)" by (simp add: enumerates_def other_engine_def down_tick_def)
  have id: "\<And>k t. eg_tracks other_engine k = Some t \<Longrightarrow> tk_id t = k" by (auto simp: other_engine_def other_track_def split: if_splits)
  have t: "''t'' \<in> set (concat (map an_track_ids as))" "eg_tracks eng' k = (if k = ''t'' then map_option (\<lambda>t. t\<lparr>tk_dark_alerted := True\<rparr>) (eg_tracks other_engine k) else eg_tracks other_engine k)" for k
    using ScanDarkVessels_names [OF e id, of "''t''" "ti_now down_tick"] ScanDarkVessels_names [OF e id, of k "ti_now down_tick"] s other_engine_dark
    by (auto simp: down_tick_def other_engine_def split: if_splits)
  have ne: "as \<noteq> []" using t(1) by auto
  have e': "enumerates [''t''] (eg_tracks eng')" by (auto simp: enumerates_def t(2) other_engine_def split: if_splits)
  have "fst (RecordAnomalies toy_crypto (\<lambda>_. [0]) (ti_env down_tick) as empty_track_db) \<noteq> Inr ()"
    using ne by (simp add: RecordAnomalies_def run_tx_def down_tick_def db_call_def)
  then show ?thesis
    using scanOnce_not_retried [OF e id s ne e', of toy_crypto "\<lambda>_. [0]" empty_track_db "unix_epoch + 2 * hour"] t(1) by auto
qed

text \<open>
  The anomaly listing is exactly the clearance-filtered table: without database faults a caller
  without a track-reader role or without an approved clearance gets the forbidden error, and every
  other caller gets the matching anomalies whose label the clearance covers, newest first, up to
  the limit, and nothing else.
\<close>

theorem ListAnomalies_exact:
  assumes "\<forall>n. \<not> db_faults env n"
  shows "ListAnomalies env p f db =
    (if (\<exists>r \<in> set (pr_roles p). r \<in> set trackReaderRoles) \<and> valid_label (pr_clearance p)
     then Inr (take (effective_limit (af_limit f)) (sort_key (\<lambda>r. - ra_detected_at r)
       (filter (\<lambda>r. Covers (pr_clearance p) (ra_classification r) \<and> (af_kind f = [] \<or> ra_kind r = af_kind f) \<and>
          (af_since f = 0 \<or> af_since f \<le> ra_detected_at r)) (anomalies db))))
     else Inl ErrForbidden)"
proof (cases "(\<exists>r \<in> set (pr_roles p). r \<in> set trackReaderRoles) \<and> valid_label (pr_clearance p)")
  case True
  let ?rs = "select_anomalies f (coveredLabels (pr_clearance p)) (anomalies db)"
  have un: "CanReadTracks p ClassificationUnclassified = None" using True by (auto simp: CanReadTracks_None Covers_iff Rank_def)
  have scan: "scan_anomalies p rs = Inr rs" if "\<forall>r \<in> set rs. Covers (pr_clearance p) (ra_classification r)" for rs
    using that by (induction rs) (use True in \<open>auto simp: CanReadTracks_None\<close>)
  have "\<forall>r \<in> set ?rs. Covers (pr_clearance p) (ra_classification r)"
    by (auto simp: select_anomalies_def anomaly_matches_def coveredLabels_iff dest: in_set_takeD)
  moreover have "clearanceCeiling p = Inr (pr_clearance p)" using True by (simp add: clearanceCeiling_Inr)
  ultimately have "ListAnomalies env p f db = Inr ?rs" using un scan assms by (simp add: ListAnomalies_def)
  then show ?thesis using True by (simp add: select_anomalies_def anomaly_matches_def [abs_def] coveredLabels_iff)
next
  case False
  then have "CanReadTracks p ClassificationUnclassified \<noteq> None" by (auto simp: CanReadTracks_None Covers_iff)
  then have "CanReadTracks p ClassificationUnclassified = Some ErrForbidden" by (auto simp: CanReadTracks_def split: if_splits)
  then show ?thesis using False by (auto simp: ListAnomalies_def)
qed

definition any_anomaly_filter :: anomaly_filter where
  "any_anomaly_filter = \<lparr>af_kind = [], af_since = 0, af_limit = 0\<rparr>"

definition watched_db :: track_db where
  "watched_db = empty_track_db\<lparr>anomalies := [anomaly_row (calm_env 9 ''u'') sample_anomaly]\<rparr>"

theorem ListAnomalies_exact_witness:
  "ListAnomalies (calm_env 9 ''u'') officer any_anomaly_filter watched_db = Inr (anomalies watched_db) \<and> anomalies watched_db \<noteq> [] \<and>
   ListAnomalies (calm_env 9 ''u'') (officer\<lparr>pr_clearance := ''CONFIDENTIAL''\<rparr>) any_anomaly_filter watched_db = Inr []"
proof -
  have r: "\<exists>r \<in> set (pr_roles officer). r \<in> set trackReaderRoles" by (simp add: officer_def trackReaderRoles_def RoleNIMASAOfficer_def)
  have v: "valid_label ''SECRET''" "valid_label ''CONFIDENTIAL''" "Covers ''SECRET'' ''SECRET''" "\<not> Covers ''CONFIDENTIAL'' ''SECRET''" by code_simp+
  have l: "effective_limit 0 = 500" by (simp add: effective_limit_def)
  have "\<forall>n. \<not> db_faults (calm_env 9 ''u'') n" by simp
  note x = ListAnomalies_exact [OF this, of _ any_anomaly_filter watched_db]
  show ?thesis using x [of officer] x [of "officer\<lparr>pr_clearance := ''CONFIDENTIAL''\<rparr>"] r v l
    by (simp add: officer_def watched_db_def any_anomaly_filter_def anomaly_row_def sample_anomaly_def)
qed

end
