(* ===== verification/Base64.thy ===== *)
theory Base64
  imports Feed
begin

text \<open>
  \<open>encoding/base64\<close> as the sources use it, \<open>DecodeFeedSignature\<close> and
  \<open>EncodeFeedSignature\<close> of \<open>internal/incident/feed.go\<close>. Decoding ignores line breaks and
  the spare bits of a final group, as the non-strict encodings of Go do.
\<close>

section \<open>The codec\<close>

definition b64_char :: "nat \<Rightarrow> char" where
  "b64_char n = char_of (if n < 26 then 65 + n else if n < 52 then 71 + n else if n < 62 then n - 4 else if n = 62 then 43 else 47)"

definition b64_val :: "char \<Rightarrow> nat option" where
  "b64_val c = (let k = code_of c in
     if 65 \<le> k \<and> k \<le> 90 then Some (k - 65) else if 97 \<le> k \<and> k \<le> 122 then Some (k - 71)
     else if 48 \<le> k \<and> k \<le> 57 then Some (k + 4) else if k = 43 then Some 62 else if k = 47 then Some 63 else None)"

fun b64_raw_encode :: "bytes \<Rightarrow> string" where
  "b64_raw_encode [] = []"
| "b64_raw_encode [x] = (let n = unat x * 16 in [b64_char (n div 64), b64_char (n mod 64)])"
| "b64_raw_encode [x, y] = (let n = unat x * 1024 + unat y * 4 in [b64_char (n div 4096), b64_char (n div 64 mod 64), b64_char (n mod 64)])"
| "b64_raw_encode (x # y # z # r) =
     (let n = unat x * 65536 + unat y * 256 + unat z in
      [b64_char (n div 262144), b64_char (n div 4096 mod 64), b64_char (n div 64 mod 64), b64_char (n mod 64)] @ b64_raw_encode r)"

definition b64_two :: "char \<Rightarrow> char \<Rightarrow> bytes option" where
  "b64_two a b = (case (b64_val a, b64_val b) of (Some p, Some q) \<Rightarrow> Some [of_nat ((p * 64 + q) div 16)] | _ \<Rightarrow> None)"

definition b64_three :: "char \<Rightarrow> char \<Rightarrow> char \<Rightarrow> bytes option" where
  "b64_three a b c =
     (case (b64_val a, b64_val b, b64_val c) of
        (Some p, Some q, Some r) \<Rightarrow> (let n = (p * 4096 + q * 64 + r) div 4 in Some [of_nat (n div 256), of_nat (n mod 256)])
      | _ \<Rightarrow> None)"

definition b64_four :: "char \<Rightarrow> char \<Rightarrow> char \<Rightarrow> char \<Rightarrow> bytes option" where
  "b64_four a b c d =
     (case (b64_val a, b64_val b, b64_val c, b64_val d) of
        (Some p, Some q, Some r, Some s) \<Rightarrow>
          (let n = p * 262144 + q * 4096 + r * 64 + s in Some [of_nat (n div 65536), of_nat (n div 256 mod 256), of_nat (n mod 256)])
      | _ \<Rightarrow> None)"

text \<open>The flag says whether the last group is padded.\<close>

fun b64_groups :: "bool \<Rightarrow> string \<Rightarrow> bytes option" where
  "b64_groups p [] = Some []"
| "b64_groups p [a] = None"
| "b64_groups p [a, b] = (if p then None else b64_two a b)"
| "b64_groups p [a, b, c] = (if p then None else b64_three a b c)"
| "b64_groups p (a # b # c # d # r) =
     (if p \<and> r = [] \<and> d = CHR ''='' then (if c = CHR ''='' then b64_two a b else b64_three a b c)
      else (case (b64_four a b c d, b64_groups p r) of (Some x, Some y) \<Rightarrow> Some (x @ y) | _ \<Rightarrow> None))"

definition strip_breaks :: "string \<Rightarrow> string" where
  "strip_breaks s = filter (\<lambda>c. c \<noteq> CHR 0x0A \<and> c \<noteq> CHR 0x0D) s"

definition b64_std_decode :: "string \<Rightarrow> bytes option" where
  "b64_std_decode s = b64_groups True (strip_breaks s)"

definition b64_raw_decode :: "string \<Rightarrow> bytes option" where
  "b64_raw_decode s = b64_groups False (strip_breaks s)"

section \<open>Signatures\<close>

text \<open>Signing with a private key is a parameter.\<close>

definition EncodeFeedSignature :: "crypto \<Rightarrow> (bytes \<Rightarrow> bytes) \<Rightarrow> string \<Rightarrow> string \<Rightarrow> gotime \<Rightarrow> bytes \<Rightarrow> string" where
  "EncodeFeedSignature c sign sourceID eventID claimedAt payload = b64_raw_encode (sign (feedSigningBytes c sourceID eventID claimedAt payload))"

definition DecodeFeedSignature :: "string \<Rightarrow> bytes result" where
  "DecodeFeedSignature value =
     (let canonical = trim_space value;
          decoded = (case b64_std_decode canonical of None \<Rightarrow> b64_raw_decode canonical | Some b \<Rightarrow> Some b)
      in case decoded of
           None \<Rightarrow> Inl (EMsg ''illegal base64 data'')
         | Some b \<Rightarrow> require (length b = 64) (EMsg ''decoded signature has invalid size'') (Inr b))"

section \<open>Encoding and decoding\<close>

lemma b64_val_char: "n < 64 \<Longrightarrow> b64_val (b64_char n) = Some n"
  by (auto simp: b64_val_def b64_char_def code_of_def Let_def)

lemma b64_char_code: "n < 64 \<Longrightarrow> 43 \<le> code_of (b64_char n) \<and> code_of (b64_char n) \<le> 122"
  by (auto simp: b64_char_def code_of_def)

lemma b64_char_not_pad: "n < 64 \<Longrightarrow> b64_char n \<noteq> CHR ''=''"
proof
  assume "n < 64" "b64_char n = CHR ''=''"
  then have "b64_val (CHR ''='') = Some n" using b64_val_char by metis
  then show False by (simp add: b64_val_def code_of_def)
qed

lemma byte_bound: "unat (x :: byte) < 256"
  using unsigned_less [of x, where ?'a = nat] by simp

lemma digits64: "n div 64 * 64 + n mod 64 = n" "n div 4096 * 64 + n div 64 mod 64 = n div 64" "n div 262144 * 64 + n div 4096 mod 64 = n div 4096" for n :: nat
  using div_mult_mod_eq [of n 64] div_mult_mod_eq [of "n div 64" 64] div_mult_mod_eq [of "n div 4096" 64]
    div_mult2_eq [of n 64 64] div_mult2_eq [of n 4096 64] by simp_all

lemma b64_two_encode:
  assumes n: "n = unat (x :: byte) * 16"
  shows "b64_two (b64_char (n div 64)) (b64_char (n mod 64)) = Some [x]"
proof -
  have "n div 64 < 64" using byte_bound [of x] n by (simp add: div_less_iff_less_mult)
  moreover have "(n div 64 * 64 + n mod 64) div 16 = unat x" unfolding digits64 n by simp
  ultimately show ?thesis unfolding b64_two_def by (simp add: b64_val_char del: div_mult_mod_eq)
qed

lemma b64_three_encode:
  assumes n: "n = unat (x :: byte) * 1024 + unat (y :: byte) * 4"
  shows "b64_three (b64_char (n div 4096)) (b64_char (n div 64 mod 64)) (b64_char (n mod 64)) = Some [x, y]"
proof -
  have "n div 4096 < 64" using byte_bound [of x] byte_bound [of y] n by (simp add: div_less_iff_less_mult)
  moreover have "n div 4096 * 4096 + n div 64 mod 64 * 64 + n mod 64 = n" using digits64 [of n] by linarith
  moreover have "n div 4 = unat x * 256 + unat y" using n by simp
  then have "n div 4 div 256 = unat x" "n div 4 mod 256 = unat y" using byte_bound [of y] by simp_all
  ultimately show ?thesis unfolding b64_three_def by (simp add: b64_val_char Let_def)
qed

lemma b64_four_encode:
  assumes n: "n = unat (x :: byte) * 65536 + unat (y :: byte) * 256 + unat (z :: byte)"
  shows "b64_four (b64_char (n div 262144)) (b64_char (n div 4096 mod 64)) (b64_char (n div 64 mod 64)) (b64_char (n mod 64)) = Some [x, y, z]"
proof -
  have "n div 262144 < 64" using byte_bound [of x] byte_bound [of y] byte_bound [of z] n by (simp add: div_less_iff_less_mult)
  moreover have "n div 262144 * 262144 + n div 4096 mod 64 * 4096 + n div 64 mod 64 * 64 + n mod 64 = n" using digits64 [of n] by linarith
  moreover have m: "n = (unat x * 256 + unat y) * 256 + unat z" using n by simp
  then have "n div 256 = unat x * 256 + unat y" "n mod 256 = unat z" using byte_bound [of z] mod_mult_self3 [of "unat x * 256 + unat y" 256 "unat z"] unfolding m by simp_all
  then have "n div 65536 = unat x" "n div 256 mod 256 = unat y" "n mod 256 = unat z"
    using byte_bound [of y] div_mult2_eq [of n 256 256] by simp_all
  ultimately show ?thesis unfolding b64_four_def by (simp add: b64_val_char Let_def)
qed

lemma b64_groups_encode: "b64_groups p (b64_raw_encode bs) = (if p \<and> length bs mod 3 \<noteq> 0 then None else Some bs)"
proof (induction bs rule: b64_raw_encode.induct)
  case (2 x)
  then show ?case using b64_two_encode [OF HOL.refl, of x] by (simp add: Let_def)
next
  case (3 x y)
  then show ?case using b64_three_encode [OF HOL.refl, of x y] by (simp add: Let_def)
next
  case (4 x y z r)
  let ?n = "unat x * 65536 + unat y * 256 + unat z"
  have "b64_char (?n mod 64) \<noteq> CHR ''=''" by (rule b64_char_not_pad) simp
  then have g: "b64_groups p (b64_raw_encode (x # y # z # r)) =
      (case (b64_four (b64_char (?n div 262144)) (b64_char (?n div 4096 mod 64)) (b64_char (?n div 64 mod 64)) (b64_char (?n mod 64)),
             b64_groups p (b64_raw_encode r)) of (Some a, Some b) \<Rightarrow> Some (a @ b) | _ \<Rightarrow> None)"
    by (simp add: Let_def)
  have "length (x # y # z # r) mod 3 = length r mod 3" by simp
  then show ?case unfolding g b64_four_encode [OF HOL.refl] using 4 [OF HOL.refl] by (auto split: option.splits if_splits)
qed simp

lemma b64_encode_codes: "c \<in> set (b64_raw_encode bs) \<Longrightarrow> 43 \<le> code_of c \<and> code_of c \<le> 122"
proof (induction bs rule: b64_raw_encode.induct)
  case (2 x)
  have "unat x * 16 div 64 < 64" using byte_bound [of x] by (simp add: div_less_iff_less_mult)
  then show ?case using 2 b64_char_code [of "unat x * 16 div 64"] b64_char_code [of "unat x * 16 mod 64"] by (auto simp: Let_def)
next
  case (3 x y)
  let ?n = "unat x * 1024 + unat y * 4"
  have "?n div 4096 < 64" using byte_bound [of x] byte_bound [of y] by (simp add: div_less_iff_less_mult)
  then show ?case using 3 b64_char_code [of "?n div 4096"] b64_char_code [of "?n div 64 mod 64"] b64_char_code [of "?n mod 64"] by (auto simp: Let_def)
next
  case (4 x y z r)
  let ?n = "unat x * 65536 + unat y * 256 + unat z"
  have "?n div 262144 < 64" using byte_bound [of x] byte_bound [of y] byte_bound [of z] by (simp add: div_less_iff_less_mult)
  then show ?case using 4 b64_char_code [of "?n div 262144"] b64_char_code [of "?n div 4096 mod 64"] b64_char_code [of "?n div 64 mod 64"]
      b64_char_code [of "?n mod 64"] by (auto simp: Let_def)
qed simp

lemma trim_front_id:
  assumes "\<And>e. e \<in> set es \<Longrightarrow> e \<noteq> [] \<and> hd e \<notin> set s"
  shows "trim_front es s = s"
proof -
  have "take (length e) s \<noteq> e" if "e \<in> set es" for e
  proof
    assume t: "take (length e) s = e"
    have "hd e \<in> set e" using assms [OF that] by simp
    then have "hd e \<in> set s" using t by (metis in_set_takeD)
    then show False using assms [OF that] by blast
  qed
  then have "lead_len es s = 0" by (auto simp: lead_len_def find_None_iff split: option.splits dest!: find_SomeD)
  then show ?thesis by (simp add: trim_front.simps)
qed

lemma trim_space_id: "(\<And>c. c \<in> set s \<Longrightarrow> 43 \<le> code_of c \<and> code_of c \<le> 122) \<Longrightarrow> trim_space s = s"
proof -
  assume h: "\<And>c. c \<in> set s \<Longrightarrow> 43 \<le> code_of c \<and> code_of c \<le> 122"
  have e: "e \<noteq> [] \<and> (code_of (hd e) < 43 \<or> 122 < code_of (hd e))" if "e \<in> set space_encodings \<union> set (map rev space_encodings)" for e
    using that by (auto simp: space_encodings_def code_of_def)
  have "trim_front es t = t" if "set es \<subseteq> set space_encodings \<union> set (map rev space_encodings)" "set t = set s" for es t
  proof (rule trim_front_id)
    fix x assume "x \<in> set es"
    then have "x \<noteq> [] \<and> (code_of (hd x) < 43 \<or> 122 < code_of (hd x))" using e that(1) by blast
    then show "x \<noteq> [] \<and> hd x \<notin> set t" using h that(2) by force
  qed
  then show ?thesis by (simp add: trim_space_def)
qed

lemma strip_breaks_id: "(\<And>c. c \<in> set s \<Longrightarrow> 43 \<le> code_of c) \<Longrightarrow> strip_breaks s = s"
  unfolding strip_breaks_def by (rule filter_True) (force simp: code_of_def)

lemma DecodeFeedSignature_encode:
  "DecodeFeedSignature (b64_raw_encode b) = (if length b = 64 then Inr b else Inl (EMsg ''decoded signature has invalid size''))"
proof -
  have i: "trim_space (b64_raw_encode b) = b64_raw_encode b" "strip_breaks (b64_raw_encode b) = b64_raw_encode b"
    by (rule trim_space_id strip_breaks_id; use b64_encode_codes in blast)+
  show ?thesis by (simp add: DecodeFeedSignature_def i b64_std_decode_def b64_raw_decode_def b64_groups_encode Let_def require_def)
qed

text \<open>
  Round trip of a signature: what \<open>EncodeFeedSignature\<close> renders, the decoder of the admission
  routes reads back bit for bit, for every 64-byte signature; a rendered signature of any other
  length is refused.
\<close>

theorem feed_signature_roundtrip:
  "DecodeFeedSignature (EncodeFeedSignature c sign s e t payload) =
     (let sig = sign (feedSigningBytes c s e t payload) in
      if length sig = 64 then Inr sig else Inl (EMsg ''decoded signature has invalid size''))"
  by (simp add: EncodeFeedSignature_def DecodeFeedSignature_encode Let_def)

section \<open>The URL alphabet\<close>

text \<open>\<open>base64.RawURLEncoding\<close> and \<open>base64.URLEncoding\<close> write \<open>-\<close> and \<open>_\<close> for the last two digits.\<close>

definition to_url_char :: "char \<Rightarrow> char" where
  "to_url_char c = (if c = CHR ''+'' then CHR ''-'' else if c = CHR ''/'' then CHR ''_'' else c)"

definition of_url_char :: "char \<Rightarrow> char" where
  "of_url_char c = (if c = CHR ''-'' then CHR ''+'' else if c = CHR ''_'' then CHR ''/'' else c)"

definition b64url_raw_encode :: "bytes \<Rightarrow> string" where
  "b64url_raw_encode bs = map to_url_char (b64_raw_encode bs)"

definition b64url_groups :: "bool \<Rightarrow> string \<Rightarrow> bytes option" where
  "b64url_groups p s = (let t = strip_breaks s in if CHR ''+'' \<in> set t \<or> CHR ''/'' \<in> set t then None else b64_groups p (map of_url_char t))"

definition b64url_raw_decode :: "string \<Rightarrow> bytes option" where
  "b64url_raw_decode s = b64url_groups False s"

definition b64url_std_decode :: "string \<Rightarrow> bytes option" where
  "b64url_std_decode s = b64url_groups True s"

lemma url_char_back: "c \<noteq> CHR ''-'' \<Longrightarrow> c \<noteq> CHR ''_'' \<Longrightarrow> of_url_char (to_url_char c) = c"
  by (simp add: to_url_char_def of_url_char_def)

lemma to_url_char_code: "43 \<le> code_of c \<Longrightarrow> 43 \<le> code_of (to_url_char c)"
  by (simp add: to_url_char_def code_of_def)

lemma b64_char_plain: "n < 64 \<Longrightarrow> b64_char n \<noteq> CHR ''-'' \<and> b64_char n \<noteq> CHR ''_''"
proof (intro conjI notI)
  show "n < 64 \<Longrightarrow> b64_char n = CHR ''-'' \<Longrightarrow> False" using b64_val_char [of n] by (simp add: b64_val_def code_of_def)
  show "n < 64 \<Longrightarrow> b64_char n = CHR ''_'' \<Longrightarrow> False" using b64_val_char [of n] by (simp add: b64_val_def code_of_def)
qed

lemma b64_encode_chars: "c \<in> set (b64_raw_encode bs) \<Longrightarrow> \<exists>n < 64. c = b64_char n"
proof (induction bs rule: b64_raw_encode.induct)
  case (2 x)
  have "unat x * 16 div 64 < 64" "unat x * 16 mod 64 < 64" using byte_bound [of x] by (simp_all add: div_less_iff_less_mult)
  then show ?case using 2 unfolding b64_raw_encode.simps Let_def by (metis empty_iff empty_set set_ConsD)
next
  case (3 x y)
  let ?n = "unat x * 1024 + unat y * 4"
  have "?n div 4096 < 64" "?n div 64 mod 64 < 64" "?n mod 64 < 64" using byte_bound [of x] byte_bound [of y] by (simp_all add: div_less_iff_less_mult)
  then show ?case using 3 unfolding b64_raw_encode.simps Let_def by (metis empty_iff empty_set set_ConsD)
next
  case (4 x y z r)
  let ?n = "unat x * 65536 + unat y * 256 + unat z"
  have "?n div 262144 < 64" "?n div 4096 mod 64 < 64" "?n div 64 mod 64 < 64" "?n mod 64 < 64"
    using byte_bound [of x] byte_bound [of y] byte_bound [of z] by (simp_all add: div_less_iff_less_mult)
  then show ?case using 4 unfolding b64_raw_encode.simps Let_def by (metis Un_iff empty_iff empty_set set_ConsD set_append)
qed simp

lemma b64url_groups_encode: "b64url_groups False (b64url_raw_encode bs) = Some bs"
proof -
  have c: "43 \<le> code_of c" if "c \<in> set (b64url_raw_encode bs)" for c
    using that b64_encode_codes [of _ bs] by (auto simp: b64url_raw_encode_def to_url_char_code)
  have s: "strip_breaks (b64url_raw_encode bs) = b64url_raw_encode bs" by (rule strip_breaks_id) (rule c)
  have unmap: "map of_url_char (b64url_raw_encode bs) = b64_raw_encode bs"
    unfolding b64url_raw_encode_def map_map comp_def
    by (rule map_idI) (use b64_encode_chars b64_char_plain url_char_back in metis)
  have "CHR ''+'' \<notin> set (b64url_raw_encode bs)" "CHR ''/'' \<notin> set (b64url_raw_encode bs)"
    by (auto simp: b64url_raw_encode_def to_url_char_def split: if_splits)
  then show ?thesis by (simp add: b64url_groups_def s unmap b64_groups_encode)
qed

end
