(* ===== verification/GoText.thy ===== *)
theory GoText
  imports Float64
begin

text \<open>
  The parts of \<open>strings\<close> and \<open>time\<close> that the programs of the repository use to read their
  configuration: splitting a list and \<open>time.ParseDuration\<close> with its overflow checks on uint64
  and its fractions in float64.
\<close>

section \<open>Lists of text\<close>

fun split_on :: "char \<Rightarrow> string \<Rightarrow> string list" where
  "split_on c [] = [[]]"
| "split_on c (x # xs) = (if x = c then [] # split_on c xs else (case split_on c xs of y # ys \<Rightarrow> (x # y) # ys | [] \<Rightarrow> [[x]]))"

section \<open>Durations\<close>

fun leading_int :: "int \<Rightarrow> string \<Rightarrow> (int \<times> string) option" where
  "leading_int x [] = Some (x, [])"
| "leading_int x (c # cs) =
     (if \<not> is_digit c then Some (x, c # cs)
      else if 2 ^ 63 div 10 < x then None
      else let y = x * 10 + (int (code_of c) - 48) in if 2 ^ 63 < y then None else leading_int y cs)"

fun leading_fraction :: "int \<Rightarrow> f64 \<Rightarrow> bool \<Rightarrow> string \<Rightarrow> int \<times> f64 \<times> string" where
  "leading_fraction x scale over [] = (x, scale, [])"
| "leading_fraction x scale over (c # cs) =
     (if \<not> is_digit c then (x, scale, c # cs)
      else if over \<or> (2 ^ 63 - 1) div 10 < x then leading_fraction x scale True cs
      else let y = x * 10 + (int (code_of c) - 48) in
        if 2 ^ 63 < y then leading_fraction x scale True cs else leading_fraction y (f_mul scale (Fin 10)) False cs)"

definition unit_map :: "string \<Rightarrow> int option" where
  "unit_map = map_of [(''ns'', 1), (''us'', 1000), ([CHR 0xC2, CHR 0xB5, CHR ''s''], 1000), ([CHR 0xCE, CHR 0xBC, CHR ''s''], 1000),
     (''ms'', 1000000), (''s'', 1000000000), (''m'', 60 * 1000000000), (''h'', 3600 * 1000000000)]"

text \<open>Conversion of a finite non-negative float64 to uint64.\<close>

fun trunc_u64 :: "f64 \<Rightarrow> int" where
  "trunc_u64 (Fin q) = \<lfloor>q\<rfloor>"
| "trunc_u64 _ = 0"

definition number_char :: "char \<Rightarrow> bool" where
  "number_char c = (c = CHR ''.'' \<or> is_digit c)"

text \<open>One number with its unit, and what follows.\<close>

definition duration_chunk :: "string \<Rightarrow> (int \<times> string) option" where
  "duration_chunk s =
     (if s = [] \<or> \<not> number_char (hd s) then None
      else (case leading_int 0 s of
        None \<Rightarrow> None
      | Some (v, s1) \<Rightarrow>
          (let pre = (length s1 \<noteq> length s);
               dot = (s1 \<noteq> [] \<and> hd s1 = CHR ''.'');
               (f, scale, s2) = (if dot then leading_fraction 0 (Fin 1) False (tl s1) else (0, Fin 1, s1));
               post = (dot \<and> length s2 \<noteq> length (tl s1));
               u = takeWhile (\<lambda>c. \<not> number_char c) s2;
               rest = dropWhile (\<lambda>c. \<not> number_char c) s2
           in if \<not> pre \<and> \<not> post then None
              else if u = [] then None
              else (case unit_map u of
                None \<Rightarrow> None
              | Some k \<Rightarrow>
                  if 2 ^ 63 div k < v then None
                  else (let w = (if 0 < f then v * k + trunc_u64 (f_mul (f_of_int f) (f_div (f_of_int k) scale)) else v * k)
                        in if 0 < f \<and> 2 ^ 63 < w then None else Some (w, rest))))))"

lemma leading_int_length: "leading_int x s = Some (y, r) \<Longrightarrow> length r \<le> length s"
  by (induction s arbitrary: x) (auto simp: Let_def split: if_splits dest!: le_SucI)

lemma leading_fraction_length: "leading_fraction x sc ov s = (y, sc', r) \<Longrightarrow> length r \<le> length s"
proof (induction s arbitrary: x sc ov)
  case (Cons c cs)
  then show ?case by (auto simp: Let_def split: if_splits dest!: Cons.IH)
qed simp

lemma duration_chunk_shorter: "duration_chunk s = Some (v, rest) \<Longrightarrow> length rest < length s"
proof -
  assume d: "duration_chunk s = Some (v, rest)"
  then obtain i s1 where i: "leading_int 0 s = Some (i, s1)" by (auto simp: duration_chunk_def split: if_splits option.splits)
  define dot where "dot = (s1 \<noteq> [] \<and> hd s1 = CHR ''.'')"
  obtain f scale s2 where f: "(if dot then leading_fraction 0 (Fin 1) False (tl s1) else (0, Fin 1, s1)) = (f, scale, s2)" by (metis prod_cases3)
  have l: "length s2 \<le> length s"
    using leading_int_length [OF i] f leading_fraction_length [of 0 "Fin 1" False "tl s1" f scale s2] by (auto split: if_splits)
  have "takeWhile (\<lambda>c. \<not> number_char c) s2 \<noteq> []" "rest = dropWhile (\<lambda>c. \<not> number_char c) s2"
    using d i f unfolding dot_def [symmetric] by (auto simp: duration_chunk_def Let_def dot_def split: if_splits option.splits)
  then have "length rest < length s2" by (cases s2) (auto simp: length_dropWhile_le less_Suc_eq_le split: if_splits)
  then show ?thesis using l by simp
qed

function parse_chunks :: "string \<Rightarrow> int \<Rightarrow> int option" where
  "parse_chunks s d =
     (if s = [] then Some d
      else (case duration_chunk s of
              None \<Rightarrow> None
            | Some (v, rest) \<Rightarrow> (let d' = (d + v) mod 2 ^ 64 in if 2 ^ 63 < d' then None else parse_chunks rest d')))"
  by pat_completeness auto
termination
  by (relation "measure (\<lambda>(s, d). length s)") (auto dest: duration_chunk_shorter)

declare parse_chunks.simps [simp del]

definition ParseDuration :: "string \<Rightarrow> duration option" where
  "ParseDuration s =
     (let neg = (s \<noteq> [] \<and> hd s = CHR ''-'');
          t = (if s \<noteq> [] \<and> (hd s = CHR ''-'' \<or> hd s = CHR ''+'') then tl s else s)
      in if t = ''0'' then Some 0
         else if t = [] then None
         else (case parse_chunks t 0 of
                 None \<Rightarrow> None
               | Some d \<Rightarrow> if neg then Some (wrap64 (- d)) else if 2 ^ 63 - 1 < d then None else Some d))"

lemma parse_chunks_bounds: "parse_chunks s d = Some x \<Longrightarrow> 0 \<le> d \<Longrightarrow> d \<le> 2 ^ 63 \<Longrightarrow> 0 \<le> x \<and> x \<le> 2 ^ 63"
proof (induction s d rule: parse_chunks.induct)
  case (1 s d)
  show ?case
  proof (cases "s = []")
    case True
    then show ?thesis using 1 by (simp add: parse_chunks.simps)
  next
    case False
    then obtain v rest where v: "duration_chunk s = Some (v, rest)" using 1(2) by (auto simp: parse_chunks.simps [of s d] split: option.splits)
    let ?d = "(d + v) mod 2 ^ 64"
    have "\<not> 2 ^ 63 < ?d" "parse_chunks rest ?d = Some x"
      using 1(2) False v by (auto simp: parse_chunks.simps [of s d] Let_def split: if_splits)
    then show ?thesis using 1(1) [OF False v _ HOL.refl] by simp
  qed
qed

lemma ParseDuration_int64: "ParseDuration s = Some d \<Longrightarrow> min_int64 \<le> d \<and> d \<le> max_int64"
proof -
  have w: "min_int64 \<le> wrap64 x \<and> wrap64 x \<le> max_int64" for x
    using pos_mod_bound [of "2 ^ 64" "x + 2 ^ 63"] pos_mod_sign [of "2 ^ 64" "x + 2 ^ 63"] by (simp add: wrap64_def min_int64_def max_int64_def)
  have p: "min_int64 \<le> x" if "parse_chunks t 0 = Some x" for t x using parse_chunks_bounds [OF that] by (simp add: min_int64_def)
  assume "ParseDuration s = Some d"
  moreover have "min_int64 \<le> 0" by (simp add: min_int64_def)
  ultimately show ?thesis using w p by (auto simp: ParseDuration_def Let_def max_int64_def split: if_splits option.splits)
qed

lemma ParseDuration_samples:
  "ParseDuration ''500ms'' = Some 500000000" "ParseDuration ''1.5h'' = Some 5400000000000" "ParseDuration ''-2m'' = Some (- 120000000000)"
  "ParseDuration ''30'' = None" "ParseDuration ''2562048h'' = None"
  by code_simp+

section \<open>Decimal numbers\<close>

definition digits_value :: "string \<Rightarrow> int option" where
  "digits_value s = (if s = [] \<or> \<not> list_all is_digit s then None else Some (fold (\<lambda>c n. 10 * n + (int (code_of c) - 48)) s 0))"

text \<open>\<open>strconv.Atoi\<close> on a 64-bit platform, and \<open>ParseInt\<close> with base 10 and 64 bits.\<close>

definition atoi :: "string \<Rightarrow> int option" where
  "atoi s =
     (let v = (case s of
                 [] \<Rightarrow> None
               | c # cs \<Rightarrow> if c = CHR ''-'' then map_option uminus (digits_value cs) else if c = CHR ''+'' then digits_value cs else digits_value s)
      in case v of None \<Rightarrow> None | Some n \<Rightarrow> if - (2 ^ 63) \<le> n \<and> n < 2 ^ 63 then Some n else None)"

definition unix_seconds :: "gotime \<Rightarrow> int" where
  "unix_seconds t = (t - unix_epoch) div second"

end
