(* ===== verification/Auth.thy ===== *)
theory Auth
  imports Access Base64 GoText
begin

text \<open>
  \<open>internal/server/auth.go\<close>: the authentication configuration, the loopback authenticator and the
  OIDC authenticator with its cache of signing keys. Outside the repository and hence parameters:
  the JSON decoder on the three documents it reads, RSA signature verification and SHA-256, the
  parser of IP addresses and of URLs, and what the JWKS endpoint answers.
\<close>

section \<open>Requests\<close>

record http_request =
  rq_method :: string
  rq_path :: string
  rq_query :: "string \<Rightarrow> string"
  rq_body :: bytes
  rq_remote_addr :: string
  rq_header :: "string \<Rightarrow> string"

section \<open>Configuration\<close>

definition AuthModeLoopbackTrustedProxy :: string where "AuthModeLoopbackTrustedProxy = ''loopback_trusted_proxy''"
definition AuthModeKeycloakRS256 :: string where "AuthModeKeycloakRS256 = ''keycloak_rs256''"

text \<open>\<open>url.URL\<close> as far as the code looks at it.\<close>

record parsed_url =
  url_scheme :: string
  url_host :: string

record auth_config =
  ac_mode :: string
  ac_issuer :: string
  ac_audience :: string
  ac_jwks_url :: "parsed_url option"
  ac_ca_file :: string
  ac_roles_client_ids :: "string list"

definition blank_auth_config :: "string \<Rightarrow> auth_config" where
  "blank_auth_config mode = \<lparr>ac_mode = mode, ac_issuer = [], ac_audience = [], ac_jwks_url = None, ac_ca_file = [], ac_roles_client_ids = []\<rparr>"

definition LoadAuthConfig :: "(string \<Rightarrow> parsed_url option) \<Rightarrow> (string \<Rightarrow> string) \<Rightarrow> auth_config result" where
  "LoadAuthConfig url_parse getenv =
     (let mode = trim_space (getenv ''AUTH_MODE'') in
      if mode = AuthModeLoopbackTrustedProxy then Inr (blank_auth_config mode)
      else if mode = AuthModeKeycloakRS256 then
        (let issuer = trim_space (getenv ''OIDC_ISSUER'');
             audience = trim_space (getenv ''OIDC_AUDIENCE'');
             jwks = trim_space (getenv ''OIDC_JWKS_URL'');
             clients = trim_space (getenv ''OIDC_ROLES_CLIENT_IDS'')
         in require (issuer \<noteq> [] \<and> audience \<noteq> [] \<and> jwks \<noteq> [])
              (EMsg ''keycloak_rs256 mode requires OIDC_ISSUER, OIDC_AUDIENCE and OIDC_JWKS_URL'')
             (case url_parse jwks of
                None \<Rightarrow> Inl (EMsg ''OIDC_JWKS_URL must be an https URL'')
              | Some u \<Rightarrow>
                  require (url_scheme u = ''https'' \<and> url_host u \<noteq> []) (EMsg ''OIDC_JWKS_URL must be an https URL'')
                   (Inr \<lparr>ac_mode = mode, ac_issuer = issuer, ac_audience = audience, ac_jwks_url = Some u,
                         ac_ca_file = trim_space (getenv ''OIDC_CA_FILE''),
                         ac_roles_client_ids = (if clients = [] then [] else split_on (CHR '','') clients)\<rparr>)))
      else Inl (EMsg (''AUTH_MODE is not an approved mode'')))"

section \<open>Roles and clearances\<close>

definition parseClearanceHeader :: "string \<Rightarrow> classification result" where
  "parseClearanceHeader v =
     (let value = to_upper (trim_space v) in if value = [] then Inr ClassificationUnclassified else ParseClassification value)"

text \<open>The role set is a Go map: a role that is there already keeps its entry, and the bound counts entries.\<close>

definition add_role :: "string \<Rightarrow> string list \<Rightarrow> string list" where
  "add_role raw roles =
     (let value = trim_space raw in
      if value = [] \<or> 128 < length value \<or> 64 \<le> length roles then roles
      else if value \<in> set roles then roles else roles @ [value])"

definition normalizeRoles :: "string list \<Rightarrow> string list" where
  "normalizeRoles raw = fold add_role raw []"

definition parseRoleHeader :: "string \<Rightarrow> string list" where
  "parseRoleHeader v = normalizeRoles (split_on (CHR '','') v)"

section \<open>The loopback authenticator\<close>

definition last_index :: "char \<Rightarrow> string \<Rightarrow> nat option" where
  "last_index c s = (case filter (\<lambda>i. s ! i = c) [0..<length s] of [] \<Rightarrow> None | is \<Rightarrow> Some (last is))"

definition first_index :: "char \<Rightarrow> string \<Rightarrow> nat option" where
  "first_index c s = find (\<lambda>i. s ! i = c) [0..<length s]"

text \<open>\<open>net.SplitHostPort\<close>, the host only.\<close>

definition split_host :: "string \<Rightarrow> string option" where
  "split_host hp =
     (case last_index (CHR '':'') hp of
        None \<Rightarrow> None
      | Some i \<Rightarrow>
          if hd hp = CHR ''['' then
            (case first_index (CHR '']'') hp of
               None \<Rightarrow> None
             | Some e \<Rightarrow>
                 if e + 1 \<noteq> i then None
                 else if CHR ''['' \<in> set (drop 1 hp) \<or> CHR '']'' \<in> set (drop (e + 1) hp) then None
                 else Some (take (e - 1) (drop 1 hp)))
          else
            (let host = take i hp in
             if CHR '':'' \<in> set host \<or> CHR ''['' \<in> set hp \<or> CHR '']'' \<in> set hp then None else Some host))"

definition loopback_Authenticate :: "(string \<Rightarrow> bool) \<Rightarrow> http_request \<Rightarrow> principal result" where
  "loopback_Authenticate ip_loopback rq =
     (case split_host (rq_remote_addr rq) of
        None \<Rightarrow> Inl (EMsg ''request is not from the trusted local edge'')
      | Some host \<Rightarrow>
          require (ip_loopback host) (EMsg ''request is not from the trusted local edge'')
           (require (trim_space (rq_header rq ''X-Trusted-Proxy'') = ''loopback'') (EMsg ''verified caller identity is required'')
            (let subject = trim_space (rq_header rq ''X-Authenticated-Principal'') in
             require (subject \<noteq> [] \<and> length subject \<le> 512) (EMsg ''verified caller identity is required'')
              (rbind (parseClearanceHeader (rq_header rq ''X-Authenticated-Clearance''))
               (\<lambda>clearance. Inr \<lparr>pr_subject = subject, pr_roles = parseRoleHeader (rq_header rq ''X-Authenticated-Roles''), pr_clearance = clearance\<rparr>)))))"

section \<open>The signing keys\<close>

record rsa_key =
  rk_modulus :: nat
  rk_exponent :: nat

record jwks_item =
  jk_kty :: string
  jk_kid :: string
  jk_use :: string
  jk_alg :: string
  jk_n :: string
  jk_e :: string

text \<open>\<open>big.Int.SetBytes\<close> and the shift loop over the exponent: big-endian numbers.\<close>

definition be_nat :: "bytes \<Rightarrow> nat" where
  "be_nat bs = fold (\<lambda>b n. n * 256 + unat b) bs 0"

definition jwks_key :: "jwks_item \<Rightarrow> rsa_key option" where
  "jwks_key item =
     (if jk_kty item \<noteq> ''RSA'' \<or> jk_use item \<noteq> ''sig'' \<or> jk_alg item \<noteq> ''RS256'' \<or> jk_kid item = [] \<or> jk_n item = [] \<or> jk_e item = [] then None
      else (case b64url_raw_decode (jk_n item) of
        None \<Rightarrow> None
      | Some modulus \<Rightarrow>
          (case b64url_raw_decode (jk_e item) of
             None \<Rightarrow> None
           | Some exponentBytes \<Rightarrow>
               if exponentBytes = [] \<or> 4 < length exponentBytes then None
               else (let exponent = be_nat exponentBytes in
                     if exponent < 3 \<or> even exponent then None
                     else if be_nat modulus < 2 ^ 2047 then None
                     else Some \<lparr>rk_modulus = be_nat modulus, rk_exponent = exponent\<rparr>))))"

definition loaded_keys :: "jwks_item list \<Rightarrow> (string \<rightharpoonup> rsa_key)" where
  "loaded_keys items = fold (\<lambda>item m. case jwks_key item of None \<Rightarrow> m | Some k \<Rightarrow> m(jk_kid item \<mapsto> k)) items Map.empty"

record oidc_state =
  os_keys :: "string \<rightharpoonup> rsa_key"
  os_loaded_at :: gotime

text \<open>What one authentication meets: the clock readings and the answer of the JWKS endpoint.\<close>

record auth_env =
  ae_since_now :: gotime
  ae_loaded_now :: gotime
  ae_now :: gotime
  ae_jwks :: "jwks_item list result"

definition loadKeys :: "auth_env \<Rightarrow> oidc_state \<Rightarrow> unit result \<times> oidc_state" where
  "loadKeys E st =
     (case ae_jwks E of
        Inl e \<Rightarrow> (Inl e, st)
      | Inr items \<Rightarrow>
          if list_all (\<lambda>item. jwks_key item = None) items then (Inl (EMsg ''JWKS contains no approved RSA signing keys''), st)
          else (Inr (), \<lparr>os_keys = loaded_keys items, os_loaded_at = ae_loaded_now E\<rparr>))"

definition auth_key :: "auth_env \<Rightarrow> string \<Rightarrow> bool \<Rightarrow> oidc_state \<Rightarrow> rsa_key result \<times> oidc_state" where
  "auth_key E kid refresh st =
     (let fresh = time_sub (ae_since_now E) (os_loaded_at st) < 5 * minute in
      case (os_keys st kid, fresh) of
        (Some k, True) \<Rightarrow> (Inr k, st)
      | _ \<Rightarrow>
          if \<not> refresh then (Inl (EMsg ''JWT key is not trusted''), st)
          else (case loadKeys E st of
                  (Inl e, st') \<Rightarrow> (Inl (EWrap ''load OIDC JWKS'' e), st')
                | (Inr _, st') \<Rightarrow> (case os_keys st' kid of Some k \<Rightarrow> (Inr k, st') | None \<Rightarrow> (Inl (EMsg ''JWT key ID is not trusted''), st'))))"

section \<open>Tokens\<close>

text \<open>The audience claim is raw JSON: a string, an array of strings, or something else.\<close>

datatype audience = AudSingle string | AudMultiple "string list" | AudOther

definition audienceContains :: "audience \<Rightarrow> string \<Rightarrow> bool" where
  "audienceContains raw expected =
     (case raw of AudSingle s \<Rightarrow> s = expected | AudMultiple xs \<Rightarrow> list_ex (\<lambda>x. x = expected) xs | AudOther \<Rightarrow> False)"

record token_claims =
  tc_issuer :: string
  tc_subject :: string
  tc_audience :: audience
  tc_expires :: string
  tc_not_before :: string
  tc_clearance :: string
  tc_realm_roles :: "string list"
  tc_resource_access :: "string \<rightharpoonup> string list"

text \<open>The parameters: JSON of the protected header (algorithm and key id) and of the claims, RSA verification.\<close>

record auth_lib =
  al_header :: "bytes \<Rightarrow> (string \<times> string) option"
  al_claims :: "bytes \<Rightarrow> token_claims option"
  al_rsa_verify :: "rsa_key \<Rightarrow> bytes \<Rightarrow> bytes \<Rightarrow> bool"
  al_sha256 :: "bytes \<Rightarrow> bytes"

definition merge_roles :: "string list \<Rightarrow> string list \<Rightarrow> string list" where
  "merge_roles roles granted = roles @ filter (\<lambda>r. r \<notin> set roles) granted"

definition extractRoles :: "auth_config \<Rightarrow> token_claims \<Rightarrow> string list" where
  "extractRoles cfg claims =
     fold (\<lambda>clientID roles. case tc_resource_access claims clientID of None \<Rightarrow> roles | Some access \<Rightarrow> merge_roles roles (normalizeRoles access))
       (ac_roles_client_ids cfg) (normalizeRoles (tc_realm_roles claims))"

definition lower_char :: "char \<Rightarrow> char" where
  "lower_char c = (if 65 \<le> code_of c \<and> code_of c \<le> 90 then char_of (code_of c + 32) else c)"

text \<open>\<open>strings.SplitN(value, " ", 2)\<close>, when the separator occurs.\<close>

definition split_space :: "string \<Rightarrow> (string \<times> string) option" where
  "split_space s = (if CHR '' '' \<in> set s then Some (takeWhile (\<lambda>c. c \<noteq> CHR '' '') s, tl (dropWhile (\<lambda>c. c \<noteq> CHR '' '') s)) else None)"

definition bearer_token :: "http_request \<Rightarrow> string result" where
  "bearer_token rq =
     (case split_space (trim_space (rq_header rq ''Authorization'')) of
        None \<Rightarrow> Inl (EMsg ''Bearer authorization is required'')
      | Some (scheme, rest) \<Rightarrow>
          require (map lower_char scheme = ''bearer'' \<and> trim_space rest \<noteq> []) (EMsg ''Bearer authorization is required'')
           (Inr (trim_space rest)))"

definition check_claims :: "auth_config \<Rightarrow> int \<Rightarrow> token_claims \<Rightarrow> principal result" where
  "check_claims cfg now claims =
     require (tc_issuer claims = ac_issuer cfg \<and> audienceContains (tc_audience claims) (ac_audience cfg)) (EMsg ''JWT issuer or audience is invalid'')
      (case atoi (tc_expires claims) of
         None \<Rightarrow> Inl (EMsg ''JWT is expired or has no valid expiry'')
       | Some expires \<Rightarrow>
           require (now < expires) (EMsg ''JWT is expired or has no valid expiry'')
            (require (tc_not_before claims = [] \<or> (case atoi (tc_not_before claims) of None \<Rightarrow> False | Some nbf \<Rightarrow> nbf \<le> now)) (EMsg ''JWT is not yet valid'')
              (let subject = trim_space (tc_subject claims) in
               require (subject \<noteq> [] \<and> length subject \<le> 512) (EMsg ''authenticated subject is required'')
                (case parseClearanceHeader (tc_clearance claims) of
                   Inl _ \<Rightarrow> Inl (EMsg ''JWT clearance claim is invalid'')
                 | Inr clearance \<Rightarrow> Inr \<lparr>pr_subject = subject, pr_roles = extractRoles cfg claims, pr_clearance = clearance\<rparr>))))"

definition verify_token :: "auth_lib \<Rightarrow> auth_config \<Rightarrow> auth_env \<Rightarrow> string \<Rightarrow> string \<Rightarrow> string \<Rightarrow> rsa_key \<Rightarrow> principal result" where
  "verify_token L cfg E h p s key =
     (case b64url_raw_decode s of
        None \<Rightarrow> Inl (EMsg ''JWT signature is invalid'')
      | Some signature \<Rightarrow>
          require (al_rsa_verify L key (al_sha256 L (bytes_of_string (h @ ''.'' @ p))) signature) (EMsg ''JWT signature verification failed'')
           (case b64url_raw_decode p of
              None \<Rightarrow> Inl (EMsg ''JWT claims are invalid'')
            | Some payload \<Rightarrow>
                (case al_claims L payload of
                   None \<Rightarrow> Inl (EMsg ''JWT claims are invalid'')
                 | Some claims \<Rightarrow> check_claims cfg (unix_seconds (ae_now E)) claims)))"

definition oidc_Authenticate ::
  "auth_lib \<Rightarrow> auth_config \<Rightarrow> auth_env \<Rightarrow> http_request \<Rightarrow> oidc_state \<Rightarrow> principal result \<times> oidc_state" where
  "oidc_Authenticate L cfg E rq st =
     (case bearer_token rq of
        Inl e \<Rightarrow> (Inl e, st)
      | Inr token \<Rightarrow>
          (case split_on (CHR ''.'') token of
             [h, p, s] \<Rightarrow>
               if h = [] \<or> p = [] \<or> s = [] then (Inl (EMsg ''JWT compact serialization is invalid''), st)
               else (case b64url_raw_decode h of
                       None \<Rightarrow> (Inl (EMsg ''JWT header is invalid''), st)
                     | Some headerBytes \<Rightarrow>
                         (case al_header L headerBytes of
                            None \<Rightarrow> (Inl (EMsg ''JWT algorithm or key ID is invalid''), st)
                          | Some (alg, kid) \<Rightarrow>
                              if alg \<noteq> ''RS256'' \<or> trim_space kid = [] then (Inl (EMsg ''JWT algorithm or key ID is invalid''), st)
                              else (case auth_key E kid True st of
                                      (Inl e, st') \<Rightarrow> (Inl e, st')
                                    | (Inr key, st') \<Rightarrow> (verify_token L cfg E h p s key, st'))))
           | _ \<Rightarrow> (Inl (EMsg ''JWT compact serialization is invalid''), st)))"

datatype authenticator = Loopback | OIDC auth_config oidc_state

text \<open>
  \<open>NewAuthenticator\<close>: the authenticator of the mode, with an empty cache of keys. Reading the CA
  file and finding a certificate in it (\<open>AppendCertsFromPEM\<close>) are parameters.
\<close>

definition newOIDCAuthenticator :: "(string \<Rightarrow> bytes result) \<Rightarrow> (bytes \<Rightarrow> bool) \<Rightarrow> auth_config \<Rightarrow> authenticator result" where
  "newOIDCAuthenticator read_file has_cert cfg =
     (let auth = OIDC cfg \<lparr>os_keys = Map.empty, os_loaded_at = 0\<rparr> in
      if ac_ca_file cfg = [] then Inr auth
      else (case read_file (ac_ca_file cfg) of
              Inl e \<Rightarrow> Inl (EWrap ''read OIDC CA file'' e)
            | Inr pemBytes \<Rightarrow> require (has_cert pemBytes) (EMsg ''OIDC CA file did not contain a usable PEM certificate'') (Inr auth)))"

definition NewAuthenticator :: "(string \<Rightarrow> bytes result) \<Rightarrow> (bytes \<Rightarrow> bool) \<Rightarrow> auth_config \<Rightarrow> authenticator result" where
  "NewAuthenticator read_file has_cert cfg =
     (if ac_mode cfg = AuthModeLoopbackTrustedProxy then Inr Loopback
      else if ac_mode cfg = AuthModeKeycloakRS256 then newOIDCAuthenticator read_file has_cert cfg
      else Inl (EMsg ''authentication mode is not approved''))"

definition Authenticate ::
  "auth_lib \<Rightarrow> (string \<Rightarrow> bool) \<Rightarrow> auth_env \<Rightarrow> http_request \<Rightarrow> authenticator \<Rightarrow> principal result \<times> authenticator" where
  "Authenticate L ip_loopback E rq a =
     (case a of
        Loopback \<Rightarrow> (loopback_Authenticate ip_loopback rq, Loopback)
      | OIDC cfg st \<Rightarrow> (case oidc_Authenticate L cfg E rq st of (r, st') \<Rightarrow> (r, OIDC cfg st')))"

end
