(* ===== verification/Server.thy ===== *)
theory Server
  imports TrackStore Auth
begin

text \<open>
  \<open>internal/server/server.go\<close> and \<open>internal/server/isr_handlers.go\<close>: the HTTP surface with
  its routes, the authentication and authorisation middleware, every handler and the mapping of
  errors to status codes. A handler returns what it writes to the response, in order, and the new
  state of the service: the database, the fusion engine and TigerBeetle. Outside the repository
  and hence parameters: the authenticator's verdict on a request, the JSON decoder (\<open>None\<close> when
  \<open>Decode\<close> fails), and the environment of each store call.
\<close>

section \<open>Requests and responses\<close>

record signed_input =
  si_source_id :: string
  si_source_event_id :: string
  si_claimed_at :: gotime
  si_payload_base64 :: string
  si_signature_base64 :: string

record registration_input =
  ri_source_id :: string
  ri_source_kind :: string
  ri_authority :: string
  ri_public_key_base64 :: string
  ri_active :: bool

record revocation_input =
  vi_reason :: string
  vi_revoked_by :: string

record rotation_input =
  ki_public_key_base64 :: string
  ki_grace_until :: gotime
  ki_rotated_by :: string

record proposal_input =
  pi_entry_id :: string
  pi_entry_kind :: string
  pi_incident_ref :: string
  pi_classification :: string
  pi_metric :: string
  pi_quantity :: "64 word"
  pi_unit :: string

text \<open>What the JSON decoder makes of a request body, for each type a handler decodes into.\<close>

record decoders =
  dec_signed :: "bytes \<Rightarrow> signed_input option"
  dec_registration :: "bytes \<Rightarrow> registration_input option"
  dec_revocation :: "bytes \<Rightarrow> revocation_input option"
  dec_rotation :: "bytes \<Rightarrow> rotation_input option"
  dec_create :: "bytes \<Rightarrow> create_request option"
  dec_correlation :: "bytes \<Rightarrow> correlation_request option"
  dec_assignment :: "bytes \<Rightarrow> assignment_request option"
  dec_version :: "bytes \<Rightarrow> int option"
  dec_proposal :: "bytes \<Rightarrow> proposal_input option"

record track_point_view =
  pv_observed_at :: gotime
  pv_latitude :: f64
  pv_longitude :: f64
  pv_modality :: string

record track_view =
  tv_track_id :: string
  tv_identity :: string
  tv_classification :: classification
  tv_point_count :: nat
  tv_points :: "track_point_view list"

text \<open>\<open>BErrorOf\<close> is an error body with the text of the error.\<close>

datatype reply_body =
    BError string
  | BErrorOf go_error
  | BStatus string
  | BSource string string
  | BFeedAdmission feed_admission
  | BFeedIncident feed_admission incident
  | BIncident incident
  | BCorrelation spatial_correlation
  | BAssignment analyst_assignment
  | BDetection detection_admission
  | BDetections "detection list"
  | BTracks "track_view list"
  | BAnomalies "retained_anomaly list"
  | BAggregates "outcome_aggregate list"
  | BProposed string
  | BEntry outcome_entry
  | BMetrics
  | BMux

type_synonym reply = "nat \<times> reply_body"

section \<open>The state of the service\<close>

record ('d, 't) service =
  sv_db :: 'd
  sv_engine :: engine
  sv_tb :: 't

text \<open>\<open>ISRDeps\<close>: which dependencies are wired.\<close>

record 't isr_deps =
  dp_isr_store :: bool
  dp_track_store :: bool
  dp_fusion :: bool
  dp_outcomes :: "'t ledger_service option"

text \<open>The configuration of the server with the parameters of the model.\<close>

record 't server_config =
  sc_crypto :: crypto
  sc_enc :: "json \<Rightarrow> bytes"
  sc_decode :: detection_decoder
  sc_decode_incident :: "bytes \<Rightarrow> (create_request \<times> bool) option"
  sc_jsonb :: "bytes \<Rightarrow> bytes"
  sc_math :: math_fns
  sc_decoders :: decoders
  sc_parse_time :: "string \<Rightarrow> gotime option"
  sc_isr :: "'t isr_deps option"
  sc_authenticate :: "(http_request \<Rightarrow> principal result) option"
  sc_metrics :: bool

text \<open>
  What one request meets: the environments of its two store calls, the orders in which the engine
  iterates over its tracks, the engine's clock, a fresh track id, and the readiness of the pool.
\<close>

record request_env =
  re_env :: db_env
  re_env2 :: db_env
  re_order1 :: "string list"
  re_order2 :: "string list"
  re_now :: gotime
  re_track_id :: string
  re_ready :: bool

type_synonym ('d, 't) handler = "request_env \<Rightarrow> http_request \<Rightarrow> principal option \<Rightarrow> ('d, 't) service \<Rightarrow> reply list \<times> ('d, 't) service"

definition subject_of :: "principal option \<Rightarrow> string" where
  "subject_of p = (case p of None \<Rightarrow> [] | Some q \<Rightarrow> pr_subject q)"

definition only :: "nat \<Rightarrow> reply_body \<Rightarrow> 's \<Rightarrow> reply list \<times> 's" where
  "only status body s = ([(status, body)], s)"

section \<open>Errors\<close>

definition writeIncidentError :: "go_error \<Rightarrow> reply" where
  "writeIncidentError err =
     (if errors_is err ErrNotFound \<or> errors_is err IsrErrNotFound \<or> errors_is err LedgerErrNotFound then (404, BErrorOf err)
      else if errors_is err ErrForbidden then (403, BError ''insufficient role or clearance'')
      else if errors_is err ErrIdempotencyConflict \<or> errors_is err ErrCorrelationConflict \<or> errors_is err ErrOptimisticConflict \<or>
        errors_is err ErrInvalidTransition \<or> errors_is err ErrFeedSourceKeyConflict \<or> errors_is err IsrErrConflict \<or>
        errors_is err LedgerErrConflict \<or> errors_is err ErrDualControl \<or> errors_is err ErrAlreadyConfirmed then (409, BErrorOf err)
      else (500, BError ''internal maritime intelligence failure''))"

definition writeISRError :: "go_error \<Rightarrow> reply" where
  "writeISRError err =
     (if errors_is err ErrForbidden then (403, BError ''insufficient role or clearance'')
      else if errors_is err IsrErrNotFound \<or> errors_is err LedgerErrNotFound then (404, BErrorOf err)
      else if errors_is err IsrErrConflict \<or> errors_is err LedgerErrConflict then (409, BErrorOf err)
      else if errors_is err ErrDualControl \<or> errors_is err ErrAlreadyConfirmed then (409, BErrorOf err)
      else (422, BErrorOf err))"

text \<open>A store call that may change the database, its error mapped by \<open>w\<close> and its value by \<open>ok\<close>.\<close>

definition answer :: "(go_error \<Rightarrow> reply) \<Rightarrow> ('a \<Rightarrow> reply) \<Rightarrow> 'a result \<times> 'd \<Rightarrow> ('d, 't) service \<Rightarrow> reply list \<times> ('d, 't) service" where
  "answer w ok res s = (case res of (Inl e, db) \<Rightarrow> ([w e], s\<lparr>sv_db := db\<rparr>) | (Inr x, db) \<Rightarrow> ([ok x], s\<lparr>sv_db := db\<rparr>))"

section \<open>Incident and feed handlers\<close>

definition health :: "('d, 't) handler" where
  "health E rq p s = only 200 (BStatus ''ok'') s"

definition readyz :: "('d, 't) handler" where
  "readyz E rq p s = (if \<not> re_ready E then only 503 (BError ''not ready'') s else only 200 (BStatus ''ready'') s)"

definition registerFeedSource :: "'t server_config \<Rightarrow> ('a feed_db_scheme, 't) handler" where
  "registerFeedSource C E rq p s =
     (case dec_registration (sc_decoders C) (rq_body rq) of
        None \<Rightarrow> only 400 (BError ''invalid feed source JSON'') s
      | Some i \<Rightarrow>
          (case b64_raw_decode (ri_public_key_base64 i) of
             None \<Rightarrow> only 400 (BError ''public_key_base64 is invalid'') s
           | Some key \<Rightarrow>
               answer writeIncidentError (\<lambda>_. (201, BSource (ri_source_id i) ''registered''))
                 (RegisterFeedSource (sc_crypto C) (re_env E)
                    \<lparr>rg_source_id = ri_source_id i, rg_source_kind = ri_source_kind i, rg_authority = ri_authority i,
                     rg_public_key = key, rg_active = ri_active i\<rparr> (sv_db s)) s))"

definition revokeFeedSource :: "'t server_config \<Rightarrow> string \<Rightarrow> ('a feed_db_scheme, 't) handler" where
  "revokeFeedSource C sid E rq p s =
     (case dec_revocation (sc_decoders C) (rq_body rq) of
        None \<Rightarrow> only 400 (BError ''invalid feed source revocation JSON'') s
      | Some i \<Rightarrow>
          answer writeIncidentError (\<lambda>_. (200, BSource sid ''revoked''))
            (RevokeFeedSource (re_env E) \<lparr>rv_source_id = sid, rv_reason = vi_reason i, rv_revoked_by = subject_of p\<rparr> (sv_db s)) s)"

definition rotateFeedSourceKey :: "'t server_config \<Rightarrow> string \<Rightarrow> ('a feed_db_scheme, 't) handler" where
  "rotateFeedSourceKey C sid E rq p s =
     (case dec_rotation (sc_decoders C) (rq_body rq) of
        None \<Rightarrow> only 400 (BError ''invalid feed key rotation JSON'') s
      | Some i \<Rightarrow>
          (case b64_raw_decode (ki_public_key_base64 i) of
             None \<Rightarrow> only 400 (BError ''public_key_base64 is invalid'') s
           | Some key \<Rightarrow>
               answer writeIncidentError (\<lambda>_. (200, BSource sid ''key_rotated''))
                 (RotateFeedSourceKey (sc_crypto C) (re_env E)
                    \<lparr>ro_source_id = sid, ro_new_public_key = key, ro_grace_until = ki_grace_until i, ro_rotated_by = subject_of p\<rparr> (sv_db s)) s))"

text \<open>The decoding that the three signed routes share: base64 payload and signature.\<close>

definition signed_request :: "signed_input \<Rightarrow> reply + feed_request" where
  "signed_request i =
     (case b64_std_decode (si_payload_base64 i) of
        None \<Rightarrow> Inl (400, BError ''payload_base64 is invalid'')
      | Some payload \<Rightarrow>
          (case DecodeFeedSignature (si_signature_base64 i) of
             Inl _ \<Rightarrow> Inl (400, BError ''signature_base64 is invalid'')
           | Inr signature \<Rightarrow>
               Inr \<lparr>fr_source_id = si_source_id i, fr_source_event_id = si_source_event_id i, fr_claimed_at = si_claimed_at i,
                    fr_payload = payload, fr_signature = signature\<rparr>))"

definition admitFeedEvent :: "'t server_config \<Rightarrow> ('a feed_db_scheme, 't) handler" where
  "admitFeedEvent C E rq p s =
     (case dec_signed (sc_decoders C) (rq_body rq) of
        None \<Rightarrow> only 400 (BError ''invalid feed event JSON'') s
      | Some i \<Rightarrow>
          (case signed_request i of
             Inl r \<Rightarrow> ([r], s)
           | Inr q \<Rightarrow> answer writeIncidentError (\<lambda>a. (201, BFeedAdmission a)) (AdmitFeedEvent (sc_crypto C) (re_env E) q (sv_db s)) s))"

definition admitFeedIncident :: "'t server_config \<Rightarrow> ('a feed_db_scheme, 't) handler" where
  "admitFeedIncident C E rq p s =
     (case dec_signed (sc_decoders C) (rq_body rq) of
        None \<Rightarrow> only 400 (BError ''invalid feed incident JSON'') s
      | Some i \<Rightarrow>
          (case signed_request i of
             Inl r \<Rightarrow> ([r], s)
           | Inr q \<Rightarrow> answer writeIncidentError (\<lambda>(a, n). (201, BFeedIncident a n))
               (AdmitFeedIncident (sc_crypto C) (sc_decode_incident C) (re_env E) q (sv_db s)) s))"

definition create :: "'t server_config \<Rightarrow> ('a incident_db_scheme, 't) handler" where
  "create C E rq p s =
     (case dec_create (sc_decoders C) (rq_body rq) of
        None \<Rightarrow> only 400 (BError ''invalid JSON request'') s
      | Some i \<Rightarrow> answer writeIncidentError (\<lambda>n. (201, BIncident n)) (Create (re_env E) (i\<lparr>cr_created_by := subject_of p\<rparr>) (sv_db s)) s)"

definition incidents_prefix :: string where "incidents_prefix = ''/v1/incidents/''"

definition trim_prefix :: "string \<Rightarrow> string \<Rightarrow> string" where
  "trim_prefix pre s = (if take (length pre) s = pre then drop (length pre) s else s)"

definition get :: "('a incident_db_scheme, 't) handler" where
  "get E rq p s =
     (let incidentID = trim_prefix incidents_prefix (rq_path rq) in
      if incidentID = [] \<or> CHR ''/'' \<in> set incidentID then only 404 (BError ''incident not found'') s
      else (case Get (re_env E) 0 incidentID (sv_db s) of
              Inl e \<Rightarrow> ([writeIncidentError e], s)
            | Inr n \<Rightarrow> only 200 (BIncident n) s))"

definition correlate :: "'t server_config \<Rightarrow> string \<Rightarrow> ('a incident_db_scheme, 't) handler" where
  "correlate C iid E rq p s =
     (case dec_correlation (sc_decoders C) (rq_body rq) of
        None \<Rightarrow> only 400 (BError ''invalid spatial correlation JSON request'') s
      | Some i \<Rightarrow> answer writeIncidentError (\<lambda>x. (201, BCorrelation x)) (Correlate (re_env E) iid i (sv_db s)) s)"

definition assign :: "'t server_config \<Rightarrow> string \<Rightarrow> ('a incident_db_scheme, 't) handler" where
  "assign C iid E rq p s =
     (case dec_assignment (sc_decoders C) (rq_body rq) of
        None \<Rightarrow> only 400 (BError ''invalid analyst assignment JSON request'') s
      | Some i \<Rightarrow> answer writeIncidentError (\<lambda>x. (200, BAssignment x)) (Assign (re_env E) iid i (sv_db s)) s)"

fun split_slash :: "string \<Rightarrow> string list" where
  "split_slash [] = [[]]"
| "split_slash (c # cs) = (if c = CHR ''/'' then [] # split_slash cs else (case split_slash cs of x # xs \<Rightarrow> (c # x) # xs | [] \<Rightarrow> [[c]]))"

definition nextByOperation :: "string \<Rightarrow> status option" where
  "nextByOperation = map_of [(''acknowledge'', StatusAcknowledged), (''investigate'', StatusInvestigating),
     (''resolve'', StatusResolved), (''close'', StatusClosed)]"

text \<open>The incident that \<open>Transition\<close> reads first is read from the same database.\<close>

definition transition :: "'t server_config \<Rightarrow> ('a incident_db_scheme, 't) handler" where
  "transition C E rq p s =
     (case split_slash (trim_prefix incidents_prefix (rq_path rq)) of
        [iid, operation] \<Rightarrow>
          if iid = [] then only 404 (BError ''incident operation not found'') s
          else (case nextByOperation operation of
                  None \<Rightarrow> only 404 (BError ''incident operation not found'') s
                | Some nextStatus \<Rightarrow>
                    (case dec_version (sc_decoders C) (rq_body rq) of
                       None \<Rightarrow> only 400 (BError ''expected_version must be a positive integer'') s
                     | Some v \<Rightarrow>
                         if v < 1 then only 400 (BError ''expected_version must be a positive integer'') s
                         else answer writeIncidentError (\<lambda>n. (200, BIncident n)) (Transition (re_env E) (sv_db s) iid v nextStatus (sv_db s)) s))
      | _ \<Rightarrow> only 404 (BError ''incident operation not found'') s)"


section \<open>ISR handlers\<close>

definition isrUnavailable :: "'t server_config \<Rightarrow> bool" where
  "isrUnavailable C = (case sc_isr C of None \<Rightarrow> True | Some d \<Rightarrow> \<not> dp_isr_store d)"

definition not_configured :: reply where
  "not_configured = (503, BError ''isr analytics are not configured'')"

text \<open>
  \<open>if server.isrUnavailable(response) || missing\<close>: the first operand writes its own response
  before the branch writes the second one.
\<close>

definition unavailable_or :: "'t server_config \<Rightarrow> ('t isr_deps \<Rightarrow> bool) \<Rightarrow> string \<Rightarrow> reply list option" where
  "unavailable_or C missing msg =
     (if isrUnavailable C then Some [not_configured, (503, BError msg)]
      else (case sc_isr C of Some d \<Rightarrow> if missing d then Some [(503, BError msg)] else None | None \<Rightarrow> None))"

text \<open>Fusion after a durable admission: ingest, then the record of the track as it is now.\<close>

definition fuse ::
  "'t server_config \<Rightarrow> 't isr_deps \<Rightarrow> request_env \<Rightarrow> detection \<Rightarrow> ('a track_db_scheme, 't) service \<Rightarrow>
   go_error option \<times> ('a track_db_scheme, 't) service" where
  "fuse C D E d s =
     (case Ingest (sc_math C) (re_order1 E) (re_order2 E) (re_now E) (re_track_id E) d (sv_engine s) of
        (Inl e, eng) \<Rightarrow> (None, s\<lparr>sv_engine := eng\<rparr>)
      | (Inr (tid, (as, lat)), eng) \<Rightarrow>
          (let s1 = s\<lparr>sv_engine := eng\<rparr> in
           if \<not> dp_track_store D then (None, s1)
           else (case engine_Track tid eng of
                   None \<Rightarrow> (None, s1)
                 | Some t \<Rightarrow>
                     (case RecordFusion (sc_crypto C) (sc_enc C) (re_env2 E) t d as (sv_db s1) of
                        (Inl e, db) \<Rightarrow> (Some e, s1\<lparr>sv_db := db\<rparr>)
                      | (Inr _, db) \<Rightarrow> (None, s1\<lparr>sv_db := db\<rparr>)))))"

definition admitDetection :: "'t server_config \<Rightarrow> ('a track_db_scheme, 't) handler" where
  "admitDetection C E rq p s =
     (if isrUnavailable C then ([not_configured], s)
      else (case dec_signed (sc_decoders C) (rq_body rq) of
        None \<Rightarrow> only 400 (BError ''invalid detection admission JSON'') s
      | Some i \<Rightarrow>
          (case signed_request i of
             Inl r \<Rightarrow> ([r], s)
           | Inr q \<Rightarrow>
               (case AdmitDetection (sc_crypto C) (sc_enc C) (sc_decode C) (re_env E) q (sv_db s) of
                  (Inl e, db) \<Rightarrow> ([writeISRError e], s\<lparr>sv_db := db\<rparr>)
                | (Inr (d, a), db) \<Rightarrow>
                    (let s1 = s\<lparr>sv_db := db\<rparr> in
                     case sc_isr C of
                       None \<Rightarrow> only 201 (BDetection a) s1
                     | Some D \<Rightarrow>
                         if \<not> da_replayed a \<and> dp_fusion D \<and> d_has_position d
                         then (case fuse C D E d s1 of
                                 (Some e, s2) \<Rightarrow> ([writeISRError e], s2)
                               | (None, s2) \<Rightarrow> only 201 (BDetection a) s2)
                         else only 201 (BDetection a) s1)))))"

definition queryLimit :: "http_request \<Rightarrow> int" where
  "queryLimit rq = (let value = trim_space (rq_query rq ''limit'') in if value = [] then 0 else (case atoi value of None \<Rightarrow> 0 | Some n \<Rightarrow> n))"

text \<open>The optional lower bound on the time; the zero time means none.\<close>

definition query_since :: "'t server_config \<Rightarrow> http_request \<Rightarrow> gotime option" where
  "query_since C rq = (let since = rq_query rq ''since'' in if since = [] then Some 0 else sc_parse_time C since)"

definition listDetections :: "'t server_config \<Rightarrow> ('a track_db_scheme, 't) handler" where
  "listDetections C E rq p s =
     (if isrUnavailable C then ([not_configured], s)
      else (case p of
        None \<Rightarrow> only 401 (BError ''authentication failed'') s
      | Some q \<Rightarrow>
          (case query_since C rq of
             None \<Rightarrow> only 400 (BError ''since must be RFC3339'') s
           | Some t \<Rightarrow>
               (case ListDetections (sc_decode C) (sc_jsonb C) (re_env E) q
                       \<lparr>df_modality = to_upper (rq_query rq ''modality''), df_mmsi = trim_space (rq_query rq ''mmsi''), df_since = t, df_limit = queryLimit rq\<rparr>
                       (sv_db s) of
                  Inl e \<Rightarrow> ([writeISRError e], s)
                | Inr ds \<Rightarrow> only 200 (BDetections ds) s))))"

definition point_view :: "track_point \<Rightarrow> track_point_view" where
  "point_view q = \<lparr>pv_observed_at = tp_observed_at q, pv_latitude = latitude (tp_position q), pv_longitude = longitude (tp_position q),
     pv_modality = tp_modality q\<rparr>"

definition view_of :: "track \<Rightarrow> track_view" where
  "view_of t = \<lparr>tv_track_id = tk_id t, tv_identity = FusionIdentity t, tv_classification = tk_classification t,
     tv_point_count = length (tk_points t), tv_points = map point_view (tk_points t)\<rparr>"

definition listTracks :: "'t server_config \<Rightarrow> ('a track_db_scheme, 't) handler" where
  "listTracks C E rq p s =
     (case unavailable_or C (\<lambda>d. \<not> dp_fusion d) ''isr analytics are not configured'' of
        Some rs \<Rightarrow> (rs, s)
      | None \<Rightarrow>
          (case p of
             None \<Rightarrow> only 401 (BError ''authentication failed'') s
           | Some q \<Rightarrow>
               only 200 (BTracks (map view_of (filter (\<lambda>t. CanReadTracks q (tk_classification t) = None) (engine_Tracks (re_order1 E) (sv_engine s))))) s))"

definition listAnomalies :: "'t server_config \<Rightarrow> ('a track_db_scheme, 't) handler" where
  "listAnomalies C E rq p s =
     (if isrUnavailable C then ([not_configured], s)
      else (case p of
        None \<Rightarrow> only 401 (BError ''authentication failed'') s
      | Some q \<Rightarrow>
          (case query_since C rq of
             None \<Rightarrow> only 400 (BError ''since must be RFC3339'') s
           | Some t \<Rightarrow>
               (case ListAnomalies (re_env E) q \<lparr>af_kind = trim_space (rq_query rq ''kind''), af_since = t, af_limit = queryLimit rq\<rparr> (sv_db s) of
                  Inl e \<Rightarrow> ([writeISRError e], s)
                | Inr as \<Rightarrow> only 200 (BAnomalies as) s))))"

definition outcomeAggregates :: "'t server_config \<Rightarrow> ('a track_db_scheme, 't) handler" where
  "outcomeAggregates C E rq p s =
     (if isrUnavailable C then ([not_configured], s)
      else (case p of
        None \<Rightarrow> only 401 (BError ''authentication failed'') s
      | Some q \<Rightarrow>
          (case OutcomeAggregates (re_env E) q (sv_db s) of
             Inl e \<Rightarrow> ([writeISRError e], s)
           | Inr as \<Rightarrow> only 200 (BAggregates as) s)))"

definition outcomes_of :: "'t server_config \<Rightarrow> 't ledger_service option" where
  "outcomes_of C = (case sc_isr C of None \<Rightarrow> None | Some d \<Rightarrow> dp_outcomes d)"

definition proposeOutcome :: "'t server_config \<Rightarrow> ('a track_db_scheme, 't) handler" where
  "proposeOutcome C E rq p s =
     (case unavailable_or C (\<lambda>d. dp_outcomes d = None) ''outcome ledger is not configured'' of
        Some rs \<Rightarrow> (rs, s)
      | None \<Rightarrow>
          (case p of
             None \<Rightarrow> only 401 (BError ''authentication failed'') s
           | Some q \<Rightarrow>
               (case dec_proposal (sc_decoders C) (rq_body rq) of
                  None \<Rightarrow> only 400 (BError ''invalid outcome proposal JSON'') s
                | Some i \<Rightarrow>
                    answer writeISRError (\<lambda>_. (201, BProposed (pi_entry_id i)))
                      (Propose (re_env E)
                         \<lparr>pp_entry_id = pi_entry_id i, pp_entry_kind = pi_entry_kind i, pp_incident_ref = pi_incident_ref i,
                          pp_classification = pi_classification i, pp_metric = pi_metric i, pp_quantity = sint (pi_quantity i),
                          pp_unit = pi_unit i, pp_proposed_by = pr_subject q\<rparr> (sv_db s)) s)))"

definition confirmOutcome :: "'t server_config \<Rightarrow> string \<Rightarrow> ('a track_db_scheme, 't) handler" where
  "confirmOutcome C eid E rq p s =
     (case unavailable_or C (\<lambda>d. dp_outcomes d = None) ''outcome ledger is not configured'' of
        Some rs \<Rightarrow> (rs, s)
      | None \<Rightarrow>
          (case (p, outcomes_of C) of
             (Some q, Some sv) \<Rightarrow>
               (case Confirm (sc_crypto C) (sc_enc C) sv (re_env E) eid (pr_subject q) (sv_db s, sv_tb s) of
                  (Inl e, (db, tb)) \<Rightarrow> ([writeISRError e], s\<lparr>sv_db := db, sv_tb := tb\<rparr>)
                | (Inr x, (db, tb)) \<Rightarrow> only 200 (BEntry x) (s\<lparr>sv_db := db, sv_tb := tb\<rparr>))
           | _ \<Rightarrow> only 401 (BError ''authentication failed'') s))"

section \<open>Routes and middleware\<close>

text \<open>
  The patterns of the two multiplexers on the segments of the path. A pattern for GET also takes
  HEAD; a path with an empty or dotted inner segment is redirected, as is a path that only matches
  with a trailing slash.
\<close>

definition is_get :: "string \<Rightarrow> bool" where
  "is_get m = (m = ''GET'' \<or> m = ''HEAD'')"

definition mux_reply :: "nat \<Rightarrow> ('d, 't) handler" where
  "mux_reply status E rq p s = only status BMux s"

definition on_post :: "http_request \<Rightarrow> ('d, 't) handler \<Rightarrow> ('d, 't) handler" where
  "on_post rq h = (if rq_method rq = ''POST'' then h else mux_reply 405)"

definition on_get :: "http_request \<Rightarrow> ('d, 't) handler \<Rightarrow> ('d, 't) handler" where
  "on_get rq h = (if is_get (rq_method rq) then h else mux_reply 405)"

definition requireFeedSourceAdmin :: "('d, 't) handler \<Rightarrow> ('d, 't) handler" where
  "requireFeedSourceAdmin k E rq p s =
     (case p of
        None \<Rightarrow> only 401 (BError ''authentication failed'') s
      | Some q \<Rightarrow>
          if CanAdministerFeedSources q \<noteq> None
          then only 403 (BError ''feed-source administration requires the feed-source-admin role'') s
          else k E rq p s)"

definition incident_route :: "'t server_config \<Rightarrow> http_request \<Rightarrow> string list \<Rightarrow> ('a track_db_scheme, 't) handler" where
  "incident_route C rq rest =
     (if is_get (rq_method rq) then get
      else if rq_method rq \<noteq> ''POST'' then mux_reply 405
      else (case rest of
              [iid, op] \<Rightarrow> if op = ''correlations'' then correlate C iid else if op = ''assignment'' then assign C iid else transition C
            | _ \<Rightarrow> transition C))"

fun api :: "'t server_config \<Rightarrow> http_request \<Rightarrow> string list \<Rightarrow> ('a track_db_scheme, 't) handler" where
  "api C rq [res] =
     (if res = ''incidents'' then (if rq_method rq = ''POST'' then create C else if is_get (rq_method rq) then mux_reply 301 else mux_reply 405)
      else if res = ''feed-sources'' then on_post rq (requireFeedSourceAdmin (registerFeedSource C))
      else if res = ''outcomes'' then on_post rq (proposeOutcome C)
      else mux_reply 404)"
| "api C rq [res, x] =
     (if res = ''incidents'' then incident_route C rq [x]
      else if res = ''feed-events'' \<and> x = ''admit'' then on_post rq (admitFeedEvent C)
      else if res = ''feed-events'' \<and> x = ''admit-incident'' then on_post rq (admitFeedIncident C)
      else if res = ''isr'' \<and> x = ''detections:admit'' then on_post rq (admitDetection C)
      else if res = ''isr'' \<and> x = ''detections'' then on_get rq (listDetections C)
      else if res = ''isr'' \<and> x = ''tracks'' then on_get rq (listTracks C)
      else if res = ''isr'' \<and> x = ''anomalies'' then on_get rq (listAnomalies C)
      else if res = ''outcomes'' \<and> x = ''aggregates'' then on_get rq (outcomeAggregates C)
      else mux_reply 404)"
| "api C rq [res, x, op] =
     (if res = ''incidents'' then incident_route C rq [x, op]
      else if res = ''feed-sources'' \<and> op = ''revoke'' then on_post rq (requireFeedSourceAdmin (revokeFeedSource C x))
      else if res = ''feed-sources'' \<and> op = ''rotate-key'' then on_post rq (requireFeedSourceAdmin (rotateFeedSourceKey C x))
      else if res = ''outcomes'' \<and> op = ''confirm'' then on_post rq (confirmOutcome C x)
      else mux_reply 404)"
| "api C rq (res # rest) = (if res = ''incidents'' \<and> rest \<noteq> [] then incident_route C rq rest else mux_reply 404)"
| "api C rq [] = mux_reply 404"

definition mutating :: "http_request \<Rightarrow> bool" where
  "mutating rq = (rq_method rq \<noteq> ''GET'' \<and> rq_method rq \<noteq> ''HEAD'' \<and> rq_method rq \<noteq> ''OPTIONS'')"

definition requireAuthentication :: "'t server_config \<Rightarrow> ('d, 't) handler \<Rightarrow> ('d, 't) handler" where
  "requireAuthentication C k E rq p s =
     (case sc_authenticate C of
        None \<Rightarrow> only 500 (BError ''authentication is not configured'') s
      | Some auth \<Rightarrow>
          (case auth rq of
             Inl _ \<Rightarrow> only 401 (BError ''authentication failed'') s
           | Inr q \<Rightarrow>
               if mutating rq \<and> IsReadOnly q then only 403 (BError ''read-only principals may not mutate ISR state'') s
               else k E rq (Some q) s))"

definition unclean :: "string list \<Rightarrow> bool" where
  "unclean segs = (list_ex (\<lambda>x. x = [] \<or> x = ''.'' \<or> x = ''..'') (butlast segs) \<or> (segs \<noteq> [] \<and> (last segs = ''.'' \<or> last segs = ''..'')))"

definition metrics_handler :: "('d, 't) handler" where
  "metrics_handler E rq p s = only 200 BMetrics s"

definition server_New :: "'t server_config \<Rightarrow> ('a track_db_scheme, 't) handler" where
  "server_New C E rq p s =
     (case split_slash (rq_path rq) of
        [] # segs \<Rightarrow>
          if unclean segs then only 301 BMux s
          else if segs = [''healthz''] then on_get rq health E rq p s
          else if segs = [''readyz''] then on_get rq readyz E rq p s
          else if segs = [''metrics''] \<and> sc_metrics C then on_get rq (requireAuthentication C metrics_handler) E rq p s
          else (case segs of
                  v # rest \<Rightarrow>
                    if v \<noteq> ''v1'' then only 404 BMux s
                    else if rest = [] then only 301 BMux s
                    else requireAuthentication C (api C rq rest) E rq p s
                | [] \<Rightarrow> only 404 BMux s)
      | _ \<Rightarrow> only 404 BMux s)"

end
