(* ===== verification/ServerEffects.thy ===== *)
theory ServerEffects
  imports Server
begin

text \<open>
  What requests can do to the service. Each handler either leaves the service alone or has one of
  the listed effects; each effect keeps the invariants of all tables and all retained evidence,
  and leaves the trust anchors and the recorded authors alone unless it is entitled to them.
\<close>

section \<open>What a request can do to the service\<close>

inductive server_effect :: "'t server_config \<Rightarrow> principal \<Rightarrow> ('a track_db_scheme, 't) service \<Rightarrow> ('a track_db_scheme, 't) service \<Rightarrow> bool" for C q where
  creates: "Create env i (sv_db s) = (r1, db') \<Longrightarrow> cr_created_by i = pr_subject q \<Longrightarrow> server_effect C q s (s\<lparr>sv_db := db'\<rparr>)"
| correlates: "Correlate env iid co (sv_db s) = (r2, db') \<Longrightarrow> server_effect C q s (s\<lparr>sv_db := db'\<rparr>)"
| assigns: "Assign env iid ar (sv_db s) = (r3, db') \<Longrightarrow> server_effect C q s (s\<lparr>sv_db := db'\<rparr>)"
| transitions: "Transition env (sv_db s) iid v st (sv_db s) = (r4, db') \<Longrightarrow> server_effect C q s (s\<lparr>sv_db := db'\<rparr>)"
| registers: "CanAdministerFeedSources q = None \<Longrightarrow> RegisterFeedSource (sc_crypto C) env rg (sv_db s) = (r5, db') \<Longrightarrow> server_effect C q s (s\<lparr>sv_db := db'\<rparr>)"
| revokes: "CanAdministerFeedSources q = None \<Longrightarrow> RevokeFeedSource env rv (sv_db s) = (r5, db') \<Longrightarrow> rv_revoked_by rv = pr_subject q \<Longrightarrow>
    server_effect C q s (s\<lparr>sv_db := db'\<rparr>)"
| rotates: "CanAdministerFeedSources q = None \<Longrightarrow> RotateFeedSourceKey (sc_crypto C) env ro (sv_db s) = (r5, db') \<Longrightarrow> ro_rotated_by ro = pr_subject q \<Longrightarrow>
    server_effect C q s (s\<lparr>sv_db := db'\<rparr>)"
| admits_event: "AdmitFeedEvent (sc_crypto C) env fr (sv_db s) = (r6, db') \<Longrightarrow> server_effect C q s (s\<lparr>sv_db := db'\<rparr>)"
| admits_incident: "AdmitFeedIncident (sc_crypto C) (sc_decode_incident C) env fr (sv_db s) = (r7, db') \<Longrightarrow> server_effect C q s (s\<lparr>sv_db := db'\<rparr>)"
| admits_detection: "AdmitDetection (sc_crypto C) (sc_enc C) (sc_decode C) env fr (sv_db s) = (r8, db') \<Longrightarrow> server_effect C q s (s\<lparr>sv_db := db'\<rparr>)"
| fuses: "AdmitDetection (sc_crypto C) (sc_enc C) (sc_decode C) env fr (sv_db s) = (Inr (d, a), db') \<Longrightarrow> \<not> da_replayed a \<Longrightarrow>
    fuse C D E d (s\<lparr>sv_db := db'\<rparr>) = (e, s') \<Longrightarrow> server_effect C q s s'"
| proposes: "Propose env pp (sv_db s) = (r9, db') \<Longrightarrow> pp_proposed_by pp = pr_subject q \<Longrightarrow> pp_quantity pp \<le> max_int64 \<Longrightarrow>
    server_effect C q s (s\<lparr>sv_db := db'\<rparr>)"
| confirms: "outcomes_of C = Some sv \<Longrightarrow> Confirm (sc_crypto C) (sc_enc C) sv env eid (pr_subject q) (sv_db s, sv_tb s) = (r10, (db', tb')) \<Longrightarrow>
    server_effect C q s (s\<lparr>sv_db := db', sv_tb := tb'\<rparr>)"

definition harmless :: "'t server_config \<Rightarrow> principal \<Rightarrow> ('a track_db_scheme, 't) service \<Rightarrow> reply list \<times> ('a track_db_scheme, 't) service \<Rightarrow> bool" where
  "harmless C q s out = (snd out = s \<or> server_effect C q s (snd out))"

lemma harmless_same [simp]: "harmless C q s (rs, s)"
  by (simp add: harmless_def)

lemma harmless_only [simp]: "harmless C q s (only n b s)"
  by (simp add: only_def)

lemma harmless_answer:
  assumes "\<And>r db'. res = (r, db') \<Longrightarrow> server_effect C q s (s\<lparr>sv_db := db'\<rparr>)"
  shows "harmless C q s (answer w ok res s)"
  using assms by (cases res) (auto simp: answer_def harmless_def split: sum.splits)

lemma snd_answer: "snd (answer w ok res s) = s\<lparr>sv_db := snd res\<rparr>"
  by (auto simp: answer_def split: prod.splits sum.splits)

lemma subject_Some [simp]: "subject_of (Some q) = pr_subject q"
  by (simp add: subject_of_def)

lemma sint_int64: "sint (w :: 64 word) \<le> max_int64"
  using sint_less [of w] by (simp add: max_int64_def)

lemma incident_handlers_harmless:
  "harmless C q s (create C E rq (Some q) s)" "harmless C q s (get E rq (Some q) s)" "harmless C q s (correlate C iid E rq (Some q) s)"
  "harmless C q s (assign C iid E rq (Some q) s)" "harmless C q s (transition C E rq (Some q) s)"
  "harmless C q s (admitFeedEvent C E rq (Some q) s)" "harmless C q s (admitFeedIncident C E rq (Some q) s)"
  by (auto simp: create_def get_def correlate_def assign_def transition_def admitFeedEvent_def admitFeedIncident_def Let_def
      split: option.split sum.split list.split intro!: harmless_answer
      intro: server_effect.creates server_effect.correlates server_effect.assigns server_effect.transitions
        server_effect.admits_event server_effect.admits_incident)

lemma feed_admin_harmless:
  "harmless C q s (requireFeedSourceAdmin (registerFeedSource C) E rq (Some q) s)"
  "harmless C q s (requireFeedSourceAdmin (revokeFeedSource C sid) E rq (Some q) s)"
  "harmless C q s (requireFeedSourceAdmin (rotateFeedSourceKey C sid) E rq (Some q) s)"
  by (auto simp: requireFeedSourceAdmin_def registerFeedSource_def revokeFeedSource_def rotateFeedSourceKey_def
      split: option.split intro!: harmless_answer intro: server_effect.registers server_effect.revokes server_effect.rotates)

lemma admitDetection_harmless: "harmless C q s (admitDetection C E rq (Some q) s)"
  unfolding admitDetection_def
  by (auto simp: Let_def harmless_def only_def split: option.split sum.split prod.split if_split
      intro: server_effect.admits_detection server_effect.fuses)

lemma isr_reads_harmless:
  "harmless C q s (listDetections C E rq (Some q) s)" "harmless C q s (listTracks C E rq (Some q) s)"
  "harmless C q s (listAnomalies C E rq (Some q) s)" "harmless C q s (outcomeAggregates C E rq (Some q) s)"
  by (auto simp: listDetections_def listTracks_def listAnomalies_def outcomeAggregates_def split: option.split sum.split)

lemma outcome_harmless:
  "harmless C q s (proposeOutcome C E rq (Some q) s)" "harmless C q s (confirmOutcome C eid E rq (Some q) s)"
proof -
  show "harmless C q s (proposeOutcome C E rq (Some q) s)"
    by (auto simp: proposeOutcome_def sint_int64 split: option.split intro!: harmless_answer intro: server_effect.proposes)
  show "harmless C q s (confirmOutcome C eid E rq (Some q) s)"
    by (auto simp: confirmOutcome_def harmless_def only_def split: option.split sum.split prod.split intro: server_effect.confirms)
qed

lemmas handlers_harmless = incident_handlers_harmless feed_admin_harmless admitDetection_harmless isr_reads_harmless outcome_harmless

lemma mux_harmless [simp]: "harmless C q s (mux_reply n E rq p s)" by (simp add: mux_reply_def)

lemma on_harmless: "harmless C q s (h E rq p s) \<Longrightarrow> harmless C q s (on_post rq h E rq p s)" "harmless C q s (h E rq p s) \<Longrightarrow> harmless C q s (on_get rq h E rq p s)"
  by (simp_all add: on_post_def on_get_def)

lemma incident_route_harmless: "harmless C q s (incident_route C rq rest E rq (Some q) s)"
  by (auto simp: incident_route_def handlers_harmless split: list.split)

lemma api_harmless: "harmless C q s (api C rq segs E rq (Some q) s)"
  by (induction C rq segs rule: api.induct) (auto simp: handlers_harmless on_harmless incident_route_harmless)

section \<open>Frames of the store operations\<close>

definition feed_part :: "'a feed_db_scheme \<Rightarrow> feed_db" where
  "feed_part db = feed_db.truncate db"

lemma feed_part_ok: "feed_ok c db \<longleftrightarrow> feed_ok c (feed_part db)" "incident_db_ok db \<longleftrightarrow> incident_db_ok (feed_part db)"
  by (simp_all add: feed_ok_defs feed_part_def feed_db.truncate_def incident_ok_defs event_count_def)

lemma feed_part_tables:
  assumes "feed_part db' = feed_part db"
  shows "incidents db' = incidents db" "feed_sources db' = feed_sources db" "feed_events db' = feed_events db"
    "feed_revocations db' = feed_revocations db" "key_rotations db' = key_rotations db"
  using assms by (simp_all add: feed_part_def feed_db.truncate_def)

text \<open>An operation that leaves the incident, feed and event tables alone and only appends to the ISR outbox.\<close>

definition announces :: "'a isr_db_scheme \<Rightarrow> 'a isr_db_scheme \<Rightarrow> bool" where
  "announces db db' = (feed_part db' = feed_part db \<and> isr_events db' = isr_events db \<and> prefix (bodies db) (bodies db') \<and> (isr_ok db \<longrightarrow> isr_ok db') \<and>
     appends_rows (isr_outbox db) (isr_outbox db'))"

lemma announces_refl [simp]: "announces db db"
  by (simp add: announces_def)

lemma announces_trans: "announces a b \<Longrightarrow> announces b d \<Longrightarrow> announces a d"
  unfolding announces_def using prefix_order.trans appends_rows_trans by metis

lemma announces_insert: "isr_outbox_insert env ev body t db = Inr db' \<Longrightarrow> announces db db'"
  using isr_announce_ok [of env ev body t db db'] unfolding announces_def isr_outbox_insert_Inr
  by (auto simp: bodies_def feed_part_def feed_db.truncate_def intro!: appends_rows_insert)

lemma announces_tables:
  fixes db :: "'a track_db_scheme"
  shows "announces db (db\<lparr>anomalies := x\<rparr>)" "announces db (db\<lparr>vessel_tracks := y, associations := z\<rparr>)"
    "announces db (db\<lparr>proposals := pp\<rparr>)" "announces db (db\<lparr>entries := ee, proposals := pp\<rparr>)"
  by (simp_all add: announces_def bodies_def feed_part_def feed_db.truncate_def isr_ok_def isr_events_ok_def isr_outbox_ok_def)

definition ledger_same :: "'a ledger_db_scheme \<Rightarrow> 'a ledger_db_scheme \<Rightarrow> bool" where
  "ledger_same db db' = (proposals db' = proposals db \<and> entries db' = entries db)"

definition tracks_same :: "'a track_db_scheme \<Rightarrow> 'a track_db_scheme \<Rightarrow> bool" where
  "tracks_same db db' = (vessel_tracks db' = vessel_tracks db \<and> associations db' = associations db \<and> anomalies db' = anomalies db)"

lemma recordAnomaly_frame:
  assumes "recordAnomalyInTransaction c enc env b n a db = Inr db'"
  shows "announces db db' \<and> ledger_same db db'"
proof (cases "an_id a \<in> set (map ra_id (anomalies db))")
  case True
  then have "db' = db" using assms by (simp add: recordAnomalyInTransaction_def del: set_map)
  then show ?thesis by (simp add: ledger_same_def)
next
  case False
  let ?db = "db\<lparr>anomalies := anomalies db @ [anomaly_row env a]\<rparr>"
  obtain e where i: "isr_outbox_insert env (new_uuid env (2 * n + 1)) (detection_event e) (an_detected_at a) ?db = Inr db'"
    using assms False
    by (cases "Seal c enc (new_uuid env (2 * n)) TopicBehaviour (''behaviour.'' @ an_kind a) (an_id a) (an_classification a) (an_detected_at a) (anomaly_json a)")
       (auto simp: recordAnomalyInTransaction_def simp del: set_map)
  have "announces db db'" using announces_trans [OF announces_tables(1) announces_insert [OF i]] .
  moreover have "ledger_same db db'" using i unfolding isr_outbox_insert_Inr by (simp add: ledger_same_def)
  ultimately show ?thesis by blast
qed

lemma record_all_frame:
  "record_all c enc env b n as db = Inr db' \<Longrightarrow> announces db db' \<and> ledger_same db db'"
proof (induction as arbitrary: n db)
  case (Cons a as)
  then obtain db1 where r: "recordAnomalyInTransaction c enc env b n a db = Inr db1" "record_all c enc env b (Suc n) as db1 = Inr db'"
    by (cases "recordAnomalyInTransaction c enc env b n a db") auto
  have "announces db db'" using recordAnomaly_frame [OF r(1)] Cons.IH [OF r(2)] announces_trans by blast
  moreover have "ledger_same db db'" using recordAnomaly_frame [OF r(1)] Cons.IH [OF r(2)] by (simp add: ledger_same_def)
  ultimately show ?case by blast
qed (simp add: ledger_same_def)

lemma RecordAnomalies_frame:
  assumes "RecordAnomalies c enc env as db = (r, db')" shows "announces db db' \<and> ledger_same db db'"
proof (cases "r = Inr () \<and> as \<noteq> []")
  case True
  then have "record_all c enc env 1 0 as db = Inr db'" using assms by (auto simp: RecordAnomalies_def run_tx_Inr_iff)
  then show ?thesis by (rule record_all_frame)
next
  case False
  then have "db' = db" using assms by (auto simp: RecordAnomalies_def elim!: run_tx_cases)
  then show ?thesis by (simp add: ledger_same_def)
qed

lemma RecordFusion_frame:
  assumes "RecordFusion c enc env t d as db = (r, db')" shows "announces db db' \<and> ledger_same db db'"
proof (cases "r = Inr ()")
  case True
  then have a: "record_all c enc env 3 0 as (fused_db env t d db) = Inr db'" using RecordFusion_Inr assms by blast
  have "announces db (fused_db env t d db)" unfolding fused_db_def by (rule announces_tables)
  moreover have "ledger_same db (fused_db env t d db)" by (simp add: ledger_same_def fused_db_def)
  ultimately show ?thesis using record_all_frame [OF a] announces_trans by (auto simp: ledger_same_def)
next
  case False
  then show ?thesis using RecordFusion_Inl [OF assms] by (simp add: ledger_same_def)
qed

lemma Propose_frame:
  fixes db :: "'a track_db_scheme"
  assumes "Propose env p db = (r, db')" shows "announces db db' \<and> tracks_same db db'"
  using assms announces_tables(3) [of db] by (auto simp: Propose_def tracks_same_def split: option.splits elim!: run_tx_cases)

lemma Confirm_frame:
  fixes db :: "'a track_db_scheme"
  assumes "Confirm c enc sv env k who (db, tb) = (r, (db', tb'))" shows "announces db db' \<and> tracks_same db db'"
proof (cases r)
  case (Inl e)
  then have "db' = db" using assms by (auto dest: Confirm_Inl)
  then show ?thesis by (simp add: tracks_same_def)
next
  case (Inr entry)
  then obtain p tid where "record_entry c enc env k (new_entry env p tid who) db = Inr (entry, db')" using Confirm_Inr assms by metis
  then obtain e where i: "isr_outbox_insert env (new_uuid env 1) (outcome_event e) (oe_confirmed_at (new_entry env p tid who))
      (db\<lparr>entries := entries db @ [(new_entry env p tid who)\<lparr>oe_confirmed_at := pg_ts env (oe_confirmed_at (new_entry env p tid who))\<rparr>],
          proposals := map (close_proposal k) (proposals db)\<rparr>) = Inr db'"
    by (auto simp: record_entry_def Let_def)
  have "announces db db'" using announces_trans [OF announces_tables(4) announces_insert [OF i]] .
  moreover have "tracks_same db db'" using i unfolding isr_outbox_insert_Inr by (auto simp: tracks_same_def)
  ultimately show ?thesis by blast
qed


section \<open>The whole database\<close>

definition db_ok :: "crypto \<Rightarrow> 'a track_db_scheme \<Rightarrow> bool" where
  "db_ok c db = (incident_db_ok db \<and> feed_ok c db \<and> isr_ok db \<and> ledger_ok c db \<and> track_rows_ok db \<and> anomalies_ok db)"

text \<open>What may happen to retained evidence: nothing is changed or removed.\<close>

definition evidence_kept :: "'a track_db_scheme \<Rightarrow> 'a track_db_scheme \<Rightarrow> bool" where
  "evidence_kept db db' = (incidents_evolve (incidents db) (incidents db') \<and> evidence_grows db db' \<and> prefix (isr_events db) (isr_events db') \<and>
     prefix (entries db) (entries db') \<and> prefix (map pr_proposal (proposals db)) (map pr_proposal (proposals db')) \<and>
     track_frame db db' \<and> prefix (bodies db) (bodies db'))"

lemma kept_trans: "evidence_kept a b \<Longrightarrow> evidence_kept b d \<Longrightarrow> evidence_kept a d"
  unfolding evidence_kept_def
  by (elim conjE, intro conjI) (blast intro: incidents_evolve_trans evidence_grows_trans track_frame_trans prefix_order.trans)+

lemma kept_refl [simp]: "evidence_kept db db"
  by (simp add: evidence_kept_def evidence_grows_def track_frame_def)

definition keeps :: "crypto \<Rightarrow> 'a track_db_scheme \<Rightarrow> 'a track_db_scheme \<Rightarrow> bool" where
  "keeps c db db' = (db_ok c db \<longrightarrow> db_ok c db' \<and> evidence_kept db db')"

lemma keeps_refl [simp]: "keeps c db db"
  by (simp add: keeps_def)

lemma keeps_trans: "keeps c a b \<Longrightarrow> keeps c b d \<Longrightarrow> keeps c a d"
  unfolding keeps_def using kept_trans by blast

text \<open>A step of the detection tables keeps the rest when the feed tables are kept.\<close>

lemma isr_step_keeps:
  fixes db db' :: "'a track_db_scheme"
  assumes st: "isr_step c enc decode db db'" and ok: "db_ok c db"
    and fd: "feed_ok c db' \<and> incident_db_ok db' \<and> evidence_grows db db' \<and> incidents_evolve (incidents db) (incidents db')"
  shows "db_ok c db' \<and> evidence_kept db db'"
proof -
  have i: "isr_ok db'" "prefix (isr_events db) (isr_events db')" using isr_step_ok [OF st] ok by (simp_all add: db_ok_def)
  have lg: "ledger_step c enc (undefined :: unit ledger_service) (db, ()) (db', ())" by (rule ledger_step.platform [OF st])
  have l: "ledger_ok c db'" "prefix (entries db) (entries db')" "prefix (map pr_proposal (proposals db)) (map pr_proposal (proposals db'))"
    using ledger_step_ok [OF lg] ok by (simp_all add: db_ok_def)
  have "track_step c enc db db'" by (rule track_step.platform [OF st])
  then have t: "track_rows_ok db' \<and> anomalies_ok db'" "track_frame db db'" using track_step_ok [of c enc db db'] ok by (simp_all add: db_ok_def)
  have "prefix (bodies db) (bodies db')" using isr_step_frame [OF st] by simp
  then show ?thesis using i l t fd by (simp add: db_ok_def evidence_kept_def)
qed

lemma feed_step_keeps:
  fixes db db' :: "'a track_db_scheme"
  assumes "feed_step c act db db'" shows "keeps c db db'"
proof -
  have "db_ok c db' \<and> evidence_kept db db'" if ok: "db_ok c db"
    by (rule isr_step_keeps [OF isr_step.feed [OF assms, where enc = "\<lambda>_. []" and decode = "\<lambda>_. None"] ok])
       (use feed_step_ok [OF assms] ok in \<open>auto simp: db_ok_def\<close>)
  then show ?thesis by (simp add: keeps_def)
qed

lemma announces_feed: "announces db db' \<Longrightarrow> feed_ok c db \<and> incident_db_ok db \<Longrightarrow>
    feed_ok c db' \<and> incident_db_ok db' \<and> evidence_grows db db' \<and> incidents_evolve (incidents db) (incidents db')"
proof -
  assume a: "announces db db'" and ok: "feed_ok c db \<and> incident_db_ok db"
  have p: "feed_part db' = feed_part db" using a by (simp add: announces_def)
  have "feed_ok c db'" "incident_db_ok db'" using ok feed_part_ok(1) [of c db] feed_part_ok(1) [of c db'] feed_part_ok(2) [of db] feed_part_ok(2) [of db'] p by simp_all
  then show ?thesis using feed_part_tables [OF p] by (simp add: evidence_grows_def)
qed

lemma AdmitDetection_feed_part:
  fixes db :: "'a track_db_scheme"
  assumes "AdmitDetection c enc decode env r db = (res, db')" shows "feed_part db' = feed_part db"
proof (cases res)
  case (Inl e)
  then have "db' = db" using assms by (auto simp: AdmitDetection_def elim: run_tx_cases)
  then show ?thesis by simp
next
  case (Inr da)
  obtain d a where "da = (d, a)" by (cases da)
  then have "AdmitDetection c enc decode env r db = (Inr (d, a), db')" using assms Inr by simp
  then show ?thesis by (rule AdmitDetection_Inr) (simp_all add: feed_part_def feed_db.truncate_def)
qed

lemma AdmitDetection_keeps:
  fixes db :: "'a track_db_scheme"
  assumes "AdmitDetection c enc decode env r db = (res, db')" shows "keeps c db db'"
proof -
  note p = AdmitDetection_feed_part [OF assms]
  have "db_ok c db' \<and> evidence_kept db db'" if ok: "db_ok c db"
    by (rule isr_step_keeps [OF isr_step.admit [OF assms] ok])
       (use ok feed_part_ok(1) [of c db] feed_part_ok(1) [of c db'] feed_part_ok(2) [of db] feed_part_ok(2) [of db'] p feed_part_tables [OF p] in \<open>auto simp: db_ok_def evidence_grows_def\<close>)
  then show ?thesis by (simp add: keeps_def)
qed

lemma announces_ledger_ok:
  assumes "announces db db'" "ledger_same db db'" "ledger_ok c db" shows "ledger_ok c db'"
proof -
  have b: "set (bodies db) \<subseteq> set (bodies db')" using assms(1) set_mono_prefix [of "bodies db" "bodies db'"] by (simp add: announces_def)
  have "entry_ok c (proposals db') (bodies db') e" if "e \<in> set (entries db)" for e
    by (rule entry_ok_mono [of c "proposals db" "bodies db"]) (use that assms(2,3) b in \<open>auto simp: ledger_ok_def ledger_same_def\<close>)
  then show ?thesis using assms(2,3) by (simp add: ledger_ok_def ledger_same_def)
qed

lemma announces_tracks_ok:
  assumes "announces db db'" "tracks_same db db'" "track_rows_ok db \<and> anomalies_ok db" shows "track_rows_ok db' \<and> anomalies_ok db'"
proof -
  have "set (bodies db) \<subseteq> set (bodies db')" using assms(1) set_mono_prefix [of "bodies db" "bodies db'"] by (simp add: announces_def)
  then have "behaviour_announced (bodies db') r" if "r \<in> set (anomalies db)" for r
    using assms(3) that by (auto simp: anomalies_ok_def intro: behaviour_announced_mono)
  then show ?thesis using assms(2,3) by (simp add: track_rows_ok_def anomalies_ok_def tracks_same_def)
qed

lemma track_record_keeps:
  assumes "track_step c enc db db'" "announces db db'" "ledger_same db db'" shows "keeps c db db'"
  unfolding keeps_def
proof (intro impI)
  assume ok: "db_ok c db"
  have t: "track_rows_ok db' \<and> anomalies_ok db'" "track_frame db db'" using track_step_ok [OF assms(1)] ok by (simp_all add: db_ok_def)
  have "ledger_ok c db'" using announces_ledger_ok [OF assms(2,3)] ok by (simp add: db_ok_def)
  then show "db_ok c db' \<and> evidence_kept db db'"
    using t announces_feed [OF assms(2), of c] assms(2,3) ok by (simp add: db_ok_def evidence_kept_def announces_def ledger_same_def)
qed

lemma RecordFusion_keeps: "RecordFusion c enc env t d as db = (r, db') \<Longrightarrow> keeps c db db'"
  using track_record_keeps [OF track_step.fusion] RecordFusion_frame by blast

lemma RecordAnomalies_keeps: "RecordAnomalies c enc env as db = (r, db') \<Longrightarrow> keeps c db db'"
  using track_record_keeps [OF track_step.scan] RecordAnomalies_frame by blast

lemma ledger_op_keeps:
  assumes an: "announces db db'" and tr: "tracks_same db db'"
    and lg: "ledger_ok c db \<Longrightarrow> ledger_ok c db' \<and> prefix (entries db) (entries db') \<and> prefix (map pr_proposal (proposals db)) (map pr_proposal (proposals db'))"
  shows "keeps c db db'"
  unfolding keeps_def
proof (intro impI)
  assume ok: "db_ok c db"
  have t: "track_rows_ok db' \<and> anomalies_ok db'" using announces_tracks_ok [OF an tr] ok by (simp add: db_ok_def)
  have l: "ledger_ok c db' \<and> prefix (entries db) (entries db') \<and> prefix (map pr_proposal (proposals db)) (map pr_proposal (proposals db'))"
    by (rule lg) (use ok in \<open>simp add: db_ok_def\<close>)
  show "db_ok c db' \<and> evidence_kept db db'"
    using t l announces_feed [OF an, of c] an tr ok by (simp add: db_ok_def evidence_kept_def announces_def track_frame_def tracks_same_def)
qed

lemma Propose_keeps:
  fixes db :: "'a track_db_scheme"
  assumes "Propose env p db = (r, db')" "pp_quantity p \<le> max_int64" shows "keeps c db db'"
  by (rule ledger_op_keeps) (use Propose_frame [OF assms(1)] Propose_ok [OF assms(1) _ assms(2), of c] map_mono_prefix in auto)

lemma Confirm_keeps:
  fixes db :: "'a track_db_scheme"
  assumes "Confirm c enc sv env k who (db, tb) = (r, (db', tb'))" shows "keeps c db db'"
  by (rule ledger_op_keeps) (use Confirm_frame [OF assms] Confirm_ok [OF assms] in auto)

lemma incident_op_cases:
  "Create env i db = (r1, db') \<Longrightarrow> db' = db \<or> incident_step db db'"
  "Correlate env iid co db = (r2, db') \<Longrightarrow> db' = db \<or> incident_step db db'"
  "Assign env iid ar db = (r3, db') \<Longrightarrow> db' = db \<or> incident_step db db'"
  "Transition env db0 iid v st db = (r4, db') \<Longrightarrow> db' = db \<or> incident_step db db'"
proof -
  show "Create env i db = (r1, db') \<Longrightarrow> db' = db \<or> incident_step db db'"
    by (cases r1) (auto simp: Create_def run_tx_Inr_iff elim: run_tx_cases intro: incident_step.create)
  show "Correlate env iid co db = (r2, db') \<Longrightarrow> db' = db \<or> incident_step db db'"
    by (cases r2) (auto simp: Correlate_def elim: run_tx_cases intro: incident_step.correlate)
  show "Assign env iid ar db = (r3, db') \<Longrightarrow> db' = db \<or> incident_step db db'"
    by (cases r3) (auto simp: Assign_def elim: run_tx_cases intro: incident_step.assign)
  show "Transition env db0 iid v st db = (r4, db') \<Longrightarrow> db' = db \<or> incident_step db db'"
    by (cases r4) (auto simp: Transition_def elim: run_tx_cases intro: incident_step.transition)
qed

lemma incident_op_keeps:
  fixes db :: "'a track_db_scheme"
  shows "db' = db \<or> incident_step db db' \<Longrightarrow> keeps c db db'"
  using feed_step_keeps [OF feed_step.incident_op] by auto

section \<open>Trust anchors and attribution\<close>

definition anchors :: "'a feed_db_scheme \<Rightarrow> feed_source list \<times> key_rotation list \<times> feed_revocation_row list" where
  "anchors db = (feed_sources db, key_rotations db, feed_revocations db)"

lemma anchors_feed_part: "feed_part db' = feed_part db \<Longrightarrow> anchors db' = anchors db"
  using feed_part_tables [of db' db] by (simp add: anchors_def)

lemma anchors_announces: "announces db db' \<Longrightarrow> anchors db' = anchors db"
  using anchors_feed_part by (auto simp: announces_def)

lemma anchors_incident_more:
  fixes db db' :: "'a feed_db_scheme"
  shows "incident_db.more db' = incident_db.more db \<Longrightarrow> anchors db' = anchors db"
  by (cases db; cases db') (simp add: anchors_def)

lemma anchors_incident_step: "db' = db \<or> incident_step db db' \<Longrightarrow> anchors db' = anchors db"
  using incident_step_more anchors_incident_more by blast

lemmas anchors_incident_ops = incident_op_cases [THEN anchors_incident_step]

lemma anchors_admitInTx: "admitFeedEventInTransaction c env r db = Inr (a, db') \<Longrightarrow> anchors db' = anchors db"
  by (erule admitFeedEvent_Inr) (auto simp: anchors_def)

lemma anchors_admit:
  "AdmitFeedEvent c env r db = (res, db') \<Longrightarrow> anchors db' = anchors db"
  by (cases res) (auto simp: AdmitFeedEvent_Inr_iff AdmitFeedEvent_def run_tx_Inr_iff anchors_admitInTx elim: run_tx_cases)


lemma anchors_admit_incident:
  assumes "AdmitFeedIncident c decode env r db = (res, db')" shows "anchors db' = anchors db"
proof (cases res)
  case (Inl e)
  then show ?thesis using assms by (auto simp: AdmitFeedIncident_def elim: run_tx_cases)
next
  case (Inr ai)
  obtain a i where "ai = (a, i)" by (cases ai)
  then have "AdmitFeedIncident c decode env r db = (Inr (a, i), db')" using assms Inr by simp
  then show ?thesis by (rule AdmitFeedIncident_Inr) (metis anchors_admitInTx createIncident_more anchors_incident_more)
qed

lemma fuse_cases:
  assumes "fuse C D E d s = (e, s')"
  obtains t as r where "RecordFusion (sc_crypto C) (sc_enc C) (re_env2 E) t d as (sv_db s) = (r, sv_db s')" "sv_tb s' = sv_tb s"
  | "sv_db s' = sv_db s" "sv_tb s' = sv_tb s"
  using assms by (auto simp: fuse_def Let_def split: sum.splits prod.splits if_splits option.splits)

text \<open>What an effect does to the anchors and to the ledger, by the operation behind it.\<close>

lemma effect_anchors:
  assumes "server_effect C q s s'" "CanAdministerFeedSources q \<noteq> None" shows "anchors (sv_db s') = anchors (sv_db s)"
  using assms
proof cases
  case (fuses env fr d a db' D E e)
  have "anchors db' = anchors (sv_db s)" using anchors_feed_part [OF AdmitDetection_feed_part [OF fuses(1)]] .
  moreover have "anchors (sv_db s') = anchors db'"
    using fuses(3) by (rule fuse_cases) (auto dest!: RecordFusion_frame anchors_announces)
  ultimately show ?thesis by simp
next
  case (proposes env pp r9 db')
  then show ?thesis using anchors_announces Propose_frame [OF proposes(2)] by auto
next
  case (confirms sv env eid r10 db' tb')
  then show ?thesis using anchors_announces Confirm_frame [OF confirms(3)] by auto
next
  case (admits_detection env fr r8 db')
  then show ?thesis using anchors_feed_part [OF AdmitDetection_feed_part] by auto
qed (auto dest: anchors_incident_ops anchors_admit anchors_admit_incident)

lemma fuse_keeps: "fuse C D E d s = (e, s') \<Longrightarrow> keeps (sc_crypto C) (sv_db s) (sv_db s')"
  by (erule fuse_cases) (auto dest: RecordFusion_keeps)

lemmas incident_ops_keep = incident_op_cases [THEN incident_op_keeps]

lemma effect_keeps:
  assumes "server_effect C q s s'" shows "keeps (sc_crypto C) (sv_db s) (sv_db s')"
  using assms
proof cases
  case (fuses env fr d a db' D E e)
  then show ?thesis using keeps_trans [OF AdmitDetection_keeps [OF fuses(1)]] fuse_keeps [OF fuses(3)] by simp
qed (auto intro: incident_ops_keep feed_step_keeps feed_step.register feed_step.revoke feed_step.rotate feed_step.admit
  feed_step.admit_incident AdmitDetection_keeps Propose_keeps Confirm_keeps)

end
