(* ===== verification/ServerProps.thy ===== *)
theory ServerProps
  imports ServerEffects Workflow
begin

text \<open>
  Properties of the HTTP service as a whole: authorisation and attribution of every change,
  responses, clearance of the track listing, lost fusion records, and the safety of the database
  under requests, scans, deliveries and workflow activities in any order.
\<close>

section \<open>Every request\<close>

lemma plain_pure [simp]:
  "snd (mux_reply n E rq p s) = s" "snd (health E rq p s) = s" "snd (readyz E rq p s) = s" "snd (metrics_handler E rq p s) = s"
  by (auto simp: mux_reply_def only_def health_def readyz_def metrics_handler_def)

lemma handlers_pure:
  "snd (get E rq p s) = s" "snd (listDetections C E rq p s) = s" "snd (listTracks C E rq p s) = s" "snd (listAnomalies C E rq p s) = s"
  "snd (outcomeAggregates C E rq p s) = s"
  by (auto simp: get_def listDetections_def listTracks_def listAnomalies_def outcomeAggregates_def only_def Let_def split: option.split sum.split)

lemma on_get_pure: "snd (h E rq p s) = s \<Longrightarrow> snd (on_get rq h E rq p s) = s"
  by (simp add: on_get_def handlers_pure)

lemma on_post_pure: "rq_method rq \<noteq> ''POST'' \<Longrightarrow> snd (on_post rq h E rq p s) = s"
  by (simp add: on_post_def handlers_pure)

lemma api_pure: "rq_method rq \<noteq> ''POST'' \<Longrightarrow> snd (api C rq segs E rq p s) = s"
  by (induction C rq segs rule: api.induct)
     (auto simp: handlers_pure on_get_pure on_post_pure incident_route_def)

lemma snd_only [simp]: "snd (only n b s) = s"
  by (simp add: only_def)

lemma auth_pure: "snd (requireAuthentication C metrics_handler E rq p s) = s"
  by (simp add: requireAuthentication_def handlers_pure split: option.split sum.split)

lemma api_authenticated:
  assumes "requireAuthentication C (api C rq segs) E rq p s = (rs, s')" "s' \<noteq> s"
  shows "\<exists>auth q. sc_authenticate C = Some auth \<and> auth rq = Inr q \<and> rq_method rq = ''POST'' \<and> \<not> IsReadOnly q \<and> server_effect C q s s'"
proof -
  obtain auth q where a: "sc_authenticate C = Some auth" "auth rq = Inr q" "\<not> (mutating rq \<and> IsReadOnly q)" "api C rq segs E rq (Some q) s = (rs, s')"
    using assms by (auto simp: requireAuthentication_def only_def split: option.splits sum.splits if_splits)
  have "rq_method rq = ''POST''" using api_pure [of rq C segs E "Some q" s] a(4) assms(2) by auto
  moreover have "server_effect C q s s'" using api_harmless [of C q s rq segs E] a(4) assms(2) by (simp add: harmless_def)
  ultimately show ?thesis using a by (auto simp: mutating_def)
qed

lemma server_effect_of_request:
  assumes "server_New C E rq p s = (rs, s')" "s' \<noteq> s"
  shows "\<exists>auth q. sc_authenticate C = Some auth \<and> auth rq = Inr q \<and> rq_method rq = ''POST'' \<and> \<not> IsReadOnly q \<and> server_effect C q s s'"
proof -
  obtain segs where seg: "split_slash (rq_path rq) = [] # segs"
    using assms by (auto simp: server_New_def only_def split: list.splits)
  have pure: "snd (on_get rq health E rq p s) = s" "snd (on_get rq readyz E rq p s) = s" "snd (on_get rq (requireAuthentication C metrics_handler) E rq p s) = s"
    by (simp_all add: on_get_pure handlers_pure auth_pure)
  have "\<exists>v rest. segs = v # rest \<and> requireAuthentication C (api C rq rest) E rq p s = (rs, s')"
    using assms pure seg by (auto simp: server_New_def only_def split: list.splits if_splits)
  then show ?thesis using api_authenticated [OF _ assms(2)] by blast
qed

text \<open>
  C2. Nobody changes the service anonymously or with read-only roles: if a request changes the
  database, the fusion engine or the outcome ledger at all, it is a POST whose principal the
  authenticator accepted and who has a role beyond the read-only ones; and if it changes a
  registered feed source, a revocation or a key rotation, that principal is a feed-source
  administrator.
\<close>

theorem server_mutation_authorised:
  assumes "server_New C E rq p s = (rs, s')" and "s' \<noteq> s"
  shows "\<exists>auth q. sc_authenticate C = Some auth \<and> auth rq = Inr q \<and> rq_method rq = ''POST'' \<and>
    pr_roles q \<noteq> [] \<and> \<not> set (pr_roles q) \<subseteq> set readOnlyRoles \<and>
    (feed_sources (sv_db s') \<noteq> feed_sources (sv_db s) \<or> key_rotations (sv_db s') \<noteq> key_rotations (sv_db s) \<or>
       feed_revocations (sv_db s') \<noteq> feed_revocations (sv_db s) \<longrightarrow> RoleFeedSourceAdmin \<in> set (pr_roles q))"
proof -
  obtain auth q where q: "sc_authenticate C = Some auth" "auth rq = Inr q" "rq_method rq = ''POST''" "\<not> IsReadOnly q" "server_effect C q s s'"
    using server_effect_of_request [OF assms] by blast
  have ro: "pr_roles q \<noteq> []" "\<not> set (pr_roles q) \<subseteq> set readOnlyRoles" using q(4) by (auto simp: IsReadOnly_def list_all_iff split: if_splits)
  have "RoleFeedSourceAdmin \<in> set (pr_roles q)" if "anchors (sv_db s') \<noteq> anchors (sv_db s)"
    using effect_anchors [OF q(5)] that by (force simp: CanAdministerFeedSources_def HasRole_def split: if_splits)
  then show ?thesis using q ro by (auto simp: anchors_def)
qed

section \<open>Attribution\<close>

definition attributed :: "string \<Rightarrow> 'a track_db_scheme \<Rightarrow> 'a track_db_scheme \<Rightarrow> bool" where
  "attributed subj db db' =
     ((\<forall>r \<in> set (proposals db'). pr_proposal r \<in> pr_proposal ` set (proposals db) \<or> pp_proposed_by (pr_proposal r) = subj) \<and>
      (\<forall>e \<in> set (entries db'). e \<in> set (entries db) \<or> oe_confirmed_by e = subj \<and> pp_proposed_by (oe_proposal e) \<noteq> subj) \<and>
      (\<forall>v \<in> set (feed_revocations db'). v \<in> set (feed_revocations db) \<or> rv_revoked_by v = subj) \<and>
      (\<forall>k \<in> set (key_rotations db'). k \<in> set (key_rotations db) \<or> kr_rotated_by k = subj))"

lemma attributed_same:
  "ledger_same db db' \<Longrightarrow> key_rotations db' = key_rotations db \<Longrightarrow> feed_revocations db' = feed_revocations db \<Longrightarrow> attributed subj db db'"
  by (auto simp: attributed_def ledger_same_def)

lemma ledger_same_isr:
  fixes db db' :: "'a track_db_scheme"
  shows "isr_step c enc decode db db' \<Longrightarrow> ledger_same db db'"
  using isr_step_frame [of c enc decode db db'] ledger_tables_of_more [of db' db] by (simp add: ledger_same_def)

lemma ledger_same_feed:
  fixes db db' :: "'a track_db_scheme"
  assumes "feed_step c act db db'" shows "ledger_same db db'"
  by (rule ledger_same_isr) (rule isr_step.feed [OF assms, where enc = "\<lambda>_. []" and decode = "\<lambda>_. None"])

lemma attributed_anchors:
  "ledger_same db db' \<Longrightarrow> anchors db' = anchors db \<Longrightarrow> attributed subj db db'"
  by (rule attributed_same) (simp_all add: anchors_def)

lemma attributed_incident:
  fixes db db' :: "'a track_db_scheme"
  assumes "db' = db \<or> incident_step db db'" shows "attributed subj db db'"
proof (rule attributed_anchors)
  show "ledger_same db db'" using assms ledger_same_feed [OF feed_step.incident_op] by (auto simp: ledger_same_def [of db db])
  show "anchors db' = anchors db" by (rule anchors_incident_step [OF assms])
qed

lemmas attributed_incident_ops = incident_op_cases [THEN attributed_incident]

lemma attributed_register:
  fixes db :: "'a track_db_scheme"
  assumes "RegisterFeedSource c env r db = (res, db')" shows "attributed subj db db'"
proof -
  have "key_rotations db' = key_rotations db \<and> feed_revocations db' = feed_revocations db"
    using assms by (auto simp: RegisterFeedSource_def update_source_def split: option.splits if_splits elim!: run_tx_cases)
  then show ?thesis using attributed_same ledger_same_feed [OF feed_step.register [OF assms]] by blast
qed

lemma attributed_revoke:
  fixes db :: "'a track_db_scheme"
  assumes "RevokeFeedSource env r db = (res, db')" "rv_revoked_by r = subj" shows "attributed subj db db'"
proof -
  have "key_rotations db' = key_rotations db \<and> (\<forall>v \<in> set (feed_revocations db'). v \<in> set (feed_revocations db) \<or> rv_revoked_by v = subj)"
    using assms by (auto simp: RevokeFeedSource_def update_source_def Let_def split: option.splits if_splits elim!: run_tx_cases)
  moreover have "ledger_same db db'" using ledger_same_feed [OF feed_step.revoke [OF assms(1)]] .
  ultimately show ?thesis by (auto simp: attributed_def ledger_same_def)
qed

lemma attributed_rotate:
  fixes db :: "'a track_db_scheme"
  assumes "RotateFeedSourceKey c env r db = (res, db')" "ro_rotated_by r = subj" shows "attributed subj db db'"
proof -
  have up: "x \<in> set (upsert_rotation k rows) \<Longrightarrow> x \<in> set rows \<or> kr_rotated_by x = kr_rotated_by k" for x k rows
    by (auto simp: upsert_rotation_def split: if_splits)
  have "feed_revocations db' = feed_revocations db \<and> (\<forall>v \<in> set (key_rotations db'). v \<in> set (key_rotations db) \<or> kr_rotated_by v = subj)"
    using assms by (auto simp: RotateFeedSourceKey_def update_source_def Let_def split: option.splits if_splits elim!: run_tx_cases dest!: up)
  then show ?thesis using ledger_same_feed [OF feed_step.rotate [OF assms(1)]] by (auto simp: attributed_def ledger_same_def)
qed

lemma attributed_propose:
  fixes db :: "'a track_db_scheme"
  assumes "Propose env p db = (res, db')" "pp_proposed_by p = subj" shows "attributed subj db db'"
proof -
  have "entries db' = entries db \<and> (\<forall>r \<in> set (proposals db'). r \<in> set (proposals db) \<or> pr_proposal r = p)"
    using assms by (auto simp: Propose_def split: option.splits elim!: run_tx_cases)
  moreover have "anchors db' = anchors db" using Propose_frame [OF assms(1)] anchors_announces by blast
  ultimately show ?thesis using assms(2) by (auto simp: attributed_def anchors_def)
qed

lemma attributed_confirm:
  fixes db :: "'a track_db_scheme"
  assumes "Confirm c enc sv env k subj (db, tb) = (res, (db', tb'))" shows "attributed subj db db'"
proof (cases res)
  case (Inl e)
  then have "db' = db" using assms by (auto dest: Confirm_Inl)
  then show ?thesis by (simp add: attributed_same ledger_same_def)
next
  case (Inr entry)
  then obtain p tid where p: "confirm_checks env k subj db = Inr p" "record_entry c enc env k (new_entry env p tid subj) db = Inr (entry, db')"
    using Confirm_Inr assms by metis
  have "pp_proposed_by (pr_proposal p) \<noteq> subj" using p(1) by (simp add: confirm_checks_Inr)
  moreover have "anchors db' = anchors db" using Confirm_frame [OF assms] anchors_announces by blast
  ultimately show ?thesis using p(2) by (elim record_entry_Inr) (auto simp: attributed_def anchors_def new_entry_def)
qed

lemma attributed_fuse:
  assumes ad: "AdmitDetection c enc decode env r (sv_db s) = (Inr (d, a), db1)" and fu: "fuse C D E d (s\<lparr>sv_db := db1\<rparr>) = (e, s')"
  shows "attributed subj (sv_db s) (sv_db s')"
proof -
  have "ledger_same (sv_db s) db1" by (rule ledger_same_isr [OF isr_step.admit [OF ad]])
  moreover have "ledger_same db1 (sv_db s') \<and> anchors (sv_db s') = anchors db1"
    using fu by (rule fuse_cases) (auto dest!: RecordFusion_frame anchors_announces simp: ledger_same_def)
  ultimately show ?thesis
    using anchors_feed_part [OF AdmitDetection_feed_part [OF ad]] by (intro attributed_anchors) (auto simp: ledger_same_def)
qed

lemma effect_attributed:
  assumes "server_effect C q s s'" shows "attributed (pr_subject q) (sv_db s) (sv_db s')"
  using assms
proof cases
  case (admits_event env fr r6 db')
  then show ?thesis using attributed_anchors [OF ledger_same_feed [OF feed_step.admit [OF admits_event(2)]]] anchors_admit [OF admits_event(2)] by simp
next
  case (admits_incident env fr r7 db')
  then show ?thesis
    using attributed_anchors [OF ledger_same_feed [OF feed_step.admit_incident [OF admits_incident(2)]]] anchors_admit_incident [OF admits_incident(2)] by simp
next
  case (admits_detection env fr r8 db')
  then show ?thesis
    using attributed_anchors [OF ledger_same_isr [OF isr_step.admit [OF admits_detection(2)]]]
      anchors_feed_part [OF AdmitDetection_feed_part [OF admits_detection(2)]] by simp
next
  case (fuses env fr d a db' D E e)
  then show ?thesis using attributed_fuse by blast
next
  case confirms
  then show ?thesis using attributed_confirm [OF confirms(3)] by simp
qed (auto intro: attributed_incident_ops attributed_register attributed_revoke attributed_rotate attributed_propose)


section \<open>The platform as a whole\<close>

lemma delivery_feed_part:
  fixes db :: "'a track_db_scheme"
  shows "ClaimISROutbox env l w lease db = (r1, db') \<Longrightarrow> feed_part db' = feed_part db"
    "MarkISROutboxPublished env ev w db = (r2, db') \<Longrightarrow> feed_part db' = feed_part db"
    "MarkISROutboxFailed env ev w m t db = (r3, db') \<Longrightarrow> feed_part db' = feed_part db"
  by (auto simp: ClaimISROutbox_def MarkISROutboxPublished_def MarkISROutboxFailed_def feed_part_def feed_db.truncate_def elim!: run_tx_cases)

lemma isr_step_feed_part_keeps:
  fixes db db' :: "'a track_db_scheme"
  assumes "isr_step c enc decode db db'" "feed_part db' = feed_part db" shows "keeps c db db'"
  unfolding keeps_def
proof (intro impI)
  assume ok: "db_ok c db"
  show "db_ok c db' \<and> evidence_kept db db'"
    by (rule isr_step_keeps [OF assms(1) ok])
       (use ok feed_part_ok(1) [of c db] feed_part_ok(1) [of c db'] feed_part_ok(2) [of db] feed_part_ok(2) [of db'] assms(2)
          feed_part_tables [OF assms(2)] in \<open>auto simp: db_ok_def evidence_grows_def\<close>)
qed

lemma appendOutbox_step:
  fixes db :: "'a track_db_scheme"
  assumes "appendOutbox c enc topic ty key payload env db = (r, db')"
  shows "db' = db \<or> (\<exists>ev body t. isr_outbox_insert env ev body t db = Inr db')"
  using assms by (auto simp: appendOutbox_def elim!: run_tx_cases)

text \<open>
  Everything that runs on the database: requests, scanner ticks, the two outbox publishers and
  the activities of the response workflow.
\<close>

inductive service_step :: "'t server_config \<Rightarrow> ('a track_db_scheme, 't) service \<Rightarrow> ('a track_db_scheme, 't) service \<Rightarrow> bool" for C where
  request: "server_New C E rq None s = (rs, s') \<Longrightarrow> service_step C s s'"
| scan: "scanOnce (sc_crypto C) (sc_enc C) i (sv_engine s, sv_db s) = (eng, db') \<Longrightarrow> service_step C s (s\<lparr>sv_engine := eng, sv_db := db'\<rparr>)"
| deliver_incident: "incident_step (sv_db s) db' \<Longrightarrow> service_step C s (s\<lparr>sv_db := db'\<rparr>)"
| claim_isr: "ClaimISROutbox env l w lease (sv_db s) = (r1, db') \<Longrightarrow> service_step C s (s\<lparr>sv_db := db'\<rparr>)"
| published_isr: "MarkISROutboxPublished env ev w (sv_db s) = (r2, db') \<Longrightarrow> service_step C s (s\<lparr>sv_db := db'\<rparr>)"
| failed_isr: "MarkISROutboxFailed env ev w m t (sv_db s) = (r3, db') \<Longrightarrow> service_step C s (s\<lparr>sv_db := db'\<rparr>)"
| activity: "appendOutbox (sc_crypto C) (sc_enc C) topic ty key payload env (sv_db s) = (r4, db') \<Longrightarrow> service_step C s (s\<lparr>sv_db := db'\<rparr>)"

inductive service_reach :: "'t server_config \<Rightarrow> ('a track_db_scheme, 't) service \<Rightarrow> ('a track_db_scheme, 't) service \<Rightarrow> bool" for C where
  refl: "service_reach C s s"
| step: "service_reach C s s' \<Longrightarrow> service_step C s' s'' \<Longrightarrow> service_reach C s s''"

lemma scanOnce_keeps:
  assumes "scanOnce c enc i (eng, db) = (eng', db')" shows "keeps c db db'"
proof -
  have "db' = db \<or> (\<exists>as r. RecordAnomalies c enc (ti_env i) as db = (r, db'))"
    using assms by (auto simp: scanOnce_def split: prod.splits sum.splits if_splits)
  then show ?thesis using RecordAnomalies_keeps by auto
qed

lemma service_step_keeps:
  assumes "service_step C s s'" shows "keeps (sc_crypto C) (sv_db s) (sv_db s')"
  using assms
proof cases
  case (request E rq rs)
  then show ?thesis using server_effect_of_request [OF request] effect_keeps by (cases "s' = s") auto
next
  case (scan i eng db')
  then show ?thesis using scanOnce_keeps by auto
next
  case (deliver_incident db')
  then show ?thesis using feed_step_keeps [OF feed_step.incident_op] by auto
next
  case (claim_isr env l w lease r1 db')
  then show ?thesis using isr_step_feed_part_keeps [OF isr_step.claim [OF claim_isr(2)] delivery_feed_part(1) [OF claim_isr(2)]] by simp
next
  case (published_isr env ev w r2 db')
  then show ?thesis using isr_step_feed_part_keeps [OF isr_step.published [OF published_isr(2)] delivery_feed_part(2) [OF published_isr(2)]] by simp
next
  case (failed_isr env ev w m t r3 db')
  then show ?thesis using isr_step_feed_part_keeps [OF isr_step.failed [OF failed_isr(2)] delivery_feed_part(3) [OF failed_isr(2)]] by simp
next
  case (activity topic ty key payload env r4 db')
  show ?thesis using appendOutbox_step [OF activity(2)]
  proof (elim disjE exE)
    fix ev body t assume i: "isr_outbox_insert env ev body t (sv_db s) = Inr db'"
    have "feed_part db' = feed_part (sv_db s)" using announces_insert [OF i] by (simp add: announces_def)
    then show ?thesis using isr_step_feed_part_keeps [OF isr_step.announce [OF i]] activity(1) by simp
  qed (use activity(1) in simp)
qed

lemma service_reach_keeps: "service_reach C s s' \<Longrightarrow> keeps (sc_crypto C) (sv_db s) (sv_db s')"
proof (induction rule: service_reach.induct)
  case (step s s' s'')
  then show ?case using keeps_trans service_step_keeps by blast
qed simp

text \<open>
  C1. The platform never loses or rewrites evidence: through every interleaving of HTTP requests,
  scanner ticks, outbox deliveries and workflow activities, with faults anywhere, the invariants
  of all tables hold, incidents only follow their lifecycle, and admitted events and detections,
  feed revocations, outcome proposals and entries, associations, anomalies and outbox events are
  append-only.
\<close>

theorem service_reach_safe:
  assumes "service_reach C s s'" and "db_ok (sc_crypto C) (sv_db s)"
  shows "db_ok (sc_crypto C) (sv_db s') \<and> incidents_evolve (incidents (sv_db s)) (incidents (sv_db s')) \<and>
    prefix (feed_events (sv_db s)) (feed_events (sv_db s')) \<and> prefix (feed_revocations (sv_db s)) (feed_revocations (sv_db s')) \<and>
    prefix (isr_events (sv_db s)) (isr_events (sv_db s')) \<and> prefix (entries (sv_db s)) (entries (sv_db s')) \<and>
    prefix (map pr_proposal (proposals (sv_db s))) (map pr_proposal (proposals (sv_db s'))) \<and>
    prefix (associations (sv_db s)) (associations (sv_db s')) \<and> prefix (anomalies (sv_db s)) (anomalies (sv_db s')) \<and>
    prefix (bodies (sv_db s)) (bodies (sv_db s'))"
  using service_reach_keeps [OF assms(1)] assms(2) by (simp add: keeps_def evidence_kept_def evidence_grows_def track_frame_def)

section \<open>Responses\<close>

definition one_reply :: "reply list \<times> 's \<Rightarrow> bool" where
  "one_reply out = (\<exists>r. fst out = [r])"

lemma one_only [simp]: "one_reply (only n b s)" "one_reply ([r], s)"
  by (simp_all add: one_reply_def only_def)

lemma one_answer [simp]: "one_reply (answer w ok res s)"
  by (auto simp: answer_def one_reply_def split: prod.splits sum.splits)

lemma one_plain [simp]: "one_reply (mux_reply n E rq p s)" "one_reply (health E rq p s)" "one_reply (readyz E rq p s)" "one_reply (metrics_handler E rq p s)"
  by (auto simp: mux_reply_def health_def readyz_def metrics_handler_def)

lemma unavailable_one: "\<not> isrUnavailable C \<Longrightarrow> unavailable_or C m msg = Some rs \<Longrightarrow> \<exists>r. rs = [r]"
  by (auto simp: unavailable_or_def split: option.splits if_splits)

lemma one_handlers:
  "one_reply (create C E rq p s)" "one_reply (get E rq p s)" "one_reply (correlate C iid E rq p s)" "one_reply (assign C iid E rq p s)"
  "one_reply (transition C E rq p s)" "one_reply (admitFeedEvent C E rq p s)" "one_reply (admitFeedIncident C E rq p s)"
  "one_reply (requireFeedSourceAdmin (registerFeedSource C) E rq p s)" "one_reply (requireFeedSourceAdmin (revokeFeedSource C sid) E rq p s)"
  "one_reply (requireFeedSourceAdmin (rotateFeedSourceKey C sid) E rq p s)"
  by (auto simp: create_def get_def correlate_def assign_def transition_def admitFeedEvent_def admitFeedIncident_def Let_def
      requireFeedSourceAdmin_def registerFeedSource_def revokeFeedSource_def rotateFeedSourceKey_def
      split: option.split sum.split list.split)

lemma one_isr_handlers:
  "one_reply (admitDetection C E rq p s)" "one_reply (listDetections C E rq p s)" "one_reply (listAnomalies C E rq p s)" "one_reply (outcomeAggregates C E rq p s)"
  by (auto simp: admitDetection_def listDetections_def listAnomalies_def outcomeAggregates_def Let_def split: option.split sum.split prod.split)

lemma one_guarded:
  assumes "\<not> isrUnavailable C"
  shows "one_reply (listTracks C E rq p s)" "one_reply (proposeOutcome C E rq p s)" "one_reply (confirmOutcome C eid E rq p s)"
  using unavailable_one [OF assms]
  by (auto simp: listTracks_def proposeOutcome_def confirmOutcome_def one_reply_def only_def answer_def split: option.split sum.split prod.split)

lemma one_on: "one_reply (h E rq p s) \<Longrightarrow> one_reply (on_post rq h E rq p s)" "one_reply (h E rq p s) \<Longrightarrow> one_reply (on_get rq h E rq p s)"
  by (simp_all add: on_post_def on_get_def)

lemma one_api: "\<not> isrUnavailable C \<Longrightarrow> one_reply (api C rq segs E rq p s)"
  by (induction C rq segs rule: api.induct)
     (auto simp: one_handlers one_isr_handlers one_guarded one_on incident_route_def split: list.split)

lemma one_auth: "(\<And>q. one_reply (h E rq (Some q) s)) \<Longrightarrow> one_reply (requireAuthentication C h E rq p s)"
  by (auto simp: requireAuthentication_def split: option.split sum.split)

text \<open>
  C31. A configured service answers every request exactly once, whatever the method, path and body.
  When the ISR dependencies are missing, a request for the track listing is answered twice on the
  same connection, and so are proposals and confirmations of outcomes.
\<close>

theorem server_replies:
  "(\<not> isrUnavailable C \<longrightarrow> (\<exists>r. fst (server_New C E rq p s) = [r])) \<and>
   (isrUnavailable C \<longrightarrow> fst (listTracks C E rq p s) = [not_configured, not_configured] \<and>
      length (fst (proposeOutcome C E rq p s)) = 2 \<and> length (fst (confirmOutcome C eid E rq p s)) = 2)"
proof (intro conjI impI)
  assume a: "\<not> isrUnavailable C"
  have m: "one_reply (requireAuthentication C metrics_handler E rq p s)" and v: "one_reply (requireAuthentication C (api C rq rest) E rq p s)" for rest
    by (rule one_auth, simp add: one_api [OF a])+
  have "one_reply (on_get rq health E rq p s)" "one_reply (on_get rq readyz E rq p s)" "one_reply (on_get rq (requireAuthentication C metrics_handler) E rq p s)"
    by (rule one_on(2), simp add: m)+
  then have "one_reply (server_New C E rq p s)" unfolding server_New_def using v by (auto split: list.split)
  then show "\<exists>r. fst (server_New C E rq p s) = [r]" by (simp add: one_reply_def)
qed (simp_all add: listTracks_def proposeOutcome_def confirmOutcome_def unavailable_or_def not_configured_def)

section \<open>Clearance of the track listing\<close>


section \<open>A fusion record that fails is not made up for\<close>

lemma AdmitDetection_again:
  fixes db :: "'a track_db_scheme"
  assumes "AdmitDetection c enc decode env q db = (Inr (d, a), db')" "e \<in> set (isr_events db)"
    "iv_source_id e = fr_source_id q" "iv_source_event_id e = fr_source_event_id q"
  shows "da_replayed a \<and> db' = db"
  using assms(1)
proof (cases rule: AdmitDetection_Inr)
  case (inserted s x)
  have "(d_source_id d, d_source_event_id d) \<in> (\<lambda>e. (iv_source_id e, iv_source_event_id e)) ` set (isr_events db)"
    using inserted(1) assms(2-4) by (intro image_eqI [of _ _ e]) (auto simp: admission_checks_def)
  then show ?thesis using inserted(3) by simp
qed simp

lemma admitDetection_again:
  assumes dec: "dec_signed (sc_decoders C) (rq_body rq) = Some i" "signed_request i = Inr q" and e: "e \<in> set (isr_events (sv_db s))"
    "iv_source_id e = fr_source_id q" "iv_source_event_id e = fr_source_event_id q"
  shows "snd (admitDetection C E rq p s) = s"
proof (cases "AdmitDetection (sc_crypto C) (sc_enc C) (sc_decode C) (re_env E) q (sv_db s)")
  case (Pair r db')
  show ?thesis
  proof (cases r)
    case (Inl x)
    then have "db' = sv_db s" using Pair by (auto simp: AdmitDetection_def elim: run_tx_cases)
    then show ?thesis using Pair Inl dec by (simp add: admitDetection_def)
  next
    case (Inr da)
    obtain d a where da: "da = (d, a)" by (cases da)
    then have "da_replayed a \<and> db' = sv_db s" using AdmitDetection_again e Pair Inr by blast
    then show ?thesis using Pair Inr da dec by (simp add: admitDetection_def only_def split: option.split)
  qed
qed

text \<open>
  C33. When the record of a fusion result fails, the admission stays but the fusion is lost for
  good: the tables of the track store are as before, so that a restart will not replay the
  detection into its track, and however often the same source event is submitted again, whatever
  happened in between, the request changes nothing, because it only finds the retained admission.
\<close>

theorem fusion_record_lost:
  assumes "AdmitDetection (sc_crypto C) (sc_enc C) (sc_decode C) env q (sv_db s) = (Inr (d, a), db1)" and "\<not> da_replayed a"
    and "fuse C D E d (s\<lparr>sv_db := db1\<rparr>) = (Some err, s1)" and "prefix (isr_events (sv_db s1)) (isr_events (sv_db s2))"
    and "dec_signed (sc_decoders C) (rq_body rq) = Some i" and "signed_request i = Inr q'"
    and "fr_source_id q' = fr_source_id q" and "fr_source_event_id q' = fr_source_event_id q"
  shows "sv_db s1 = db1 \<and> isr_events db1 \<noteq> isr_events (sv_db s) \<and> associations (sv_db s1) = associations (sv_db s) \<and>
    snd (admitDetection C E' rq p s2) = s2"
proof -
  have s1: "sv_db s1 = db1" using assms(3) by (auto simp: fuse_def Let_def dest: RecordFusion_Inl split: sum.splits prod.splits if_splits option.splits)
  from assms(1) show ?thesis
  proof (cases rule: AdmitDetection_Inr)
    case (inserted src x)
    let ?e = "new_isr_event (sc_crypto C) env q d"
    have "?e \<in> set (isr_events (sv_db s2))" using inserted(7) assms(4) s1 set_mono_prefix [OF assms(4)] by auto
    moreover have "iv_source_id ?e = fr_source_id q'" "iv_source_event_id ?e = fr_source_event_id q'"
      using inserted(1) assms(7,8) by (simp_all add: new_isr_event_def admission_checks_def)
    ultimately have "snd (admitDetection C E' rq p s2) = s2" by (rule admitDetection_again [OF assms(5,6)])
    then show ?thesis using s1 inserted(7) by simp
  qed (use assms(2) in simp)
qed

section \<open>A concrete service\<close>

definition ana :: principal where
  "ana = officer\<lparr>pr_subject := ''ana''\<rparr>"

definition sample_input :: signed_input where
  "sample_input = \<lparr>si_source_id = ''ais-feed'', si_source_event_id = ''se-1'', si_claimed_at = unix_epoch, si_payload_base64 = ''AQ=='',
     si_signature_base64 = b64_raw_encode (replicate 64 7)\<rparr>"

definition sample_proposal_input :: proposal_input where
  "sample_proposal_input = \<lparr>pi_entry_id = ''oe-1'', pi_entry_kind = EntryKindIncidentVerified, pi_incident_ref = ''inc-1'',
     pi_classification = ''SECRET'', pi_metric = MetricIncidentReduction, pi_quantity = 3, pi_unit = UnitIncidents\<rparr>"

definition sample_decoders :: decoders where
  "sample_decoders = \<lparr>dec_signed = (\<lambda>_. Some sample_input), dec_registration = (\<lambda>_. None), dec_revocation = (\<lambda>_. None), dec_rotation = (\<lambda>_. None),
     dec_create = (\<lambda>_. None), dec_correlation = (\<lambda>_. None), dec_assignment = (\<lambda>_. None), dec_version = (\<lambda>_. None),
     dec_proposal = (\<lambda>_. Some sample_proposal_input)\<rparr>"

definition sample_deps :: "tb_map isr_deps" where
  "sample_deps = \<lparr>dp_isr_store = True, dp_track_store = True, dp_fusion = True, dp_outcomes = Some sample_service\<rparr>"

definition sample_config :: "tb_map server_config" where
  "sample_config = \<lparr>sc_crypto = toy_crypto, sc_enc = (\<lambda>_. [0]), sc_decode = (\<lambda>_. Some (sample_ais, True)), sc_decode_incident = (\<lambda>_. None),
     sc_jsonb = (\<lambda>b. b), sc_math = l1_math, sc_decoders = sample_decoders, sc_parse_time = (\<lambda>_. None), sc_isr = Some sample_deps,
     sc_authenticate = Some (\<lambda>_. Inr ana), sc_metrics = True\<rparr>"

definition post :: "string \<Rightarrow> http_request" where
  "post path = \<lparr>rq_method = ''POST'', rq_path = path, rq_query = (\<lambda>_. []), rq_body = [], rq_remote_addr = ''127.0.0.1:9000'', rq_header = (\<lambda>_. [])\<rparr>"

definition sample_request_env :: "db_env \<Rightarrow> db_env \<Rightarrow> request_env" where
  "sample_request_env env env2 = \<lparr>re_env = env, re_env2 = env2, re_order1 = [], re_order2 = [''fused-track-1''], re_now = 0,
     re_track_id = ''fused-track-1'', re_ready = True\<rparr>"

definition fresh_service :: "(track_db, tb_map) service" where
  "fresh_service = \<lparr>sv_db = empty_track_db, sv_engine = sample_engine, sv_tb = Map.empty\<rparr>"

lemma empty_track_tables [simp]:
  "incidents empty_track_db = []" "correlations empty_track_db = []" "assignments empty_track_db = []" "incident_outbox empty_track_db = []"
  "feed_sources empty_track_db = []" "feed_events empty_track_db = []" "feed_revocations empty_track_db = []" "key_rotations empty_track_db = []"
  "isr_events empty_track_db = []" "isr_outbox empty_track_db = []" "proposals empty_track_db = []" "entries empty_track_db = []"
  "vessel_tracks empty_track_db = []" "associations empty_track_db = []" "anomalies empty_track_db = []"
  by (simp_all add: empty_track_db_def ledger_db.extend_def track_db.fields_def empty_ledger_def)

lemma empty_db_ok: "db_ok c empty_track_db"
  by (simp add: db_ok_def incident_ok_defs event_count_def feed_ok_defs isr_ok_def isr_events_ok_def isr_outbox_ok_def ledger_ok_def
      track_rows_ok_def anomalies_ok_def)

lemma sample_propose_by:
  assumes "auth rq = Inr ana" "rq_method rq = ''POST''" "rq_path rq = ''/v1/outcomes''"
  obtains s' where "server_New (sample_config\<lparr>sc_authenticate := Some auth\<rparr>) (sample_request_env (calm_env 7 ''u'') (calm_env 7 ''u'')) rq None fresh_service =
      ([(201, BProposed ''oe-1'')], s')" "map pr_proposal (proposals (sv_db s')) = [sample_proposal ''SECRET'']" "s' \<noteq> fresh_service"
proof -
  have path: "split_slash ''/v1/outcomes'' = [[], ''v1'', ''outcomes'']" "\<not> unclean [''v1'', ''outcomes'']" by code_simp+
  have ro: "\<not> IsReadOnly ana"
    by (simp add: IsReadOnly_def ana_def officer_def readOnlyRoles_def role_defs)
  have v: "valid_label ''SECRET''" by code_simp
  have val: "Proposal_Validate (sample_proposal ''SECRET'') = None"
    using v by (simp add: Proposal_Validate_def sample_proposal_def valid_label_def EntryKindIncidentVerified_def EntryKindPremiumDelta_def split: sum.splits)
  have pr: "\<lparr>pp_entry_id = pi_entry_id sample_proposal_input, pp_entry_kind = pi_entry_kind sample_proposal_input, pp_incident_ref = pi_incident_ref sample_proposal_input,
      pp_classification = pi_classification sample_proposal_input, pp_metric = pi_metric sample_proposal_input, pp_quantity = sint (pi_quantity sample_proposal_input),
      pp_unit = pi_unit sample_proposal_input, pp_proposed_by = pr_subject ana\<rparr> = sample_proposal ''SECRET''"
    by (simp add: sample_proposal_def sample_proposal_input_def ana_def)
  let ?db = "empty_track_db\<lparr>proposals := [\<lparr>pr_proposal = sample_proposal ''SECRET'', pr_proposed_at = 7, pr_confirmed = False\<rparr>]\<rparr>"
  have propd: "Propose (calm_env 7 ''u'') (sample_proposal ''SECRET'') empty_track_db = (Inr (), ?db)"
    using val sample_proposal_checks [OF v] by (simp add: Propose_def find_proposal_def run_tx_def)
  have un: "unavailable_or (sample_config\<lparr>sc_authenticate := Some auth\<rparr>) (\<lambda>d. dp_outcomes d = None) msg = None" for msg
    by (simp add: unavailable_or_def isrUnavailable_def sample_config_def sample_deps_def)
  have "proposeOutcome (sample_config\<lparr>sc_authenticate := Some auth\<rparr>) (sample_request_env (calm_env 7 ''u'') (calm_env 7 ''u'')) rq (Some ana) fresh_service =
      ([(201, BProposed ''oe-1'')], fresh_service\<lparr>sv_db := ?db\<rparr>)"
    unfolding proposeOutcome_def un using pr propd
    by (simp add: sample_config_def sample_decoders_def fresh_service_def sample_request_env_def answer_def sample_proposal_input_def)
  then have "server_New (sample_config\<lparr>sc_authenticate := Some auth\<rparr>) (sample_request_env (calm_env 7 ''u'') (calm_env 7 ''u'')) rq None fresh_service =
      ([(201, BProposed ''oe-1'')], fresh_service\<lparr>sv_db := ?db\<rparr>)"
    using path ro assms by (simp add: server_New_def requireAuthentication_def on_post_def sample_config_def)
  moreover have "fresh_service\<lparr>sv_db := ?db\<rparr> \<noteq> fresh_service"
  proof
    assume "fresh_service\<lparr>sv_db := ?db\<rparr> = fresh_service"
    then have "proposals (sv_db (fresh_service\<lparr>sv_db := ?db\<rparr>)) = proposals (sv_db fresh_service)" by simp
    then show False by (simp add: fresh_service_def)
  qed
  ultimately show thesis using that by simp
qed

lemma sample_propose_request:
  obtains s' where "server_New sample_config (sample_request_env (calm_env 7 ''u'') (calm_env 7 ''u'')) (post ''/v1/outcomes'') None fresh_service =
      ([(201, BProposed ''oe-1'')], s')" "map pr_proposal (proposals (sv_db s')) = [sample_proposal ''SECRET'']" "s' \<noteq> fresh_service"
proof -
  have "sample_config\<lparr>sc_authenticate := Some (\<lambda>_. Inr ana)\<rparr> = sample_config" by (simp add: sample_config_def)
  then show thesis using sample_propose_by [of "\<lambda>_. Inr ana" "post ''/v1/outcomes''"] that by (auto simp: post_def)
qed

theorem server_mutation_authorised_witness:
  "\<exists>rs s'. server_New sample_config (sample_request_env (calm_env 7 ''u'') (calm_env 7 ''u'')) (post ''/v1/outcomes'') None fresh_service = (rs, s') \<and>
     s' \<noteq> fresh_service \<and> \<not> set (pr_roles ana) \<subseteq> set readOnlyRoles"
proof -
  obtain s' where s: "server_New sample_config (sample_request_env (calm_env 7 ''u'') (calm_env 7 ''u'')) (post ''/v1/outcomes'') None fresh_service =
      ([(201, BProposed ''oe-1'')], s')" "s' \<noteq> fresh_service" by (rule sample_propose_request)
  have "sc_authenticate sample_config = Some (\<lambda>_. Inr ana)" by (simp add: sample_config_def)
  then show ?thesis using server_mutation_authorised [OF s] s by auto
qed


theorem service_reach_safe_witness:
  "\<exists>s'. service_reach sample_config fresh_service s' \<and> db_ok toy_crypto (sv_db s') \<and> proposals (sv_db s') \<noteq> []"
proof -
  obtain s' where s: "server_New sample_config (sample_request_env (calm_env 7 ''u'') (calm_env 7 ''u'')) (post ''/v1/outcomes'') None fresh_service =
      ([(201, BProposed ''oe-1'')], s')" "map pr_proposal (proposals (sv_db s')) = [sample_proposal ''SECRET'']" by (rule sample_propose_request)
  have r: "service_reach sample_config fresh_service s'" by (rule service_reach.step [OF service_reach.refl service_step.request [OF s(1)]])
  have "db_ok (sc_crypto sample_config) (sv_db fresh_service)" by (simp add: fresh_service_def empty_db_ok)
  from service_reach_safe [OF r this] show ?thesis using r s(2) by (auto simp: sample_config_def)
qed

theorem server_replies_witness:
  "fst (listTracks (sample_config\<lparr>sc_isr := None\<rparr>) (sample_request_env (calm_env 7 ''u'') (calm_env 7 ''u'')) (post ''/v1/isr/tracks'') None fresh_service) =
     [not_configured, not_configured] \<and>
   (\<exists>r. fst (server_New sample_config (sample_request_env (calm_env 7 ''u'') (calm_env 7 ''u'')) (post ''/v1/outcomes'') None fresh_service) = [r])"
proof -
  have "isrUnavailable (sample_config\<lparr>sc_isr := None\<rparr>)" "\<not> isrUnavailable sample_config"
    by (simp_all add: isrUnavailable_def sample_config_def sample_deps_def)
  then show ?thesis using server_replies by blast
qed


definition feed_service :: "(track_db, tb_map) service" where
  "feed_service = fresh_service\<lparr>sv_db := empty_track_db\<lparr>feed_sources := feed_sources sample_isr_db\<rparr>\<rparr>"

definition broken_env :: db_env where
  "broken_env = (calm_env 7 ''u'')\<lparr>db_faults := (\<lambda>_. True)\<rparr>"

lemma sample_input_request: "signed_request sample_input = Inr sample_signed"
proof -
  have "b64_std_decode ''AQ=='' = Some [1]" by code_simp
  then show ?thesis by (simp add: signed_request_def sample_input_def sample_signed_def DecodeFeedSignature_encode)
qed

theorem fusion_record_lost_witness:
  "\<exists>d a db1 err s1. AdmitDetection toy_crypto (\<lambda>_. [0]) (\<lambda>_. Some (sample_ais, True)) sample_isr_env sample_signed (sv_db feed_service) = (Inr (d, a), db1) \<and>
     fuse sample_config sample_deps (sample_request_env sample_isr_env broken_env) d (feed_service\<lparr>sv_db := db1\<rparr>) = (Some err, s1) \<and>
     associations (sv_db s1) = [] \<and> isr_events (sv_db s1) \<noteq> [] \<and>
     snd (admitDetection sample_config (sample_request_env sample_isr_env sample_isr_env) (post ''/v1/isr/detections'') (Some ana) s1) = s1"
proof -
  let ?E = "sample_request_env sample_isr_env broken_env"
  have t: "feed_sources (sv_db feed_service) = feed_sources sample_isr_db" "isr_events (sv_db feed_service) = []"
    "isr_outbox (sv_db feed_service) = []" "associations (sv_db feed_service) = []" "sv_engine feed_service = sample_engine"
    by (simp_all add: feed_service_def fresh_service_def)
  obtain a db1 where a: "AdmitDetection toy_crypto (\<lambda>_. [0]) (\<lambda>_. Some (sample_ais, True)) sample_isr_env sample_signed (sv_db feed_service) = (Inr (sample_ais, a), db1)"
    "\<not> da_replayed a" using sample_detection_admitted_in [OF t(1-3)] by blast
  obtain em eng' where i: "Ingest l1_math [] [''fused-track-1''] 0 ''fused-track-1'' sample_ais sample_engine = (Inr (''fused-track-1'', em), eng')"
    "dom (eg_tracks eng') = {''fused-track-1''}" by (rule sample_ingest)
  obtain u where u: "eg_tracks eng' ''fused-track-1'' = Some u" using i(2) by (metis domD insertI1)
  have cfg: "sc_crypto sample_config = toy_crypto" "sc_enc sample_config = (\<lambda>_. [0])" "sc_decode sample_config = (\<lambda>_. Some (sample_ais, True))"
    "sc_math sample_config = l1_math" "dec_signed (sc_decoders sample_config) b = Some sample_input" "dp_track_store sample_deps" for b
    by (simp_all add: sample_config_def sample_deps_def sample_decoders_def)
  obtain err where rf: "RecordFusion toy_crypto (\<lambda>_. [0]) broken_env u sample_ais (fst em) db1 = (Inl err, db1)"
    by (cases "tk_points u = []") (auto simp: RecordFusion_def run_tx_def broken_env_def require_def db_call_def)
  have f: "fuse sample_config sample_deps ?E sample_ais (feed_service\<lparr>sv_db := db1\<rparr>) =
      (Some err, feed_service\<lparr>sv_db := db1\<rparr>\<lparr>sv_engine := eng'\<rparr>)" (is "_ = (_, ?s1)")
    using i(1) u rf t(5) by (cases em) (simp add: fuse_def cfg sample_request_env_def Let_def engine_Track_def)
  from fusion_record_lost [OF a(1) [folded cfg(1-3)] a(2) f, where ?s2.0 = ?s1 and rq = "post ''/v1/isr/detections''" and q' = sample_signed
      and i = sample_input and E' = "sample_request_env sample_isr_env sample_isr_env" and p = "Some ana"]
  have "associations (sv_db ?s1) = [] \<and> isr_events (sv_db ?s1) \<noteq> [] \<and>
      snd (admitDetection sample_config (sample_request_env sample_isr_env sample_isr_env) (post ''/v1/isr/detections'') (Some ana) ?s1) = ?s1"
    using t cfg(5) sample_input_request by simp
  then show ?thesis using a(1) f by blast
qed

end
