(* ===== verification/AuthProps.thy ===== *)
theory AuthProps
  imports ServerProps
begin

text \<open>
  What authentication guarantees: every principal is well formed, an OIDC principal stands for a
  token signed with a fresh approved key, and the service only changes for such a token.
\<close>

section \<open>Well-formed principals\<close>

definition role_ok :: "string \<Rightarrow> bool" where
  "role_ok r = (r \<noteq> [] \<and> length r \<le> 128)"

definition principal_ok :: "principal \<Rightarrow> bool" where
  "principal_ok p = (pr_subject p \<noteq> [] \<and> length (pr_subject p) \<le> 512 \<and> valid_label (pr_clearance p) \<and>
     distinct (pr_roles p) \<and> list_all role_ok (pr_roles p))"

lemma add_role_ok: "distinct rs \<and> list_all role_ok rs \<Longrightarrow> distinct (add_role r rs) \<and> list_all role_ok (add_role r rs)"
  by (auto simp: add_role_def Let_def role_ok_def)

lemma normalizeRoles_ok: "distinct (normalizeRoles raw) \<and> list_all role_ok (normalizeRoles raw)"
proof -
  have "distinct rs \<and> list_all role_ok rs \<Longrightarrow> distinct (fold add_role raw rs) \<and> list_all role_ok (fold add_role raw rs)" for rs
  proof (induction raw arbitrary: rs)
    case (Cons r raw)
    from Cons.IH [OF add_role_ok [OF Cons.prems, of r]] show ?case by simp
  qed simp
  then show ?thesis by (simp add: normalizeRoles_def)
qed

lemma add_role_bound: "length rs \<le> 64 \<Longrightarrow> length (add_role r rs) \<le> 64"
  by (auto simp: add_role_def Let_def)

lemma normalizeRoles_bound: "length (normalizeRoles raw) \<le> 64"
proof -
  have "length rs \<le> 64 \<Longrightarrow> length (fold add_role raw rs) \<le> 64" for rs
    by (induction raw arbitrary: rs) (auto intro: add_role_bound)
  then show ?thesis by (simp add: normalizeRoles_def)
qed

lemma merge_roles_ok:
  "distinct rs \<and> list_all role_ok rs \<Longrightarrow> distinct rs' \<and> list_all role_ok rs' \<Longrightarrow> distinct (merge_roles rs rs') \<and> list_all role_ok (merge_roles rs rs')"
  by (auto simp: merge_roles_def list_all_iff)

lemma extractRoles_ok: "distinct (extractRoles cfg claims) \<and> list_all role_ok (extractRoles cfg claims)"
proof -
  have "distinct rs \<and> list_all role_ok rs \<Longrightarrow>
      distinct (fold (\<lambda>clientID roles. case tc_resource_access claims clientID of None \<Rightarrow> roles | Some access \<Rightarrow> merge_roles roles (normalizeRoles access)) ids rs) \<and>
      list_all role_ok (fold (\<lambda>clientID roles. case tc_resource_access claims clientID of None \<Rightarrow> roles | Some access \<Rightarrow> merge_roles roles (normalizeRoles access)) ids rs)" for ids rs
  proof (induction ids arbitrary: rs)
    case (Cons i ids)
    have "distinct (case tc_resource_access claims i of None \<Rightarrow> rs | Some access \<Rightarrow> merge_roles rs (normalizeRoles access)) \<and>
        list_all role_ok (case tc_resource_access claims i of None \<Rightarrow> rs | Some access \<Rightarrow> merge_roles rs (normalizeRoles access))"
      using Cons.prems merge_roles_ok [OF Cons.prems normalizeRoles_ok] by (simp split: option.split)
    from Cons.IH [OF this] show ?case by simp
  qed simp
  then show ?thesis using normalizeRoles_ok by (simp add: extractRoles_def)
qed

lemma parseClearanceHeader_valid: "parseClearanceHeader v = Inr c \<Longrightarrow> valid_label c"
  by (auto simp: parseClearanceHeader_def Let_def ParseClassification_Inr split: if_splits)

lemma loopback_principal_ok: "loopback_Authenticate ip rq = Inr p \<Longrightarrow> principal_ok p"
  using normalizeRoles_ok
  by (auto simp: loopback_Authenticate_def Let_def principal_ok_def parseRoleHeader_def dest!: parseClearanceHeader_valid split: option.splits)

lemma check_claims_Inr:
  assumes "check_claims cfg now claims = Inr p"
  obtains expires where "tc_issuer claims = ac_issuer cfg" "audienceContains (tc_audience claims) (ac_audience cfg)"
    "atoi (tc_expires claims) = Some expires" "now < expires" "tc_not_before claims = [] \<or> (\<exists>nbf. atoi (tc_not_before claims) = Some nbf \<and> nbf \<le> now)"
    "pr_subject p = trim_space (tc_subject claims)" "pr_roles p = extractRoles cfg claims" "parseClearanceHeader (tc_clearance claims) = Inr (pr_clearance p)"
    "principal_ok p"
  using assms extractRoles_ok [of cfg claims]
  by (auto simp: check_claims_def Let_def principal_ok_def dest: parseClearanceHeader_valid split: option.splits sum.splits if_splits)

lemma verify_token_Inr:
  assumes "verify_token L cfg E h p s key = Inr q"
  obtains sig payload claims where "b64url_raw_decode s = Some sig" "al_rsa_verify L key (al_sha256 L (bytes_of_string (h @ ''.'' @ p))) sig"
    "b64url_raw_decode p = Some payload" "al_claims L payload = Some claims" "check_claims cfg (unix_seconds (ae_now E)) claims = Inr q"
  using assms by (auto simp: verify_token_def split: option.splits)

lemma oidc_Inr:
  assumes "oidc_Authenticate L cfg E rq st = (Inr q, st')"
  obtains token h p s hb kid key where "bearer_token rq = Inr token" "split_on (CHR ''.'') token = [h, p, s]" "b64url_raw_decode h = Some hb"
    "al_header L hb = Some (''RS256'', kid)" "trim_space kid \<noteq> []" "auth_key E kid True st = (Inr key, st')" "verify_token L cfg E h p s key = Inr q"
  using assms unfolding oidc_Authenticate_def
  by (auto split: sum.splits list.splits option.splits prod.splits if_splits)

text \<open>
  C24. Whatever the mode, the headers and the token, an authenticator only returns well-formed
  principals: a non-empty subject of at most 512 bytes, a clearance that is one of the approved
  labels, and a set of distinct, non-empty roles of at most 128 bytes each.
\<close>

theorem Authenticate_principal_ok:
  assumes "Authenticate L ip E rq a = (Inr p, a')"
  shows "principal_ok p"
proof (cases a)
  case Loopback
  then show ?thesis using assms by (auto simp: Authenticate_def intro: loopback_principal_ok)
next
  case (OIDC cfg st)
  then obtain st' where "oidc_Authenticate L cfg E rq st = (Inr p, st')" using assms by (auto simp: Authenticate_def split: prod.splits)
  then obtain h pl s key where "verify_token L cfg E h pl s key = Inr p" by (rule oidc_Inr)
  then obtain claims where "check_claims cfg (unix_seconds (ae_now E)) claims = Inr p" by (rule verify_token_Inr)
  then show ?thesis by (rule check_claims_Inr)
qed

section \<open>The cache of keys\<close>

text \<open>The documents the endpoint has answered so far, with the time at which they were taken.\<close>

definition fetched :: "auth_env \<Rightarrow> (gotime \<times> jwks_item list) list" where
  "fetched E = (case ae_jwks E of Inl _ \<Rightarrow> [] | Inr items \<Rightarrow> [(ae_loaded_now E, items)])"

inductive oidc_reach :: "auth_lib \<Rightarrow> auth_config \<Rightarrow> oidc_state \<Rightarrow> (gotime \<times> jwks_item list) list \<Rightarrow> bool" for L cfg where
  start: "NewAuthenticator read_file has_cert cfg = Inr (OIDC cfg st) \<Longrightarrow> oidc_reach L cfg st []"
| call: "oidc_reach L cfg st docs \<Longrightarrow> oidc_Authenticate L cfg E rq st = (r, st') \<Longrightarrow> oidc_reach L cfg st' (docs @ fetched E)"

definition from_document :: "(gotime \<times> jwks_item list) list \<Rightarrow> oidc_state \<Rightarrow> bool" where
  "from_document docs st = (os_keys st = Map.empty \<or> (\<exists>items. (os_loaded_at st, items) \<in> set docs \<and> os_keys st = loaded_keys items))"

lemma from_document_mono: "set docs \<subseteq> set docs' \<Longrightarrow> from_document docs st \<Longrightarrow> from_document docs' st"
  by (auto simp: from_document_def)

lemma loaded_keys_item: "loaded_keys items kid = Some key \<Longrightarrow> \<exists>item \<in> set items. jk_kid item = kid \<and> jwks_key item = Some key"
proof (induction items rule: rev_induct)
  case (snoc x xs)
  then show ?case by (auto simp: loaded_keys_def split: option.splits if_splits)
qed (simp add: loaded_keys_def)

lemma jwks_key_approved: "jwks_key item = Some key \<Longrightarrow> 2 ^ 2047 \<le> rk_modulus key \<and> 3 \<le> rk_exponent key \<and> odd (rk_exponent key)"
  unfolding jwks_key_def Let_def by (auto split: if_splits option.splits simp del: power_numeral_even power_numeral_odd)

lemma loadKeys_cases:
  assumes "loadKeys E st = (r, st')"
  obtains (kept) e where "st' = st" "r = Inl e" | (loaded) items where "fetched E = [(ae_loaded_now E, items)]" "r = Inr ()"
    "st' = \<lparr>os_keys = loaded_keys items, os_loaded_at = ae_loaded_now E\<rparr>"
  using assms by (auto simp: loadKeys_def fetched_def split: sum.splits if_splits)

lemma auth_key_cases:
  assumes "auth_key E kid True st = (r, st')"
  obtains (cached) key where "r = Inr key" "st' = st" "os_keys st kid = Some key" "time_sub (ae_since_now E) (os_loaded_at st) < 5 * minute"
  | (refused) e where "r = Inl e" "st' = st \<or> loadKeys E st = (Inr (), st')"
  | (reloaded) key where "r = Inr key" "loadKeys E st = (Inr (), st')" "os_keys st' kid = Some key"
proof (cases "os_keys st kid \<noteq> None \<and> time_sub (ae_since_now E) (os_loaded_at st) < 5 * minute")
  case True
  then show thesis using assms cached by (auto simp: auth_key_def Let_def)
next
  case False
  obtain r1 st1 where l: "loadKeys E st = (r1, st1)" by (metis surj_pair)
  have k: "auth_key E kid True st = (case (r1, st1) of (Inl e, st') \<Rightarrow> (Inl (EWrap ''load OIDC JWKS'' e), st')
      | (Inr _, st') \<Rightarrow> (case os_keys st' kid of Some k \<Rightarrow> (Inr k, st') | None \<Rightarrow> (Inl (EMsg ''JWT key ID is not trusted''), st')))"
    using False l by (auto simp: auth_key_def Let_def split: option.splits bool.splits)
  from l show thesis
  proof (cases rule: loadKeys_cases)
    case (kept e)
    then show thesis using refused k assms by simp
  next
    case (loaded items)
    then show thesis using refused reloaded k assms l by (auto split: option.splits)
  qed
qed

lemma auth_key_from_document:
  assumes "auth_key E kid True st = (r, st')" "from_document docs st"
  shows "from_document (docs @ fetched E) st'"
proof -
  have "from_document (docs @ fetched E) st" using assms(2) by (rule from_document_mono [rotated]) simp
  moreover have "from_document (docs @ fetched E) st'" if "loadKeys E st = (Inr (), st')"
    using that by (cases rule: loadKeys_cases) (auto simp: from_document_def)
  ultimately show ?thesis using auth_key_cases [OF assms(1), of ?thesis] by auto
qed

lemma oidc_state_cases: "oidc_Authenticate L cfg E rq st = (r, st') \<Longrightarrow> st' = st \<or> (\<exists>kid r'. auth_key E kid True st = (r', st'))"
  unfolding oidc_Authenticate_def by (auto split: sum.splits list.splits option.splits prod.splits if_splits)

lemma oidc_reach_document: "oidc_reach L cfg st docs \<Longrightarrow> from_document docs st"
proof (induction rule: oidc_reach.induct)
  case (start read_file has_cert st)
  then show ?case by (auto simp: NewAuthenticator_def newOIDCAuthenticator_def from_document_def Let_def split: if_splits sum.splits)
next
  case (call st docs E rq r st')
  from oidc_state_cases [OF call(2)] show ?case
  proof (elim disjE exE)
    assume "st' = st"
    then show ?thesis using call(3) by (auto intro: from_document_mono [rotated])
  qed (rule auth_key_from_document, assumption, rule call(3))
qed

text \<open>A key that verifies a token comes from a document that is at most five minutes old or was just taken.\<close>

lemma auth_key_trusted:
  assumes "auth_key E kid True st = (Inr key, st')" "from_document docs st"
  obtains t items item where "(t, items) \<in> set (docs @ fetched E)" "time_sub (ae_since_now E) t < 5 * minute \<or> (t, items) \<in> set (fetched E)"
    "item \<in> set items" "jk_kid item = kid" "jwks_key item = Some key"
  using assms(1)
proof (cases rule: auth_key_cases)
  case (cached k)
  then obtain items where i: "(os_loaded_at st, items) \<in> set docs" "loaded_keys items kid = Some k" using assms(2) by (auto simp: from_document_def)
  then show thesis using that [of "os_loaded_at st" items] loaded_keys_item [OF i(2)] cached by auto
next
  case (reloaded k)
  from reloaded(2) show thesis
  proof (cases rule: loadKeys_cases)
    case (loaded items)
    then have "loaded_keys items kid = Some k" using reloaded(3) by simp
    from loaded_keys_item [OF this] show thesis using that [of "ae_loaded_now E" items] loaded reloaded(1) by auto
  qed (use reloaded in simp)
qed simp

lemma oidc_accepted:
  assumes "oidc_reach L cfg st docs" and "oidc_Authenticate L cfg E rq st = (Inr q, st')"
  shows "\<exists>token h p s hb kid key sig payload claims t items item expires.
    bearer_token rq = Inr token \<and> split_on (CHR ''.'') token = [h, p, s] \<and> b64url_raw_decode h = Some hb \<and> al_header L hb = Some (''RS256'', kid) \<and>
    (t, items) \<in> set (docs @ fetched E) \<and> (time_sub (ae_since_now E) t < 5 * minute \<or> (t, items) \<in> set (fetched E)) \<and>
    item \<in> set items \<and> jk_kid item = kid \<and> jwks_key item = Some key \<and>
    2 ^ 2047 \<le> rk_modulus key \<and> 3 \<le> rk_exponent key \<and> odd (rk_exponent key) \<and>
    b64url_raw_decode s = Some sig \<and> al_rsa_verify L key (al_sha256 L (bytes_of_string (h @ ''.'' @ p))) sig \<and>
    b64url_raw_decode p = Some payload \<and> al_claims L payload = Some claims \<and>
    tc_issuer claims = ac_issuer cfg \<and> audienceContains (tc_audience claims) (ac_audience cfg) \<and>
    atoi (tc_expires claims) = Some expires \<and> unix_seconds (ae_now E) < expires \<and>
    (tc_not_before claims = [] \<or> (\<exists>nbf. atoi (tc_not_before claims) = Some nbf \<and> nbf \<le> unix_seconds (ae_now E))) \<and>
    pr_subject q = trim_space (tc_subject claims) \<and> pr_roles q = extractRoles cfg claims \<and>
    parseClearanceHeader (tc_clearance claims) = Inr (pr_clearance q)"
proof -
  obtain token h p s hb kid key where a: "bearer_token rq = Inr token" "split_on (CHR ''.'') token = [h, p, s]" "b64url_raw_decode h = Some hb"
    "al_header L hb = Some (''RS256'', kid)" "auth_key E kid True st = (Inr key, st')" "verify_token L cfg E h p s key = Inr q"
    by (rule oidc_Inr [OF assms(2)])
  obtain sig payload claims where v: "b64url_raw_decode s = Some sig" "al_rsa_verify L key (al_sha256 L (bytes_of_string (h @ ''.'' @ p))) sig"
    "b64url_raw_decode p = Some payload" "al_claims L payload = Some claims" "check_claims cfg (unix_seconds (ae_now E)) claims = Inr q"
    by (rule verify_token_Inr [OF a(6)])
  obtain t items item where k: "(t, items) \<in> set (docs @ fetched E)" "time_sub (ae_since_now E) t < 5 * minute \<or> (t, items) \<in> set (fetched E)"
    "item \<in> set items" "jk_kid item = kid" "jwks_key item = Some key"
    by (rule auth_key_trusted [OF a(5) oidc_reach_document [OF assms(1)]])
  obtain expires where c: "tc_issuer claims = ac_issuer cfg" "audienceContains (tc_audience claims) (ac_audience cfg)"
    "atoi (tc_expires claims) = Some expires" "unix_seconds (ae_now E) < expires"
    "tc_not_before claims = [] \<or> (\<exists>nbf. atoi (tc_not_before claims) = Some nbf \<and> nbf \<le> unix_seconds (ae_now E))"
    "pr_subject q = trim_space (tc_subject claims)" "pr_roles q = extractRoles cfg claims" "parseClearanceHeader (tc_clearance claims) = Inr (pr_clearance q)"
    by (rule check_claims_Inr [OF v(5)])
  have m: "2 ^ 2047 \<le> rk_modulus key" "3 \<le> rk_exponent key" "odd (rk_exponent key)" using jwks_key_approved [OF k(5)] by blast+
  show ?thesis
    by (intro exI [of _ token] exI [of _ h] exI [of _ p] exI [of _ s] exI [of _ hb] exI [of _ kid] exI [of _ key] exI [of _ sig]
          exI [of _ payload] exI [of _ claims] exI [of _ t] exI [of _ items] exI [of _ item] exI [of _ expires] conjI)
      (fact a v k c m)+
qed

text \<open>
  C18. In every run of the OIDC authenticator, from an empty cache and whatever the key endpoint
  answers, a principal is only returned for a bearer token of three segments whose header names
  RS256 and a key id, whose signature verifies under the RSA key of that id, of at least 2048 bits
  and with an odd exponent of at least 3, from a key document that is less than five minutes old
  or was just fetched, and whose claims name the configured issuer and audience, have not expired
  and are already valid; subject, roles and clearance are those of the claims.
\<close>

theorem oidc_authentic:
  assumes "oidc_reach L cfg st docs" and "oidc_Authenticate L cfg E rq st = (Inr q, st')"
  shows "\<exists>token h p s hb kid key sig payload claims t items item expires.
    bearer_token rq = Inr token \<and> split_on (CHR ''.'') token = [h, p, s] \<and> b64url_raw_decode h = Some hb \<and> al_header L hb = Some (''RS256'', kid) \<and>
    (t, items) \<in> set (docs @ fetched E) \<and> (time_sub (ae_since_now E) t < 5 * minute \<or> (t, items) \<in> set (fetched E)) \<and>
    item \<in> set items \<and> jk_kid item = kid \<and> jwks_key item = Some key \<and>
    2 ^ 2047 \<le> rk_modulus key \<and> 3 \<le> rk_exponent key \<and> odd (rk_exponent key) \<and>
    b64url_raw_decode s = Some sig \<and> al_rsa_verify L key (al_sha256 L (bytes_of_string (h @ ''.'' @ p))) sig \<and>
    b64url_raw_decode p = Some payload \<and> al_claims L payload = Some claims \<and>
    tc_issuer claims = ac_issuer cfg \<and> audienceContains (tc_audience claims) (ac_audience cfg) \<and>
    atoi (tc_expires claims) = Some expires \<and> unix_seconds (ae_now E) < expires \<and>
    (tc_not_before claims = [] \<or> (\<exists>nbf. atoi (tc_not_before claims) = Some nbf \<and> nbf \<le> unix_seconds (ae_now E))) \<and>
    pr_subject q = trim_space (tc_subject claims) \<and> pr_roles q = extractRoles cfg claims \<and>
    parseClearanceHeader (tc_clearance claims) = Inr (pr_clearance q)"
  by (rule oidc_accepted [OF assms])



lemma oidc_signed:
  assumes "oidc_reach L cfg st docs" and "oidc_Authenticate L cfg A rq st = (Inr q, st')"
  shows "\<exists>token h p s key sig payload claims t items item expires.
    bearer_token rq = Inr token \<and> split_on (CHR ''.'') token = [h, p, s] \<and> (t, items) \<in> set (docs @ fetched A) \<and> item \<in> set items \<and>
    jwks_key item = Some key \<and> b64url_raw_decode s = Some sig \<and> al_rsa_verify L key (al_sha256 L (bytes_of_string (h @ ''.'' @ p))) sig \<and>
    b64url_raw_decode p = Some payload \<and> al_claims L payload = Some claims \<and> atoi (tc_expires claims) = Some expires \<and>
    unix_seconds (ae_now A) < expires \<and> pr_subject q = trim_space (tc_subject claims) \<and> pr_roles q = extractRoles cfg claims"
  using oidc_accepted [OF assms] by blast

section \<open>Authentication and the service\<close>

text \<open>
  C3. With the OIDC authenticator in front, nothing changes the database, the fusion engine or the
  outcome ledger without a token: a request that changes any of them is a POST with a bearer token
  whose signature verifies under an approved key of a document that the key endpoint answered,
  whose claims have not expired, and whose roles, as the claims grant them, go beyond the
  read-only ones.
\<close>

theorem mutation_needs_token:
  assumes "oidc_reach L cfg st docs" and "sc_authenticate C = Some (\<lambda>r. fst (oidc_Authenticate L cfg A r st))"
    and "server_New C E rq p s = (rs, s')" and "s' \<noteq> s"
  shows "\<exists>token h p g key sig payload claims t items item expires.
    rq_method rq = ''POST'' \<and> bearer_token rq = Inr token \<and> split_on (CHR ''.'') token = [h, p, g] \<and> (t, items) \<in> set (docs @ fetched A) \<and> item \<in> set items \<and>
    jwks_key item = Some key \<and> b64url_raw_decode g = Some sig \<and> al_rsa_verify L key (al_sha256 L (bytes_of_string (h @ ''.'' @ p))) sig \<and>
    b64url_raw_decode p = Some payload \<and> al_claims L payload = Some claims \<and> atoi (tc_expires claims) = Some expires \<and>
    unix_seconds (ae_now A) < expires \<and> \<not> set (extractRoles cfg claims) \<subseteq> set readOnlyRoles"
proof -
  obtain q where q: "fst (oidc_Authenticate L cfg A rq st) = Inr q" "rq_method rq = ''POST''" "\<not> IsReadOnly q"
    using server_effect_of_request [OF assms(3,4)] assms(2) by auto
  then obtain st' where "oidc_Authenticate L cfg A rq st = (Inr q, st')" by (metis prod.collapse)
  note signed = oidc_signed [OF assms(1) this]
  have "\<not> set (pr_roles q) \<subseteq> set readOnlyRoles" using q(3) by (auto simp: IsReadOnly_def list_all_iff split: if_splits)
  then show ?thesis using signed q(2) by metis
qed


section \<open>A concrete token\<close>

text \<open>The parameters of the example: a document with one RSA key of 2048 bits, and a verifier that compares with the digest.\<close>

definition sample_item :: jwks_item where
  "sample_item = \<lparr>jk_kty = ''RSA'', jk_kid = ''k1'', jk_use = ''sig'', jk_alg = ''RS256'', jk_n = b64url_raw_encode (replicate 256 255), jk_e = ''AQAB''\<rparr>"

definition sample_claims :: token_claims where
  "sample_claims = \<lparr>tc_issuer = ''https://idp'', tc_subject = ''ana'', tc_audience = AudMultiple [''maritime''], tc_expires = ''100'', tc_not_before = [],
     tc_clearance = ''secret'', tc_realm_roles = [''nimasa-officer''], tc_resource_access = Map.empty\<rparr>"

definition sample_lib :: auth_lib where
  "sample_lib = \<lparr>al_header = (\<lambda>_. Some (''RS256'', ''k1'')), al_claims = (\<lambda>_. Some sample_claims), al_rsa_verify = (\<lambda>_ d g. g = d), al_sha256 = (\<lambda>_. [0])\<rparr>"

definition sample_auth_config :: auth_config where
  "sample_auth_config = (blank_auth_config AuthModeKeycloakRS256)\<lparr>ac_issuer := ''https://idp'', ac_audience := ''maritime''\<rparr>"

definition sample_auth_env :: auth_env where
  "sample_auth_env = \<lparr>ae_since_now = unix_epoch, ae_loaded_now = unix_epoch, ae_now = unix_epoch, ae_jwks = Inr [sample_item]\<rparr>"

definition no_keys :: oidc_state where
  "no_keys = \<lparr>os_keys = Map.empty, os_loaded_at = 0\<rparr>"

definition token_post :: "string \<Rightarrow> http_request" where
  "token_post path = (post path)\<lparr>rq_header := (\<lambda>n. if n = ''Authorization'' then ''Bearer e30.e30.AA'' else [])\<rparr>"

lemma be_nat_ones: "be_nat (replicate n 255) + 1 = 256 ^ n"
proof (induction n)
  case (Suc n)
  have "be_nat (replicate (Suc n) 255) = be_nat (replicate n 255) * 256 + 255"
    by (simp add: be_nat_def replicate_append_same [symmetric] del: replicate.simps)
  then show ?case using Suc by simp
qed (simp add: be_nat_def)

lemma jwks_keyI:
  assumes "jk_kty item = ''RSA''" "jk_use item = ''sig''" "jk_alg item = ''RS256''" "jk_kid item \<noteq> []" "jk_n item \<noteq> []" "jk_e item \<noteq> []"
    and "b64url_raw_decode (jk_n item) = Some m" "2 ^ 2047 \<le> be_nat m" "b64url_raw_decode (jk_e item) = Some x" "x \<noteq> []" "length x \<le> 4"
    and "3 \<le> be_nat x" "odd (be_nat x)"
  shows "jwks_key item = Some \<lparr>rk_modulus = be_nat m, rk_exponent = be_nat x\<rparr>"
  using assms by (simp add: jwks_key_def Let_def not_less del: power_numeral)

lemma modulus_2048: "2 ^ 2047 \<le> be_nat (replicate 256 255)"
proof -
  have "(2 :: nat) ^ 2047 < 2 ^ (8 * 256)" by (rule power_strict_increasing) simp_all
  also have "\<dots> = (2 ^ 8) ^ 256" by (rule power_mult)
  also have "\<dots> = be_nat (replicate 256 255) + 1" unfolding be_nat_ones by simp
  finally show ?thesis by linarith
qed

lemma sample_item_key: "\<exists>key. jwks_key sample_item = Some key"
proof -
  have d: "b64url_raw_decode (b64url_raw_encode bs) = Some bs" for bs
    by (simp only: b64url_raw_decode_def b64url_groups_encode)
  have "jk_n sample_item \<noteq> []" using d [of "replicate 256 255"] by (auto simp: sample_item_def b64url_raw_decode_def b64url_groups_def strip_breaks_def Let_def)
  moreover have "b64url_raw_decode (jk_n sample_item) = Some (replicate 256 255)" unfolding sample_item_def using d by simp
  moreover have "b64url_raw_decode (jk_e sample_item) = Some [1, 0, 1]" unfolding sample_item_def jwks_item.simps
    by (simp add: b64url_raw_decode_def b64url_groups_def strip_breaks_def of_url_char_def b64_four_def b64_three_def b64_two_def b64_val_def code_of_def)
  moreover have "be_nat [1, 0, 1] = 65537" by (simp add: be_nat_def)
  ultimately show ?thesis
    by (intro exI [of _ "\<lparr>rk_modulus = be_nat (replicate 256 255), rk_exponent = be_nat [1, 0, 1]\<rparr>"] jwks_keyI [OF _ _ _ _ _ _ _ modulus_2048])
      (simp_all add: sample_item_def)
qed

lemma sample_oidc:
  "oidc_reach sample_lib sample_auth_config no_keys []"
  "\<exists>st'. oidc_Authenticate sample_lib sample_auth_config sample_auth_env (token_post path) no_keys = (Inr ana, st')"
proof -
  have "NewAuthenticator (\<lambda>_. Inr []) (\<lambda>_. True) sample_auth_config = Inr (OIDC sample_auth_config no_keys)"
    by (simp add: NewAuthenticator_def newOIDCAuthenticator_def sample_auth_config_def blank_auth_config_def no_keys_def AuthModeKeycloakRS256_def AuthModeLoopbackTrustedProxy_def)
  then show "oidc_reach sample_lib sample_auth_config no_keys []" by (rule oidc_reach.start)
  obtain key where key: "jwks_key sample_item = Some key" using sample_item_key by blast
  have k: "auth_key sample_auth_env ''k1'' True no_keys = (Inr key, \<lparr>os_keys = [''k1'' \<mapsto> key], os_loaded_at = unix_epoch\<rparr>)"
    using key by (simp add: auth_key_def loadKeys_def loaded_keys_def sample_auth_env_def no_keys_def) (simp add: sample_item_def)
  have d: "b64url_raw_decode ''e30'' = Some [123, 125]" "b64url_raw_decode ''AA'' = Some [0]"
    by (simp_all add: b64url_raw_decode_def b64url_groups_def strip_breaks_def of_url_char_def b64_four_def b64_three_def b64_two_def b64_val_def code_of_def)
  have b: "bearer_token (token_post path) = Inr ''e30.e30.AA''" "split_on (CHR ''.'') ''e30.e30.AA'' = [''e30'', ''e30'', ''AA'']" "trim_space ''k1'' = ''k1''"
    by (simp add: bearer_token_def token_post_def, code_simp, code_simp, code_simp)
  have c: "check_claims sample_auth_config 0 sample_claims = Inr ana"
    unfolding check_claims_def sample_auth_config_def sample_claims_def ana_def officer_def by code_simp
  have "unix_seconds unix_epoch = 0" by (simp add: unix_seconds_def)
  then have v: "verify_token sample_lib sample_auth_config sample_auth_env ''e30'' ''e30'' ''AA'' key = Inr ana"
    using c by (simp add: verify_token_def d sample_lib_def sample_auth_env_def)
  show "\<exists>st'. oidc_Authenticate sample_lib sample_auth_config sample_auth_env (token_post path) no_keys = (Inr ana, st')"
    unfolding oidc_Authenticate_def using b d k v by (simp add: sample_lib_def)
qed

theorem oidc_authentic_witness:
  "\<exists>token h p s sig key. bearer_token (token_post ''/v1/outcomes'') = Inr token \<and> split_on (CHR ''.'') token = [h, p, s] \<and> b64url_raw_decode s = Some sig \<and>
     jwks_key sample_item = Some key \<and> al_rsa_verify sample_lib key (al_sha256 sample_lib (bytes_of_string (h @ ''.'' @ p))) sig"
proof -
  obtain st' where "oidc_Authenticate sample_lib sample_auth_config sample_auth_env (token_post ''/v1/outcomes'') no_keys = (Inr ana, st')"
    using sample_oidc(2) by blast
  from oidc_authentic [OF sample_oidc(1) this] show ?thesis by (simp add: fetched_def sample_auth_env_def) blast
qed

theorem Authenticate_principal_ok_witness:
  "\<exists>a. Authenticate sample_lib (\<lambda>_. False) sample_auth_env (token_post ''/v1/outcomes'') (OIDC sample_auth_config no_keys) = (Inr ana, a) \<and> principal_ok ana"
proof -
  obtain st' where "oidc_Authenticate sample_lib sample_auth_config sample_auth_env (token_post ''/v1/outcomes'') no_keys = (Inr ana, st')"
    using sample_oidc(2) by blast
  then have a: "Authenticate sample_lib (\<lambda>_. False) sample_auth_env (token_post ''/v1/outcomes'') (OIDC sample_auth_config no_keys) = (Inr ana, OIDC sample_auth_config st')"
    by (simp add: Authenticate_def)
  from Authenticate_principal_ok [OF a] a show ?thesis by blast
qed

theorem mutation_needs_token_witness:
  "\<exists>rs s' token. server_New (sample_config\<lparr>sc_authenticate := Some (\<lambda>r. fst (oidc_Authenticate sample_lib sample_auth_config sample_auth_env r no_keys))\<rparr>)
     (sample_request_env (calm_env 7 ''u'') (calm_env 7 ''u'')) (token_post ''/v1/outcomes'') None fresh_service = (rs, s') \<and> s' \<noteq> fresh_service \<and>
     bearer_token (token_post ''/v1/outcomes'') = Inr token"
proof -
  let ?auth = "\<lambda>r. fst (oidc_Authenticate sample_lib sample_auth_config sample_auth_env r no_keys)"
  have a: "?auth (token_post ''/v1/outcomes'') = Inr ana" using sample_oidc(2) [of "''/v1/outcomes''"] by auto
  obtain s' where s: "server_New (sample_config\<lparr>sc_authenticate := Some ?auth\<rparr>) (sample_request_env (calm_env 7 ''u'') (calm_env 7 ''u''))
      (token_post ''/v1/outcomes'') None fresh_service = ([(201, BProposed ''oe-1'')], s')" "s' \<noteq> fresh_service"
    by (rule sample_propose_by [where auth = ?auth, OF a]) (simp_all add: token_post_def post_def)
  have "sc_authenticate (sample_config\<lparr>sc_authenticate := Some ?auth\<rparr>) = Some ?auth" by simp
  from mutation_needs_token [OF sample_oidc(1) this s] show ?thesis using s by blast
qed

end
