(* ===== verification/Utf8.thy ===== *)
theory Utf8
  imports Prelude "HOL-Library.List_Lexorder"
begin

text \<open>
  Runes and their encodings, as \<open>unicode/utf8\<close>, \<open>unicode/utf16\<close> and ranging over a string use
  them: decoding replaces each byte that starts no valid sequence by U+FFFD. A rune is a natural
  number, a string its bytes.
\<close>

section \<open>UTF-8\<close>

definition rune_error :: nat where "rune_error = 0xFFFD"

definition valid_rune :: "nat \<Rightarrow> bool" where
  "valid_rune r = (r < 0xD800 \<or> 0xDFFF < r \<and> r < 0x110000)"

definition in_range :: "nat \<Rightarrow> nat \<Rightarrow> char \<Rightarrow> bool" where
  "in_range lo hi c = (lo \<le> code_of c \<and> code_of c \<le> hi)"

text \<open>The six payload bits of a continuation byte.\<close>

definition low6 :: "char \<Rightarrow> nat" where
  "low6 c = code_of c - 0x80"

text \<open>\<open>utf8.DecodeRuneInString\<close>: the rune and its width.\<close>

definition decode_rune :: "string \<Rightarrow> nat \<times> nat" where
  "decode_rune s =
     (case s of
        [] \<Rightarrow> (rune_error, 0)
      | a # s1 \<Rightarrow>
          let p = code_of a in
          if p < 0x80 then (p, 1)
          else if in_range 0xC2 0xDF a then
            (case s1 of
               b # _ \<Rightarrow> if in_range 0x80 0xBF b then ((p - 0xC0) * 64 + low6 b, 2) else (rune_error, 1)
             | _ \<Rightarrow> (rune_error, 1))
          else if in_range 0xE0 0xEF a then
            (case s1 of
               b # c # _ \<Rightarrow>
                 if in_range (if p = 0xE0 then 0xA0 else 0x80) (if p = 0xED then 0x9F else 0xBF) b \<and> in_range 0x80 0xBF c
                 then ((p - 0xE0) * 4096 + low6 b * 64 + low6 c, 3) else (rune_error, 1)
             | _ \<Rightarrow> (rune_error, 1))
          else if in_range 0xF0 0xF4 a then
            (case s1 of
               b # c # d # _ \<Rightarrow>
                 if in_range (if p = 0xF0 then 0x90 else 0x80) (if p = 0xF4 then 0x8F else 0xBF) b \<and> in_range 0x80 0xBF c \<and> in_range 0x80 0xBF d
                 then ((p - 0xF0) * 262144 + low6 b * 4096 + low6 c * 64 + low6 d, 4) else (rune_error, 1)
             | _ \<Rightarrow> (rune_error, 1))
          else (rune_error, 1))"

definition cont :: "nat \<Rightarrow> char" where
  "cont n = char_of (0x80 + n mod 64)"

text \<open>\<open>utf8.AppendRune\<close>, which \<open>bytes.Buffer.WriteRune\<close> uses.\<close>

definition encode_rune :: "nat \<Rightarrow> string" where
  "encode_rune r =
     (if r < 0x80 then [char_of r]
      else if r < 0x800 then [char_of (0xC0 + r div 64), cont r]
      else if \<not> valid_rune r then [CHR 0xEF, CHR 0xBF, CHR 0xBD]
      else if r < 0x10000 then [char_of (0xE0 + r div 4096), cont (r div 64), cont r]
      else [char_of (0xF0 + r div 262144), cont (r div 4096), cont (r div 64), cont r])"

lemma decode_width: "s \<noteq> [] \<Longrightarrow> 1 \<le> snd (decode_rune s)"
  by (auto simp: decode_rune_def Let_def split: list.splits)

text \<open>Ranging over a string.\<close>

function runes :: "string \<Rightarrow> nat list" where
  "runes s = (if s = [] then [] else fst (decode_rune s) # runes (drop (snd (decode_rune s)) s))"
  by pat_completeness auto
termination
  by (relation "measure length") (use decode_width in \<open>fastforce simp: Suc_le_eq\<close>)+

declare runes.simps [simp del]

definition encode_runes :: "nat list \<Rightarrow> string" where
  "encode_runes rs = concat (map encode_rune rs)"

definition valid_utf8 :: "string \<Rightarrow> bool" where
  "valid_utf8 s = (encode_runes (runes s) = s)"

lemma code_of_char_of [simp]: "n < 256 \<Longrightarrow> code_of (char_of n) = n"
  by (simp add: code_of_def)

lemma code_of_bound [simp]: "code_of c < 256"
  by (simp add: code_of_def)

lemma code_of_cont [simp]: "code_of (cont n) = 0x80 + n mod 64"
proof -
  have "n mod 64 < 64" by simp
  then show ?thesis unfolding cont_def by (intro code_of_char_of) simp
qed

lemma mod64_le [simp]: "n mod 64 \<le> (63 :: nat)"
  using mod_less_divisor [of 64 n] by linarith

lemma decode_cont [simp]: "low6 (cont n) = n mod 64" "in_range 0x80 0xBF (cont n)"
proof -
  have "n mod 64 < 64" by simp
  then show "low6 (cont n) = n mod 64" "in_range 0x80 0xBF (cont n)" by (simp_all add: low6_def in_range_def)
qed

lemma decode_four:
  assumes "a < 5" "b < 64" "a = 0 \<longrightarrow> 16 \<le> b" "a = 4 \<longrightarrow> b < 16"
  shows "decode_rune (char_of (0xF0 + a) # cont b # cont c # cont d # s) = (a * 262144 + b * 4096 + c mod 64 * 64 + d mod 64, 4)"
proof -
  have "in_range (if a = 0 then 0x90 else 0x80) (if a = 4 then 0x8F else 0xBF) (cont b)" using assms by (auto simp: in_range_def)
  then show ?thesis using assms by (simp add: decode_rune_def in_range_def [of _ _ "char_of _"])
qed

lemma decode_encode_rune:
  assumes "valid_rune r"
  shows "decode_rune (encode_rune r @ s) = (r, length (encode_rune r))"
proof -
  consider "r < 0x80" | "0x80 \<le> r" "r < 0x800" | "0x800 \<le> r" "r < 0x10000" | "0x10000 \<le> r" "r < 0x110000"
    using assms by (force simp: valid_rune_def)
  then show ?thesis
  proof cases
    case 1
    then show ?thesis by (simp add: decode_rune_def encode_rune_def)
  next
    case 2
    then have "2 \<le> r div 64" "r div 64 < 32" by (auto simp: div_less_iff_less_mult)
    then show ?thesis using 2 by (simp add: decode_rune_def encode_rune_def in_range_def)
  next
    case 3
    have d: "r div 4096 < 16" using 3 by (simp add: div_less_iff_less_mult)
    have q: "r div 64 div 64 = r div 4096" by (simp add: div_mult2_eq [symmetric])
    have b: "r div 64 mod 64 < 64" by simp
    have r: "r div 4096 * 4096 + r div 64 mod 64 * 64 + r mod 64 = r"
      using div_mult_mod_eq [of r 64] div_mult_mod_eq [of "r div 64" 64] q by linarith
    have e0: "32 \<le> r div 64 mod 64" if "r div 4096 = 0" using that 3 q div_mult_mod_eq [of "r div 64" 64] by linarith
    have ed: "r div 64 mod 64 < 32" if "r div 4096 = 13"
    proof (rule ccontr)
      assume "\<not> r div 64 mod 64 < 32"
      then have "13 * 4096 + 32 * 64 \<le> r" using that r by linarith
      moreover have "r < 14 * 4096" using that div_mult_mod_eq [of r 4096] mod_less_divisor [of 4096 r] by linarith
      ultimately show False using assms by (simp add: valid_rune_def)
    qed
    show ?thesis using 3 assms d r e0 ed b
      by (simp add: decode_rune_def encode_rune_def in_range_def Let_def) (auto simp: in_range_def low6_def)
  next
    case 4
    have d: "r div 262144 < 5" using 4 by (simp add: div_less_iff_less_mult)
    have q: "r div 64 div 64 = r div 4096" "r div 4096 div 64 = r div 262144" by (simp_all add: div_mult2_eq [symmetric])
    have b: "r div 4096 mod 64 < 64" by simp
    have r: "r div 262144 * 262144 + r div 4096 mod 64 * 4096 + r div 64 mod 64 * 64 + r mod 64 = r"
      using div_mult_mod_eq [of r 64] div_mult_mod_eq [of "r div 64" 64] div_mult_mod_eq [of "r div 4096" 64] q by linarith
    have f0: "16 \<le> r div 4096 mod 64" if "r div 262144 = 0" using that 4 q div_mult_mod_eq [of "r div 4096" 64] by linarith
    have f4: "r div 4096 mod 64 < 16" if "r div 262144 = 4" using that 4 r by linarith
    have c: "cont (r div 4096) = cont (r div 4096 mod 64)" by (simp add: cont_def)
    have "encode_rune r = [char_of (0xF0 + r div 262144), cont (r div 4096), cont (r div 64), cont r]" using 4 assms by (simp add: encode_rune_def)
    then show ?thesis using decode_four [of "r div 262144" "r div 4096 mod 64" "r div 64" r s] d b f0 f4 r c by simp
  qed
qed


lemma decode_valid: "valid_rune (fst (decode_rune s))"
proof -
  have e: "valid_rune rune_error" by (simp add: rune_error_def valid_rune_def)
  have b: "low6 c \<le> 63" if "in_range 0x80 0xBF c" for c using that by (auto simp: in_range_def low6_def)
  have two: "valid_rune ((code_of a - 0xC0) * 64 + low6 b)" if "in_range 0xC2 0xDF a" "in_range 0x80 0xBF b" for a b
  proof -
    have "(code_of a - 0xC0) * 64 + low6 b < 0xD800" using that b [of b] by (auto simp: in_range_def)
    then show ?thesis by (simp add: valid_rune_def)
  qed
  have three: "valid_rune ((code_of a - 0xE0) * 4096 + low6 b * 64 + low6 c)"
    if lead: "in_range 0xE0 0xEF a" and "in_range (if code_of a = 0xE0 then 0xA0 else 0x80) (if code_of a = 0xED then 0x9F else 0xBF) b" "in_range 0x80 0xBF c" for a b c
  proof -
    have lb: "low6 b \<le> 63" "code_of a = 0xED \<longrightarrow> low6 b \<le> 31" using that(2) by (auto simp: in_range_def low6_def split: if_splits)
    consider "code_of a < 0xED" | "code_of a = 0xED" | "0xED < code_of a" "code_of a \<le> 0xEF" using lead unfolding in_range_def by linarith
    then show ?thesis
    proof cases
      case 1
      then have "(code_of a - 0xE0) * 4096 + low6 b * 64 + low6 c < 0xD800" using lb b [OF that(3)] by linarith
      then show ?thesis by (simp add: valid_rune_def)
    next
      case 2
      then show ?thesis using lb b [OF that(3)] by (simp add: valid_rune_def)
    next
      case 3
      then have "14 \<le> code_of a - 0xE0" "code_of a - 0xE0 \<le> 15" by linarith+
      then have "0xDFFF < (code_of a - 0xE0) * 4096 + low6 b * 64 + low6 c" "(code_of a - 0xE0) * 4096 + low6 b * 64 + low6 c < 0x110000"
        using lb b [OF that(3)] by linarith+
      then show ?thesis by (simp add: valid_rune_def)
    qed
  qed
  have four: "valid_rune ((code_of a - 0xF0) * 262144 + low6 b * 4096 + low6 c * 64 + low6 d)"
    if "in_range 0xF0 0xF4 a" "in_range (if code_of a = 0xF0 then 0x90 else 0x80) (if code_of a = 0xF4 then 0x8F else 0xBF) b" "in_range 0x80 0xBF c" "in_range 0x80 0xBF d" for a b c d
  proof -
    have lb: "low6 b \<le> 63" "code_of a = 0xF4 \<longrightarrow> low6 b \<le> 15" "code_of a = 0xF0 \<longrightarrow> 16 \<le> low6 b" using that(2) by (auto simp: in_range_def low6_def split: if_splits)
    have lo: "0xDFFF < (code_of a - 0xF0) * 262144 + low6 b * 4096" using lb that(1) by (cases "code_of a = 0xF0") (auto simp: in_range_def)
    have hi: "(code_of a - 0xF0) * 262144 + low6 b * 4096 \<le> 0x10F000" using lb that(1) by (cases "code_of a = 0xF4") (auto simp: in_range_def)
    show ?thesis using lo hi b [OF that(3)] b [OF that(4)] by (simp add: valid_rune_def)
  qed
  have branch: "(c \<Longrightarrow> valid_rune (fst x)) \<Longrightarrow> (\<not> c \<Longrightarrow> valid_rune (fst y)) \<Longrightarrow> valid_rune (fst (if c then x else y))" for c and x y :: "nat \<times> nat" by simp
  have ascii: "n < 0x80 \<Longrightarrow> valid_rune n" for n by (simp add: valid_rune_def)
  show ?thesis unfolding decode_rune_def Let_def
    by (auto simp: e ascii split del: if_split split: list.split intro!: branch intro: two three four)
qed

lemma runes_Nil [simp]: "runes [] = []"
  by (simp add: runes.simps)

lemma encode_rune_nonempty [simp]: "encode_rune r \<noteq> []"
  by (simp add: encode_rune_def)

lemma runes_encode_rune: "valid_rune r \<Longrightarrow> runes (encode_rune r @ s) = r # runes s"
  by (subst runes.simps) (simp add: decode_encode_rune)

lemma runes_encode_runes: "list_all valid_rune rs \<Longrightarrow> runes (encode_runes rs) = rs"
  by (induction rs) (simp_all add: encode_runes_def runes_encode_rune)

lemma runes_valid: "list_all valid_rune (runes s)"
  by (induction s rule: runes.induct) (subst runes.simps, simp add: decode_valid)

lemma valid_utf8_encode: "list_all valid_rune rs \<Longrightarrow> valid_utf8 (encode_runes rs)"
  by (simp add: valid_utf8_def runes_encode_runes)

lemma valid_utf8_eq: "valid_utf8 s \<Longrightarrow> valid_utf8 t \<Longrightarrow> runes s = runes t \<Longrightarrow> s = t"
  by (metis valid_utf8_def)

lemma ascii_utf8: "list_all (\<lambda>c. code_of c < 128) s \<Longrightarrow> valid_utf8 s"
proof -
  assume a: "list_all (\<lambda>c. code_of c < 128) s"
  have "list_all valid_rune (map code_of s) \<and> encode_runes (map code_of s) = s"
    using a by (induction s) (simp_all add: encode_runes_def encode_rune_def valid_rune_def code_of_def)
  then show ?thesis using valid_utf8_encode by metis
qed

section \<open>UTF-16\<close>

definition utf16_units :: "nat \<Rightarrow> nat list" where
  "utf16_units r =
     (if \<not> valid_rune r then [rune_error]
      else if r < 0x10000 then [r]
      else [0xD800 + (r - 0x10000) div 1024, 0xDC00 + (r - 0x10000) mod 1024])"

text \<open>\<open>utf16.Encode([]rune(s))\<close>.\<close>

definition utf16_of :: "string \<Rightarrow> nat list" where
  "utf16_of s = concat (map utf16_units (runes s))"

fun units_less :: "nat list \<Rightarrow> nat list \<Rightarrow> bool" where
  "units_less (x # xs) (y # ys) = (if x \<noteq> y then x < y else units_less xs ys)"
| "units_less [] ys = (ys \<noteq> [])"
| "units_less xs [] = False"

definition utf16Less :: "string \<Rightarrow> string \<Rightarrow> bool" where
  "utf16Less a b = units_less (utf16_of a) (utf16_of b)"

lemma units_less_lex: "units_less xs ys \<longleftrightarrow> xs < ys"
  by (induction xs ys rule: units_less.induct) (auto simp: neq_Nil_conv, metis list.exhaust order_less_irrefl)

lemma utf16_units_head:
  assumes "valid_rune r" "valid_rune q" "utf16_units r @ xs = utf16_units q @ ys"
  shows "r = q \<and> xs = ys"
proof (cases "r < 0x10000"; cases "q < 0x10000")
  assume r: "\<not> r < 0x10000" and q: "\<not> q < 0x10000"
  have e: "(r - 0x10000) div 1024 = (q - 0x10000) div 1024" "(r - 0x10000) mod 1024 = (q - 0x10000) mod 1024" "xs = ys"
    using assms r q by (simp_all add: utf16_units_def)
  then have "r - 0x10000 = q - 0x10000" by (metis div_mult_mod_eq)
  then show ?thesis using r q e(3) by simp
next
  assume r: "r < 0x10000" and q: "\<not> q < 0x10000"
  then have "r = 0xD800 + (q - 0x10000) div 1024" using assms by (simp add: utf16_units_def)
  moreover have "(q - 0x10000) div 1024 < 1024" using assms(2) q by (simp add: valid_rune_def div_less_iff_less_mult)
  ultimately show ?thesis using assms(1) by (auto simp: valid_rune_def)
next
  assume r: "\<not> r < 0x10000" and q: "q < 0x10000"
  then have "q = 0xD800 + (r - 0x10000) div 1024" using assms by (simp add: utf16_units_def)
  moreover have "(r - 0x10000) div 1024 < 1024" using assms(1) r by (simp add: valid_rune_def div_less_iff_less_mult)
  ultimately show ?thesis using assms(2) by (auto simp: valid_rune_def)
qed (use assms in \<open>auto simp: utf16_units_def\<close>)

lemma utf16_inj: "list_all valid_rune rs \<Longrightarrow> list_all valid_rune qs \<Longrightarrow> concat (map utf16_units rs) = concat (map utf16_units qs) \<Longrightarrow> rs = qs"
proof (induction rs arbitrary: qs)
  case Nil
  then show ?case by (cases qs) (auto simp: utf16_units_def split: if_splits)
next
  case (Cons r rs)
  then obtain q qs' where q: "qs = q # qs'" by (cases qs) (auto simp: utf16_units_def split: if_splits)
  then have "r = q \<and> concat (map utf16_units rs) = concat (map utf16_units qs')" using Cons.prems by (intro utf16_units_head) simp_all
  then show ?case using Cons.IH [of qs'] Cons.prems q by simp
qed

lemma utf16_of_inj: "valid_utf8 s \<Longrightarrow> valid_utf8 t \<Longrightarrow> utf16_of s = utf16_of t \<Longrightarrow> s = t"
  unfolding utf16_of_def by (rule valid_utf8_eq) (auto intro: utf16_inj runes_valid)

end
