(* ===== verification/JsonNumber.thy ===== *)
theory JsonNumber
  imports GoText
begin

text \<open>
  JSON numbers as \<open>internal/provenance/provenance.go\<close> handles them: the grammar that
  \<open>encoding/json\<close> scans, \<open>strconv.ParseFloat\<close> on a literal of that grammar (the nearest double,
  an error beyond the range), \<open>strconv.FormatFloat(v, 'e', -1, 64)\<close> (the shortest decimal that
  reads back as the same double, the closest of those, ties to even) and \<open>canonicalNumber\<close>.
  The lemmas show that the canonical literal is a JSON number that denotes the same double.
\<close>

section \<open>Literals\<close>

record number =
  num_neg :: bool
  num_int :: string
  num_frac :: string
  num_exp :: int

definition digit_val :: "char \<Rightarrow> nat" where
  "digit_val c = code_of c - 48"

definition nat_of_digits :: "string \<Rightarrow> nat" where
  "nat_of_digits ds = fold (\<lambda>c n. 10 * n + digit_val c) ds 0"

text \<open>The exponent is read up to a bound, as \<open>readFloat\<close> does it.\<close>

definition clamp_exp :: "string \<Rightarrow> nat" where
  "clamp_exp ds = fold (\<lambda>c e. if e < 10000 then e * 10 + digit_val c else e) ds 0"

definition scan_frac :: "string \<Rightarrow> (string \<times> string) option" where
  "scan_frac s =
     (if s \<noteq> [] \<and> hd s = CHR ''.'' then
        (let ds = takeWhile is_digit (tl s) in if ds = [] then None else Some (ds, dropWhile is_digit (tl s)))
      else Some ([], s))"

definition scan_exp :: "string \<Rightarrow> (int \<times> string) option" where
  "scan_exp s =
     (if s \<noteq> [] \<and> (hd s = CHR ''e'' \<or> hd s = CHR ''E'') then
        (let r = tl s;
             neg = (r \<noteq> [] \<and> hd r = CHR ''-'');
             r1 = (if r \<noteq> [] \<and> (hd r = CHR ''-'' \<or> hd r = CHR ''+'') then tl r else r);
             ds = takeWhile is_digit r1
         in if ds = [] then None else Some ((if neg then - int (clamp_exp ds) else int (clamp_exp ds)), dropWhile is_digit r1))
      else Some (0, s))"

definition scan_int :: "string \<Rightarrow> (string \<times> string) option" where
  "scan_int s =
     (if s = [] \<or> \<not> is_digit (hd s) then None
      else if hd s = CHR ''0'' then Some (''0'', tl s)
      else Some (takeWhile is_digit s, dropWhile is_digit s))"

definition scan_number :: "string \<Rightarrow> (number \<times> string) option" where
  "scan_number s =
     (let neg = (s \<noteq> [] \<and> hd s = CHR ''-'') in
      case scan_int (if neg then tl s else s) of
        None \<Rightarrow> None
      | Some (ip, s1) \<Rightarrow>
          (case scan_frac s1 of
             None \<Rightarrow> None
           | Some (fp, s2) \<Rightarrow>
               (case scan_exp s2 of
                  None \<Rightarrow> None
                | Some (ex, s3) \<Rightarrow> Some (\<lparr>num_neg = neg, num_int = ip, num_frac = fp, num_exp = ex\<rparr>, s3))))"

definition number_value :: "number \<Rightarrow> rat" where
  "number_value n =
     (let v = of_nat (nat_of_digits (num_int n @ num_frac n)) * 10 powi (num_exp n - int (length (num_frac n)))
      in if num_neg n then - v else v)"

text \<open>The literals that reach the code come from the JSON decoder, so other syntax of \<open>ParseFloat\<close> is an error here.\<close>

definition ParseFloat :: "string \<Rightarrow> rat option" where
  "ParseFloat literal =
     (case scan_number literal of
        Some (n, []) \<Rightarrow> (case rnd (number_value n) of Fin v \<Rightarrow> Some v | _ \<Rightarrow> None)
      | _ \<Rightarrow> None)"

section \<open>The shortest decimal\<close>

definition shortest_at :: "rat \<Rightarrow> int \<Rightarrow> int option" where
  "shortest_at v j =
     (let q = v * 10 powi j; c = \<lfloor>q\<rfloor>; ok = (\<lambda>n. rnd (of_int n / 10 powi j) = Fin v) in
      if ok c \<and> ok (c + 1) then Some (rne q) else if ok c then Some c else if ok (c + 1) then Some (c + 1) else None)"

definition first_scale :: "rat \<Rightarrow> int" where
  "first_scale v = - int (length (show_dec \<lfloor>v\<rfloor>))"

text \<open>The digits and the decimal exponent of a positive double: the smallest scale that reads back.\<close>

definition shortest :: "rat \<Rightarrow> (string \<times> int) option" where
  "shortest v =
     (case find (\<lambda>j. shortest_at v j \<noteq> None) (map (\<lambda>i. first_scale v + int i) [0..<1384]) of
        None \<Rightarrow> None
      | Some j \<Rightarrow>
          (case shortest_at v j of
             None \<Rightarrow> None
           | Some c \<Rightarrow> (let ds = show_dec c in Some (ds, int (length ds) - 1 - j))))"

definition format_e :: "string \<times> int \<Rightarrow> string" where
  "format_e d =
     (case d of (ds, x) \<Rightarrow>
        (let e = show_dec \<bar>x\<bar> in
         hd ds # (if tl ds = [] then [] else CHR ''.'' # tl ds) @ [CHR ''e'', if x < 0 then CHR ''-'' else CHR ''+''] @
         (if length e < 2 then CHR ''0'' # e else e)))"

definition FormatFloat_e :: "rat \<Rightarrow> string option" where
  "FormatFloat_e v = map_option format_e (shortest v)"

section \<open>\<open>canonicalNumber\<close>\<close>

definition remove_dot :: "string \<Rightarrow> string" where
  "remove_dot s = takeWhile (\<lambda>c. c \<noteq> CHR ''.'') s @ tl (dropWhile (\<lambda>c. c \<noteq> CHR ''.'') s)"

text \<open>The digits and the position of the decimal point of a formatted double.\<close>

definition take_apart :: "string \<Rightarrow> (string \<times> int) option" where
  "take_apart sh =
     (if CHR ''e'' \<in> set sh then
        (case atoi (tl (dropWhile (\<lambda>c. c \<noteq> CHR ''e'') sh)) of
           None \<Rightarrow> None
         | Some x \<Rightarrow> Some (remove_dot (takeWhile (\<lambda>c. c \<noteq> CHR ''e'') sh), x + 1))
      else Some (remove_dot sh, 1))"

definition lay_out :: "string \<Rightarrow> int \<Rightarrow> string" where
  "lay_out digits n =
     (let k = int (length digits) in
      if k \<le> n \<and> n \<le> 21 then digits @ replicate (nat (n - k)) (CHR ''0'')
      else if 0 < n \<and> n \<le> 21 then take (nat n) digits @ ''.'' @ drop (nat n) digits
      else if - 6 < n \<and> n \<le> 0 then ''0.'' @ replicate (nat (- n)) (CHR ''0'') @ digits
      else (let x = n - 1 in
            take 1 digits @ (if 1 < k then ''.'' @ drop 1 digits else []) @ ''e'' @ (if x < 0 then ''-'' else ''+'') @ show_int \<bar>x\<bar>))"

definition canonicalNumber :: "string \<Rightarrow> string result" where
  "canonicalNumber literal =
     (case ParseFloat literal of
        None \<Rightarrow> Inl (EMsg ''number is not a valid double'')
      | Some value \<Rightarrow>
          if value = 0 then Inr ''0''
          else (let sign = (if value < 0 then ''-'' else []) in
                case FormatFloat_e \<bar>value\<bar> of
                  None \<Rightarrow> Inl (EMsg ''number has no shortest decimal'')
                | Some sh \<Rightarrow>
                    (case take_apart sh of
                       None \<Rightarrow> Inl (EMsg ''number has an invalid exponent'')
                     | Some (digits, n) \<Rightarrow> Inr (sign @ lay_out digits n))))"

section \<open>Doubles are their own nearest doubles\<close>

lemma rnd_val_grid:
  assumes "v = of_int k * 2 powi e" "ulp_exp v \<le> e"
  shows "rnd_val v = v"
proof (cases "v = 0")
  case False
  obtain n where n: "e = ulp_exp v + int n" using assms(2) by (metis zle_iff_zadd)
  have p: "(2::rat) powi ulp_exp v \<noteq> 0" by simp
  have e: "v = of_int k * (2 powi ulp_exp v * 2 ^ n)" using assms(1) by (simp add: n power_int_add)
  then have "v / 2 powi ulp_exp v = of_int (k * 2 ^ n)" using p by (simp add: field_simps)
  then have "rne (v / 2 powi ulp_exp v) = k * 2 ^ n" by (simp only: rne_of_int)
  then have "rnd_val v = of_int (k * 2 ^ n) * 2 powi ulp_exp v" using False by (simp add: rnd_val_def)
  also have "\<dots> = of_int k * (2 powi ulp_exp v * 2 ^ n)" by simp
  also note e [symmetric]
  finally show ?thesis .
qed simp

lemma ulp_exp_less: "v \<noteq> 0 \<Longrightarrow> \<bar>v\<bar> < 2 powi (e + 53) \<Longrightarrow> -1074 \<le> e \<Longrightarrow> ulp_exp v \<le> e"
proof -
  assume v: "v \<noteq> 0" "\<bar>v\<bar> < 2 powi (e + 53)" "-1074 \<le> e"
  have "2 powi ilog2 \<bar>v\<bar> \<le> \<bar>v\<bar>" using v(1) by (intro ilog2_bounds) simp
  also have "\<dots> < 2 powi (e + 53)" by (rule v(2))
  finally show "ulp_exp v \<le> e" using v(3) by (simp add: ulp_exp_def)
qed

lemma ulp_exp_min: "-1074 \<le> ulp_exp q"
  by (simp add: ulp_exp_def)

lemma rnd_val_idem: "rnd_val (rnd_val q) = rnd_val q"
proof (cases "rnd_val q = 0")
  case False
  then have q: "q \<noteq> 0" by (auto simp: rnd_val_def)
  let ?e = "ulp_exp q" and ?k = "rne (q / 2 powi ulp_exp q)"
  have v: "rnd_val q = of_int ?k * 2 powi ?e" using q by (simp add: rnd_val_def)
  have abs: "rnd_val \<bar>q\<bar> = \<bar>rnd_val q\<bar>" using rnd_val_nonneg [of q] rnd_val_nonneg [of "- q"] by (cases "0 \<le> q") (simp_all add: rnd_val_neg)
  have up: "\<bar>rnd_val q\<bar> \<le> 2 powi (?e + 53)" using rnd_val_upper [of "\<bar>q\<bar>"] q abs by (simp add: ulp_exp_def)
  show ?thesis
  proof (cases "\<bar>rnd_val q\<bar> = 2 powi (?e + 53)")
    case True
    then have "rnd_val q = of_int (2 ^ 52) * 2 powi (?e + 1) \<or> rnd_val q = of_int (- (2 ^ 52)) * 2 powi (?e + 1)"
      by (auto simp: power_int_add abs_if split: if_splits)
    moreover have "ulp_exp (rnd_val q) \<le> ?e + 1"
      by (rule ulp_exp_less) (use False True ulp_exp_min [of q] in simp_all)
    ultimately show ?thesis using rnd_val_grid by blast
  next
    case False
    then have "\<bar>rnd_val q\<bar> < 2 powi (?e + 53)" using up by simp
    then have "ulp_exp (rnd_val q) \<le> ?e" using \<open>rnd_val q \<noteq> 0\<close> ulp_exp_min by (intro ulp_exp_less)
    with v show ?thesis by (rule rnd_val_grid)
  qed
qed simp

definition double :: "rat \<Rightarrow> bool" where
  "double v = (rnd v = Fin v)"

lemma rnd_Fin: "rnd q = Fin v \<longleftrightarrow> rnd_val q = v \<and> - (2 ^ 1024) < v \<and> v < 2 ^ 1024"
  by (auto simp: rnd_def Let_def simp del: power_numeral split: if_splits)

lemma rnd_double: "rnd q = Fin v \<Longrightarrow> double v"
  unfolding double_def rnd_Fin using rnd_val_idem by metis

lemma double_neg: "double (- v) \<longleftrightarrow> double v"
  by (auto simp: double_def rnd_Fin rnd_val_neg simp del: power_numeral)

lemma double_abs: "double v \<Longrightarrow> double \<bar>v\<bar>"
  using double_neg [of v] by (simp add: abs_if)

lemma dyadic_decimal:
  assumes "- int N \<le> e"
  obtains n where "(2::rat) powi e * 10 ^ N = of_int (2 ^ n * 5 ^ N)"
proof -
  obtain n where n: "e + int N = int n" using zero_le_imp_eq_int [of "e + int N"] assms by auto
  have "(10::rat) ^ N = 2 powi int N * 5 ^ N" by (simp flip: power_mult_distrib)
  then have "(2::rat) powi e * 10 ^ N = (2 powi e * 2 powi int N) * 5 ^ N" by simp
  also have "\<dots> = 2 powi (e + int N) * 5 ^ N" by (simp add: power_int_add)
  also have "\<dots> = of_int (2 ^ n * 5 ^ N)" by (simp add: n)
  finally show thesis by (rule that)
qed

lemma double_decimal:
  assumes "double v"
  obtains m where "v * 10 ^ 1074 = of_int m"
proof (cases "v = 0")
  case False
  have "rnd_val v = v" using assms by (simp add: double_def rnd_Fin del: power_numeral)
  then have v: "v = of_int (rne (v / 2 powi ulp_exp v)) * 2 powi ulp_exp v" using False by (simp add: rnd_val_def)
  have "- int 1074 \<le> ulp_exp v" using ulp_exp_min [of v] by simp
  then obtain n where n: "(2::rat) powi ulp_exp v * 10 ^ 1074 = of_int (2 ^ n * 5 ^ 1074)" by (rule dyadic_decimal)
  have "v * 10 ^ 1074 = of_int (rne (v / 2 powi ulp_exp v)) * (2 powi ulp_exp v * 10 ^ 1074)" by (subst v) (simp only: mult.assoc)
  also have "\<dots> = of_int (rne (v / 2 powi ulp_exp v) * (2 ^ n * 5 ^ 1074))" by (simp only: n of_int_mult)
  finally show thesis by (rule that)
next
  case True
  then have "v * 10 ^ 1074 = of_int 0" by (simp del: power_numeral)
  then show thesis by (rule that)
qed


section \<open>Decimal digits\<close>

lemma dec_digit_props: "0 \<le> d \<Longrightarrow> d < 10 \<Longrightarrow> is_digit (dec_digit d) \<and> digit_val (dec_digit d) = nat d"
  by (auto simp: dec_digit_def is_digit_def digit_val_def code_of_def nat_add_distrib)

lemma nat_of_digits_snoc: "nat_of_digits (ds @ [c]) = 10 * nat_of_digits ds + digit_val c"
  by (simp add: nat_of_digits_def)

lemma nat_of_digits_append: "nat_of_digits (ds @ es) = nat_of_digits ds * 10 ^ length es + nat_of_digits es"
proof (induction es rule: rev_induct)
  case (snoc c es)
  have "nat_of_digits (ds @ es @ [c]) = 10 * nat_of_digits (ds @ es) + digit_val c" using nat_of_digits_snoc [of "ds @ es" c] by simp
  then show ?case using snoc by (simp add: nat_of_digits_snoc algebra_simps)
qed (simp add: nat_of_digits_def)

lemma nat_of_digits_zeros [simp]: "nat_of_digits (replicate n (CHR ''0'')) = 0"
  by (induction n) (simp_all add: nat_of_digits_def digit_val_def code_of_def)

lemma show_dec_props:
  "0 \<le> i \<Longrightarrow> nat_of_digits (show_dec i) = nat i \<and> list_all is_digit (show_dec i) \<and> show_dec i \<noteq> [] \<and> (0 < i \<longrightarrow> hd (show_dec i) \<noteq> CHR ''0'')"
proof (induction i rule: show_dec.induct)
  case (1 i)
  show ?case
  proof (cases "i < 10")
    case True
    then have s: "show_dec i = [dec_digit i]" by (simp add: show_dec.simps)
    have "dec_digit i \<noteq> CHR ''0''" if "0 < i"
    proof
      assume "dec_digit i = CHR ''0''"
      then have "digit_val (dec_digit i) = 0" by (simp add: digit_val_def code_of_def)
      then show False using dec_digit_props [of i] True that by simp
    qed
    then show ?thesis using dec_digit_props [of i] True 1(2) by (auto simp: s nat_of_digits_def)
  next
    case False
    have s: "show_dec i = show_dec (i div 10) @ [dec_digit (i mod 10)]" using False by (subst show_dec.simps) simp
    have h: "nat_of_digits (show_dec (i div 10)) = nat (i div 10) \<and> list_all is_digit (show_dec (i div 10)) \<and> show_dec (i div 10) \<noteq> [] \<and>
        hd (show_dec (i div 10)) \<noteq> CHR ''0''" using 1(1) [OF False] 1(2) False by (simp add: pos_imp_zdiv_pos_iff)
    have "10 * nat (i div 10) + nat (i mod 10) = nat i" using 1(2) div_mult_mod_eq [of i 10] pos_mod_sign [of 10 i] pos_imp_zdiv_nonneg_iff [of 10 i] by linarith
    then show ?thesis using h dec_digit_props [of "i mod 10"] by (simp add: s nat_of_digits_snoc)
  qed
qed

lemma length_show_dec: "0 \<le> i \<Longrightarrow> i < 10 ^ k \<Longrightarrow> 0 < k \<Longrightarrow> length (show_dec i) \<le> k"
proof (induction i arbitrary: k rule: show_dec.induct)
  case (1 i)
  show ?case
  proof (cases "i < 10")
    case False
    have s: "show_dec i = show_dec (i div 10) @ [dec_digit (i mod 10)]" using False by (subst show_dec.simps) simp
    obtain k' where k: "k = Suc k'" using 1(4) by (cases k) auto
    have "i div 10 < 10 ^ k'" using 1(3) by (simp add: k)
    moreover have "0 < k'" using False 1(3) by (cases k') (auto simp: k)
    ultimately show ?thesis using 1(1) [OF False] 1(2) by (simp add: s k)
  qed (use 1 in \<open>simp add: show_dec.simps\<close>)
qed

lemma clamp_exp_small: "list_all is_digit ds \<Longrightarrow> nat_of_digits ds < 100000 \<Longrightarrow> clamp_exp ds = nat_of_digits ds"
proof (induction ds rule: rev_induct)
  case (snoc c ds)
  then have "10 * nat_of_digits ds + digit_val c < 100000" by (simp add: nat_of_digits_snoc)
  then have "nat_of_digits ds < 10000" by linarith
  then have "clamp_exp ds = nat_of_digits ds" using snoc by simp
  then show ?case using \<open>nat_of_digits ds < 10000\<close> by (simp add: clamp_exp_def nat_of_digits_def)
qed (simp add: clamp_exp_def nat_of_digits_def)


section \<open>The shortest decimal reads back\<close>

lemma shortest_at_reads_back: "shortest_at v j = Some c \<Longrightarrow> rnd (of_int c / 10 powi j) = Fin v"
  by (auto simp: shortest_at_def Let_def rne_def split: if_splits)

lemma shortest_at_bound: "shortest_at v j = Some c \<Longrightarrow> c \<le> \<lfloor>v * 10 powi j\<rfloor> + 1"
  by (auto simp: shortest_at_def Let_def rne_def split: if_splits)

lemma shortest_at_exact:
  assumes "double v" shows "shortest_at v 1074 \<noteq> None"
proof -
  obtain m where m: "v * 10 ^ 1074 = of_int m" using assms by (rule double_decimal)
  have p: "(10::rat) powi 1074 = 10 ^ 1074" by (simp only: power_int_numeral)
  have "(10::rat) ^ 1074 \<noteq> 0" by (rule power_not_zero) simp
  then have "of_int m / (10::rat) ^ 1074 = v" using m by (metis nonzero_eq_divide_eq)
  then have "rnd (of_int m / 10 powi 1074) = Fin v" using assms by (simp only: p double_def)
  moreover have "\<lfloor>v * 10 powi 1074\<rfloor> = m" by (simp only: p m floor_of_int)
  ultimately show ?thesis by (simp only: shortest_at_def Let_def) (auto split: if_splits simp del: power_int_numeral)
qed

lemma double_range: "double v \<Longrightarrow> \<bar>v\<bar> < 10 ^ 309"
proof -
  assume "double v"
  then have "- (2 ^ 1024) < v \<and> v < 2 ^ 1024" by (simp add: double_def rnd_Fin del: power_numeral)
  then have "\<bar>v\<bar> < 2 ^ 1024" by linarith
  also have "(2 :: rat) ^ 1024 < 10 ^ 309" by simp
  finally show ?thesis .
qed

lemma first_scale_range:
  assumes "double v" "0 < v"
  shows "- 309 \<le> first_scale v \<and> first_scale v \<le> - 1"
proof -
  have "\<lfloor>v\<rfloor> < 10 ^ 309"
    using double_range [OF assms(1)] assms(2) by (simp add: floor_less_iff del: power_numeral)
  then have "length (show_dec \<lfloor>v\<rfloor>) \<le> 309" using assms(2) by (intro length_show_dec) simp_all
  moreover have "show_dec \<lfloor>v\<rfloor> \<noteq> []" using show_dec_props [of "\<lfloor>v\<rfloor>"] assms(2) by simp
  ultimately show ?thesis by (simp add: first_scale_def Suc_le_eq)
qed

lemma length_scaled:
  fixes v :: rat
  assumes "v \<le> 10 ^ a" "j \<le> int b" "0 < c" "c \<le> \<lfloor>v * 10 powi j\<rfloor> + 1"
  shows "length (show_dec c) \<le> a + b + 1"
proof -
  have "(10::rat) powi j \<le> 10 powi int b" using assms(2) by (intro power_int_increasing) simp_all
  then have "v * 10 powi j \<le> 10 ^ a * 10 powi int b" using assms(1) by (intro mult_mono) simp_all
  also have "\<dots> = of_int (10 ^ (a + b))" by (simp add: power_add)
  finally have "\<lfloor>v * 10 powi j\<rfloor> \<le> 10 ^ (a + b)" by (simp add: floor_le_iff)
  moreover have "(1::int) \<le> 10 ^ (a + b)" by simp
  ultimately have "c < 10 * 10 ^ (a + b)" using assms(4) by linarith
  then have "c < 10 ^ (a + b + 1)" by simp
  then show ?thesis using assms(3) by (intro length_show_dec) simp_all
qed

lemma shortest_reads_back:
  assumes "double v" "0 < v"
  obtains c j where "shortest v = Some (show_dec c, int (length (show_dec c)) - 1 - j)" "0 < c" "rnd (of_int c / 10 powi j) = Fin v"
    "- 309 \<le> j" "j \<le> 1383" "length (show_dec c) \<le> 1700"
proof -
  let ?P = "\<lambda>j. shortest_at v j \<noteq> None" and ?js = "map (\<lambda>i. first_scale v + int i) [0..<1384]"
  note fs = first_scale_range [OF assms]
  have "1074 \<in> set ?js" using fs by (auto intro!: image_eqI [of _ _ "nat (1074 - first_scale v)"])
  then have "find ?P ?js \<noteq> None" using shortest_at_exact [OF assms(1)] unfolding find_None_iff by metis
  then obtain j where j: "find ?P ?js = Some j" by blast
  then have "j \<in> set ?js" "?P j" by (auto dest: find_SomeD)
  then have jr: "- 309 \<le> j" "j \<le> 1383" and "?P j" using fs by auto
  then obtain c where c: "shortest_at v j = Some c" by blast
  have reads: "rnd (of_int c / 10 powi j) = Fin v" using c by (rule shortest_at_reads_back)
  have pos: "0 < c"
  proof (rule ccontr)
    assume "\<not> 0 < c"
    then have "of_int c / (10::rat) powi j \<le> 0" by (simp add: divide_nonpos_pos)
    from rnd_nonpos [OF this] show False using reads assms(2) by simp
  qed
  have "v \<le> 10 ^ 309" using double_range [OF assms(1)] assms(2) by linarith
  moreover have "j \<le> int 1383" using jr(2) by simp
  ultimately have "length (show_dec c) \<le> 309 + 1383 + 1" using pos shortest_at_bound [OF c] by (intro length_scaled)
  then have "length (show_dec c) \<le> 1700" by simp
  then show thesis using that [of c j] j c pos reads jr by (simp add: shortest_def Let_def del: power_int_numeral)
qed


section \<open>Formatting and taking apart\<close>

lemma digit_not: "is_digit c \<Longrightarrow> c \<noteq> CHR ''.'' \<and> c \<noteq> CHR ''e'' \<and> c \<noteq> CHR ''-'' \<and> c \<noteq> CHR ''+'' \<and> c \<noteq> CHR ''E''"
  by (auto simp: is_digit_def code_of_def)

lemma digits_value_nat: "ds \<noteq> [] \<Longrightarrow> list_all is_digit ds \<Longrightarrow> digits_value ds = Some (int (nat_of_digits ds))"
proof -
  have "list_all is_digit ds \<Longrightarrow> fold (\<lambda>c n. 10 * n + (int (code_of c) - 48)) ds 0 = int (nat_of_digits ds)"
  proof (induction ds rule: rev_induct)
    case (snoc c ds)
    then show ?case by (simp add: nat_of_digits_snoc) (simp add: digit_val_def is_digit_def of_nat_diff)
  qed (simp add: nat_of_digits_def)
  then show "ds \<noteq> [] \<Longrightarrow> list_all is_digit ds \<Longrightarrow> digits_value ds = Some (int (nat_of_digits ds))" by (simp add: digits_value_def)
qed

lemma takeWhile_all: "list_all P xs \<Longrightarrow> ys = [] \<or> \<not> P (hd ys) \<Longrightarrow> takeWhile P (xs @ ys) = xs \<and> dropWhile P (xs @ ys) = ys"
  by (induction xs; cases ys) auto

lemma format_e_parts:
  assumes "ds \<noteq> []" "list_all is_digit ds" "\<bar>x\<bar> < 2 ^ 63"
  shows "take_apart (format_e (ds, x)) = Some (ds, x + 1)"
proof -
  let ?m = "hd ds # (if tl ds = [] then [] else CHR ''.'' # tl ds)"
  let ?e = "if length (show_dec \<bar>x\<bar>) < 2 then CHR ''0'' # show_dec \<bar>x\<bar> else show_dec \<bar>x\<bar>"
  let ?s = "if x < 0 then CHR ''-'' else CHR ''+''"
  have f: "format_e (ds, x) = ?m @ CHR ''e'' # ?s # ?e" by (simp add: format_e_def Let_def)
  have dg: "is_digit (hd ds)" "list_all is_digit (tl ds)" using assms(1,2) by (cases ds; simp)+
  have "list_all (\<lambda>c. c \<noteq> CHR ''e'') ?m" using dg digit_not by (auto simp: list_all_iff)
  then have split: "takeWhile (\<lambda>c. c \<noteq> CHR ''e'') (format_e (ds, x)) = ?m" "dropWhile (\<lambda>c. c \<noteq> CHR ''e'') (format_e (ds, x)) = CHR ''e'' # ?s # ?e"
    unfolding f using takeWhile_all [of "\<lambda>c. c \<noteq> CHR ''e''" ?m "CHR ''e'' # ?s # ?e"] by simp_all
  have "takeWhile (\<lambda>c. c \<noteq> CHR ''.'') ds = ds" "dropWhile (\<lambda>c. c \<noteq> CHR ''.'') ds = []"
    using assms(2) digit_not by (auto simp: list_all_iff)
  then have m: "remove_dot ?m = ds" using assms(1) dg(1) digit_not by (cases ds) (auto simp: remove_dot_def)
  have e: "nat_of_digits ?e = nat \<bar>x\<bar>" "list_all is_digit ?e" "?e \<noteq> []"
    using show_dec_props [of "\<bar>x\<bar>"] by (auto simp: nat_of_digits_def digit_val_def is_digit_def code_of_def)
  then have "digits_value ?e = Some \<bar>x\<bar>" using digits_value_nat [of ?e] by simp
  then have "atoi (?s # ?e) = Some x" using assms(3) by (auto simp: atoi_def Let_def)
  then show ?thesis using split m by (simp add: take_apart_def f)
qed

section \<open>The canonical literal denotes the same double\<close>

definition stops :: "string \<Rightarrow> bool" where
  "stops rest = (rest = [] \<or> \<not> is_digit (hd rest) \<and> hd rest \<noteq> CHR ''.'' \<and> hd rest \<noteq> CHR ''e'' \<and> hd rest \<noteq> CHR ''E'')"

lemma scan_frac_none: "stops rest \<Longrightarrow> scan_frac rest = Some ([], rest)"
  by (auto simp: stops_def scan_frac_def)

lemma scan_exp_none: "stops rest \<Longrightarrow> scan_exp rest = Some (0, rest)"
  by (auto simp: stops_def scan_exp_def)

lemma scan_int_digits: "list_all is_digit ds \<Longrightarrow> ds \<noteq> [] \<Longrightarrow> hd ds \<noteq> CHR ''0'' \<Longrightarrow> r = [] \<or> \<not> is_digit (hd r) \<Longrightarrow> scan_int (ds @ r) = Some (ds, r)"
  using takeWhile_all [of is_digit ds r] by (cases ds) (auto simp: scan_int_def)

lemma scan_frac_digits: "list_all is_digit ds \<Longrightarrow> ds \<noteq> [] \<Longrightarrow> r = [] \<or> \<not> is_digit (hd r) \<Longrightarrow> scan_frac (CHR ''.'' # ds @ r) = Some (ds, r)"
  using takeWhile_all [of is_digit ds r] by (auto simp: scan_frac_def Let_def)

lemma scan_exp_digits:
  assumes "0 \<le> i" "i < 100000" "rest = [] \<or> \<not> is_digit (hd rest)"
  shows "scan_exp (CHR ''e'' # (if neg then CHR ''-'' else CHR ''+'') # show_dec i @ rest) = Some ((if neg then - i else i), rest)"
proof -
  have d: "list_all is_digit (show_dec i)" "show_dec i \<noteq> []" "nat_of_digits (show_dec i) = nat i" using show_dec_props [OF assms(1)] by auto
  have "clamp_exp (show_dec i) = nat i" using clamp_exp_small [OF d(1)] d(3) assms by simp
  then show ?thesis using takeWhile_all [OF d(1) assms(3)] d(2) assms(1) by (simp add: scan_exp_def Let_def)
qed

lemma stops_no_digit: "stops rest \<Longrightarrow> rest = [] \<or> \<not> is_digit (hd rest)"
  by (auto simp: stops_def)

text \<open>Where the parts of a laid-out decimal are: whole, fraction and exponent, of the value of the digits at their scale.\<close>

definition decimal_parts :: "string \<Rightarrow> string \<Rightarrow> rat \<Rightarrow> bool" where
  "decimal_parts t rest v = (\<exists>ip s1 fr s2 ex. scan_int (t @ rest) = Some (ip, s1) \<and> scan_frac s1 = Some (fr, s2) \<and> scan_exp s2 = Some (ex, rest) \<and>
     of_nat (nat_of_digits (ip @ fr)) * 10 powi (ex - int (length fr)) = v)"

lemma decimal_partsI:
  "scan_int (t @ rest) = Some (ip, s1) \<Longrightarrow> scan_frac s1 = Some (fr, s2) \<Longrightarrow> scan_exp s2 = Some (ex, rest) \<Longrightarrow>
   of_nat (nat_of_digits (ip @ fr)) * 10 powi (ex - int (length fr)) = v \<Longrightarrow> decimal_parts t rest v"
  by (auto simp: decimal_parts_def)

lemma decimal_parts_scan:
  assumes "decimal_parts t rest v"
  shows "\<exists>num. scan_number ((if neg then ''-'' else []) @ t @ rest) = Some (num, rest) \<and> number_value num = (if neg then - v else v)"
proof -
  obtain ip s1 fr s2 ex where p: "scan_int (t @ rest) = Some (ip, s1)" "scan_frac s1 = Some (fr, s2)" "scan_exp s2 = Some (ex, rest)"
    "of_nat (nat_of_digits (ip @ fr)) * 10 powi (ex - int (length fr)) = v" using assms by (auto simp: decimal_parts_def)
  have "hd (t @ rest) \<noteq> CHR ''-''" using p(1) digit_not [of "hd (t @ rest)"] by (auto simp: scan_int_def split: if_splits)
  then show ?thesis using p by (auto simp: scan_number_def number_value_def Let_def)
qed

lemma powi_scale: "(10::rat) powi (n - k) = 10 ^ nat (n - k)" if "k \<le> n" for n k :: int
  using that by (simp add: power_int_def)

lemma lay_out_parts:
  assumes ds: "list_all is_digit ds" "ds \<noteq> []" "hd ds \<noteq> CHR ''0''" and x: "\<bar>n - 1\<bar> < 100000" and rest: "stops rest"
  shows "decimal_parts (lay_out ds n) rest (of_nat (nat_of_digits ds) * 10 powi (n - int (length ds)))"
proof -
  let ?k = "int (length ds)"
  have z: "list_all is_digit (replicate m (CHR ''0''))" for m by (induction m) (simp_all add: is_digit_def code_of_def)
  consider (a) "?k \<le> n" "n \<le> 21" | (b) "\<not> ?k \<le> n" "0 < n" "n \<le> 21" | (c) "- 6 < n" "n \<le> 0" "\<not> ?k \<le> n"
    | (d) "\<not> (?k \<le> n \<and> n \<le> 21)" "\<not> (0 < n \<and> n \<le> 21)" "\<not> (- 6 < n \<and> n \<le> 0)" by linarith
  then show ?thesis
  proof cases
    case a
    have l: "lay_out ds n = ds @ replicate (nat (n - ?k)) (CHR ''0'')" using a by (simp add: lay_out_def Let_def)
    show ?thesis unfolding l
      by (rule decimal_partsI [OF scan_int_digits scan_frac_none [OF rest] scan_exp_none [OF rest]])
        (use ds z a stops_no_digit [OF rest] in \<open>simp_all add: nat_of_digits_append powi_scale\<close>)
  next
    case b
    have l: "lay_out ds n = take (nat n) ds @ ''.'' @ drop (nat n) ds" using b by (simp add: lay_out_def Let_def)
    have dg: "list_all is_digit (take (nat n) ds)" "list_all is_digit (drop (nat n) ds)" using ds(1) by (auto simp: list_all_iff dest: in_set_takeD in_set_dropD)
    have ne: "take (nat n) ds \<noteq> []" "drop (nat n) ds \<noteq> []" "hd (take (nat n) ds) \<noteq> CHR ''0''" using b ds by (auto simp: hd_take)
    show ?thesis unfolding l
      by (rule decimal_partsI [where ip = "take (nat n) ds" and fr = "drop (nat n) ds" and ex = 0 and ?s1.0 = "CHR ''.'' # drop (nat n) ds @ rest" and ?s2.0 = rest])
        (use b dg ne scan_int_digits [of "take (nat n) ds" "CHR ''.'' # drop (nat n) ds @ rest"] scan_frac_digits scan_exp_none [OF rest] stops_no_digit [OF rest]
          in \<open>simp_all add: is_digit_def code_of_def\<close>)
  next
    case c
    have l: "lay_out ds n = ''0.'' @ replicate (nat (- n)) (CHR ''0'') @ ds" using c by (simp add: lay_out_def Let_def)
    have f: "scan_frac (CHR ''.'' # (replicate (nat (- n)) (CHR ''0'') @ ds) @ rest) = Some (replicate (nat (- n)) (CHR ''0'') @ ds, rest)"
      by (rule scan_frac_digits) (use z ds stops_no_digit [OF rest] in simp_all)
    have v: "nat_of_digits (''0'' @ replicate (nat (- n)) (CHR ''0'') @ ds) = nat_of_digits ds"
      using nat_of_digits_append [of "replicate (Suc (nat (- n))) (CHR ''0'')" ds] nat_of_digits_zeros [of "Suc (nat (- n))"] by simp
    show ?thesis unfolding l
      by (rule decimal_partsI [where ip = "''0''", OF _ f scan_exp_none [OF rest]])
        (use c v in \<open>simp_all add: scan_int_def is_digit_def code_of_def\<close>)
  next
    case d
    let ?x = "n - 1"
    have sh: "show_int \<bar>?x\<bar> = show_dec \<bar>?x\<bar>" by (simp add: show_int_def)
    have e: "scan_exp (CHR ''e'' # (if ?x < 0 then CHR ''-'' else CHR ''+'') # show_dec \<bar>?x\<bar> @ rest) = Some (?x, rest)"
      using scan_exp_digits [of "\<bar>?x\<bar>" rest "?x < 0"] x stops_no_digit [OF rest] by (auto simp: abs_if split: if_splits)
    obtain h tl' where ht: "ds = h # tl'" using ds(2) by (cases ds) auto
    then have hd: "list_all is_digit [h]" "h \<noteq> CHR ''0''" "list_all is_digit tl'" using ds by auto
    let ?tail = "CHR ''e'' # (if ?x < 0 then CHR ''-'' else CHR ''+'') # show_dec \<bar>?x\<bar> @ rest"
    have nd: "\<not> is_digit (CHR ''e'')" "\<not> is_digit (CHR ''.'')" by (simp_all add: is_digit_def code_of_def)
    show ?thesis
    proof (cases "tl' = []")
      case True
      have l: "lay_out ds n @ rest = [h] @ ?tail" using d True by (auto simp: lay_out_def Let_def sh ht)
      have i: "scan_int ([h] @ ?tail) = Some ([h], ?tail)" using hd nd by (intro scan_int_digits) simp_all
      have f: "scan_frac ?tail = Some ([], ?tail)" by (simp add: scan_frac_def)
      have "scan_int (lay_out ds n @ rest) = Some ([h], ?tail)" unfolding l by (rule i)
      from decimal_partsI [OF this f e] show ?thesis using True by (simp add: ht)
    next
      case False
      have l: "lay_out ds n @ rest = [h] @ (CHR ''.'' # tl' @ ?tail)" using d False by (auto simp: lay_out_def Let_def sh ht)
      have i: "scan_int ([h] @ (CHR ''.'' # tl' @ ?tail)) = Some ([h], CHR ''.'' # tl' @ ?tail)" using hd nd by (intro scan_int_digits) simp_all
      have f: "scan_frac (CHR ''.'' # tl' @ ?tail) = Some (tl', ?tail)" using hd nd False by (intro scan_frac_digits) simp_all
      have "scan_int (lay_out ds n @ rest) = Some ([h], CHR ''.'' # tl' @ ?tail)" unfolding l by (rule i)
      from decimal_partsI [OF this f e] show ?thesis by (simp add: ht algebra_simps)
    qed
  qed
qed


lemma scan_zero: "stops rest \<Longrightarrow> decimal_parts ''0'' rest 0"
  by (rule decimal_partsI [OF _ scan_frac_none scan_exp_none])
     (auto simp: scan_int_def is_digit_def code_of_def nat_of_digits_def digit_val_def)

text \<open>
  What \<open>canonicalNumber\<close> writes for a double depends on the double alone, and is read back by the
  JSON scanner, whatever follows that does not continue a number, as that double.
\<close>

definition canonical_double :: "rat \<Rightarrow> string" where
  "canonical_double v =
     (if v = 0 then ''0''
      else (if v < 0 then ''-'' else []) @ (case shortest \<bar>v\<bar> of None \<Rightarrow> [] | Some (ds, x) \<Rightarrow> lay_out ds (x + 1)))"

lemma canonicalNumber_double:
  assumes "ParseFloat literal = Some v"
  shows "canonicalNumber literal = Inr (canonical_double v)"
proof (cases "v = 0")
  case False
  obtain n where "rnd (number_value n) = Fin v" using assms by (auto simp: ParseFloat_def split: option.splits prod.splits list.splits f64.splits)
  then have "double \<bar>v\<bar>" "0 < \<bar>v\<bar>" using False by (auto intro: double_abs rnd_double)
  then obtain c j where c: "shortest \<bar>v\<bar> = Some (show_dec c, int (length (show_dec c)) - 1 - j)" "0 < c" "- 309 \<le> j" "j \<le> 1383" "length (show_dec c) \<le> 1700"
    by (rule shortest_reads_back)
  let ?x = "int (length (show_dec c)) - 1 - j"
  have "take_apart (format_e (show_dec c, ?x)) = Some (show_dec c, ?x + 1)"
    using show_dec_props [of c] c by (intro format_e_parts) auto
  then show ?thesis using assms False c(1) by (simp add: canonicalNumber_def FormatFloat_e_def canonical_double_def Let_def)
qed (use assms in \<open>simp add: canonicalNumber_def canonical_double_def\<close>)

lemma canonical_double_scan:
  assumes "double v" "stops rest"
  shows "\<exists>num. scan_number (canonical_double v @ rest) = Some (num, rest) \<and> rnd (number_value num) = Fin v"
proof (cases "v = 0")
  case True
  then show ?thesis using decimal_parts_scan [OF scan_zero [OF assms(2)], of False] by (auto simp: canonical_double_def)
next
  case False
  then have "double \<bar>v\<bar>" "0 < \<bar>v\<bar>" using assms(1) by (auto intro: double_abs)
  then obtain c j where c: "shortest \<bar>v\<bar> = Some (show_dec c, int (length (show_dec c)) - 1 - j)" "0 < c"
    "rnd (of_int c / 10 powi j) = Fin \<bar>v\<bar>" "- 309 \<le> j" "j \<le> 1383" "length (show_dec c) \<le> 1700"
    by (rule shortest_reads_back)
  let ?k = "int (length (show_dec c))"
  let ?w = "of_nat (nat_of_digits (show_dec c)) * 10 powi (?k - 1 - j + 1 - ?k) :: rat"
  have "decimal_parts (lay_out (show_dec c) (?k - 1 - j + 1)) rest ?w"
    using show_dec_props [of c] c assms(2) by (intro lay_out_parts) auto
  then obtain num where num: "scan_number ((if v < 0 then ''-'' else []) @ lay_out (show_dec c) (?k - 1 - j + 1) @ rest) = Some (num, rest)"
    "number_value num = (if v < 0 then - ?w else ?w)" using decimal_parts_scan by blast
  have "?w = of_int c / 10 powi j" using show_dec_props [of c] c(2) by (simp add: power_int_minus divide_inverse)
  then have "rnd (number_value num) = (if v < 0 then f_neg (Fin \<bar>v\<bar>) else Fin \<bar>v\<bar>)" using num(2) c(3) by (simp add: rnd_neg)
  then show ?thesis using num(1) c(1) False by (auto simp: canonical_double_def)
qed

lemma canonical_double_ParseFloat: "double v \<Longrightarrow> ParseFloat (canonical_double v) = Some v"
  using canonical_double_scan [of v "[]"] by (auto simp: ParseFloat_def stops_def)

lemma ParseFloat_double: "ParseFloat literal = Some v \<Longrightarrow> double v"
  by (auto simp: ParseFloat_def intro: rnd_double split: option.splits prod.splits list.splits f64.splits)

lemma canonicalNumber_Inr: "canonicalNumber literal = Inr t \<longleftrightarrow> (\<exists>v. ParseFloat literal = Some v \<and> t = canonical_double v)"
  using canonicalNumber_double [of literal] by (cases "ParseFloat literal") (auto simp: canonicalNumber_def)

text \<open>Two literals have the same canonical form exactly when they denote the same double.\<close>

lemma canonicalNumber_eq:
  assumes "canonicalNumber a = Inr s" "canonicalNumber b = Inr t"
  shows "s = t \<longleftrightarrow> ParseFloat a = ParseFloat b"
  using assms canonical_double_ParseFloat ParseFloat_double unfolding canonicalNumber_Inr by (metis option.inject)

end
