(* ===== verification/JsonText.thy ===== *)
theory JsonText
  imports JsonNumber Utf8
begin

text \<open>
  JSON text: \<open>decodeJSON\<close> of \<open>internal/provenance/provenance.go\<close> with the part of
  \<open>encoding/json\<close> it uses (the scanner's grammar with its limit on nesting, string escapes with
  surrogate pairs, \<open>UseNumber\<close>, objects as maps in which the last member of a name wins, and what
  \<open>Decoder.More\<close> looks at), and \<open>Canonicalize\<close>, the RFC 8785 form that is signed. A document is
  decoded into \<open>any\<close>: a tree whose objects list their members, each name once.
\<close>

section \<open>Documents\<close>

datatype jval =
    VNull
  | VBool bool
  | VNum string
  | VStr string
  | VArr "jval list"
  | VObj "(string \<times> jval) list"

datatype json_fault = Syntax | TooDeep | NoFuel

type_synonym 'a parsed = "json_fault + 'a \<times> string"

definition is_ws :: "char \<Rightarrow> bool" where
  "is_ws c = (c = CHR '' '' \<or> c = CHR 0x09 \<or> c = CHR 0x0D \<or> c = CHR 0x0A)"

definition skip_ws :: "string \<Rightarrow> string" where
  "skip_ws s = dropWhile is_ws s"

section \<open>Strings\<close>

definition hex_val :: "char \<Rightarrow> nat option" where
  "hex_val c = (let k = code_of c in
     if 48 \<le> k \<and> k \<le> 57 then Some (k - 48) else if 97 \<le> k \<and> k \<le> 102 then Some (k - 87) else if 65 \<le> k \<and> k \<le> 70 then Some (k - 55) else None)"

definition hex4 :: "string \<Rightarrow> nat option" where
  "hex4 s =
     (case s of
        a # b # c # d # _ \<Rightarrow>
          (case (hex_val a, hex_val b, hex_val c, hex_val d) of
             (Some p, Some q, Some r, Some t) \<Rightarrow> Some (p * 4096 + q * 256 + r * 16 + t)
           | _ \<Rightarrow> None)
      | _ \<Rightarrow> None)"

definition surrogate :: "nat \<Rightarrow> bool" where
  "surrogate r = (0xD800 \<le> r \<and> r < 0xE000)"

text \<open>The low half after a high surrogate, if there is one.\<close>

definition low_half :: "nat \<Rightarrow> string \<Rightarrow> nat option" where
  "low_half r s =
     (case s of
        a # b # t \<Rightarrow>
          (if a = CHR 0x5C \<and> b = CHR ''u'' then
             (case hex4 t of
                Some lo \<Rightarrow> if 0xD800 \<le> r \<and> r < 0xDC00 \<and> 0xDC00 \<le> lo \<and> lo < 0xE000 then Some ((r - 0xD800) * 1024 + (lo - 0xDC00) + 0x10000) else None
              | None \<Rightarrow> None)
           else None)
      | _ \<Rightarrow> None)"

definition json_escapes :: "(char \<times> char) list" where
  "json_escapes = [(CHR ''b'', CHR 0x08), (CHR ''f'', CHR 0x0C), (CHR ''n'', CHR 0x0A), (CHR ''r'', CHR 0x0D), (CHR ''t'', CHR 0x09),
     (CHR 0x5C, CHR 0x5C), (CHR ''/'', CHR ''/''), (CHR 0x22, CHR 0x22)]"

text \<open>One character of a string literal: its bytes and what follows.\<close>

definition json_char :: "string \<Rightarrow> (string \<times> string) option" where
  "json_char s =
     (case s of
        [] \<Rightarrow> None
      | c # r \<Rightarrow>
          if c = CHR 0x5C then
            (case r of
               [] \<Rightarrow> None
             | e # t \<Rightarrow>
                 if e = CHR ''u'' then
                   (case hex4 t of
                      None \<Rightarrow> None
                    | Some u \<Rightarrow>
                        if surrogate u then
                          (case low_half u (drop 4 t) of
                             Some w \<Rightarrow> Some (encode_rune w, drop 10 t)
                           | None \<Rightarrow> Some (encode_rune rune_error, drop 4 t))
                        else Some (encode_rune u, drop 4 t))
                 else (case map_of json_escapes e of None \<Rightarrow> None | Some x \<Rightarrow> Some ([x], t)))
          else if code_of c < 32 then None
          else if code_of c < 128 then Some ([c], r)
          else Some (encode_rune (fst (decode_rune s)), drop (snd (decode_rune s)) s))"

lemma json_char_shorter: "json_char s = Some (t, r) \<Longrightarrow> length r < length s"
  using decode_width [of s] by (auto simp: json_char_def split: list.splits if_splits option.splits)

text \<open>A string literal after its opening quote.\<close>

function parse_string :: "string \<Rightarrow> (string \<times> string) option" where
  "parse_string s =
     (if s = [] then None
      else if hd s = CHR 0x22 then Some ([], tl s)
      else (case json_char s of
              None \<Rightarrow> None
            | Some (t, r) \<Rightarrow> (case parse_string r of None \<Rightarrow> None | Some (u, r') \<Rightarrow> Some (t @ u, r'))))"
  by pat_completeness auto
termination
  by (relation "measure length") (auto dest: json_char_shorter)

declare parse_string.simps [simp del]

section \<open>Values\<close>

definition parse_number :: "string \<Rightarrow> (string \<times> string) option" where
  "parse_number s = (case scan_number s of None \<Rightarrow> None | Some (_, r) \<Rightarrow> Some (take (length s - length r) s, r))"

definition parse_literal :: "string \<Rightarrow> (jval \<times> string) option" where
  "parse_literal s =
     (if take 4 s = ''null'' then Some (VNull, drop 4 s)
      else if take 4 s = ''true'' then Some (VBool True, drop 4 s)
      else if take 5 s = ''false'' then Some (VBool False, drop 5 s) else None)"

definition parse_scalar :: "string \<Rightarrow> (jval \<times> string) option" where
  "parse_scalar s =
     (if s = [] then None
      else if hd s = CHR 0x22 then map_option (\<lambda>(t, r). (VStr t, r)) (parse_string (tl s))
      else if hd s = CHR ''-'' \<or> is_digit (hd s) then map_option (\<lambda>(t, r). (VNum t, r)) (parse_number s)
      else parse_literal s)"

text \<open>The name of a member and what follows its colon.\<close>

definition parse_key :: "string \<Rightarrow> (string \<times> string) option" where
  "parse_key s =
     (case skip_ws s of
        c # t \<Rightarrow>
          if c = CHR 0x22 then
            (case parse_string t of
               None \<Rightarrow> None
             | Some (k, r) \<Rightarrow> (case skip_ws r of c' # r' \<Rightarrow> if c' = CHR '':'' then Some (k, r') else None | [] \<Rightarrow> None))
          else None
      | [] \<Rightarrow> None)"

text \<open>
  The first argument is fuel, the second the nesting that is still allowed. Elements and members
  are read up to and including the closing bracket.
\<close>

fun parse_value :: "nat \<Rightarrow> nat \<Rightarrow> string \<Rightarrow> jval parsed"
and parse_elements :: "nat \<Rightarrow> nat \<Rightarrow> string \<Rightarrow> jval list parsed"
and parse_members :: "nat \<Rightarrow> nat \<Rightarrow> string \<Rightarrow> (string \<times> jval) list parsed" where
  "parse_value 0 d s = Inl NoFuel"
| "parse_value (Suc f) d s =
     (let t = skip_ws s in
      if t \<noteq> [] \<and> hd t = CHR ''{'' then
        (if d = 0 then Inl TooDeep
         else let u = skip_ws (tl t) in
           if u \<noteq> [] \<and> hd u = CHR ''}'' then Inr (VObj [], tl u)
           else (case parse_members f (d - 1) (tl t) of Inl e \<Rightarrow> Inl e | Inr (ms, r) \<Rightarrow> Inr (VObj ms, r)))
      else if t \<noteq> [] \<and> hd t = CHR ''['' then
        (if d = 0 then Inl TooDeep
         else let u = skip_ws (tl t) in
           if u \<noteq> [] \<and> hd u = CHR '']'' then Inr (VArr [], tl u)
           else (case parse_elements f (d - 1) (tl t) of Inl e \<Rightarrow> Inl e | Inr (vs, r) \<Rightarrow> Inr (VArr vs, r)))
      else (case parse_scalar t of None \<Rightarrow> Inl Syntax | Some p \<Rightarrow> Inr p))"
| "parse_elements 0 d s = Inl NoFuel"
| "parse_elements (Suc f) d s =
     (case parse_value f d s of
        Inl e \<Rightarrow> Inl e
      | Inr (v, r) \<Rightarrow>
          (let t = skip_ws r in
           if t = [] then Inl Syntax
           else if hd t = CHR '']'' then Inr ([v], tl t)
           else if hd t = CHR '','' then (case parse_elements f d (tl t) of Inl e \<Rightarrow> Inl e | Inr (vs, r') \<Rightarrow> Inr (v # vs, r'))
           else Inl Syntax))"
| "parse_members 0 d s = Inl NoFuel"
| "parse_members (Suc f) d s =
     (case parse_key s of
        None \<Rightarrow> Inl Syntax
      | Some (k, s1) \<Rightarrow>
          (case parse_value f d s1 of
             Inl e \<Rightarrow> Inl e
           | Inr (v, r) \<Rightarrow>
               (let t = skip_ws r in
                if t = [] then Inl Syntax
                else if hd t = CHR ''}'' then Inr ([(k, v)], tl t)
                else if hd t = CHR '','' then (case parse_members f d (tl t) of Inl e \<Rightarrow> Inl e | Inr (ms, r') \<Rightarrow> Inr ((k, v) # ms, r'))
                else Inl Syntax)))"

definition maxNestingDepth :: nat where "maxNestingDepth = 10000"

text \<open>One value of a stream: the parser consumes a byte in every second step, so this fuel is enough.\<close>

definition json_Decode :: "string \<Rightarrow> jval parsed" where
  "json_Decode s = parse_value (2 * length s + 1) maxNestingDepth s"

text \<open>Objects become maps: a later member replaces the earlier one of the same name.\<close>

fun put :: "string \<Rightarrow> 'v \<Rightarrow> (string \<times> 'v) list \<Rightarrow> (string \<times> 'v) list" where
  "put k v [] = [(k, v)]"
| "put k v ((k', v') # ms) = (if k' = k then (k, v) # ms else (k', v') # put k v ms)"

fun as_any :: "jval \<Rightarrow> jval" where
  "as_any (VArr vs) = VArr (map as_any vs)"
| "as_any (VObj ms) = VObj (fold (\<lambda>m acc. put (fst m) (snd m) acc) (map (\<lambda>m. (fst m, as_any (snd m))) ms) [])"
| "as_any v = v"

text \<open>\<open>Decoder.More\<close> after the document: a closing bracket counts as the end of the stream.\<close>

definition decoder_More :: "string \<Rightarrow> bool" where
  "decoder_More r = (let t = skip_ws r in t \<noteq> [] \<and> hd t \<noteq> CHR '']'' \<and> hd t \<noteq> CHR ''}'')"

definition decodeJSON :: "string \<Rightarrow> jval result" where
  "decodeJSON raw =
     (case json_Decode raw of
        Inl _ \<Rightarrow> Inl (EMsg ''invalid JSON'')
      | Inr (document, r) \<Rightarrow> require (\<not> decoder_More r) (EMsg ''trailing data after JSON document'') (Inr (as_any document)))"

section \<open>The canonical form\<close>

definition quote_rune :: "nat \<Rightarrow> string" where
  "quote_rune r =
     (if r = 0x22 then [CHR 0x5C, CHR 0x22] else if r = 0x5C then [CHR 0x5C, CHR 0x5C]
      else if r = 0x08 then [CHR 0x5C, CHR ''b''] else if r = 0x0C then [CHR 0x5C, CHR ''f''] else if r = 0x0A then [CHR 0x5C, CHR ''n'']
      else if r = 0x0D then [CHR 0x5C, CHR ''r''] else if r = 0x09 then [CHR 0x5C, CHR ''t'']
      else if r < 0x20 then CHR 0x5C # ''u00'' @ [hex_digit (r div 16 mod 16), hex_digit (r mod 16)]
      else encode_rune r)"

definition canonicalString :: "string \<Rightarrow> string" where
  "canonicalString value = CHR 0x22 # concat (map quote_rune (runes value)) @ [CHR 0x22]"

fun join :: "string list \<Rightarrow> string" where
  "join [] = []"
| "join [x] = x"
| "join (x # y # ys) = x @ '','' @ join (y # ys)"

text \<open>Errors of the parts, in order.\<close>

fun collect :: "'a result list \<Rightarrow> 'a list result" where
  "collect [] = Inr []"
| "collect (r # rs) = rbind r (\<lambda>x. rbind (collect rs) (\<lambda>xs. Inr (x # xs)))"

definition sort_members :: "(string \<times> 'v) list \<Rightarrow> (string \<times> 'v) list" where
  "sort_members ms = sort_key (\<lambda>m. utf16_of (fst m)) ms"

definition canonical_member :: "string \<times> string result \<Rightarrow> string result" where
  "canonical_member m = rbind (snd m) (\<lambda>t. Inr (canonicalString (fst m) @ '':'' @ t))"

fun canonicalValue :: "jval \<Rightarrow> string result" where
  "canonicalValue VNull = Inr ''null''"
| "canonicalValue (VBool b) = Inr (if b then ''true'' else ''false'')"
| "canonicalValue (VStr s) = Inr (canonicalString s)"
| "canonicalValue (VNum l) = canonicalNumber l"
| "canonicalValue (VArr vs) = rbind (collect (map canonicalValue vs)) (\<lambda>ts. Inr (''['' @ join ts @ '']''))"
| "canonicalValue (VObj ms) =
     rbind (collect (map canonical_member (sort_members (map (\<lambda>m. (fst m, canonicalValue (snd m))) ms)))) (\<lambda>ts. Inr (''{'' @ join ts @ ''}''))"

definition Canonicalize :: "jval \<Rightarrow> string result" where
  "Canonicalize value = canonicalValue value"

end
