(* ===== verification/JsonProps.thy ===== *)
theory JsonProps
  imports JsonText
begin

text \<open>
  The decoder terminates within its fuel, reads back what \<open>Canonicalize\<close> writes, and two documents
  have the same canonical form exactly when they have the same content.
\<close>

section \<open>String literals\<close>

lemma json_char_ascii: "32 \<le> code_of c \<Longrightarrow> code_of c < 128 \<Longrightarrow> c \<noteq> CHR 0x5C \<Longrightarrow> json_char (c # r) = Some ([c], r)"
  by (simp add: json_char_def)

lemma json_char_encode:
  assumes "valid_rune r" "32 \<le> r" "r \<noteq> 0x5C"
  shows "json_char (encode_rune r @ s) = Some (encode_rune r, s)"
proof (cases "r < 128")
  case True
  then have "encode_rune r = [char_of r]" by (simp add: encode_rune_def)
  moreover have "char_of r \<noteq> CHR 0x5C"
  proof
    assume "char_of r = CHR 0x5C"
    then have "code_of (char_of r) = code_of (CHR 0x5C)" by simp
    then show False using True assms(3) by (simp add: code_of_def)
  qed
  ultimately show ?thesis using True assms(2) by (simp add: json_char_ascii)
next
  case False
  obtain c cs where e: "encode_rune r = c # cs" by (cases "encode_rune r") auto
  have c: "128 \<le> code_of c"
  proof (rule ccontr)
    assume "\<not> 128 \<le> code_of c"
    then have "decode_rune (encode_rune r @ s) = (code_of c, 1)" by (simp add: e decode_rune_def)
    then have "r = code_of c" using decode_encode_rune [OF assms(1), of s] by simp
    then show False using False \<open>\<not> 128 \<le> code_of c\<close> by simp
  qed
  then have "c \<noteq> CHR 0x5C" by (auto simp: code_of_def)
  then have "json_char (encode_rune r @ s) = Some (encode_rune (fst (decode_rune (encode_rune r @ s))), drop (snd (decode_rune (encode_rune r @ s))) (encode_rune r @ s))"
    using c by (simp add: json_char_def e)
  then show ?thesis by (simp add: decode_encode_rune [OF assms(1)])
qed

lemma hex_val_digit: "n < 16 \<Longrightarrow> hex_val (hex_digit n) = Some n"
  by (auto simp: hex_val_def hex_digit_def code_of_def Let_def)

lemma hex4_control: "r < 0x20 \<Longrightarrow> hex4 (''00'' @ [hex_digit (r div 16 mod 16), hex_digit (r mod 16)] @ s) = Some r"
proof -
  assume "r < 0x20"
  have z: "hex_val (CHR ''0'') = Some 0" by (simp add: hex_val_def code_of_def)
  have "hex_val (hex_digit (r div 16 mod 16)) = Some (r div 16 mod 16)" "hex_val (hex_digit (r mod 16)) = Some (r mod 16)" by (simp_all add: hex_val_digit)
  moreover have "r div 16 mod 16 * 16 + r mod 16 = r" using \<open>r < 0x20\<close> by (simp add: mod_less)
  ultimately show ?thesis by (simp add: hex4_def z)
qed

lemma encode_ascii: "r < 128 \<Longrightarrow> encode_rune r = [char_of r]"
  by (simp add: encode_rune_def)

lemma json_char_quote:
  assumes "valid_rune r"
  shows "json_char (quote_rune r @ s) = Some (encode_rune r, s)"
proof -
  consider (esc) "r \<in> {0x22, 0x5C, 0x08, 0x0C, 0x0A, 0x0D, 0x09}" | (control) "r < 0x20" "r \<notin> {0x22, 0x5C, 0x08, 0x0C, 0x0A, 0x0D, 0x09}"
    | (plain) "0x20 \<le> r" "r \<noteq> 0x22" "r \<noteq> 0x5C" by force
  then show ?thesis
  proof cases
    case esc
    then show ?thesis by (elim insertE emptyE) (simp_all add: quote_rune_def json_char_def json_escapes_def encode_ascii char_of_def bit_0)
  next
    case control
    have q: "quote_rune r = CHR 0x5C # CHR ''u'' # ''00'' @ [hex_digit (r div 16 mod 16), hex_digit (r mod 16)]" using control by (simp add: quote_rune_def)
    have "\<not> surrogate r" using control by (simp add: surrogate_def)
    then show ?thesis using hex4_control [OF control(1), of s] by (simp add: q json_char_def)
  next
    case plain
    then have "quote_rune r = encode_rune r" by (simp add: quote_rune_def)
    then show ?thesis using json_char_encode [OF assms] plain by simp
  qed
qed

lemma escaped_start:
  assumes "valid_rune r" "json_char (q @ s) = Some (encode_rune r, s)" "q \<noteq> []" "r = 0x22 \<longrightarrow> hd q \<noteq> CHR 0x22"
  shows "q @ s \<noteq> [] \<and> hd (q @ s) \<noteq> CHR 0x22"
proof (intro conjI notI)
  assume h: "hd (q @ s) = CHR 0x22"
  then obtain t where t: "q @ s = CHR 0x22 # t" using assms(3) by (cases q) auto
  have "json_char (CHR 0x22 # t) = Some ([CHR 0x22], t)" by (simp add: json_char_def code_of_def)
  then have "encode_rune r = [CHR 0x22]" using assms(2) t by simp
  then have "decode_rune (encode_rune r @ []) = (0x22, 1)" by (simp add: decode_rune_def code_of_def)
  then have "r = 0x22" using decode_encode_rune [OF assms(1), of "[]"] by simp
  then show False using assms(3,4) h by simp
qed (use assms(3) in simp)

lemma quote_rune_start: "valid_rune r \<Longrightarrow> quote_rune r @ s \<noteq> [] \<and> hd (quote_rune r @ s) \<noteq> CHR 0x22"
  by (rule escaped_start [OF _ json_char_quote]) (simp_all add: quote_rune_def)

lemma parse_string_quoted:
  "list_all valid_rune rs \<Longrightarrow> parse_string (concat (map quote_rune rs) @ CHR 0x22 # rest) = Some (encode_runes rs, rest)"
proof (induction rs)
  case Nil
  then show ?case by (simp add: parse_string.simps encode_runes_def)
next
  case (Cons r rs)
  then have v: "valid_rune r" by simp
  let ?t = "concat (map quote_rune rs) @ CHR 0x22 # rest"
  have "parse_string (quote_rune r @ ?t) = Some (encode_rune r @ encode_runes rs, rest)"
    by (subst parse_string.simps) (use quote_rune_start [OF v, of ?t] json_char_quote [OF v, of ?t] Cons in simp)
  then show ?case by (simp add: encode_runes_def)
qed

lemma parse_canonicalString: "parse_string (tl (canonicalString s) @ rest) = Some (encode_runes (runes s), rest)"
  using parse_string_quoted [OF runes_valid, of s rest] by (simp add: canonicalString_def)

section \<open>Numbers\<close>

lemma parse_canonical_number: "double v \<Longrightarrow> stops rest \<Longrightarrow> parse_number (canonical_double v @ rest) = Some (canonical_double v, rest)"
  using canonical_double_scan [of v rest] by (auto simp: parse_number_def)


section \<open>The decoder terminates\<close>

lemma skip_ws_length: "length (skip_ws s) \<le> length s"
  by (simp add: skip_ws_def length_dropWhile_le)

lemma parse_string_shorter: "parse_string s = Some (t, r) \<Longrightarrow> length r < length s"
proof (induction s arbitrary: t r rule: parse_string.induct)
  case (1 s)
  show ?case
  proof (cases "s = [] \<or> hd s = CHR 0x22")
    case True
    then show ?thesis using 1(2) by (cases s) (auto simp: parse_string.simps)
  next
    case False
    then obtain a b u where j: "json_char s = Some (a, b)" "parse_string b = Some (u, r)"
      using 1(2) by (auto simp: parse_string.simps [of s] split: option.splits)
    have "length r < length b" using 1(1) False j by metis
    then show ?thesis using json_char_shorter [OF j(1)] by simp
  qed
qed

lemma scan_shorter:
  "scan_int s = Some (i, r) \<Longrightarrow> length r < length s" "scan_frac s = Some (i, r) \<Longrightarrow> length r \<le> length s" "scan_exp s = Some (e, r) \<Longrightarrow> length r \<le> length s"
proof -
  have d: "length (dropWhile is_digit (tl s)) \<le> length s" for s by (metis length_dropWhile_le length_tl diff_le_self order_trans)
  have dd: "length (dropWhile is_digit (tl (tl s))) \<le> length s" for s by (metis d length_tl diff_le_self order_trans)
  show "scan_frac s = Some (i, r) \<Longrightarrow> length r \<le> length s" using d by (auto simp: scan_frac_def Let_def split: if_splits)
  show "scan_exp s = Some (e, r) \<Longrightarrow> length r \<le> length s" using d dd by (auto simp: scan_exp_def Let_def split: if_splits)
  have "s \<noteq> [] \<Longrightarrow> is_digit (hd s) \<Longrightarrow> length (dropWhile is_digit s) < length s" by (cases s) (auto simp: length_dropWhile_le less_Suc_eq_le)
  then show "scan_int s = Some (i, r) \<Longrightarrow> length r < length s" by (auto simp: scan_int_def split: if_splits)
qed

lemma scan_number_shorter: "scan_number s = Some (n, r) \<Longrightarrow> length r < length s"
  by (cases s) (auto simp: scan_number_def Let_def dest!: scan_shorter split: option.splits if_splits)

lemma parse_scalar_shorter: "parse_scalar s = Some (v, r) \<Longrightarrow> length r < length s"
  by (cases s) (auto simp: parse_scalar_def parse_number_def parse_literal_def dest!: scan_number_shorter parse_string_shorter split: option.splits if_splits)

lemma parse_key_shorter: "parse_key s = Some (k, r) \<Longrightarrow> length r < length s"
proof -
  assume "parse_key s = Some (k, r)"
  then obtain c t r1 c' where p: "skip_ws s = c # t" "parse_string t = Some (k, r1)" "skip_ws r1 = c' # r"
    by (auto simp: parse_key_def split: list.splits option.splits if_splits)
  then show ?thesis using skip_ws_length [of s] skip_ws_length [of r1] parse_string_shorter [OF p(2)] by simp
qed

text \<open>How a step of the parser succeeds.\<close>

lemma hd_eq: "t \<noteq> [] \<and> hd t = c \<longleftrightarrow> (\<exists>u. t = c # u)"
  by (cases t) auto

lemma parse_value_Inr:
  assumes "parse_value f d s = Inr (v, r)"
  obtains (empty_object) f' t where "f = Suc f'" "0 < d" "skip_ws s = CHR ''{'' # t" "skip_ws t = CHR ''}'' # r" "v = VObj []"
  | (object) f' t ms where "f = Suc f'" "0 < d" "skip_ws s = CHR ''{'' # t" "parse_members f' (d - 1) t = Inr (ms, r)" "v = VObj ms"
  | (empty_array) f' t where "f = Suc f'" "0 < d" "skip_ws s = CHR ''['' # t" "skip_ws t = CHR '']'' # r" "v = VArr []"
  | (array) f' t vs where "f = Suc f'" "0 < d" "skip_ws s = CHR ''['' # t" "parse_elements f' (d - 1) t = Inr (vs, r)" "v = VArr vs"
  | (scalar) f' where "f = Suc f'" "parse_scalar (skip_ws s) = Some (v, r)"
proof (cases f)
  case (Suc f')
  show thesis
  proof (cases "skip_ws s \<noteq> [] \<and> (hd (skip_ws s) = CHR ''{'' \<or> hd (skip_ws s) = CHR ''['')")
    case False
    then have "parse_scalar (skip_ws s) = Some (v, r)" using assms Suc by (auto simp: Let_def split: option.splits)
    then show thesis using scalar Suc by blast
  next
    case True
    then obtain c t where t: "skip_ws s = c # t" "c = CHR ''{'' \<or> c = CHR ''[''" by (cases "skip_ws s") auto
    from t(2) show thesis
    proof
      assume c: "c = CHR ''{''"
      show thesis
      proof (cases "skip_ws t \<noteq> [] \<and> hd (skip_ws t) = CHR ''}''")
        case True
        then obtain u where "skip_ws t = CHR ''}'' # u" by (cases "skip_ws t") auto
        then show thesis using empty_object assms Suc t c by (auto simp: Let_def split: if_splits)
      next
        case False
        then show thesis using object assms Suc t c by (auto simp: Let_def split: if_splits sum.splits)
      qed
    next
      assume c: "c = CHR ''[''"
      show thesis
      proof (cases "skip_ws t \<noteq> [] \<and> hd (skip_ws t) = CHR '']''")
        case True
        then obtain u where "skip_ws t = CHR '']'' # u" by (cases "skip_ws t") auto
        then show thesis using empty_array assms Suc t c by (auto simp: Let_def split: if_splits)
      next
        case False
        then show thesis using array assms Suc t c by (auto simp: Let_def split: if_splits sum.splits)
      qed
    qed
  qed
qed (use assms in simp)

lemma parse_elements_Inr:
  assumes "parse_elements f d s = Inr (vs, r)"
  obtains (last) f' v r1 where "f = Suc f'" "parse_value f' d s = Inr (v, r1)" "skip_ws r1 = CHR '']'' # r" "vs = [v]"
  | (more) f' v r1 r2 vs' where "f = Suc f'" "parse_value f' d s = Inr (v, r1)" "skip_ws r1 = CHR '','' # r2" "parse_elements f' d r2 = Inr (vs', r)" "vs = v # vs'"
proof (cases f)
  case (Suc f')
  then obtain v r1 where v: "parse_value f' d s = Inr (v, r1)" using assms by (auto split: sum.splits)
  moreover obtain c t where t: "skip_ws r1 = c # t" using assms Suc v by (cases "skip_ws r1") auto
  ultimately show thesis using last more assms Suc by (auto simp: Let_def split: if_splits sum.splits)
qed (use assms in simp)

lemma parse_members_Inr:
  assumes "parse_members f d s = Inr (ms, r)"
  obtains (last) f' k s1 v r1 where "f = Suc f'" "parse_key s = Some (k, s1)" "parse_value f' d s1 = Inr (v, r1)" "skip_ws r1 = CHR ''}'' # r" "ms = [(k, v)]"
  | (more) f' k s1 v r1 r2 ms' where "f = Suc f'" "parse_key s = Some (k, s1)" "parse_value f' d s1 = Inr (v, r1)" "skip_ws r1 = CHR '','' # r2"
      "parse_members f' d r2 = Inr (ms', r)" "ms = (k, v) # ms'"
proof (cases f)
  case (Suc f')
  then obtain k s1 where k: "parse_key s = Some (k, s1)" using assms by (auto split: option.splits)
  then obtain v r1 where v: "parse_value f' d s1 = Inr (v, r1)" using assms Suc by (auto split: sum.splits)
  moreover obtain c t where t: "skip_ws r1 = c # t" using assms Suc v k by (cases "skip_ws r1") auto
  ultimately show thesis using last more assms Suc k by (auto simp: Let_def split: if_splits sum.splits)
qed (use assms in simp)

lemma skip_ws_Cons: "skip_ws s = c # t \<Longrightarrow> length t < length s"
  using skip_ws_length [of s] by simp

lemma parse_shorter:
  "(parse_value f d s = Inr (v, r) \<longrightarrow> length r < length s) \<and> (parse_elements f d s = Inr (vs, r) \<longrightarrow> length r < length s) \<and>
   (parse_members f d s = Inr (ms, r) \<longrightarrow> length r < length s)"
proof (induction f arbitrary: d s v vs ms r)
  case (Suc f)
  note IH = Suc.IH [THEN conjunct1, rule_format] Suc.IH [THEN conjunct2, THEN conjunct1, rule_format] Suc.IH [THEN conjunct2, THEN conjunct2, rule_format]
  have "length r < length s" if "parse_value (Suc f) d s = Inr (v, r)" using that
  proof (cases rule: parse_value_Inr)
    case (scalar f')
    then show ?thesis using parse_scalar_shorter [OF scalar(2)] skip_ws_length [of s] by simp
  qed (auto dest!: IH skip_ws_Cons)
  moreover have "length r < length s" if "parse_elements (Suc f) d s = Inr (vs, r)" using that
    by (cases rule: parse_elements_Inr) (auto dest!: IH skip_ws_Cons)
  moreover have "length r < length s" if "parse_members (Suc f) d s = Inr (ms, r)" using that
    by (cases rule: parse_members_Inr) (auto dest!: IH skip_ws_Cons parse_key_shorter)
  ultimately show ?case by blast
qed simp


lemmas parse_value_shorter = parse_shorter [THEN conjunct1, rule_format]

lemma parse_fuel:
  "(2 * length s < f \<longrightarrow> parse_value f d s \<noteq> Inl NoFuel) \<and> (2 * length s + 1 < f \<longrightarrow> parse_elements f d s \<noteq> Inl NoFuel) \<and>
   (2 * length s + 1 < f \<longrightarrow> parse_members f d s \<noteq> Inl NoFuel)"
proof (induction f arbitrary: d s)
  case (Suc f)
  note IH = Suc.IH [THEN conjunct1, rule_format] Suc.IH [THEN conjunct2, THEN conjunct1, rule_format] Suc.IH [THEN conjunct2, THEN conjunct2, rule_format]
  have shorter: "2 * length r2 + 1 < f" if "2 * length s1 < f" "parse_value f d s1 = Inr (v, r1)" "skip_ws r1 = c # r2" for s1 v r1 c r2
    using that(1) parse_value_shorter [OF that(2)] skip_ws_Cons [OF that(3)] by linarith
  have "parse_value (Suc f) d s \<noteq> Inl NoFuel" if l: "2 * length s < Suc f"
  proof
    assume n: "parse_value (Suc f) d s = Inl NoFuel"
    then obtain c t where t: "skip_ws s = c # t" by (cases "skip_ws s") (auto simp: parse_scalar_def)
    then have "2 * length t + 1 < f" using l skip_ws_Cons [OF t] by simp
    then show False using n t IH(2,3) [of t "d - 1"] by (auto simp: Let_def split: if_splits sum.splits option.splits)
  qed
  moreover have "parse_elements (Suc f) d s \<noteq> Inl NoFuel" if l: "2 * length s + 1 < Suc f"
  proof
    assume n: "parse_elements (Suc f) d s = Inl NoFuel"
    have "2 * length s < f" using l by simp
    with IH(1) [OF this] obtain v r1 where v: "parse_value f d s = Inr (v, r1)" using n by (auto split: sum.splits)
    then obtain c r2 where r: "skip_ws r1 = c # r2" using n by (cases "skip_ws r1") auto
    show False using n v r IH(2) [OF shorter [OF \<open>2 * length s < f\<close> v r], of d] by (auto simp: Let_def split: if_splits sum.splits)
  qed
  moreover have "parse_members (Suc f) d s \<noteq> Inl NoFuel" if l: "2 * length s + 1 < Suc f"
  proof
    assume n: "parse_members (Suc f) d s = Inl NoFuel"
    then obtain k s1 where k: "parse_key s = Some (k, s1)" by (auto split: option.splits)
    have s1: "2 * length s1 < f" using l parse_key_shorter [OF k] by simp
    with IH(1) [OF this] obtain v r1 where v: "parse_value f d s1 = Inr (v, r1)" using n k by (auto split: sum.splits)
    then obtain c r2 where r: "skip_ws r1 = c # r2" using n k by (cases "skip_ws r1") auto
    show False using n k v r IH(3) [OF shorter [OF s1 v r], of d] by (auto simp: Let_def split: if_splits sum.splits)
  qed
  ultimately show ?case by blast
qed simp



section \<open>Reading back the canonical form\<close>

text \<open>The content a canonical text denotes: members in order, numbers in canonical spelling.\<close>

fun normal :: "jval \<Rightarrow> jval" where
  "normal (VNum l) = VNum (case canonicalNumber l of Inr t \<Rightarrow> t | Inl _ \<Rightarrow> l)"
| "normal (VArr vs) = VArr (map normal vs)"
| "normal (VObj ms) = VObj (sort_members (map (\<lambda>m. (fst m, normal (snd m))) ms))"
| "normal v = v"

text \<open>Documents as the decoder makes them: valid strings, names once, nesting up to a bound.\<close>

fun json_ok :: "nat \<Rightarrow> jval \<Rightarrow> bool" where
  "json_ok d (VStr s) = valid_utf8 s"
| "json_ok d (VArr vs) = (0 < d \<and> list_all (json_ok (d - 1)) vs)"
| "json_ok d (VObj ms) = (0 < d \<and> distinct (map fst ms) \<and> list_all (\<lambda>m. valid_utf8 (fst m) \<and> json_ok (d - 1) (snd m)) ms)"
| "json_ok d v = True"

lemma collect_Inr: "collect rs = Inr xs \<longleftrightarrow> list_all2 (\<lambda>r x. r = Inr x) rs xs"
  by (induction rs arbitrary: xs) (auto simp: list_all2_Cons1)

definition starts_value :: "string \<Rightarrow> bool" where
  "starts_value t = (t \<noteq> [] \<and> \<not> is_ws (hd t) \<and> hd t \<noteq> CHR '']'' \<and> hd t \<noteq> CHR ''}'')"

lemma canonical_double_start: "double v \<Longrightarrow> canonical_double v \<noteq> [] \<and> (hd (canonical_double v) = CHR ''-'' \<or> is_digit (hd (canonical_double v)))"
proof -
  assume d: "double v"
  obtain num where n: "scan_number (canonical_double v @ []) = Some (num, [])" using canonical_double_scan [OF d, of "[]"] by (auto simp: stops_def)
  then show ?thesis using scan_number_shorter [OF n] by (auto simp: scan_number_def scan_int_def Let_def split: if_splits)
qed

lemma digit_starts: "is_digit c \<or> c = CHR ''-'' \<Longrightarrow> \<not> is_ws c \<and> c \<noteq> CHR '']'' \<and> c \<noteq> CHR ''}'' \<and> c \<noteq> CHR ''{'' \<and> c \<noteq> CHR ''['' \<and> c \<noteq> CHR 0x22"
  by (auto simp: is_digit_def is_ws_def code_of_def)

lemma canonical_starts: "canonicalValue v = Inr t \<Longrightarrow> starts_value t"
proof (cases v)
  case (VNum l)
  moreover assume "canonicalValue v = Inr t"
  ultimately obtain x where "double x" "t = canonical_double x" by (auto simp: canonicalNumber_Inr dest: ParseFloat_double)
  then show ?thesis using canonical_double_start [of x] digit_starts [of "hd t"] by (auto simp: starts_value_def)
qed (auto simp: starts_value_def is_ws_def canonicalString_def split: if_splits)

lemma skip_starts: "starts_value t \<Longrightarrow> skip_ws (t @ rest) = t @ rest"
  by (cases t) (auto simp: starts_value_def skip_ws_def)

lemma scalar_roundtrip:
  assumes "canonicalValue v = Inr t" "stops rest" "json_ok d v" "\<nexists>vs. v = VArr vs" "\<nexists>ms. v = VObj ms"
  shows "parse_scalar (t @ rest) = Some (normal v, rest) \<and> hd (t @ rest) \<noteq> CHR ''{'' \<and> hd (t @ rest) \<noteq> CHR ''[''"
proof (cases v)
  case (VNum l)
  then obtain x where x: "double x" "t = canonical_double x" "canonicalNumber l = Inr t" using assms(1) by (auto simp: canonicalNumber_Inr dest: ParseFloat_double)
  have h: "t \<noteq> []" "hd t = CHR ''-'' \<or> is_digit (hd t)" using canonical_double_start [OF x(1)] x(2) by auto
  then have "parse_scalar (t @ rest) = Some (VNum t, rest)"
    using parse_canonical_number [OF x(1) assms(2)] digit_starts [of "hd t"] x(2) by (auto simp: parse_scalar_def)
  then show ?thesis using h digit_starts [of "hd t"] VNum x(3) by auto
next
  case (VStr s)
  then have t: "t = canonicalString s" "encode_runes (runes s) = s" using assms(1,3) by (auto simp: valid_utf8_def)
  have "parse_string (tl t @ rest) = Some (s, rest)" using parse_canonicalString [of s rest] t by simp
  then show ?thesis using VStr t by (auto simp: parse_scalar_def canonicalString_def)
qed (use assms in \<open>auto simp: parse_scalar_def parse_literal_def is_digit_def code_of_def split: if_splits\<close>)


lemma insort_key_map: "insort_key f (g x) (map g xs) = map g (insort_key (\<lambda>y. f (g y)) x xs)"
  by (induction xs) auto

lemma sort_members_map: "sort_members (map (\<lambda>m. (fst m, h (snd m))) ms) = map (\<lambda>m. (fst m, h (snd m))) (sort_members ms)"
proof (induction ms)
  case (Cons m ms)
  then show ?case unfolding sort_members_def
    by (simp add: insort_key_map [where g = "\<lambda>m. (fst m, h (snd m))" and f = "\<lambda>m. utf16_of (fst m)", simplified])
qed (simp add: sort_members_def)

lemma set_sort_members [simp]: "set (sort_members ms) = set ms"
  by (simp add: sort_members_def)

text \<open>The order of members is the one of \<open>utf16Less\<close>.\<close>

lemma sort_members_utf16Less: "sorted_wrt (\<lambda>m n. \<not> utf16Less (fst n) (fst m)) (sort_members ms)"
proof -
  have "sorted (map (\<lambda>m. utf16_of (fst m)) (sort_members ms))" by (simp add: sort_members_def)
  then show ?thesis by (simp add: utf16Less_def units_less_lex sorted_map not_less)
qed

lemma parse_key_canonical:
  assumes "valid_utf8 k"
  shows "parse_key (canonicalString k @ CHR '':'' # rest) = Some (k, rest)"
proof -
  obtain t where t: "canonicalString k = CHR 0x22 # t" by (simp add: canonicalString_def)
  have "parse_string (t @ CHR '':'' # rest) = Some (k, CHR '':'' # rest)"
    using parse_canonicalString [of k "CHR '':'' # rest"] assms by (simp add: t valid_utf8_def)
  then show ?thesis by (simp add: parse_key_def t skip_ws_def is_ws_def)
qed

definition reads_back :: "jval \<Rightarrow> bool" where
  "reads_back v = (\<forall>t rest f d. canonicalValue v = Inr t \<longrightarrow> json_ok d v \<longrightarrow> stops rest \<longrightarrow> 2 * length t < f \<longrightarrow> parse_value f d (t @ rest) = Inr (normal v, rest))"

lemma stops_delimiter: "stops (CHR '','' # r)" "stops (CHR '']'' # r)" "stops (CHR ''}'' # r)"
  by (simp_all add: stops_def is_digit_def code_of_def)

lemma skip_delimiter: "skip_ws (CHR '','' # r) = CHR '','' # r" "skip_ws (CHR '']'' # r) = CHR '']'' # r" "skip_ws (CHR ''}'' # r) = CHR ''}'' # r"
  by (simp_all add: skip_ws_def is_ws_def)

lemma elements_roundtrip:
  assumes "list_all2 (\<lambda>v t. canonicalValue v = Inr t) vs ts" "vs \<noteq> []" "\<And>v. v \<in> set vs \<Longrightarrow> reads_back v" "list_all (json_ok d) vs" "2 * length (join ts) + 1 < f"
  shows "parse_elements f d (join ts @ CHR '']'' # rest) = Inr (map normal vs, rest)"
  using assms
proof (induction ts arbitrary: vs f rule: join.induct)
  case (2 t)
  then obtain v where v: "vs = [v]" "canonicalValue v = Inr t" by (auto simp: list_all2_Cons2)
  obtain f' where f: "f = Suc f'" "2 * length t < f'" using 2(5) by (cases f) auto
  have "parse_value f' d (t @ CHR '']'' # rest) = Inr (normal v, CHR '']'' # rest)"
    using 2(3) [of v] 2(4) v f stops_delimiter unfolding reads_back_def by simp
  then show ?case using v f by (simp add: skip_delimiter)
next
  case (3 t u us)
  then obtain v ws where v: "vs = v # ws" "canonicalValue v = Inr t" "list_all2 (\<lambda>v t. canonicalValue v = Inr t) ws (u # us)" "ws \<noteq> []" by (auto simp: list_all2_Cons2)
  obtain f' where f: "f = Suc f'" "2 * length t < f'" "2 * length (join (u # us)) + 1 < f'" using 3(6) by (cases f) auto
  have "parse_value f' d (t @ CHR '','' # join (u # us) @ CHR '']'' # rest) = Inr (normal v, CHR '','' # join (u # us) @ CHR '']'' # rest)"
    using 3(4) [of v] 3(5) v f stops_delimiter unfolding reads_back_def by simp
  moreover have "parse_elements f' d (join (u # us) @ CHR '']'' # rest) = Inr (map normal ws, rest)"
    using 3(1) [OF v(3,4) _ _ f(3)] 3(4,5) v(1) by simp
  ultimately show ?case using v f by (simp add: skip_delimiter)
qed simp

definition member_text :: "string \<times> jval \<Rightarrow> string \<Rightarrow> bool" where
  "member_text m t = (\<exists>u. canonicalValue (snd m) = Inr u \<and> t = canonicalString (fst m) @ '':'' @ u)"

lemma members_roundtrip:
  assumes "list_all2 member_text ms ts" "ms \<noteq> []" "\<And>m. m \<in> set ms \<Longrightarrow> reads_back (snd m)"
    "list_all (\<lambda>m. valid_utf8 (fst m) \<and> json_ok d (snd m)) ms" "2 * length (join ts) + 1 < f"
  shows "parse_members f d (join ts @ CHR ''}'' # rest) = Inr (map (\<lambda>m. (fst m, normal (snd m))) ms, rest)"
  using assms
proof (induction ts arbitrary: ms f rule: join.induct)
  case (2 t)
  then obtain m u where m: "ms = [m]" "canonicalValue (snd m) = Inr u" "t = canonicalString (fst m) @ '':'' @ u" by (auto simp: list_all2_Cons2 member_text_def)
  obtain f' where f: "f = Suc f'" "2 * length u < f'" using 2(5) m(3) by (cases f) auto
  have "parse_value f' d (u @ CHR ''}'' # rest) = Inr (normal (snd m), CHR ''}'' # rest)"
    using 2(3) [of m] 2(4) m f stops_delimiter unfolding reads_back_def by simp
  then show ?case using m f 2(4) by (simp add: skip_delimiter parse_key_canonical)
next
  case (3 t t' ts)
  obtain m ns where n: "ms = m # ns" "member_text m t" "list_all2 member_text ns (t' # ts)" using 3(2) unfolding list_all2_Cons2 [of _ _ t] by blast
  then obtain u where m: "ms = m # ns" "canonicalValue (snd m) = Inr u" "t = canonicalString (fst m) @ '':'' @ u" "list_all2 member_text ns (t' # ts)" "ns \<noteq> []"
    by (auto simp: member_text_def)
  obtain f' where f: "f = Suc f'" "2 * length u < f'" "2 * length (join (t' # ts)) + 1 < f'" using 3(6) m(3) by (cases f) auto
  have "parse_value f' d (u @ CHR '','' # join (t' # ts) @ CHR ''}'' # rest) = Inr (normal (snd m), CHR '','' # join (t' # ts) @ CHR ''}'' # rest)"
    using 3(4) [of m] 3(5) m f stops_delimiter unfolding reads_back_def by simp
  moreover have "parse_members f' d (join (t' # ts) @ CHR ''}'' # rest) = Inr (map (\<lambda>m. (fst m, normal (snd m))) ns, rest)"
    using 3(1) [OF m(4,5) _ _ f(3)] 3(4,5) m(1) by simp
  ultimately show ?case using m f 3(5) by (simp add: skip_delimiter parse_key_canonical)
qed simp

lemma canonical_members: "canonicalValue (VObj ms) = Inr t \<Longrightarrow> \<forall>m \<in> set ms. \<exists>u. canonicalValue (snd m) = Inr u"
proof -
  assume "canonicalValue (VObj ms) = Inr t"
  then obtain ts where "list_all2 (\<lambda>m t. canonical_member (fst m, canonicalValue (snd m)) = Inr t) (sort_members ms) ts"
    unfolding canonicalValue.simps sort_members_map by (auto simp: collect_Inr list_all2_map1)
  then have "\<forall>m \<in> set (sort_members ms). \<exists>u. canonicalValue (snd m) = Inr u"
    by (induction rule: list_all2_induct) (auto simp: canonical_member_def)
  then show ?thesis by simp
qed

lemma join_starts: "ts \<noteq> [] \<Longrightarrow> hd ts \<noteq> [] \<Longrightarrow> join ts \<noteq> [] \<and> hd (join ts) = hd (hd ts)"
  by (cases ts rule: join.cases) auto

lemma scalar_reads_back: "\<nexists>vs. v = VArr vs \<Longrightarrow> \<nexists>ms. v = VObj ms \<Longrightarrow> reads_back v"
  unfolding reads_back_def
proof (intro allI impI)
  fix t rest f d
  assume v: "\<nexists>vs. v = VArr vs" "\<nexists>ms. v = VObj ms" and a: "canonicalValue v = Inr t" "json_ok d v" "stops rest" "2 * length t < f"
  obtain f' where f: "f = Suc f'" using a(4) by (cases f) auto
  have "parse_scalar (t @ rest) = Some (normal v, rest)" "hd (t @ rest) \<noteq> CHR ''{''" "hd (t @ rest) \<noteq> CHR ''[''"
    using scalar_roundtrip [OF a(1,3,2) v] by blast+
  then show "parse_value f d (t @ rest) = Inr (normal v, rest)" using f skip_starts [OF canonical_starts [OF a(1)], of rest] by (simp add: Let_def)
qed

lemma roundtrip_value: "reads_back v"
proof (induction v)
  case (VArr vs)
  show ?case unfolding reads_back_def
  proof (intro allI impI)
    fix t rest f d
    assume a: "canonicalValue (VArr vs) = Inr t" "json_ok d (VArr vs)" "stops rest" "2 * length t < f"
    then obtain ts where ts: "list_all2 (\<lambda>v t. canonicalValue v = Inr t) vs ts" "t = ''['' @ join ts @ '']''" by (auto simp: collect_Inr list_all2_map1)
    obtain f' where f: "f = Suc f'" "2 * length (join ts) + 1 < f'" using a(4) ts(2) by (cases f) auto
    show "parse_value f d (t @ rest) = Inr (normal (VArr vs), rest)"
    proof (cases "vs = []")
      case True
      then show ?thesis using ts f a(2) by (simp add: skip_ws_def is_ws_def)
    next
      case False
      have p: "parse_elements f' (d - 1) (join ts @ CHR '']'' # rest) = Inr (map normal vs, rest)"
        by (rule elements_roundtrip [OF ts(1) False]) (use VArr a(2) f(2) in auto)
      obtain v0 t0 where "vs = v0 # tl vs" "ts = t0 # tl ts" "canonicalValue v0 = Inr t0" using ts(1) False by (cases vs; cases ts) auto
      then have "starts_value t0" "ts \<noteq> []" "hd ts = t0" by (auto intro: canonical_starts) (metis list.sel(1))
      then have "starts_value (join ts)" using join_starts [of ts] by (auto simp: starts_value_def)
      then show ?thesis using ts(2) f(1) a(2) p skip_starts [of "join ts" "CHR '']'' # rest"] by (auto simp: skip_ws_def [of "CHR ''['' # _"] is_ws_def starts_value_def Let_def)
    qed
  qed
next
  case (VObj ms)
  show ?case unfolding reads_back_def
  proof (intro allI impI)
    fix t rest f d
    assume a: "canonicalValue (VObj ms) = Inr t" "json_ok d (VObj ms)" "stops rest" "2 * length t < f"
    let ?ms = "sort_members ms"
    obtain ts where c: "collect (map canonical_member (sort_members (map (\<lambda>m. (fst m, canonicalValue (snd m))) ms))) = Inr ts" "t = ''{'' @ join ts @ ''}''" using a(1) by auto
    have ts: "list_all2 member_text ?ms ts"
      using c(1) unfolding sort_members_map collect_Inr list_all2_map1 by (rule list_all2_mono) (auto simp: canonical_member_def member_text_def)
    obtain f' where f: "f = Suc f'" "2 * length (join ts) + 1 < f'" using a(4) c(2) by (cases f) auto
    show "parse_value f d (t @ rest) = Inr (normal (VObj ms), rest)"
    proof (cases "ms = []")
      case True
      then show ?thesis using ts c(2) f a(2) by (simp add: sort_members_def skip_ws_def is_ws_def)
    next
      case False
      then have ne: "?ms \<noteq> []" by (metis set_empty set_sort_members)
      have p: "parse_members f' (d - 1) (join ts @ CHR ''}'' # rest) = Inr (map (\<lambda>m. (fst m, normal (snd m))) ?ms, rest)"
        by (rule members_roundtrip [OF ts ne]) (use VObj a(2) f(2) in \<open>auto simp: list_all_iff\<close>)
      obtain m0 t0 where "ts = t0 # tl ts" "member_text m0 t0" using ts ne by (cases ?ms; cases ts) auto
      then have "ts \<noteq> []" "hd ts = t0" "hd t0 = CHR 0x22" "t0 \<noteq> []" by (auto simp: member_text_def canonicalString_def) (metis list.sel(1))
      then have "starts_value (join ts)" using join_starts [of ts] by (auto simp: starts_value_def is_ws_def)
      then show ?thesis using c(2) f(1) a(2) p skip_starts [of "join ts" "CHR ''}'' # rest"]
        by (auto simp: skip_ws_def [of "CHR ''{'' # _"] is_ws_def starts_value_def Let_def sort_members_map)
    qed
  qed
qed (simp_all add: scalar_reads_back)


section \<open>Decoded documents are well formed\<close>

lemma hex4_bound: "hex4 s = Some u \<Longrightarrow> u < 65536"
proof -
  have h: "hex_val c = Some n \<Longrightarrow> n \<le> 15" for c n by (auto simp: hex_val_def Let_def split: if_splits)
  assume "hex4 s = Some u"
  then obtain a b c d p q r t where "hex_val a = Some p" "hex_val b = Some q" "hex_val c = Some r" "hex_val d = Some t" "u = p * 4096 + q * 256 + r * 16 + t"
    by (auto simp: hex4_def split: list.splits option.splits)
  then show ?thesis using h [of a p] h [of b q] h [of c r] h [of d t] by simp
qed

lemma low_half_valid: "low_half u s = Some w \<Longrightarrow> valid_rune w"
  by (auto simp: low_half_def valid_rune_def split: list.splits option.splits if_splits)

lemma json_char_valid:
  assumes "json_char s = Some (t, r)"
  obtains u where "valid_rune u" "t = encode_rune u"
proof -
  have ascii: "\<exists>u. valid_rune u \<and> [x] = encode_rune u" if "code_of x < 128" for x
    using that by (intro exI [of _ "code_of x"]) (simp add: valid_rune_def encode_ascii code_of_def)
  have esc: "code_of x < 128" if "map_of json_escapes e = Some x" for e x
    using that by (auto simp: json_escapes_def code_of_def split: if_splits)
  have plain: "valid_rune u" if "hex4 x = Some u" "\<not> surrogate u" for x u
    using hex4_bound [OF that(1)] that(2) by (auto simp: surrogate_def valid_rune_def)
  have err: "valid_rune rune_error" by (simp add: valid_rune_def rune_error_def)
  have "\<exists>u. valid_rune u \<and> t = encode_rune u"
    using assms unfolding json_char_def
    by (auto split: list.splits if_splits option.splits intro: ascii esc plain err low_half_valid decode_valid)
  then show thesis using that by blast
qed

lemma parse_string_valid: "parse_string s = Some (t, r) \<Longrightarrow> \<exists>rs. list_all valid_rune rs \<and> t = encode_runes rs"
proof (induction s arbitrary: t r rule: parse_string.induct)
  case (1 s)
  show ?case
  proof (cases "s = [] \<or> hd s = CHR 0x22")
    case True
    then have "t = encode_runes []" using 1(2) by (cases s) (auto simp: parse_string.simps encode_runes_def)
    then show ?thesis by (intro exI [of _ "[]"]) simp
  next
    case False
    then obtain a b u where j: "json_char s = Some (a, b)" "parse_string b = Some (u, r)" "t = a @ u"
      using 1(2) by (auto simp: parse_string.simps [of s] split: option.splits)
    obtain rs where rs: "list_all valid_rune rs" "u = encode_runes rs" using 1(1) False j by metis
    obtain x where "valid_rune x" "a = encode_rune x" using j(1) by (rule json_char_valid)
    then have "list_all valid_rune (x # rs)" "t = encode_runes (x # rs)" using rs j(3) by (simp_all add: encode_runes_def)
    then show ?thesis by blast
  qed
qed

lemma parse_string_utf8: "parse_string s = Some (t, r) \<Longrightarrow> valid_utf8 t"
  using parse_string_valid valid_utf8_encode by metis

fun text_ok :: "nat \<Rightarrow> jval \<Rightarrow> bool" where
  "text_ok d (VStr s) = valid_utf8 s"
| "text_ok d (VArr vs) = (0 < d \<and> list_all (text_ok (d - 1)) vs)"
| "text_ok d (VObj ms) = (0 < d \<and> list_all (\<lambda>m. valid_utf8 (fst m) \<and> text_ok (d - 1) (snd m)) ms)"
| "text_ok d v = True"

lemma parse_scalar_ok: "parse_scalar s = Some (v, r) \<Longrightarrow> text_ok d v"
  by (auto simp: parse_scalar_def parse_number_def parse_literal_def dest: parse_string_utf8 split: option.splits if_splits)

lemma parse_key_ok: "parse_key s = Some (k, r) \<Longrightarrow> valid_utf8 k"
  by (auto simp: parse_key_def dest: parse_string_utf8 split: list.splits option.splits if_splits)

lemma parse_ok:
  "(parse_value f d s = Inr (v, r) \<longrightarrow> text_ok d v) \<and> (parse_elements f d s = Inr (vs, r) \<longrightarrow> list_all (text_ok d) vs) \<and>
   (parse_members f d s = Inr (ms, r) \<longrightarrow> list_all (\<lambda>m. valid_utf8 (fst m) \<and> text_ok d (snd m)) ms)"
proof (induction f arbitrary: d s v vs ms r)
  case (Suc f)
  note IH = Suc.IH [THEN conjunct1, rule_format] Suc.IH [THEN conjunct2, THEN conjunct1, rule_format] Suc.IH [THEN conjunct2, THEN conjunct2, rule_format]
  have "text_ok d v" if "parse_value (Suc f) d s = Inr (v, r)" using that
    by (cases rule: parse_value_Inr) (auto dest: IH parse_scalar_ok)
  moreover have "list_all (text_ok d) vs" if "parse_elements (Suc f) d s = Inr (vs, r)" using that
    by (cases rule: parse_elements_Inr) (auto dest: IH)
  moreover have "list_all (\<lambda>m. valid_utf8 (fst m) \<and> text_ok d (snd m)) ms" if "parse_members (Suc f) d s = Inr (ms, r)" using that
    by (cases rule: parse_members_Inr) (auto dest: IH parse_key_ok)
  ultimately show ?case by blast
qed simp

lemma put_fst: "fst ` set (put k v ms) = insert k (fst ` set ms)"
  by (induction k v ms rule: put.induct) auto

lemma put_distinct: "distinct (map fst ms) \<Longrightarrow> distinct (map fst (put k v ms))"
proof (induction k v ms rule: put.induct)
  case (2 k v k' v' ms)
  then show ?case using put_fst [of k v ms] by auto
qed simp

lemma put_all: "list_all P ms \<Longrightarrow> P (k, v) \<Longrightarrow> list_all P (put k v ms)"
  by (induction k v ms rule: put.induct) auto

lemma fold_put: "distinct (map fst acc) \<Longrightarrow> list_all P acc \<Longrightarrow> list_all P ms \<Longrightarrow>
    distinct (map fst (fold (\<lambda>m acc. put (fst m) (snd m) acc) ms acc)) \<and> list_all P (fold (\<lambda>m acc. put (fst m) (snd m) acc) ms acc)"
  by (induction ms arbitrary: acc) (auto simp: put_distinct put_all)

lemma as_any_ok: "text_ok d v \<Longrightarrow> json_ok d (as_any v)"
proof (induction v arbitrary: d rule: as_any.induct)
  case (2 ms)
  let ?ms = "map (\<lambda>m. (fst m, as_any (snd m))) ms"
  have "list_all (\<lambda>m. valid_utf8 (fst m) \<and> json_ok (d - 1) (snd m)) ?ms" using 2 by (auto simp: list_all_iff)
  then show ?case using 2(2) fold_put [of "[]" "\<lambda>m. valid_utf8 (fst m) \<and> json_ok (d - 1) (snd m)" ?ms] by simp
qed (auto simp: list_all_iff)

lemma json_Decode_ok: "json_Decode s = Inr (v, r) \<Longrightarrow> text_ok maxNestingDepth v"
  unfolding json_Decode_def by (rule parse_ok [THEN conjunct1, rule_format])

lemma decodeJSON_ok: "decodeJSON raw = Inr v \<Longrightarrow> json_ok maxNestingDepth v"
  by (auto simp: decodeJSON_def intro: as_any_ok [OF json_Decode_ok] split: sum.splits)

lemma put_new: "k \<notin> fst ` set ms \<Longrightarrow> put k v ms = ms @ [(k, v)]"
  by (induction k v ms rule: put.induct) auto

lemma fold_put_distinct: "distinct (map fst (acc @ ms)) \<Longrightarrow> fold (\<lambda>m acc. put (fst m) (snd m) acc) ms acc = acc @ ms"
proof (induction ms arbitrary: acc)
  case (Cons m ms)
  then have "put (fst m) (snd m) acc = acc @ [m]" by (subst put_new) auto
  then show ?case using Cons by simp
qed simp

lemma as_any_id: "json_ok d v \<Longrightarrow> as_any v = v"
proof (induction v arbitrary: d rule: as_any.induct)
  case (2 ms)
  then have "map (\<lambda>m. (fst m, as_any (snd m))) ms = ms" by (intro map_idI) (fastforce simp: list_all_iff)
  then show ?case using 2(2) fold_put_distinct [of "[]" ms] by simp
qed (auto simp: list_all_iff intro!: map_idI)

lemma distinct_sort_members: "distinct (map fst (sort_members ms)) \<longleftrightarrow> distinct (map fst ms)"
  by (metis distinct_map distinct_sort set_sort_members sort_members_def)

lemma normal_ok: "json_ok d v \<Longrightarrow> json_ok d (normal v)"
proof (induction v arbitrary: d rule: normal.induct)
  case (3 ms)
  have "distinct (map fst (sort_members (map (\<lambda>m. (fst m, normal (snd m))) ms)))" using 3(2) by (simp add: distinct_sort_members comp_def)
  then show ?case using 3 by (auto simp: list_all_iff)
qed (auto simp: list_all_iff)

lemma json_Decode_canonical:
  assumes "json_ok maxNestingDepth v" "Canonicalize v = Inr t" "stops rest"
  shows "json_Decode (t @ rest) = Inr (normal v, rest)"
proof -
  have "2 * length t < 2 * length (t @ rest) + 1" by simp
  then show ?thesis using roundtrip_value [of v] assms unfolding reads_back_def json_Decode_def Canonicalize_def by blast
qed

lemma decode_canonical_rest:
  assumes "json_ok maxNestingDepth v" "Canonicalize v = Inr t" "stops rest" "\<not> decoder_More rest"
  shows "decodeJSON (t @ rest) = Inr (normal v)"
  using json_Decode_canonical [OF assms(1-3)] as_any_id [OF normal_ok [OF assms(1)]] assms(4) by (simp add: decodeJSON_def)

text \<open>The canonical form is JSON that the decoder reads back, with members in order and numbers in canonical spelling.\<close>

lemma decode_canonical_text: "json_ok maxNestingDepth v \<Longrightarrow> Canonicalize v = Inr t \<Longrightarrow> decodeJSON t = Inr (normal v)"
  using decode_canonical_rest [of v t "[]"] by (simp add: stops_def decoder_More_def skip_ws_def)

section \<open>Equal canonical forms\<close>

text \<open>The same content: equal scalars, numbers that denote the same double, arrays element by element, objects as maps.\<close>

inductive same_content :: "jval \<Rightarrow> jval \<Rightarrow> bool" where
  null: "same_content VNull VNull"
| bool: "same_content (VBool b) (VBool b)"
| str: "same_content (VStr s) (VStr s)"
| num: "ParseFloat a = ParseFloat b \<Longrightarrow> same_content (VNum a) (VNum b)"
| arr: "list_all2 same_content vs ws \<Longrightarrow> same_content (VArr vs) (VArr ws)"
| obj: "fst ` set ms = fst ` set ns \<Longrightarrow> (\<forall>k v w. (k, v) \<in> set ms \<longrightarrow> (k, w) \<in> set ns \<longrightarrow> same_content v w) \<Longrightarrow> same_content (VObj ms) (VObj ns)"

lemma canonicalNumber_same: "ParseFloat a = ParseFloat b \<Longrightarrow> canonicalNumber a = canonicalNumber b"
  by (simp add: canonicalNumber_def)

lemma utf16_inj_on:
  assumes "\<forall>m \<in> set ms. valid_utf8 (fst m)" "distinct (map fst ms)"
  shows "inj_on (\<lambda>m. utf16_of (fst m)) (set ms)"
proof (rule inj_onI)
  fix x y assume m: "x \<in> set ms" "y \<in> set ms" "utf16_of (fst x) = utf16_of (fst y)"
  then have "fst x = fst y" using assms(1) utf16_of_inj by blast
  then show "x = y" using assms(2) m by (simp add: distinct_map inj_on_def)
qed

lemma sort_members_set_eq:
  assumes "set ms = set ns" "distinct (map fst ms)" "distinct (map fst ns)" "\<forall>m \<in> set ms. valid_utf8 (fst m)"
  shows "sort_members ms = sort_members ns"
proof -
  let ?f = "\<lambda>m. utf16_of (fst m)"
  have inj: "inj_on ?f (set ms)" using assms(2,4) by (intro utf16_inj_on)
  have d: "distinct (map ?f (sort_members ms))" "distinct (map ?f (sort_members ns))"
    using inj assms(1-3) by (simp_all add: distinct_map sort_members_def)
  have eq: "map ?f (sort_members ms) = map ?f (sort_members ns)"
    by (rule sorted_distinct_set_unique) (use d assms(1) in \<open>simp_all add: sort_members_def\<close>)
  have "inj_on ?f (set (sort_members ms) \<union> set (sort_members ns))" using inj assms(1) by simp
  with eq show ?thesis by (rule map_inj_on)
qed

lemma same_canonical:
  "same_content v w \<Longrightarrow> json_ok d v \<Longrightarrow> json_ok d' w \<Longrightarrow> canonicalValue v = canonicalValue w"
proof (induction v w arbitrary: d d' rule: same_content.induct)
  case (num a b)
  then show ?case unfolding canonicalValue.simps by (intro canonicalNumber_same)
next
  case (arr vs ws)
  have l: "length vs = length ws" using arr(1) by (rule list_all2_lengthD)
  have "canonicalValue (vs ! i) = canonicalValue (ws ! i)" if i: "i < length vs" for i
  proof -
    have "json_ok (d - 1) (vs ! i)" "json_ok (d' - 1) (ws ! i)" using arr(2,3) i l by (simp_all add: list_all_length)
    then show ?thesis using list_all2_nthD [OF arr(1) i] by blast
  qed
  then have "map canonicalValue vs = map canonicalValue ws" using l by (intro nth_equalityI) simp_all
  then show ?case by simp
next
  case (obj ms ns)
  let ?c = "\<lambda>m. (fst m, canonicalValue (snd m))"
  have d: "distinct (map fst ms)" "distinct (map fst ns)" using obj(3,4) by auto
  have eq: "canonicalValue v = canonicalValue w" if "(k, v) \<in> set ms" "(k, w) \<in> set ns" for k v w
  proof -
    have "json_ok (d - 1) v" "json_ok (d' - 1) w" using that obj(3,4) by (auto simp: list_all_iff)
    then show ?thesis using obj(2) [rule_format, OF that] by blast
  qed
  have "set (map ?c ms) = set (map ?c ns)"
  proof (intro equalityI subsetI)
    fix x assume "x \<in> set (map ?c ms)"
    then obtain k v where x: "(k, v) \<in> set ms" "x = (k, canonicalValue v)" by auto
    then obtain w where "(k, w) \<in> set ns" using obj(1) by (metis (no_types, lifting) fst_conv image_iff prod.collapse)
    then show "x \<in> set (map ?c ns)" using x eq by (force simp: image_iff)
  next
    fix x assume "x \<in> set (map ?c ns)"
    then obtain k w where x: "(k, w) \<in> set ns" "x = (k, canonicalValue w)" by auto
    then obtain v where "(k, v) \<in> set ms" using obj(1) by (metis (no_types, lifting) fst_conv image_iff prod.collapse)
    then show "x \<in> set (map ?c ms)" using x eq by (force simp: image_iff)
  qed
  then have "sort_members (map ?c ms) = sort_members (map ?c ns)"
    by (rule sort_members_set_eq) (use d obj(3) in \<open>auto simp: comp_def list_all_iff\<close>)
  then show ?case by simp
qed simp_all

lemma normal_same:
  "normal v = normal w \<Longrightarrow> json_ok d v \<Longrightarrow> json_ok d' w \<Longrightarrow> canonicalValue v = Inr s \<Longrightarrow> canonicalValue w = Inr t \<Longrightarrow> same_content v w"
proof (induction v arbitrary: w d d' s t)
  case (VNum l)
  then obtain l' where w: "w = VNum l'" by (cases w) auto
  then show ?case using VNum canonicalNumber_eq [of l s l' t] by (auto intro: same_content.num)
next
  case (VArr vs)
  from VArr(2) obtain ws where w: "w = VArr ws" by (cases w) auto
  obtain ss ts where c: "list_all2 (\<lambda>v s. canonicalValue v = Inr s) vs ss" "list_all2 (\<lambda>v t. canonicalValue v = Inr t) ws ts"
    using VArr(5,6) w by (auto simp: collect_Inr list_all2_map1)
  have n: "map normal vs = map normal ws" using VArr(2) w by simp
  have "list_all2 same_content vs ws"
  proof (rule list_all2_all_nthI)
    show "length vs = length ws" using n by (metis length_map)
    fix i assume i: "i < length vs"
    then have i': "i < length ws" using n by (metis length_map)
    have "normal (vs ! i) = normal (ws ! i)" using n i i' by (metis nth_map)
    moreover have "json_ok (d - 1) (vs ! i)" "json_ok (d' - 1) (ws ! i)" using VArr(3,4) w i i' by (simp_all add: list_all_length)
    moreover have "canonicalValue (vs ! i) = Inr (ss ! i)" "canonicalValue (ws ! i) = Inr (ts ! i)" using list_all2_nthD [OF c(1) i] list_all2_nthD [OF c(2) i'] by simp_all
    ultimately show "same_content (vs ! i) (ws ! i)" using VArr(1) i by (meson nth_mem)
  qed
  then show ?case unfolding w by (rule same_content.arr)
next
  case (VObj ms)
  from VObj(2) obtain ns where w: "w = VObj ns" by (cases w) auto
  let ?n = "\<lambda>m. (fst m, normal (snd m))"
  have c: "\<exists>s. canonicalValue v = Inr s" if "(k, v) \<in> set ms" for k v
    using canonical_members [OF VObj(5)] that by auto
  have c': "\<exists>s. canonicalValue v = Inr s" if "(k, v) \<in> set ns" for k v
    using canonical_members [OF VObj(6) [unfolded w]] that by auto
  have "sort_members (map ?n ms) = sort_members (map ?n ns)" using VObj(2) w by simp
  then have "set (sort_members (map ?n ms)) = set (sort_members (map ?n ns))" by (rule arg_cong)
  then have set: "?n ` set ms = ?n ` set ns" by simp
  then have "fst ` ?n ` set ms = fst ` ?n ` set ns" by (rule arg_cong)
  then have keys: "fst ` set ms = fst ` set ns" by (simp add: image_image)
  have d: "distinct (map fst ns)" using VObj(4) w by simp
  have "same_content v w'" if m: "(k, v) \<in> set ms" "(k, w') \<in> set ns" for k v w'
  proof -
    have "(k, normal v) \<in> ?n ` set ns" using m(1) set by (metis (no_types, lifting) fst_conv imageI snd_conv)
    then obtain u where u: "(k, u) \<in> set ns" "normal u = normal v" by auto
    then have "u = w'" using d m(2) by (metis eq_key_imp_eq_value)
    moreover have "json_ok (d - 1) v" "json_ok (d' - 1) w'" using m VObj(3,4) w by (auto simp: list_all_iff)
    ultimately show ?thesis using VObj(1) [of "(k, v)" v w'] m u c c' by (metis snds.intros snd_conv)
  qed
  then show ?case unfolding w using keys by (intro same_content.obj) blast+
next
  case VNull
  from VNull(1) have "w = VNull" by (cases w) auto
  then show ?case by (simp add: same_content.null)
next
  case (VBool b)
  from VBool(1) have "w = VBool b" by (cases w) auto
  then show ?case by (simp add: same_content.bool)
next
  case (VStr x)
  from VStr(1) have "w = VStr x" by (cases w) auto
  then show ?case by (simp add: same_content.str)
qed

lemma canonical_text_iff:
  assumes ok: "json_ok maxNestingDepth v" "json_ok maxNestingDepth w" and c: "Canonicalize v = Inr s" "Canonicalize w = Inr t"
  shows "s = t \<longleftrightarrow> same_content v w"
proof
  show "same_content v w" if "s = t"
  proof -
    have "decodeJSON s = Inr (normal v)" "decodeJSON t = Inr (normal w)" using decode_canonical_text ok c by blast+
    then have "normal v = normal w" using that by simp
    then show ?thesis using ok c by (intro normal_same) (simp_all add: Canonicalize_def)
  qed
  show "s = t" if "same_content v w"
    using same_canonical [OF that ok] c by (simp add: Canonicalize_def)
qed

text \<open>
  C12. The signed form identifies exactly the content: two decoded documents have the same canonical
  text if and only if they are the same JSON content, objects compared as maps and numbers as the
  doubles they denote. So member order, white space, escapes and number spelling never change what
  is signed, and nothing else can be changed without changing it.
\<close>

theorem canonical_iff_same_content:
  assumes "decodeJSON a = Inr v" "decodeJSON b = Inr w" "Canonicalize v = Inr s" "Canonicalize w = Inr t"
  shows "s = t \<longleftrightarrow> same_content v w"
  using decodeJSON_ok [OF assms(1)] decodeJSON_ok [OF assms(2)] assms(3,4) by (rule canonical_text_iff)

section \<open>What the decoder does not look at\<close>

text \<open>
  \<open>decodeJSON\<close> does not refuse all trailing data: after a document, a closing brace or bracket
  ends the look-ahead, and whatever bytes follow it are accepted and ignored.
\<close>

theorem decodeJSON_trailing_bracket:
  assumes "json_ok maxNestingDepth v" "Canonicalize v = Inr t" "c = CHR ''}'' \<or> c = CHR '']''"
  shows "decodeJSON (t @ c # junk) = decodeJSON t \<and> decodeJSON t = Inr (normal v)"
proof -
  have d: "decodeJSON (t @ rest) = Inr (normal v)" if "stops rest" "\<not> decoder_More rest" for rest
    using decode_canonical_rest [OF assms(1,2) that] .
  have c: "stops (c # junk)" "\<not> decoder_More (c # junk)"
    using assms(3) stops_delimiter by (auto simp: decoder_More_def skip_delimiter)
  show ?thesis using d [OF c] d [of "[]"] by (simp add: stops_def decoder_More_def skip_ws_def)
qed

section \<open>Concrete documents\<close>

theorem canonical_iff_same_content_witness:
  "decodeJSON ''[true,null]'' = Inr (VArr [VBool True, VNull]) \<and> decodeJSON '' [ true , null ] '' = Inr (VArr [VBool True, VNull]) \<and>
   same_content (VArr [VBool True, VNull]) (VArr [VBool True, VNull])"
proof -
  have d: "decodeJSON ''[true,null]'' = Inr (VArr [VBool True, VNull])" "decodeJSON '' [ true , null ] '' = Inr (VArr [VBool True, VNull])"
    by code_simp+
  have c: "Canonicalize (VArr [VBool True, VNull]) = Inr ''[true,null]''" by code_simp
  from canonical_iff_same_content [OF d c c] d show ?thesis by simp
qed

theorem decodeJSON_trailing_bracket_witness:
  "decodeJSON ''{}} and anything'' = Inr (VObj [])"
proof -
  have c: "Canonicalize (VObj []) = Inr ''{}''" by code_simp
  have "json_ok maxNestingDepth (VObj [])" by (simp add: maxNestingDepth_def)
  from decodeJSON_trailing_bracket [OF this c, of "CHR ''}''" "'' and anything''"] show ?thesis by (simp add: sort_members_def)
qed

end
