(* ===== verification/Provenance.thy ===== *)
theory Provenance
  imports JsonProps Base64
begin

text \<open>
  \<open>internal/provenance/provenance.go\<close>: the JWS signature over the canonical form of an envelope, the
  signer and the directory of public keys. Outside the repository and hence parameters: Ed25519
  (signing, verification and key derivation), the file system, the environment and
  \<open>json.Marshal\<close> of an envelope value. A nil pointer is \<open>None\<close>.
\<close>

section \<open>Bytes and text\<close>

definition string_of_bytes :: "bytes \<Rightarrow> string" where
  "string_of_bytes bs = map (\<lambda>b. char_of (unat b)) bs"

record ed25519 =
  ed_sign :: "bytes \<Rightarrow> bytes \<Rightarrow> bytes"
  ed_verify :: "bytes \<Rightarrow> bytes \<Rightarrow> bytes \<Rightarrow> bool"
  ed_from_seed :: "bytes \<Rightarrow> bytes"
  ed_public :: "bytes \<Rightarrow> bytes"

definition EnvSigningKey :: string where "EnvSigningKey = ''PROVENANCE_SIGNING_KEY''"
definition EnvKeyDirectory :: string where "EnvKeyDirectory = ''KEY_DIRECTORY_PATH''"
definition Algorithm :: string where "Algorithm = ''EdDSA''"
definition maxDirectoryBytes :: nat where "maxDirectoryBytes = 2 ^ 20"
definition maxKidLength :: nat where "maxKidLength = 128"

definition validateKid :: "string \<Rightarrow> validation" where
  "validateKid kid =
     check (kid = [] \<or> maxKidLength < length kid \<or> trim_space kid \<noteq> kid \<or>
            list_ex (\<lambda>c. c = CHR 0x22 \<or> c = CHR ''.'' \<or> c = CHR '' '' \<or> c = CHR 0x09 \<or> c = CHR 0x0D \<or> c = CHR 0x0A) kid)
       ''key id is not canonical non-empty text of at most 128 bytes''"

text \<open>Unpadded or padded URL-safe base64.\<close>

definition decodeBase64URL :: "string \<Rightarrow> bytes option" where
  "decodeBase64URL value = (case b64url_raw_decode value of Some decoded \<Rightarrow> Some decoded | None \<Rightarrow> b64url_std_decode value)"

section \<open>Signers\<close>

record signer =
  sg_kid :: string
  sg_key :: bytes

definition NewSigner :: "ed25519 \<Rightarrow> string \<Rightarrow> bytes \<Rightarrow> signer result" where
  "NewSigner ed kid key =
     validated (validateKid kid)
      (if length key = 64 then Inr \<lparr>sg_kid = kid, sg_key = key\<rparr>
       else if length key = 32 then Inr \<lparr>sg_kid = kid, sg_key = ed_from_seed ed key\<rparr>
       else Inl (EMsg ''Ed25519 private key must be 64 bytes (key) or 32 bytes (seed)''))"

definition LoadSignerFromEnv :: "ed25519 \<Rightarrow> (string \<Rightarrow> string) \<Rightarrow> string \<Rightarrow> signer result" where
  "LoadSignerFromEnv ed getenv kid =
     (let value = trim_space (getenv EnvSigningKey) in
      require (value \<noteq> []) (EMsg ''PROVENANCE_SIGNING_KEY is required; provenance signing is mandatory'')
       (case decodeBase64URL value of
          None \<Rightarrow> Inl (EMsg ''PROVENANCE_SIGNING_KEY is not base64url'')
        | Some key \<Rightarrow> NewSigner ed kid key))"

definition PrivateKey :: "signer option \<Rightarrow> bytes option" where
  "PrivateKey s = map_option sg_key s"

definition KeyID :: "signer \<Rightarrow> string" where
  "KeyID s = sg_kid s"

definition PublicKey :: "ed25519 \<Rightarrow> signer \<Rightarrow> string" where
  "PublicKey ed s = b64url_raw_encode (ed_public ed (sg_key s))"

text \<open>
  \<open>json.Marshal\<close> of a string: characters that are not safe in HTML are written as escapes, a byte
  that starts no rune as the escape of U+FFFD.
\<close>

definition u00 :: "nat \<Rightarrow> string" where
  "u00 r = CHR 0x5C # ''u00'' @ [hex_digit (r div 16 mod 16), hex_digit (r mod 16)]"

definition marshal_rune :: "nat \<Rightarrow> nat \<Rightarrow> string" where
  "marshal_rune r w =
     (if r = rune_error \<and> w = 1 then CHR 0x5C # ''ufffd''
      else if r = 0x22 then [CHR 0x5C, CHR 0x22] else if r = 0x5C then [CHR 0x5C, CHR 0x5C]
      else if r = 0x08 then [CHR 0x5C, CHR ''b''] else if r = 0x0C then [CHR 0x5C, CHR ''f''] else if r = 0x0A then [CHR 0x5C, CHR ''n'']
      else if r = 0x0D then [CHR 0x5C, CHR ''r''] else if r = 0x09 then [CHR 0x5C, CHR ''t'']
      else if r < 0x20 \<or> r = 0x3C \<or> r = 0x3E \<or> r = 0x26 then u00 r
      else if r = 0x2028 then CHR 0x5C # ''u2028'' else if r = 0x2029 then CHR 0x5C # ''u2029''
      else encode_rune r)"

lemma decode_width_pos: "s \<noteq> [] \<Longrightarrow> (r, w) = decode_rune s \<Longrightarrow> 0 < w"
  using decode_width [of s] by (metis Suc_le_eq One_nat_def snd_conv)

function marshal_chars :: "string \<Rightarrow> string" where
  "marshal_chars s =
     (if s = [] then [] else (case decode_rune s of (r, w) \<Rightarrow> marshal_rune r w @ marshal_chars (drop w s)))"
  by pat_completeness auto
termination
  by (relation "measure length") (auto intro!: diff_less dest: decode_width_pos)

declare marshal_chars.simps [simp del]

definition marshal_header :: "string \<Rightarrow> string" where
  "marshal_header kid =
     ''{'' @ [CHR 0x22] @ ''alg'' @ [CHR 0x22] @ '':'' @ [CHR 0x22] @ Algorithm @ [CHR 0x22] @ '','' @
     [CHR 0x22] @ ''kid'' @ [CHR 0x22] @ '':'' @ [CHR 0x22] @ marshal_chars kid @ [CHR 0x22] @ ''}''"

text \<open>The input of the signature.\<close>

definition signing_input :: "string \<Rightarrow> bytes \<Rightarrow> string" where
  "signing_input headerSegment payload = headerSegment @ ''.'' @ b64url_raw_encode payload"

definition Sign :: "ed25519 \<Rightarrow> signer option \<Rightarrow> bytes \<Rightarrow> string result" where
  "Sign ed s payload =
     (case s of
        None \<Rightarrow> Inl (EMsg ''provenance signer is required'')
      | Some sg \<Rightarrow>
          require (sg_key sg \<noteq> []) (EMsg ''provenance signer is required'')
           (let input = signing_input (b64url_raw_encode (bytes_of_string (marshal_header (sg_kid sg)))) payload in
            Inr (input @ ''.'' @ b64url_raw_encode (ed_sign ed (sg_key sg) (bytes_of_string input)))))"

section \<open>Envelopes\<close>

text \<open>The document without the signature, and the signature it had, empty when it had none.\<close>

definition strip_signature :: "jval \<Rightarrow> (jval \<times> string) result" where
  "strip_signature document =
     (case document of
        VObj object \<Rightarrow>
          (case map_of object ''provenance'' of
             Some (VObj provenance) \<Rightarrow>
               Inr (VObj (put ''provenance'' (VObj (filter (\<lambda>m. fst m \<noteq> ''signature'') provenance)) object),
                    (case map_of provenance ''signature'' of Some (VStr s) \<Rightarrow> s | _ \<Rightarrow> []))
           | _ \<Rightarrow> Inl (EMsg ''envelope provenance is not a JSON object''))
      | _ \<Rightarrow> Inl (EMsg ''envelope is not a JSON object''))"

definition SignedPayload :: "bytes \<Rightarrow> (bytes \<times> string) result" where
  "SignedPayload raw =
     (case decodeJSON (string_of_bytes raw) of
        Inl e \<Rightarrow> Inl (EWrap ''decode envelope for provenance'' e)
      | Inr document \<Rightarrow>
          rbind (strip_signature document)
           (\<lambda>(stripped, signature).
              (case Canonicalize stripped of
                 Inl e \<Rightarrow> Inl (EWrap ''canonicalize envelope'' e)
               | Inr canonical \<Rightarrow> Inr (bytes_of_string canonical, signature))))"

definition SignEnvelope :: "ed25519 \<Rightarrow> ('e \<Rightarrow> bytes result) \<Rightarrow> signer option \<Rightarrow> 'e \<Rightarrow> string result" where
  "SignEnvelope ed marshal s envelope =
     (case marshal envelope of
        Inl e \<Rightarrow> Inl (EWrap ''encode envelope for signing'' e)
      | Inr raw \<Rightarrow> rbind (SignedPayload raw) (\<lambda>(payload, _). Sign ed s payload))"

section \<open>The key directory\<close>

type_synonym directory = "(string \<times> bytes) list"

text \<open>The loop over the members; Go visits them in some order, which only matters for which error is reported.\<close>

fun directory_keys :: "(string \<times> jval) list \<Rightarrow> directory result" where
  "directory_keys [] = Inr []"
| "directory_keys ((kid, value) # ms) =
     (case validateKid kid of
        Some e \<Rightarrow> Inl (EWrap ''key directory entry'' e)
      | None \<Rightarrow>
          (case value of
             VStr encoded \<Rightarrow>
               (case decodeBase64URL encoded of
                  None \<Rightarrow> Inl (EMsg ''key directory entry is not a 32-byte base64url Ed25519 public key'')
                | Some key \<Rightarrow>
                    require (length key = 32) (EMsg ''key directory entry is not a 32-byte base64url Ed25519 public key'')
                     (rbind (directory_keys ms) (\<lambda>keys. Inr ((kid, key) # keys))))
           | _ \<Rightarrow> Inl (EMsg ''key directory entry is not a base64url string'')))"

definition ParseDirectory :: "bytes \<Rightarrow> directory result" where
  "ParseDirectory raw =
     require (raw \<noteq> [] \<and> length raw \<le> maxDirectoryBytes) (EMsg ''key directory must be between 1 and 1048576 bytes'')
      (case decodeJSON (string_of_bytes raw) of
         Inl e \<Rightarrow> Inl (EWrap ''decode key directory'' e)
       | Inr (VObj object) \<Rightarrow>
           require (object \<noteq> []) (EMsg ''key directory must be a non-empty JSON object of kid to base64url public key'') (directory_keys object)
       | Inr _ \<Rightarrow> Inl (EMsg ''key directory must be a non-empty JSON object of kid to base64url public key''))"

text \<open>The file system: whether a path names a regular file and its size, and its bytes.\<close>

record file_system =
  fs_stat :: "string \<Rightarrow> (bool \<times> nat) result"
  fs_read :: "string \<Rightarrow> bytes result"

definition LoadDirectory :: "file_system \<Rightarrow> string \<Rightarrow> directory result" where
  "LoadDirectory fs path =
     require (trim_space path \<noteq> []) (EMsg ''key directory path is required'')
      (case fs_stat fs path of
         Inl e \<Rightarrow> Inl (EWrap ''stat key directory'' e)
       | Inr (regular, bytes) \<Rightarrow>
           require (regular \<and> bytes \<noteq> 0 \<and> bytes \<le> maxDirectoryBytes) (EMsg ''key directory is not a regular file between 1 and 1048576 bytes'')
            (case fs_read fs path of
               Inl e \<Rightarrow> Inl (EWrap ''read key directory'' e)
             | Inr raw \<Rightarrow> ParseDirectory raw))"

definition LoadDirectoryFromEnv :: "(string \<Rightarrow> string) \<Rightarrow> file_system \<Rightarrow> directory result" where
  "LoadDirectoryFromEnv getenv fs =
     (let path = trim_space (getenv EnvKeyDirectory) in
      require (path \<noteq> []) (EMsg ''KEY_DIRECTORY_PATH is required; provenance verification is mandatory'') (LoadDirectory fs path))"

text \<open>\<open>sort.Strings\<close> compares bytes.\<close>

definition KeyIDs :: "directory \<Rightarrow> string list" where
  "KeyIDs d = sort_key (map code_of) (map fst d)"

section \<open>Verification\<close>

text \<open>
  Decoding a JSON object into the struct of the protected header: names match exactly or under
  case folding (in which the Kelvin sign is a k and the long s an s), unknown names and values of another type are
  errors, and null leaves the field as it is.
\<close>

fun fold_name :: "string \<Rightarrow> string" where
  "fold_name (a # b # c # s) =
     (if a = CHR 0xE2 \<and> b = CHR 0x84 \<and> c = CHR 0xAA then CHR ''K'' # fold_name s
      else if a = CHR 0xC5 \<and> b = CHR 0xBF then CHR ''S'' # fold_name (c # s)
      else upper_char a # fold_name (b # c # s))"
| "fold_name [a, b] = (if a = CHR 0xC5 \<and> b = CHR 0xBF then ''S'' else [upper_char a, upper_char b])"
| "fold_name [a] = [upper_char a]"
| "fold_name [] = []"

fun header_members :: "string \<times> string \<Rightarrow> (string \<times> jval) list \<Rightarrow> (string \<times> string) option" where
  "header_members h [] = Some h"
| "header_members (alg, kid) ((k, v) # ms) =
     (let field = fold_name k in
      if field \<noteq> ''ALG'' \<and> field \<noteq> ''KID'' then None
      else (case v of
              VStr t \<Rightarrow> header_members (if field = ''ALG'' then (t, kid) else (alg, t)) ms
            | VNull \<Rightarrow> header_members (alg, kid) ms
            | _ \<Rightarrow> None))"

definition decode_header :: "string \<Rightarrow> (string \<times> string) option" where
  "decode_header raw =
     (case json_Decode raw of
        Inr (VObj ms, _) \<Rightarrow> header_members ([], []) ms
      | Inr (VNull, _) \<Rightarrow> Some ([], [])
      | _ \<Rightarrow> None)"

definition parseJWS :: "string \<Rightarrow> (string \<times> string \<times> bytes) result" where
  "parseJWS jws =
     (case split_on (CHR ''.'') jws of
        [h, p, s] \<Rightarrow>
          require (h \<noteq> [] \<and> p \<noteq> [] \<and> s \<noteq> []) (EMsg ''JWS compact serialization must have three non-empty segments'')
           (case decodeBase64URL h of
              None \<Rightarrow> Inl (EMsg ''JWS protected header is not base64url'')
            | Some headerRaw \<Rightarrow>
                (case decode_header (string_of_bytes headerRaw) of
                   None \<Rightarrow> Inl (EMsg ''JWS protected header is invalid'')
                 | Some (alg, kid) \<Rightarrow>
                     require (alg = Algorithm) (EMsg ''JWS algorithm is not EdDSA'')
                      (case validateKid kid of
                         Some e \<Rightarrow> Inl (EWrap ''JWS key id'' e)
                       | None \<Rightarrow>
                           require (decodeBase64URL p \<noteq> None) (EMsg ''JWS payload is not base64url'')
                            (case decodeBase64URL s of
                               None \<Rightarrow> Inl (EMsg ''JWS signature is not a base64url Ed25519 signature'')
                             | Some signature \<Rightarrow>
                                 require (length signature = 64) (EMsg ''JWS signature is not a base64url Ed25519 signature'') (Inr (kid, h, signature))))))
      | _ \<Rightarrow> Inl (EMsg ''JWS compact serialization must have three non-empty segments''))"

definition Verify :: "ed25519 \<Rightarrow> directory option \<Rightarrow> bytes \<Rightarrow> string \<Rightarrow> unit result" where
  "Verify ed d payload jws =
     rbind (parseJWS jws)
      (\<lambda>(kid, headerSegment, signature).
         (case d of
            None \<Rightarrow> Inl (EMsg ''key directory is required'')
          | Some keys \<Rightarrow>
              (case map_of keys kid of
                 None \<Rightarrow> Inl (EMsg ''unknown provenance key id'')
               | Some key \<Rightarrow>
                   require (ed_verify ed key (bytes_of_string (signing_input headerSegment payload)) signature)
                    (EMsg ''provenance signature verification failed'') (Inr ()))))"

definition VerifyEnvelope :: "ed25519 \<Rightarrow> directory option \<Rightarrow> bytes \<Rightarrow> unit result" where
  "VerifyEnvelope ed d raw =
     rbind (SignedPayload raw)
      (\<lambda>(payload, signature).
         require (signature \<noteq> []) (EMsg ''envelope provenance signature is missing'') (Verify ed d payload signature))"

section \<open>Text and base64\<close>

lemma unat_of_char: "unat (of_char c :: byte) = of_char c"
proof -
  have "unat (of_nat (of_char c) :: byte) = of_char c" by (simp add: unsigned_of_nat take_bit_nat_eq_self del: of_nat_of_char)
  then show ?thesis by (simp only: of_nat_of_char)
qed

lemma string_of_bytes_of_string [simp]: "string_of_bytes (bytes_of_string s) = s"
  by (simp add: string_of_bytes_def bytes_of_string_def comp_def unat_of_char)

lemma byte_of_char_of_byte: "of_char (char_of (unat b)) = (b :: byte)"
proof -
  have "(of_char (char_of (unat b)) :: nat) = unat b" using byte_bound [of b] by simp
  then have "(of_nat (of_char (char_of (unat b))) :: byte) = of_nat (unat b)" by (rule arg_cong)
  also have "\<dots> = b" by simp
  finally show ?thesis by (simp only: of_nat_of_char)
qed

lemma bytes_of_string_of_bytes [simp]: "bytes_of_string (string_of_bytes b) = b"
  by (simp add: string_of_bytes_def bytes_of_string_def comp_def byte_of_char_of_byte)

lemma b64url_no_dot: "CHR ''.'' \<notin> set (b64url_raw_encode bs)"
proof
  assume "CHR ''.'' \<in> set (b64url_raw_encode bs)"
  then obtain c where c: "c \<in> set (b64_raw_encode bs)" "to_url_char c = CHR ''.''" by (auto simp: b64url_raw_encode_def)
  then obtain n where "n < 64" "b64_char n = CHR ''.''" using b64_encode_chars [OF c(1)] by (auto simp: to_url_char_def split: if_splits)
  then show False using b64_val_char [of n] by (simp add: b64_val_def code_of_def)
qed

lemma decodeBase64URL_encode [simp]: "decodeBase64URL (b64url_raw_encode bs) = Some bs"
  by (simp add: decodeBase64URL_def b64url_raw_decode_def b64url_groups_encode)

lemma b64url_raw_encode_inj: "b64url_raw_encode a = b64url_raw_encode b \<longleftrightarrow> a = b"
  using decodeBase64URL_encode [of a] decodeBase64URL_encode [of b] by (metis option.inject)

lemma b64url_encode_Nil: "b64url_raw_encode bs = [] \<longleftrightarrow> bs = []"
  using b64url_raw_encode_inj [of bs "[]"] by (simp add: b64url_raw_encode_def)

lemma split_on_free: "c \<notin> set a \<Longrightarrow> split_on c (a @ c # b) = a # split_on c b"
  by (induction a) auto

lemma split_on_last: "c \<notin> set a \<Longrightarrow> split_on c a = [a]"
  by (induction a) auto

lemma split_on_parts: "c \<notin> (\<Union>p \<in> set (split_on c s). set p)"
  by (induction s) (auto split: list.splits)

section \<open>The protected header\<close>

lemma hex4_ascii: "r < 0x100 \<Longrightarrow> hex4 (''00'' @ [hex_digit (r div 16 mod 16), hex_digit (r mod 16)] @ s) = Some r"
proof -
  assume r: "r < 0x100"
  have z: "hex_val (CHR ''0'') = Some 0" by (simp add: hex_val_def code_of_def)
  have "hex_val (hex_digit (r div 16 mod 16)) = Some (r div 16 mod 16)" "hex_val (hex_digit (r mod 16)) = Some (r mod 16)" by (simp_all add: hex_val_digit)
  moreover have "r div 16 < 16" using r by (simp add: div_less_iff_less_mult)
  then have "r div 16 mod 16 * 16 + r mod 16 = r" by simp
  ultimately show ?thesis by (simp add: hex4_def z)
qed

lemma json_char_u00: "r < 0x100 \<Longrightarrow> json_char (u00 r @ s) = Some (encode_rune r, s)"
  using hex4_ascii [of r s] by (simp add: u00_def json_char_def surrogate_def)

lemma json_char_marshal:
  assumes "valid_rune r"
  shows "json_char (marshal_rune r w @ s) = Some (encode_rune r, s)"
proof (cases "r = rune_error \<and> w = 1")
  case True
  then have "marshal_rune r w = CHR 0x5C # ''ufffd''" by (simp add: marshal_rune_def)
  then show ?thesis using True by (simp add: json_char_def hex4_def hex_val_def code_of_def surrogate_def rune_error_def)
next
  case False
  consider (u) "r < 0x20 \<or> r = 0x3C \<or> r = 0x3E \<or> r = 0x26" "r \<notin> {0x22, 0x5C, 0x08, 0x0C, 0x0A, 0x0D, 0x09}" | (sep) "r = 0x2028 \<or> r = 0x2029"
    | (esc) "r \<in> {0x22, 0x5C, 0x08, 0x0C, 0x0A, 0x0D, 0x09}" | (plain) "\<not> r < 0x20" "r \<noteq> 0x3C" "r \<noteq> 0x3E" "r \<noteq> 0x26" "r \<noteq> 0x2028" "r \<noteq> 0x2029"
        "r \<notin> {0x22, 0x5C, 0x08, 0x0C, 0x0A, 0x0D, 0x09}" by blast
  then show ?thesis
  proof cases
    case u
    then have "marshal_rune r w = u00 r" using False by (auto simp: marshal_rune_def)
    then show ?thesis using json_char_u00 [of r s] u by auto
  next
    case sep
    then show ?thesis using False by (auto simp: marshal_rune_def rune_error_def json_char_def hex4_def hex_val_def code_of_def surrogate_def)
  next
    case esc
    then have "marshal_rune r w = quote_rune r" by (elim insertE emptyE) (simp_all add: marshal_rune_def quote_rune_def rune_error_def)
    then show ?thesis by (simp add: json_char_quote [OF assms])
  next
    case plain
    then have "marshal_rune r w = quote_rune r" using False by (auto simp: marshal_rune_def quote_rune_def)
    then show ?thesis by (simp add: json_char_quote [OF assms])
  qed
qed

lemma marshal_rune_start: "valid_rune r \<Longrightarrow> marshal_rune r w @ s \<noteq> [] \<and> hd (marshal_rune r w @ s) \<noteq> CHR 0x22"
  by (rule escaped_start [OF _ json_char_marshal]) (simp_all add: marshal_rune_def u00_def rune_error_def)

lemma parse_marshalled: "parse_string (marshal_chars s @ CHR 0x22 # rest) = Some (encode_runes (runes s), rest)"
proof (induction s rule: marshal_chars.induct)
  case (1 s)
  show ?case
  proof (cases "s = []")
    case True
    then show ?thesis by (simp add: marshal_chars.simps parse_string.simps encode_runes_def)
  next
    case False
    obtain r w where d: "decode_rune s = (r, w)" by (metis surj_pair)
    have v: "valid_rune r" using decode_valid [of s] d by simp
    let ?t = "marshal_chars (drop w s) @ CHR 0x22 # rest"
    have ih: "parse_string ?t = Some (encode_runes (runes (drop w s)), rest)" using 1 [OF False d [symmetric]] by simp
    have "parse_string (marshal_rune r w @ ?t) = Some (encode_rune r @ encode_runes (runes (drop w s)), rest)"
      by (subst parse_string.simps) (use marshal_rune_start [OF v, of w ?t] json_char_marshal [OF v, of w ?t] ih in simp)
    moreover have "marshal_chars s = marshal_rune r w @ marshal_chars (drop w s)" using False d by (subst marshal_chars.simps) simp
    moreover have "runes s = r # runes (drop w s)" using False d by (subst runes.simps) simp
    ultimately show ?thesis by (simp add: encode_runes_def)
  qed
qed


lemma skip_ws_quote: "skip_ws (CHR 0x22 # s) = CHR 0x22 # s" "skip_ws (CHR '':'' # s) = CHR '':'' # s" "skip_ws (CHR ''{'' # s) = CHR ''{'' # s"
  by (simp_all add: skip_ws_def is_ws_def)

lemma parse_value_string: "parse_string s = Some (t, r) \<Longrightarrow> parse_value (Suc f) d (CHR 0x22 # s) = Inr (VStr t, r)"
  by (simp add: skip_ws_quote parse_scalar_def Let_def)

lemma parse_key_string: "parse_string s = Some (k, CHR '':'' # r) \<Longrightarrow> parse_key (CHR 0x22 # s) = Some (k, r)"
  by (simp add: parse_key_def skip_ws_quote)

lemma parse_value_object: "parse_members f (d - 1) (CHR 0x22 # s) = Inr (ms, r) \<Longrightarrow> 0 < d \<Longrightarrow> parse_value (Suc f) d (CHR ''{'' # CHR 0x22 # s) = Inr (VObj ms, r)"
  by (simp add: skip_ws_quote Let_def del: parse_members.simps)

lemma parse_string_plain:
  "list_all (\<lambda>c. 32 \<le> code_of c \<and> code_of c < 128 \<and> c \<noteq> CHR 0x5C \<and> c \<noteq> CHR 0x22) t \<Longrightarrow> parse_string (t @ CHR 0x22 # r) = Some (t, r)"
  by (induction t) (simp_all add: parse_string.simps json_char_ascii)

lemma decode_marshal_header:
  assumes "valid_utf8 kid"
  shows "decode_header (marshal_header kid) = Some (Algorithm, kid)"
proof -
  let ?v2 = "marshal_chars kid @ CHR 0x22 # ''}''"
  let ?m2 = "CHR 0x22 # ''kid'' @ CHR 0x22 # CHR '':'' # CHR 0x22 # ?v2"
  let ?v1 = "Algorithm @ CHR 0x22 # CHR '','' # ?m2"
  let ?m1 = "CHR 0x22 # ''alg'' @ CHR 0x22 # CHR '':'' # CHR 0x22 # ?v1"
  have h: "marshal_header kid = CHR ''{'' # ?m1" by (simp add: marshal_header_def)
  have k: "parse_string (''kid'' @ CHR 0x22 # r) = Some (''kid'', r)" "parse_string (''alg'' @ CHR 0x22 # r) = Some (''alg'', r)"
    "parse_string (Algorithm @ CHR 0x22 # r) = Some (Algorithm, r)" for r
    by (rule parse_string_plain, simp add: code_of_def Algorithm_def)+
  have v2: "parse_string ?v2 = Some (kid, ''}'')" using parse_marshalled [of kid "''}''"] assms by (simp add: valid_utf8_def)
  have m2: "parse_members (Suc (Suc f)) d ?m2 = Inr ([(''kid'', VStr kid)], [])" for f d
    using parse_key_string [OF k(1)] parse_value_string [OF v2] by (simp add: skip_delimiter del: parse_value.simps)
  have m1: "parse_members (Suc (Suc (Suc f))) d ?m1 = Inr ([(''alg'', VStr Algorithm), (''kid'', VStr kid)], [])" for f d
    using parse_key_string [OF k(2)] parse_value_string [OF k(3)] m2 by (simp add: skip_delimiter del: parse_value.simps)
  have "4 \<le> 2 * length (marshal_header kid) + 1" by (simp add: h)
  then obtain f where "2 * length (marshal_header kid) + 1 = 4 + f" using le_Suc_ex by blast
  then have f: "2 * length (marshal_header kid) + 1 = Suc (Suc (Suc (Suc f)))" by simp
  have "json_Decode (marshal_header kid) = Inr (VObj [(''alg'', VStr Algorithm), (''kid'', VStr kid)], [])"
    unfolding json_Decode_def f unfolding h by (rule parse_value_object [OF m1]) (simp add: maxNestingDepth_def)
  moreover have "fold_name ''alg'' = ''ALG''" "fold_name ''kid'' = ''KID''" by code_simp+
  ultimately show ?thesis by (simp add: decode_header_def)
qed


section \<open>Signing and verifying\<close>

lemma parseJWS_compact:
  assumes "decode_header (string_of_bytes hb) = Some (Algorithm, kid)" "validateKid kid = None" "hb \<noteq> []" "payload \<noteq> []" "length sig = 64"
  shows "parseJWS (b64url_raw_encode hb @ ''.'' @ b64url_raw_encode payload @ ''.'' @ b64url_raw_encode sig) = Inr (kid, b64url_raw_encode hb, sig)"
proof -
  have "split_on (CHR ''.'') (b64url_raw_encode hb @ ''.'' @ b64url_raw_encode payload @ ''.'' @ b64url_raw_encode sig) =
      [b64url_raw_encode hb, b64url_raw_encode payload, b64url_raw_encode sig]"
    using b64url_no_dot by (simp add: split_on_free split_on_last)
  moreover have "sig \<noteq> []" using assms(5) by auto
  ultimately show ?thesis using assms by (simp add: parseJWS_def b64url_encode_Nil)
qed

lemma Sign_Verify:
  assumes "Sign ed (Some s) payload = Inr jws" "validateKid (sg_kid s) = None" "valid_utf8 (sg_kid s)" "payload \<noteq> []"
    "map_of keys (sg_kid s) = Some key" "\<And>m. ed_verify ed key m (ed_sign ed (sg_key s) m)" "\<And>m. length (ed_sign ed (sg_key s) m) = 64"
  shows "Verify ed (Some keys) payload jws = Inr ()"
proof -
  let ?hb = "bytes_of_string (marshal_header (sg_kid s))"
  let ?input = "signing_input (b64url_raw_encode ?hb) payload"
  have jws: "jws = b64url_raw_encode ?hb @ ''.'' @ b64url_raw_encode payload @ ''.'' @ b64url_raw_encode (ed_sign ed (sg_key s) (bytes_of_string ?input))"
    using assms(1) by (auto simp: Sign_def Let_def signing_input_def)
  have "?hb \<noteq> []" by (simp add: marshal_header_def bytes_of_string_def)
  then have "parseJWS jws = Inr (sg_kid s, b64url_raw_encode ?hb, ed_sign ed (sg_key s) (bytes_of_string ?input))"
    unfolding jws by (intro parseJWS_compact) (simp_all add: assms decode_marshal_header)
  then show ?thesis using assms(5,6) by (simp add: Verify_def)
qed

lemma canonical_nonempty: "Canonicalize v = Inr t \<Longrightarrow> t \<noteq> []"
  unfolding Canonicalize_def using canonical_starts by (auto simp: starts_value_def)

lemma SignedPayload_Inr:
  assumes "SignedPayload raw = Inr (payload, signature)"
  obtains document stripped canonical where "decodeJSON (string_of_bytes raw) = Inr document" "strip_signature document = Inr (stripped, signature)"
    "Canonicalize stripped = Inr canonical" "payload = bytes_of_string canonical"
proof -
  obtain document where d: "decodeJSON (string_of_bytes raw) = Inr document" using assms by (auto simp: SignedPayload_def split: sum.splits)
  obtain stripped g where s: "strip_signature document = Inr (stripped, g)" using assms d by (auto simp: SignedPayload_def)
  show thesis using assms d s that by (auto simp: SignedPayload_def split: sum.splits)
qed

lemma filter_keys: "distinct (map fst ms) \<Longrightarrow> distinct (map fst (filter P ms))"
  by (induction ms) auto

lemma strip_signature_ok:
  assumes "strip_signature v = Inr (w, g)" "json_ok d v"
  shows "json_ok d w"
proof -
  obtain object provenance where o: "v = VObj object" "map_of object ''provenance'' = Some (VObj provenance)"
    "w = VObj (put ''provenance'' (VObj (filter (\<lambda>m. fst m \<noteq> ''signature'') provenance)) object)"
    using assms(1) by (auto simp: strip_signature_def split: jval.splits option.splits)
  have "list_all (\<lambda>m. valid_utf8 (fst m) \<and> json_ok (d - 1) (snd m)) object" using assms(2) o(1) by simp
  then have p: "valid_utf8 ''provenance'' \<and> json_ok (d - 1) (VObj provenance)" using map_of_SomeD [OF o(2)] unfolding list_all_iff by (metis fst_conv snd_conv)
  then have "json_ok (d - 1) (VObj (filter (\<lambda>m. fst m \<noteq> ''signature'') provenance))" by (auto simp: list_all_iff intro: filter_keys)
  then show ?thesis using assms(2) p unfolding o(1,3) by (auto intro!: put_distinct put_all)
qed


lemma same_payload:
  assumes "decodeJSON (string_of_bytes raw) = Inr doc" "strip_signature doc = Inr (v, g)" "decodeJSON (string_of_bytes raw') = Inr doc'" "strip_signature doc' = Inr (w, g')"
    "SignedPayload raw = Inr (p, g)" "SignedPayload raw' = Inr (p', g')"
  shows "p = p' \<longleftrightarrow> same_content v w"
proof -
  obtain s where s: "Canonicalize v = Inr s" "p = bytes_of_string s" using assms(1,2,5) by (auto elim!: SignedPayload_Inr)
  obtain t where t: "Canonicalize w = Inr t" "p' = bytes_of_string t" using assms(3,4,6) by (auto elim!: SignedPayload_Inr)
  have "json_ok maxNestingDepth v" "json_ok maxNestingDepth w" using assms(1-4) strip_signature_ok decodeJSON_ok by blast+
  then have "s = t \<longleftrightarrow> same_content v w" using s(1) t(1) by (rule canonical_text_iff)
  then show ?thesis using s(2) t(2) by (simp add: bytes_of_string_inj)
qed

lemma payload_same:
  assumes "decodeJSON (string_of_bytes raw) = Inr doc" "strip_signature doc = Inr (v, g)" "decodeJSON (string_of_bytes raw') = Inr doc'" "strip_signature doc' = Inr (w, g')"
    "SignedPayload raw = Inr (p, g)" "same_content v w"
  shows "SignedPayload raw' = Inr (p, g')"
proof -
  obtain s where s: "Canonicalize v = Inr s" "p = bytes_of_string s" using assms(1,2,5) by (auto elim!: SignedPayload_Inr)
  have ok: "json_ok maxNestingDepth v" "json_ok maxNestingDepth w" using assms(1-4) strip_signature_ok decodeJSON_ok by blast+
  have "Canonicalize w = Inr s" using same_canonical [OF assms(6) ok] s(1) by (simp add: Canonicalize_def)
  then show ?thesis using assms(3,4) s(2) by (simp add: SignedPayload_def)
qed

lemma NewSigner_kid: "NewSigner ed kid key = Inr s \<Longrightarrow> sg_kid s = kid \<and> validateKid kid = None"
  by (auto simp: NewSigner_def split: if_splits)

text \<open>
  C9. What a producer signs, a consumer accepts: if \<open>SignEnvelope\<close> produced a signature for an
  envelope, then every JSON document that carries this signature and otherwise has the content of
  the envelope, whatever its member order, white space and number spelling, is accepted by
  \<open>VerifyEnvelope\<close> with a directory that maps the signer's key id to a key under which its
  signatures verify.
\<close>

theorem SignEnvelope_verifies:
  assumes "NewSigner ed kid key = Inr s" and "valid_utf8 kid"
    and "SignEnvelope ed marshal (Some s) envelope = Inr jws" and "marshal envelope = Inr raw"
    and "decodeJSON (string_of_bytes raw) = Inr document" and "strip_signature document = Inr (v, g)"
    and "decodeJSON (string_of_bytes sent) = Inr received" and "strip_signature received = Inr (w, jws)" and "same_content v w"
    and "map_of keys kid = Some public"
    and "\<And>m. ed_verify ed public m (ed_sign ed (sg_key s) m)" and "\<And>m. length (ed_sign ed (sg_key s) m) = 64"
  shows "VerifyEnvelope ed (Some keys) sent = Inr ()"
proof -
  obtain p g' where p: "SignedPayload raw = Inr (p, g')" "Sign ed (Some s) p = Inr jws" using assms(3,4) by (auto simp: SignEnvelope_def)
  have "g' = g" using p(1) assms(5,6) by (auto elim!: SignedPayload_Inr)
  then have sent: "SignedPayload sent = Inr (p, jws)" using payload_same [OF assms(5-8) _ assms(9)] p(1) by simp
  have "p \<noteq> []" using p(1) canonical_nonempty by (auto elim!: SignedPayload_Inr simp: bytes_of_string_def)
  then have "Verify ed (Some keys) p jws = Inr ()"
    by (intro Sign_Verify [OF p(2)]) (use NewSigner_kid [OF assms(1)] assms(2,10-12) in simp_all)
  moreover have "jws \<noteq> []" using p(2) by (auto simp: Sign_def Let_def)
  ultimately show ?thesis using sent by (simp add: VerifyEnvelope_def)
qed

section \<open>Only signed content is accepted\<close>

lemma parseJWS_segments:
  assumes "parseJWS jws = Inr (kid, h, sig)"
  obtains p g where "split_on (CHR ''.'') jws = [h, p, g]" "validateKid kid = None" "length sig = 64"
    "\<exists>raw. decodeBase64URL h = Some raw \<and> decode_header (string_of_bytes raw) = Some (Algorithm, kid)"
proof -
  obtain h' p g where sp: "split_on (CHR ''.'') jws = [h', p, g]" using assms unfolding parseJWS_def by (auto split: list.splits)
  obtain raw where r: "decodeBase64URL h' = Some raw" using assms unfolding parseJWS_def sp by (auto split: option.splits)
  obtain alg kid' where d: "decode_header (string_of_bytes raw) = Some (alg, kid')" using assms unfolding parseJWS_def sp by (auto simp: r split: option.splits)
  have "h' = h \<and> kid' = kid \<and> alg = Algorithm \<and> validateKid kid = None \<and> length sig = 64"
    using assms unfolding parseJWS_def sp by (auto simp: r d split: option.splits)
  then show thesis using that sp r d by blast
qed

lemma parseJWS_Inr:
  assumes "parseJWS jws = Inr (kid, h, sig)"
  shows "CHR ''.'' \<notin> set h \<and> validateKid kid = None \<and> length sig = 64 \<and> (\<exists>raw. decodeBase64URL h = Some raw \<and> decode_header (string_of_bytes raw) = Some (Algorithm, kid))"
proof -
  obtain p g where sp: "split_on (CHR ''.'') jws = [h, p, g]" and rest: "validateKid kid = None" "length sig = 64"
    "\<exists>raw. decodeBase64URL h = Some raw \<and> decode_header (string_of_bytes raw) = Some (Algorithm, kid)"
    by (rule parseJWS_segments [OF assms])
  show ?thesis using split_on_parts [of "CHR ''.''" jws] sp rest by simp
qed

lemma signing_input_inj:
  assumes "signing_input h p = signing_input h' p'" "CHR ''.'' \<notin> set h" "CHR ''.'' \<notin> set h'"
  shows "h = h' \<and> p = p'"
proof -
  have "split_on (CHR ''.'') (signing_input h p) = [h, b64url_raw_encode p]" "split_on (CHR ''.'') (signing_input h' p') = [h', b64url_raw_encode p']"
    using assms(2,3) b64url_no_dot by (simp_all add: signing_input_def split_on_free split_on_last)
  then have "[h, b64url_raw_encode p] = [h', b64url_raw_encode p']" using assms(1) by (simp only:)
  then show ?thesis by (simp add: b64url_raw_encode_inj)
qed

text \<open>
  The producers' record of the envelopes they signed, and the property of the signature scheme that
  the consumers rely on: a message only verifies under a directory key if it is the signing input
  of a recorded envelope.
\<close>

definition only_signed :: "ed25519 \<Rightarrow> directory \<Rightarrow> bytes list \<Rightarrow> bool" where
  "only_signed ed keys sent_log =
     (\<forall>kid key m g. map_of keys kid = Some key \<longrightarrow> ed_verify ed key m g \<longrightarrow>
        (\<exists>e \<in> set sent_log. \<exists>h p g'. SignedPayload e = Inr (p, g') \<and> CHR ''.'' \<notin> set h \<and> m = bytes_of_string (signing_input h p)))"

lemma verified_was_signed:
  assumes "VerifyEnvelope ed (Some keys) raw = Inr ()" and "only_signed ed keys sent_log"
  shows "\<exists>e \<in> set sent_log. \<exists>document v g original w g'.
    decodeJSON (string_of_bytes raw) = Inr document \<and> strip_signature document = Inr (v, g) \<and>
    decodeJSON (string_of_bytes e) = Inr original \<and> strip_signature original = Inr (w, g') \<and> same_content v w"
proof -
  obtain payload jws where p: "SignedPayload raw = Inr (payload, jws)" "Verify ed (Some keys) payload jws = Inr ()"
    using assms(1) by (auto simp: VerifyEnvelope_def)
  obtain kid h sig key where v: "parseJWS jws = Inr (kid, h, sig)" "map_of keys kid = Some key" "ed_verify ed key (bytes_of_string (signing_input h payload)) sig"
    using p(2) by (auto simp: Verify_def split: option.splits)
  obtain e h' p' g' where e: "e \<in> set sent_log" "SignedPayload e = Inr (p', g')" "CHR ''.'' \<notin> set h'"
    "bytes_of_string (signing_input h payload) = bytes_of_string (signing_input h' p')"
    using assms(2) v(2,3) unfolding only_signed_def by blast
  have "payload = p'" using signing_input_inj [of h payload h' p'] e(3,4) parseJWS_Inr [OF v(1)] by (simp add: bytes_of_string_inj)
  obtain document v where d: "decodeJSON (string_of_bytes raw) = Inr document" "strip_signature document = Inr (v, jws)" using p(1) by (auto elim!: SignedPayload_Inr)
  obtain original w where o: "decodeJSON (string_of_bytes e) = Inr original" "strip_signature original = Inr (w, g')" using e(2) by (auto elim!: SignedPayload_Inr)
  have "same_content v w" using same_payload [OF d o p(1) e(2)] \<open>payload = p'\<close> by simp
  then show ?thesis using d o e(1) by blast
qed

section \<open>The directory fails closed\<close>

lemma directory_keys_Inr:
  "directory_keys ms = Inr keys \<Longrightarrow>
     map fst keys = map fst ms \<and> (\<forall>(kid, key) \<in> set keys. validateKid kid = None \<and> length key = 32) \<and>
     (\<forall>kid. map_of keys kid = (case map_of ms kid of Some (VStr encoded) \<Rightarrow> decodeBase64URL encoded | _ \<Rightarrow> None))"
proof (induction ms arbitrary: keys rule: directory_keys.induct)
  case (2 kid v ms)
  then obtain encoded key ks where k: "validateKid kid = None" "v = VStr encoded" "decodeBase64URL encoded = Some key" "length key = 32"
    "directory_keys ms = Inr ks" "keys = (kid, key) # ks" by (auto split: option.splits jval.splits)
  then show ?case using 2(1) [OF k(1-3)] by auto
qed simp

lemma ParseDirectory_sound:
  assumes "ParseDirectory raw = Inr keys"
  shows "keys \<noteq> [] \<and> distinct (map fst keys) \<and> (\<forall>(kid, key) \<in> set keys. validateKid kid = None \<and> length key = 32) \<and> length raw \<le> maxDirectoryBytes"
proof -
  obtain object where o: "decodeJSON (string_of_bytes raw) = Inr (VObj object)" "object \<noteq> []" "directory_keys object = Inr keys" "length raw \<le> maxDirectoryBytes"
    using assms by (auto simp: ParseDirectory_def split: sum.splits jval.splits)
  have "distinct (map fst object)" using decodeJSON_ok [OF o(1)] by simp
  then show ?thesis using directory_keys_Inr [OF o(3)] o(2,4) by auto
qed


section \<open>A concrete envelope\<close>

definition signed_doc :: "(string \<times> jval) list \<Rightarrow> string \<Rightarrow> jval" where
  "signed_doc ms g = VObj (ms @ [(''provenance'', VObj [(''signature'', VStr g)])])"

definition bare_doc :: "(string \<times> jval) list \<Rightarrow> jval" where
  "bare_doc ms = VObj (ms @ [(''provenance'', VObj [])])"

text \<open>Members in canonical form, in order, before the provenance.\<close>

definition members_ok :: "(string \<times> jval) list \<Rightarrow> bool" where
  "members_ok ms =
     (list_all (\<lambda>m. valid_utf8 (fst m) \<and> json_ok (maxNestingDepth - 1) (snd m) \<and> normal (snd m) = snd m \<and> (\<exists>t. canonicalValue (snd m) = Inr t)) ms \<and>
      sorted_wrt (<) (map (\<lambda>m. utf16_of (fst m)) ms @ [utf16_of ''provenance'']))"

definition text_of :: "jval \<Rightarrow> bytes" where
  "text_of v = (case Canonicalize v of Inr t \<Rightarrow> bytes_of_string t | Inl _ \<Rightarrow> [])"

definition toy_ed :: "bytes \<Rightarrow> ed25519" where
  "toy_ed m = \<lparr>ed_sign = (\<lambda>_ _. replicate 64 7), ed_verify = (\<lambda>_ m' g. g = replicate 64 7 \<and> (m = [] \<or> m' = m)), ed_from_seed = (\<lambda>b. b), ed_public = (\<lambda>b. b)\<rparr>"

definition toy_signer :: signer where
  "toy_signer = \<lparr>sg_kid = ''cv-0'', sg_key = replicate 64 1\<rparr>"

definition toy_keys :: directory where
  "toy_keys = [(''cv-0'', replicate 32 1)]"

lemma plain_names: "valid_utf8 ''provenance''" "valid_utf8 ''signature''" "valid_utf8 ''cv-0''" "validateKid ''cv-0'' = None"
  by (rule ascii_utf8, simp add: code_of_def, rule ascii_utf8, simp add: code_of_def, rule ascii_utf8, simp add: code_of_def, code_simp)

lemma collect_total: "list_all (\<lambda>r. \<exists>x. r = Inr x) rs \<Longrightarrow> \<exists>xs. collect rs = Inr xs"
  by (induction rs) auto

lemma canonical_object:
  assumes "list_all (\<lambda>m. valid_utf8 (fst m) \<and> json_ok (maxNestingDepth - 1) (snd m) \<and> normal (snd m) = snd m \<and> (\<exists>t. canonicalValue (snd m) = Inr t)) ms"
    "sorted_wrt (<) (map (\<lambda>m. utf16_of (fst m)) ms)"
  shows "json_ok maxNestingDepth (VObj ms)" "normal (VObj ms) = VObj ms" "\<exists>t. Canonicalize (VObj ms) = Inr t"
proof -
  have "distinct (map (\<lambda>m. utf16_of (fst m)) ms)" using assms(2) by (simp add: strict_sorted_iff)
  then have d: "distinct (map fst ms)" by (induction ms) force+
  then show "json_ok maxNestingDepth (VObj ms)" using assms(1) by (auto simp: maxNestingDepth_def list_all_iff)
  have "map (\<lambda>m. (fst m, normal (snd m))) ms = ms" using assms(1) by (intro map_idI) (auto simp: list_all_iff)
  moreover have "sort_members ms = ms" using assms(2) by (simp add: sort_members_def sort_key_id_if_sorted strict_sorted_iff)
  ultimately show "normal (VObj ms) = VObj ms" by simp
  have "\<exists>ts. collect (map canonical_member (sort_members (map (\<lambda>m. (fst m, canonicalValue (snd m))) ms))) = Inr ts"
    by (rule collect_total) (use assms(1) in \<open>fastforce simp: list_all_iff canonical_member_def\<close>)
  then show "\<exists>t. Canonicalize (VObj ms) = Inr t" by (auto simp: Canonicalize_def)
qed

lemma doc_texts:
  assumes "members_ok ms" "valid_utf8 g"
  shows "json_Decode (string_of_bytes (text_of (signed_doc ms g))) = Inr (signed_doc ms g, [])"
    "decodeJSON (string_of_bytes (text_of (signed_doc ms g))) = Inr (signed_doc ms g)" "decodeJSON (string_of_bytes (text_of (bare_doc ms))) = Inr (bare_doc ms)"
    "strip_signature (signed_doc ms g) = Inr (bare_doc ms, g)" "strip_signature (bare_doc ms) = Inr (bare_doc ms, [])"
proof -
  have ord: "sorted_wrt (<) (map (\<lambda>m. utf16_of (fst m)) (ms @ [(''provenance'', v)]))" for v :: jval
    using assms(1) by (simp add: members_ok_def)
  have v: "list_all (\<lambda>m. valid_utf8 (fst m) \<and> json_ok (maxNestingDepth - 1) (snd m) \<and> normal (snd m) = snd m \<and> (\<exists>t. canonicalValue (snd m) = Inr t)) (ms @ [(''provenance'', v)])"
    if "v \<in> {VObj [], VObj [(''signature'', VStr g)]}" for v
    using that assms plain_names by (auto simp: members_ok_def maxNestingDepth_def sort_members_def canonical_member_def)
  obtain s where s: "Canonicalize (signed_doc ms g) = Inr s" and bs: "json_ok maxNestingDepth (signed_doc ms g)" "normal (signed_doc ms g) = signed_doc ms g"
    using canonical_object [OF v ord, of "VObj [(''signature'', VStr g)]"] by (auto simp: signed_doc_def)
  obtain t where t: "Canonicalize (bare_doc ms) = Inr t" and bt: "json_ok maxNestingDepth (bare_doc ms)" "normal (bare_doc ms) = bare_doc ms"
    using canonical_object [OF v ord, of "VObj []"] by (auto simp: bare_doc_def)
  show "json_Decode (string_of_bytes (text_of (signed_doc ms g))) = Inr (signed_doc ms g, [])"
    using json_Decode_canonical [OF bs(1) s, of "[]"] bs(2) s by (simp add: text_of_def stops_def)
  show "decodeJSON (string_of_bytes (text_of (signed_doc ms g))) = Inr (signed_doc ms g)" "decodeJSON (string_of_bytes (text_of (bare_doc ms))) = Inr (bare_doc ms)"
    using decode_canonical_text [OF bs(1) s] decode_canonical_text [OF bt(1) t] bs(2) bt(2) s t by (simp_all add: text_of_def)
  have "''provenance'' \<notin> fst ` set ms" using assms(1) by (auto simp: members_ok_def sorted_wrt_append)
  then have "map_of (ms @ [(''provenance'', v)]) ''provenance'' = Some v" "put ''provenance'' w (ms @ [(''provenance'', v)]) = ms @ [(''provenance'', w)]" for v w :: jval
    by (induction ms) (auto simp: map_add_def)
  then show "strip_signature (signed_doc ms g) = Inr (bare_doc ms, g)" "strip_signature (bare_doc ms) = Inr (bare_doc ms, [])"
    by (simp_all add: strip_signature_def signed_doc_def bare_doc_def)
qed

lemma bare_same:
  assumes "members_ok ms"
  shows "same_content (bare_doc ms) (bare_doc ms)"
proof -
  have "list_all (\<lambda>m. valid_utf8 (fst m) \<and> json_ok (maxNestingDepth - 1) (snd m) \<and> normal (snd m) = snd m \<and> (\<exists>t. canonicalValue (snd m) = Inr t)) (ms @ [(''provenance'', VObj [])])"
    "sorted_wrt (<) (map (\<lambda>m. utf16_of (fst m)) (ms @ [(''provenance'', VObj [])]))"
    using assms plain_names by (simp_all add: members_ok_def maxNestingDepth_def sort_members_def)
  from canonical_object [OF this] show ?thesis unfolding bare_doc_def Canonicalize_def using normal_same [OF HOL.refl] by blast
qed

lemma b64url_ascii: "list_all (\<lambda>c. code_of c < 128) (b64url_raw_encode bs)"
proof -
  have "code_of (to_url_char (b64_char n)) < 128" if "n < 64" for n
    using b64_char_code [OF that] by (auto simp: to_url_char_def code_of_def)
  then show ?thesis using b64_encode_chars by (fastforce simp: b64url_raw_encode_def list_all_iff)
qed

lemma sample_envelope_signed:
  assumes "members_ok ms"
  obtains jws p where "SignEnvelope (toy_ed m) (\<lambda>v. Inr (text_of v)) (Some toy_signer) (bare_doc ms) = Inr jws" "valid_utf8 jws"
    "SignedPayload (text_of (bare_doc ms)) = Inr (p, [])"
proof -
  obtain t where "Canonicalize (bare_doc ms) = Inr t"
    using assms plain_names canonical_object(3) [of "ms @ [(''provenance'', VObj [])]"]
    by (auto simp: members_ok_def bare_doc_def maxNestingDepth_def sort_members_def)
  then have p: "SignedPayload (text_of (bare_doc ms)) = Inr (bytes_of_string t, [])"
    using doc_texts(3,5) [OF assms plain_names(1)] by (simp add: SignedPayload_def)
  then obtain jws where j: "SignEnvelope (toy_ed m) (\<lambda>v. Inr (text_of v)) (Some toy_signer) (bare_doc ms) = Inr jws"
    by (simp add: SignEnvelope_def Sign_def toy_signer_def Let_def)
  then have "list_all (\<lambda>c. code_of c < 128) jws"
    using b64url_ascii by (auto simp: SignEnvelope_def Sign_def signing_input_def Let_def code_of_def)
  then show thesis using that [OF j _ p] by (blast intro: ascii_utf8)
qed

lemma no_members_ok: "members_ok []"
  by (simp add: members_ok_def)

theorem SignEnvelope_verifies_witness:
  "\<exists>jws. SignEnvelope (toy_ed []) (\<lambda>v. Inr (text_of v)) (Some toy_signer) (bare_doc []) = Inr jws \<and>
     VerifyEnvelope (toy_ed []) (Some toy_keys) (text_of (signed_doc [] jws)) = Inr ()"
proof -
  obtain jws where j: "SignEnvelope (toy_ed []) (\<lambda>v. Inr (text_of v)) (Some toy_signer) (bare_doc []) = Inr jws" "valid_utf8 jws"
    by (rule sample_envelope_signed [OF no_members_ok])
  note t = doc_texts [OF no_members_ok j(2)]
  have s: "NewSigner (toy_ed []) ''cv-0'' (replicate 64 1) = Inr toy_signer" using plain_names(4) by (simp add: NewSigner_def toy_signer_def)
  have k: "map_of toy_keys ''cv-0'' = Some (replicate 32 1)" by (simp add: toy_keys_def)
  have e: "ed_verify (toy_ed []) (replicate 32 1) m (ed_sign (toy_ed []) (sg_key toy_signer) m)" "length (ed_sign (toy_ed []) (sg_key toy_signer) m) = 64" for m
    by (simp_all add: toy_ed_def)
  have "VerifyEnvelope (toy_ed []) (Some toy_keys) (text_of (signed_doc [] jws)) = Inr ()"
    by (rule SignEnvelope_verifies [OF s plain_names(3) j(1) HOL.refl t(3,5,2,4) bare_same [OF no_members_ok] k e])
  then show ?thesis using j(1) by blast
qed

text \<open>An envelope that verifies under a scheme in which only its signing input does.\<close>

lemma sample_envelope_verifies:
  assumes "members_ok ms"
  obtains m jws where "only_signed (toy_ed m) toy_keys [text_of (bare_doc ms)]" "valid_utf8 jws"
    "VerifyEnvelope (toy_ed m) (Some toy_keys) (text_of (signed_doc ms jws)) = Inr ()"
proof -
  obtain p where p: "SignedPayload (text_of (bare_doc ms)) = Inr (p, [])" by (rule sample_envelope_signed [OF assms])
  define h where "h = b64url_raw_encode (bytes_of_string (marshal_header ''cv-0''))"
  define m where "m = bytes_of_string (signing_input h p)"
  have "CHR ''.'' \<notin> set h" unfolding h_def by (rule b64url_no_dot)
  moreover have "m \<noteq> []" by (simp add: m_def signing_input_def bytes_of_string_def)
  ultimately have o: "only_signed (toy_ed m) toy_keys [text_of (bare_doc ms)]" using p unfolding only_signed_def toy_ed_def m_def by fastforce
  obtain jws where j: "SignEnvelope (toy_ed m) (\<lambda>v. Inr (text_of v)) (Some toy_signer) (bare_doc ms) = Inr jws" "valid_utf8 jws"
    by (rule sample_envelope_signed [OF assms])
  note t = doc_texts [OF assms j(2)]
  have jws: "jws = h @ ''.'' @ b64url_raw_encode p @ ''.'' @ b64url_raw_encode (replicate 64 7)"
    using j(1) p by (simp add: SignEnvelope_def Sign_def toy_signer_def toy_ed_def h_def Let_def signing_input_def)
  have "p \<noteq> []" using p canonical_nonempty by (auto elim!: SignedPayload_Inr simp: bytes_of_string_def)
  moreover have "bytes_of_string (marshal_header ''cv-0'') \<noteq> []" by (simp add: marshal_header_def bytes_of_string_def)
  ultimately have "parseJWS jws = Inr (''cv-0'', h, replicate 64 7)"
    unfolding jws h_def by (intro parseJWS_compact) (simp_all add: decode_marshal_header plain_names)
  moreover have "SignedPayload (text_of (signed_doc ms jws)) = Inr (p, jws)" by (rule payload_same [OF t(3,5,2,4) p bare_same [OF assms]])
  moreover have "jws \<noteq> []" by (simp add: jws)
  ultimately have "VerifyEnvelope (toy_ed m) (Some toy_keys) (text_of (signed_doc ms jws)) = Inr ()"
    by (simp add: VerifyEnvelope_def Verify_def toy_keys_def toy_ed_def m_def)
  then show thesis using that o j(2) by blast
qed

end
