(* ===== verification/GoTime.thy ===== *)
theory GoTime
  imports Feed GoText "HOL-Library.Monad_Syntax"
begin

text \<open>
  \<open>time.Parse(time.RFC3339, _)\<close>, which the consumers apply to the times of other services:
  the general layout parser on the layout \<open>2006-01-02T15:04:05Z07:00\<close>, with what it tolerates
  beyond the layout (an hour of one digit, a fraction of a second after a period or a comma,
  offsets up to 24:60). It inverts \<open>Time.Format\<close>, so a printed time names its instant.
\<close>

section \<open>Parsing\<close>

definition dig :: "char \<Rightarrow> int" where
  "dig c = int (code_of c) - 48"

text \<open>\<open>getnum\<close>: one or two digits, exactly two when fixed.\<close>

definition getnum :: "bool \<Rightarrow> string \<Rightarrow> (int \<times> string) option" where
  "getnum fixed s =
     (case s of
        [] \<Rightarrow> None
      | a # r \<Rightarrow>
          if \<not> is_digit a then None
          else (case r of
                  [] \<Rightarrow> if fixed then None else Some (dig a, r)
                | b # r' \<Rightarrow> if is_digit b then Some (10 * dig a + dig b, r') else if fixed then None else Some (dig a, r)))"

definition in_bounds :: "int \<Rightarrow> int \<Rightarrow> int \<times> string \<Rightarrow> (int \<times> string) option" where
  "in_bounds lo hi p = (if lo \<le> fst p \<and> fst p \<le> hi then Some p else None)"

definition lit :: "char \<Rightarrow> string \<Rightarrow> string option" where
  "lit c s = (case s of [] \<Rightarrow> None | a # r \<Rightarrow> if a = c then Some r else None)"

definition get_year :: "string \<Rightarrow> (int \<times> string) option" where
  "get_year s = (if length s < 4 then None else map_option (\<lambda>y. (y, drop 4 s)) (digits_value (take 4 s)))"

text \<open>A fraction is read even though the layout has none; digits beyond the ninth are dropped.\<close>

definition get_fraction :: "string \<Rightarrow> int \<times> string" where
  "get_fraction s =
     (case s of
        c # d # r \<Rightarrow>
          if (c = CHR ''.'' \<or> c = CHR '','') \<and> is_digit d
          then (let ds = takeWhile is_digit (d # r); kept = take 9 ds
                in (the (digits_value kept) * 10 ^ (9 - length kept), drop (length ds) (d # r)))
          else (0, s)
      | _ \<Rightarrow> (0, s))"

definition get_zone :: "string \<Rightarrow> (int \<times> string) option" where
  "get_zone s =
     (if s \<noteq> [] \<and> hd s = CHR ''Z'' then Some (0, tl s)
      else (case s of
              g # h1 # h2 # c # m1 # m2 # r \<Rightarrow>
                if c \<noteq> CHR '':'' then None
                else do {
                  (hr, _) \<leftarrow> getnum True [h1, h2] \<bind> in_bounds 0 24;
                  (mm, _) \<leftarrow> getnum True [m1, m2] \<bind> in_bounds 0 60;
                  if g = CHR ''+'' then Some ((hr * 60 + mm) * 60, r)
                  else if g = CHR ''-'' then Some (- ((hr * 60 + mm) * 60), r)
                  else None
                }
            | _ \<Rightarrow> None))"

section \<open>Calendar\<close>

definition days_before_year :: "int \<Rightarrow> int" where
  "days_before_year y = 365 * (y - 1) + (y - 1) div 4 - (y - 1) div 100 + (y - 1) div 400"

definition daysIn :: "int \<Rightarrow> int \<Rightarrow> int" where
  "daysIn m y = month_lengths (is_leap y) ! nat (m - 1)"

definition days_before :: "int \<Rightarrow> int \<Rightarrow> int" where
  "days_before y m = days_before_year y + sum_list (take (nat (m - 1)) (month_lengths (is_leap y)))"

text \<open>\<open>time.Date\<close> in UTC of a date and a time of day that are in range.\<close>

definition time_Date :: "int \<Rightarrow> int \<Rightarrow> int \<Rightarrow> int \<Rightarrow> int \<Rightarrow> int \<Rightarrow> int \<Rightarrow> gotime" where
  "time_Date y m d h mi s ns = (days_before y m + d - 1) * (24 * hour) + h * hour + mi * minute + s * second + ns"

definition time_Parse :: "string \<Rightarrow> gotime option" where
  "time_Parse value = do {
     (y, r) \<leftarrow> get_year value;
     r \<leftarrow> lit (CHR ''-'') r;
     (m, r) \<leftarrow> getnum True r \<bind> in_bounds 1 12;
     r \<leftarrow> lit (CHR ''-'') r;
     (d, r) \<leftarrow> getnum True r;
     r \<leftarrow> lit (CHR ''T'') r;
     (h, r) \<leftarrow> getnum False r \<bind> in_bounds 0 23;
     r \<leftarrow> lit (CHR '':'') r;
     (mi, r) \<leftarrow> getnum True r \<bind> in_bounds 0 59;
     r \<leftarrow> lit (CHR '':'') r;
     (s, r) \<leftarrow> getnum True r \<bind> in_bounds 0 59;
     (ns, r) \<leftarrow> Some (get_fraction r);
     (offset, r) \<leftarrow> get_zone r;
     if r \<noteq> [] \<or> d < 1 \<or> daysIn m y < d then None
     else Some (time_Date y m d h mi s ns - offset * second)
   }"

lemma time_Parse_samples:
  "time_Parse ''2024-12-31T23:59:59.12Z'' = Some (unix_epoch + 1735689599 * second + 120000000)"
  "time_Parse ''2025-01-01T1:59:59,12+02:00'' = Some (unix_epoch + 1735689599 * second + 120000000)"
  "time_Parse ''2023-02-29T00:00:00Z'' = None"
  by code_simp+

section \<open>Digits\<close>

definition dval :: "string \<Rightarrow> int" where
  "dval s = fold (\<lambda>c n. 10 * n + dig c) s 0"

lemma dval_snoc [simp]: "dval (s @ [c]) = 10 * dval s + dig c"
  by (simp add: dval_def)

lemma dval_zeros [simp]: "dval (replicate k (CHR ''0'') @ s) = dval s"
  by (induction k) (simp_all add: dval_def dig_def code_of_def)

lemma digits_value_dval: "digits_value s = (if s = [] \<or> \<not> list_all is_digit s then None else Some (dval s))"
  by (simp add: digits_value_def dval_def dig_def)

lemma dig_dec_digit: assumes "0 \<le> n" "n < 10" shows "dig (dec_digit n) = n \<and> is_digit (dec_digit n)"
proof -
  have "n \<in> {0,1,2,3,4,5,6,7,8,9}" using assms by simp presburger
  then show ?thesis by (auto simp: dig_def dec_digit_def is_digit_def code_of_def)
qed

lemma show_dec_value: "0 \<le> n \<Longrightarrow> dval (show_dec n) = n \<and> list_all is_digit (show_dec n) \<and> show_dec n \<noteq> []"
proof (induction n rule: show_dec.induct)
  case (1 i)
  show ?case
  proof (cases "i < 10")
    case True then show ?thesis using 1(2) dig_dec_digit [of i] by (simp add: show_dec.simps [of i] dval_def)
  next
    case False
    then show ?thesis using 1 dig_dec_digit [of "i mod 10"] by (simp add: show_dec.simps [of i])
  qed
qed

lemma show_dec_length: "0 \<le> n \<Longrightarrow> n < 10 ^ w \<Longrightarrow> 0 < w \<Longrightarrow> length (show_dec n) \<le> w"
proof (induction n arbitrary: w rule: show_dec.induct)
  case (1 i)
  show ?case
  proof (cases "i < 10")
    case True then show ?thesis using 1(4) by (simp add: show_dec.simps [of i])
  next
    case False
    then obtain v where v: "w = Suc v" "0 < v" using 1(3,4) by (cases w; cases "w - 1") auto
    then have "i div 10 < 10 ^ v" using 1(3) by (simp add: div_less_iff_less_mult mult.commute)
    then show ?thesis using 1(1) [of v] False 1(2) v by (simp add: show_dec.simps [of i])
  qed
qed

lemma pad_int_ok:
  assumes "0 \<le> n" "n < 10 ^ w" "0 < w"
  shows "length (pad_int w n) = w" "dval (pad_int w n) = n" "list_all is_digit (pad_int w n)"
proof -
  show "length (pad_int w n) = w" using show_dec_length [OF assms] by (simp add: pad_int_def)
  show "dval (pad_int w n) = n" using show_dec_value [OF assms(1)] by (simp add: pad_int_def)
  show "list_all is_digit (pad_int w n)" using show_dec_value [OF assms(1)] by (auto simp: pad_int_def list_all_iff is_digit_def code_of_def)
qed

lemma getnum_pad:
  assumes "0 \<le> n" "n < 100"
  shows "getnum fixed (pad_int 2 n @ r) = Some (n, r)"
proof -
  note p = pad_int_ok [of n 2] 
  obtain a b where ab: "pad_int 2 n = [a, b]" using p(1) assms by (auto simp: numeral_2_eq_2 length_Suc_conv)
  have "is_digit a" "is_digit b" "10 * dig a + dig b = n" using p(2,3) assms ab by (simp_all add: dval_def)
  then show ?thesis by (simp add: getnum_def ab)
qed

lemma get_year_pad: "0 \<le> y \<Longrightarrow> y < 10000 \<Longrightarrow> get_year (show_year y @ r) = Some (y, r)"
  using pad_int_ok [of y 4] by (auto simp: get_year_def show_year_def digits_value_dval)

lemma takeWhile_digits: "list_all P xs \<Longrightarrow> (r = [] \<or> \<not> P (hd r)) \<Longrightarrow> takeWhile P (xs @ r) = xs"
  by (induction xs) (auto, cases r, auto)

lemma dval_shift: "dval (p @ replicate k (CHR ''0'')) = dval p * 10 ^ k"
proof (induction k)
  case (Suc k)
  have "dval (p @ replicate (Suc k) (CHR ''0'')) = dval ((p @ replicate k (CHR ''0'')) @ [CHR ''0''])"
    by (simp only: replicate_append_same [symmetric] append_assoc replicate_Suc)
  then show ?case using Suc by (simp only: dval_snoc) (simp add: dig_def code_of_def)
qed simp

lemma get_fraction_show:
  assumes "0 \<le> ns" "ns < 10 ^ 9"
  shows "get_fraction (show_fraction ns @ ''Z'') = (ns, ''Z'')"
proof (cases "ns = 0")
  case True then show ?thesis by (simp add: show_fraction_def get_fraction_def)
next
  case False
  let ?zero = "\<lambda>c. c = CHR ''0''"
  define s where "s = pad_int 9 ns"
  define p where "p = rev (dropWhile ?zero (rev s))"
  define k where "k = length (takeWhile ?zero (rev s))"
  have s: "length s = 9" "dval s = ns" "list_all is_digit s" using pad_int_ok [of ns 9] assms by (simp_all add: s_def)
  have "takeWhile ?zero (rev s) = replicate k (CHR ''0'')"
    unfolding k_def by (rule replicate_eqI [OF HOL.refl, symmetric, THEN sym]) (auto dest: set_takeWhileD)
  then have split: "s = p @ replicate k (CHR ''0'')"
    by (metis p_def rev_append rev_replicate rev_rev_ident takeWhile_dropWhile_id)
  have len: "length p + k = 9" using s(1) split by (metis length_append length_replicate)
  have v: "dval p * 10 ^ k = ns" using s(2) split dval_shift by metis
  have "p \<noteq> []" using v False by (auto simp: dval_def)
  then obtain a q where a: "p = a # q" by (cases p) auto
  have d: "list_all is_digit p" using s(3) split by (metis list_all_append)
  have "takeWhile is_digit (p @ ''Z'') = p" using takeWhile_digits [OF d, of "''Z''"] by (simp add: is_digit_def code_of_def)
  then have tw: "takeWhile is_digit (a # q @ ''Z'') = p" by (simp add: a)
  have "show_fraction ns = CHR ''.'' # p" using False by (simp add: show_fraction_def p_def s_def)
  then show ?thesis
    using tw d len v by (auto simp: get_fraction_def a digits_value_dval Let_def)
qed

section \<open>Calendar\<close>

lemma year_parts:
  fixes a b c e :: int
  assumes "0 \<le> b" "b \<le> 3" "0 \<le> c" "c \<le> 24" "0 \<le> e" "e \<le> 3"
  defines "y \<equiv> 400 * a + 100 * b + 4 * c + e + 1"
  shows "days_before_year y = 146097 * a + 36524 * b + 1461 * c + 365 * e"
    and "is_leap y \<longleftrightarrow> e = 3 \<and> (c \<noteq> 24 \<or> b = 3)"
proof -
  have q: "(y - 1) div 4 = 100 * a + 25 * b + c" "(y - 1) div 100 = 4 * a + b" "(y - 1) div 400 = a"
    by (rule int_div_pos_eq [of _ _ _ e] int_div_pos_eq [of _ _ _ "4 * c + e"] int_div_pos_eq [of _ _ _ "100 * b + 4 * c + e"]; use assms in simp)+
  show "days_before_year y = 146097 * a + 36524 * b + 1461 * c + 365 * e"
    unfolding days_before_year_def q using y_def by simp
  have small: "n dvd n * k + r \<longleftrightarrow> r = n" if "0 < r" "r \<le> n" for n k r :: int
    using that zdvd_imp_le [of n r] by (auto simp: dvd_add_right_iff)
  have "4 dvd y \<longleftrightarrow> e = 3" using small [of "e + 1" 4 "100 * a + 25 * b + c"] assms(5,6) by (simp add: y_def add.assoc)
  moreover have "100 dvd y \<longleftrightarrow> c = 24" if "e = 3" using small [of "4 * c + 4" 100 "4 * a + b"] assms(3,4) that by (simp add: y_def add.assoc)
  moreover have "400 dvd y \<longleftrightarrow> b = 3" if "e = 3" "c = 24" using small [of "100 * b + 100" 400 a] assms(1,2) that by (simp add: y_def add.assoc)
  ultimately show "is_leap y \<longleftrightarrow> e = 3 \<and> (c \<noteq> 24 \<or> b = 3)" unfolding is_leap_def by blast
qed

lemma div_parts:
  fixes x n :: int
  assumes "0 < n"
  obtains q r where "x div n = q" "x = n * q + r" "0 \<le> r" "r < n"
  using assms by (metis mult_div_mod_eq pos_mod_bound pos_mod_sign)

lemma year_and_day_ok:
  assumes "year_and_day d = (y, yd)"
  shows "d = days_before_year y + yd \<and> 0 \<le> yd \<and> yd < sum_list (month_lengths (is_leap y))"
proof -
  define a where "a = d div 146097"
  define d1 where "d1 = d mod 146097"
  define b where "b = min 3 (d1 div 36524)"
  define d2 where "d2 = d1 - 36524 * b"
  define c where "c = d2 div 1461"
  define d3 where "d3 = d2 - 1461 * c"
  define e where "e = min 3 (d3 div 365)"
  have "400 * a + 100 * b + 4 * c + e + 1 = y \<and> d3 - 365 * e = yd"
    using assms unfolding year_and_day_def Let_def prod.inject e_def d3_def c_def d2_def b_def d1_def a_def .
  then have y: "y = 400 * a + 100 * b + 4 * c + e + 1" "yd = d3 - 365 * e" by simp_all
  have d1: "d = 146097 * a + d1" "0 \<le> d1" "d1 < 146097" by (simp_all add: a_def d1_def)
  obtain q1 r1 where q1: "d1 div 36524 = q1" "d1 = 36524 * q1 + r1" "0 \<le> r1" "r1 < 36524" by (rule div_parts [of 36524 d1]) simp
  have b: "0 \<le> b" "b \<le> 3" "0 \<le> d2" "d2 \<le> 36524" "b < 3 \<Longrightarrow> d2 < 36524"
    using d1 q1(2-4) unfolding d2_def b_def q1(1) by linarith+
  obtain r2 where q2: "d2 = 1461 * c + r2" "0 \<le> r2" "r2 < 1461" unfolding c_def by (rule div_parts [of 1461 d2]) simp_all
  have c: "0 \<le> c" "c \<le> 24" "0 \<le> d3" "d3 \<le> 1460" "b < 3 \<Longrightarrow> c = 24 \<Longrightarrow> d3 < 1460"
    using b(3-5) q2 unfolding d3_def by linarith+
  obtain q3 r3 where q3: "d3 div 365 = q3" "d3 = 365 * q3 + r3" "0 \<le> r3" "r3 < 365" by (rule div_parts [of 365 d3]) simp
  have e: "0 \<le> e" "e \<le> 3" "0 \<le> d3 - 365 * e" "d3 - 365 * e \<le> 365" "e < 3 \<Longrightarrow> d3 - 365 * e < 365"
    using c(3,4) q3(2-4) unfolding e_def q3(1) by linarith+
  note p = year_parts [OF b(1,2) c(1,2) e(1,2), of a, folded y(1)]
  have "d3 = 1460 \<Longrightarrow> c \<noteq> 24 \<or> b = 3" using c(5) b(2) by linarith
  moreover have "e = 3 \<and> d3 = 1460" if "yd = 365" using that e(1,2,5) y(2) by force
  moreover have "d = days_before_year y + yd" using d1(1) p(1) y(2) by (simp add: d3_def d2_def)
  moreover have "sum_list (month_lengths (is_leap y)) = 365 + (if is_leap y then 1 else 0)" by (simp add: month_lengths_def)
  moreover have "0 \<le> yd" "yd \<le> 365" using e(3,4) y(2) by simp_all
  ultimately show ?thesis using p(2) by (cases "yd = 365") auto
qed

lemma div_step:
  fixes y n :: int
  assumes "0 < n"
  shows "y div n = (y - 1) div n + (if n dvd y then 1 else 0)"
proof (cases "n dvd y")
  case True
  then obtain k where k: "y = n * k" by blast
  have "(y - 1) div n = k - 1" by (rule int_div_pos_eq [of _ _ _ "n - 1"]) (use assms k in \<open>simp_all add: algebra_simps\<close>)
  then show ?thesis using True k assms by simp
next
  case False
  then have "y mod n \<noteq> 0" by (simp add: dvd_eq_mod_eq_0)
  then have "0 \<le> y mod n - 1" using pos_mod_sign [OF assms, of y] by linarith
  then have "(y - 1) div n = y div n"
    by (intro int_div_pos_eq [of _ _ _ "y mod n - 1"]) (use pos_mod_bound [OF assms, of y] in auto)
  then show ?thesis using False by simp
qed

lemma days_before_year_step: "days_before_year (y + 1) = days_before_year y + sum_list (month_lengths (is_leap y))"
proof -
  obtain p q r where pqr: "(y - 1) div 4 = p" "(y - 1) div 100 = q" "(y - 1) div 400 = r" by blast
  have st: "y div 4 = p + (if 4 dvd y then 1 else 0)" "y div 100 = q + (if 100 dvd y then 1 else 0)" "y div 400 = r + (if 400 dvd y then 1 else 0)"
    using div_step [of 4 y] div_step [of 100 y] div_step [of 400 y] pqr by simp_all
  have "days_before_year (y + 1) = 365 * y + y div 4 - y div 100 + y div 400" by (simp add: days_before_year_def)
  then have f: "days_before_year (y + 1) = 365 * y + (p + (if 4 dvd y then 1 else 0)) - (q + (if 100 dvd y then 1 else 0)) + (r + (if 400 dvd y then 1 else 0))"
    by (simp only: st)
  have g: "days_before_year y = 365 * (y - 1) + p - q + r" unfolding days_before_year_def pqr ..
  have "400 dvd y \<Longrightarrow> 100 dvd y" "100 dvd y \<Longrightarrow> 4 dvd y" by (erule dvd_trans [rotated]; simp)+
  moreover have "sum_list (month_lengths (is_leap y)) = 365 + (if is_leap y then 1 else 0)" by (simp add: month_lengths_def)
  moreover obtain A B C where abc: "(4 dvd y) = A" "(100 dvd y) = B" "(400 dvd y) = C" by blast
  ultimately show ?thesis unfolding f g is_leap_def abc by (cases A; cases B; cases C) simp_all
qed

lemma days_before_year_mono: "x \<le> y \<Longrightarrow> days_before_year x \<le> days_before_year y"
proof (induction y rule: int_ge_induct)
  case (step i)
  have "0 \<le> sum_list (month_lengths (is_leap i))" by (simp add: month_lengths_def)
  then show ?case using step days_before_year_step [of i] by linarith
qed simp

lemma month_and_day_ok:
  "month_and_day ls m d = (m', d') \<Longrightarrow> 0 \<le> d \<Longrightarrow> d < sum_list ls \<Longrightarrow>
     \<exists>k < length ls. m' = m + int k \<and> d = sum_list (take k ls) + d' - 1 \<and> 1 \<le> d' \<and> d' \<le> ls ! k"
proof (induction ls m d rule: month_and_day.induct)
  case (2 l ls m d)
  show ?case
  proof (cases "d < l")
    case True then show ?thesis using 2(2-4) by (intro exI [of _ 0]) auto
  next
    case False
    then obtain k where "k < length ls" "m' = m + 1 + int k" "d - l = sum_list (take k ls) + d' - 1" "1 \<le> d'" "d' \<le> ls ! k"
      using 2 by auto
    then show ?thesis by (intro exI [of _ "Suc k"]) auto
  qed
qed auto

lemma day_bound: "k < 12 \<Longrightarrow> month_lengths leap ! k \<le> 31"
  by (cases leap) (auto simp: month_lengths_def less_Suc_eq_0_disj numeral_eq_Suc nth_Cons split: nat.splits)

lemma time_of_day:
  fixes r :: int
  assumes "0 \<le> r" "r < 24 * hour"
  shows "0 \<le> r div hour" "r div hour < 24"
    and "r div hour * hour + r div minute mod 60 * minute + r div second mod 60 * second + r mod second = r"
proof -
  show "0 \<le> r div hour" "r div hour < 24" using assms by (simp_all add: duration_defs div_less_iff_less_mult pos_imp_zdiv_nonneg_iff)
  have "r div hour = r div minute div 60" "r div minute = r div second div 60" by (simp_all add: duration_defs zdiv_zmult2_eq [symmetric])
  then show "r div hour * hour + r div minute mod 60 * minute + r div second mod 60 * second + r mod second = r"
    using mult_div_mod_eq [of second r] mult_div_mod_eq [of 60 "r div second"] mult_div_mod_eq [of 60 "r div minute"]
    unfolding duration_defs by linarith
qed

text \<open>The years that RFC 3339 can write.\<close>

definition printable_time :: "gotime \<Rightarrow> bool" where
  "printable_time t = (days_before_year 0 * (24 * hour) \<le> t \<and> t < days_before_year 10000 * (24 * hour))"

lemma Parse_format:
  assumes "printable_time t"
  shows "time_Parse (format_rfc3339nano t) = Some t"
proof -
  define day r where "day = t div (24 * hour)" and "r = t mod (24 * hour)"
  obtain y yd where y: "year_and_day day = (y, yd)" by (cases "year_and_day day")
  obtain m d where m: "month_and_day (month_lengths (is_leap y)) 1 yd = (m, d)" by (cases "month_and_day (month_lengths (is_leap y)) 1 yd")
  note yk = year_and_day_ok [OF y]
  obtain k where k: "k < 12" "m = 1 + int k" "yd = sum_list (take k (month_lengths (is_leap y))) + d - 1" "1 \<le> d" "d \<le> month_lengths (is_leap y) ! k"
    using month_and_day_ok [OF m] yk by (auto simp: month_lengths_def)
  have t: "t = day * (24 * hour) + r" "0 \<le> r" "r < 24 * hour" by (simp_all add: day_def r_def duration_defs)
  have dr: "days_before_year 0 \<le> day" "day < days_before_year 10000"
    using assms t unfolding duration_defs printable_time_def by linarith+
  have "days_before_year y \<le> day" "day < days_before_year (y + 1)" using yk days_before_year_step [of y] by linarith+
  then have yr: "0 \<le> y" "y < 10000"
    using dr days_before_year_mono [of "y + 1" 0] days_before_year_mono [of 10000 y] by linarith+
  note tod = time_of_day [OF t(2,3)]
  have "0 \<le> r mod second" "r mod second < 10 ^ 9" by (simp_all add: duration_defs)
  note frac = get_fraction_show [OF this]
  have d: "0 \<le> d" "d < 100" "0 \<le> m" "m < 100" using k day_bound [OF k(1), of "is_leap y"] by auto
  have "time_Date y m d (r div hour) (r div minute mod 60) (r div second mod 60) (r mod second) = t"
  proof -
    have "days_before y m + d - 1 = day" using yk k(2,3) by (simp add: days_before_def)
    then show ?thesis unfolding time_Date_def using tod(3) t(1) by (simp only: add.assoc)
  qed
  moreover have "r div minute mod 60 \<le> 59" "r div second mod 60 \<le> 59"
    using pos_mod_bound [of 60 "r div minute"] pos_mod_bound [of 60 "r div second"] by simp_all
  ultimately show ?thesis
    using k(1,2,4,5) tod(1,2) d yr
    by (simp add: time_Parse_def format_rfc3339nano_def Let_def day_def [symmetric] r_def [symmetric] y m get_year_pad getnum_pad in_bounds_def lit_def frac
      get_zone_def daysIn_def)
qed

section \<open>Properties\<close>



lemma format_inject:
  assumes "printable_time t" "printable_time u" "format_rfc3339nano t = format_rfc3339nano u"
  shows "t = u"
  using Parse_format [OF assms(1)] Parse_format [OF assms(2)] assms(3) by (metis option.inject)

lemma feed_preimage_exact:
  assumes "incidentIDPattern s1" "incidentIDPattern e1" "incidentIDPattern s2" "incidentIDPattern e2" "printable_time t1" "printable_time t2"
    and "feedSigningBytes c s1 e1 t1 p1 = feedSigningBytes c s2 e2 t2 p2"
  shows "s1 = s2 \<and> e1 = e2 \<and> t1 = t2 \<and> sha256_text c p1 = sha256_text c p2"
  using feedSigningBytes_separates [OF assms(1-4,7)] format_inject [OF assms(5,6)] by blast

end
