(* ===== verification/JsonStruct.thy ===== *)
theory JsonStruct
  imports Provenance
begin

text \<open>
  \<open>json.Unmarshal\<close> into Go structs, as the consumers use it: members are matched to fields by
  their exact name or else under case folding, members without a field are skipped (or refused,
  under \<open>DisallowUnknownFields\<close>), a null leaves a scalar as it is, a later member decodes over
  what an earlier one left, and any value of the wrong type makes the whole call fail. The target
  of a failed call is never read, so failing is the value None.
\<close>

section \<open>Values\<close>

type_synonym 'a decoder = "jval \<Rightarrow> 'a \<Rightarrow> 'a option"

definition into_string :: "string decoder" where
  "into_string v s = (case v of VStr t \<Rightarrow> Some t | VNull \<Rightarrow> Some s | _ \<Rightarrow> None)"

definition into_float :: "f64 decoder" where
  "into_float v x = (case v of VNum t \<Rightarrow> map_option Fin (ParseFloat t) | VNull \<Rightarrow> Some x | _ \<Rightarrow> None)"

definition into_int64 :: "int decoder" where
  "into_int64 v i = (case v of VNum t \<Rightarrow> atoi t | VNull \<Rightarrow> Some i | _ \<Rightarrow> None)"

text \<open>
  \<open>json.RawMessage\<close> keeps the text of the member, null included; it is represented by its
  parse, and by None while no member has been seen.
\<close>

definition into_raw :: "jval option decoder" where
  "into_raw v r = Some (Some v)"

text \<open>
  A slice is its elements and the elements that its array still holds beyond its length: an
  element is decoded over what the array has at its place.
\<close>

type_synonym 'a slice = "'a list \<times> 'a list"

fun into_elements :: "'a decoder \<Rightarrow> 'a \<Rightarrow> jval list \<Rightarrow> 'a list \<Rightarrow> 'a slice option" where
  "into_elements f zero [] old = Some ([], old)"
| "into_elements f zero (v # vs) old =
     (case f v (case old of [] \<Rightarrow> zero | x # _ \<Rightarrow> x) of
        None \<Rightarrow> None
      | Some y \<Rightarrow> map_option (\<lambda>(ys, rest). (y # ys, rest)) (into_elements f zero vs (tl old)))"

definition into_slice :: "'a decoder \<Rightarrow> 'a \<Rightarrow> 'a slice decoder" where
  "into_slice f zero v s =
     (case v of
        VNull \<Rightarrow> Some ([], [])
      | VArr [] \<Rightarrow> Some ([], [])
      | VArr vs \<Rightarrow> into_elements f zero vs (fst s @ snd s)
      | _ \<Rightarrow> None)"

section \<open>Structs\<close>

type_synonym 's fields = "(string \<times> 's decoder) list"

text \<open>One field of a struct: its getter, its update and the decoder of its type.\<close>

definition field :: "('s \<Rightarrow> 'a) \<Rightarrow> (('a \<Rightarrow> 'a) \<Rightarrow> 's \<Rightarrow> 's) \<Rightarrow> 'a decoder \<Rightarrow> 's decoder" where
  "field get upd f v s = map_option (\<lambda>x. upd (\<lambda>_. x) s) (f v (get s))"

definition find_field :: "'s fields \<Rightarrow> string \<Rightarrow> 's decoder option" where
  "find_field fs k =
     (case map_of fs k of
        Some g \<Rightarrow> Some g
      | None \<Rightarrow> map_of (map (\<lambda>(n, g). (fold_name n, g)) fs) (fold_name k))"

fun into_members :: "bool \<Rightarrow> 's fields \<Rightarrow> (string \<times> jval) list \<Rightarrow> 's \<Rightarrow> 's option" where
  "into_members strict fs [] s = Some s"
| "into_members strict fs ((k, v) # ms) s =
     (case find_field fs k of
        None \<Rightarrow> if strict then None else into_members strict fs ms s
      | Some g \<Rightarrow> (case g v s of None \<Rightarrow> None | Some s' \<Rightarrow> into_members strict fs ms s'))"

definition into_struct :: "bool \<Rightarrow> 's fields \<Rightarrow> 's decoder" where
  "into_struct strict fs v s = (case v of VObj ms \<Rightarrow> into_members strict fs ms s | VNull \<Rightarrow> Some s | _ \<Rightarrow> None)"

text \<open>\<open>Unmarshal\<close> wants one document and nothing but white space after it.\<close>

definition json_Unmarshal :: "'a decoder \<Rightarrow> string \<Rightarrow> 'a \<Rightarrow> 'a option" where
  "json_Unmarshal f raw zero =
     (case json_Decode raw of
        Inr (v, r) \<Rightarrow> if skip_ws r = [] then f v zero else None
      | Inl _ \<Rightarrow> None)"

end
