(* ===== verification/CvConsumer.thy ===== *)
theory CvConsumer
  imports GoTime JsonStruct Workflow TrackStore
begin

text \<open>
  \<open>internal/cvconsumer/cvconsumer.go\<close> and the loop of \<open>cmd/cv-consumer/main.go\<close>: signed
  envelopes of the computer-vision service are verified, decoded and routed to the fusion engine,
  the anomaly recorder and the starter of the response workflow. The recorder, the starter and the
  rejection counter are interfaces of the source and arguments here; Temporal's \<open>ExecuteWorkflow\<close>
  and the messages that the Kafka reader fetches are arguments too. One handler call is one step:
  its two goroutines share only the engine, which one of them uses, and the store, whose
  operations are transactions.
\<close>

section \<open>Constants\<close>

definition TopicVesselDetection :: string where "TopicVesselDetection = ''cv.vessel-detection.v1''"
definition TopicDarkVessel :: string where "TopicDarkVessel = ''cv.dark-vessel.v1''"

definition RejectSignature :: string where "RejectSignature = ''signature-verification-failed''"
definition RejectMalformed :: string where "RejectMalformed = ''malformed-envelope''"
definition RejectUnknownType :: string where "RejectUnknownType = ''unknown-event-type''"
definition RejectClassification :: string where "RejectClassification = ''unmapped-classification''"
definition RejectPayload :: string where "RejectPayload = ''invalid-payload''"

section \<open>Consumer\<close>

record ('d, 'w, 'r) consumer =
  cn_ed :: ed25519
  cn_math :: math_fns
  cn_directory :: "directory option"
  cn_recorder :: "db_env \<Rightarrow> anomaly list \<Rightarrow> 'd \<Rightarrow> unit result \<times> 'd"
  cn_starter :: "alert_input \<Rightarrow> 'w \<Rightarrow> unit result \<times> 'w"
  cn_rejections :: "string \<Rightarrow> string \<Rightarrow> 'r \<Rightarrow> 'r"

text \<open>What the handlers change.\<close>

record ('d, 'w, 'r) cv_state =
  cv_engine :: engine
  cv_store :: 'd
  cv_temporal :: 'w
  cv_rejected :: 'r

text \<open>What one call observes: the clock, the engine's map orders and fresh id, the database.\<close>

record cv_env =
  ce_now :: gotime
  ce_order1 :: "string list"
  ce_order2 :: "string list"
  ce_new_id :: string
  ce_db :: db_env

definition noopRejections :: "string \<Rightarrow> string \<Rightarrow> 'r \<Rightarrow> 'r" where
  "noopRejections topic reason r = r"

definition cv_New ::
  "ed25519 \<Rightarrow> math_fns \<Rightarrow> directory option \<Rightarrow> engine option \<Rightarrow> (db_env \<Rightarrow> anomaly list \<Rightarrow> 'd \<Rightarrow> unit result \<times> 'd) option \<Rightarrow>
   (alert_input \<Rightarrow> 'w \<Rightarrow> unit result \<times> 'w) option \<Rightarrow> (string \<Rightarrow> string \<Rightarrow> 'r \<Rightarrow> 'r) option \<Rightarrow> bool \<Rightarrow> ('d, 'w, 'r) consumer result" where
  "cv_New ed mf dir eng recorder starter rejections hasNewID =
     require (dir \<noteq> None) (EMsg ''cv consumer requires a provenance key directory'')
      (require (eng \<noteq> None) (EMsg ''cv consumer requires a track-fusion engine'')
       (case recorder of
          None \<Rightarrow> Inl (EMsg ''cv consumer requires an anomaly recorder'')
        | Some rc \<Rightarrow>
            (case starter of
               None \<Rightarrow> Inl (EMsg ''cv consumer requires an ISR workflow starter'')
             | Some st \<Rightarrow>
                 require hasNewID (EMsg ''cv consumer requires an ID generator'')
                  (Inr \<lparr>cn_ed = ed, cn_math = mf, cn_directory = dir, cn_recorder = rc, cn_starter = st,
                        cn_rejections = (case rejections of None \<Rightarrow> noopRejections | Some g \<Rightarrow> g)\<rparr>))))"

section \<open>Envelopes\<close>

record view_entry =
  fe_resource :: "jval option"

record view_bundle =
  fb_resource_type :: string
  fb_type :: string
  fb_entry :: "view_entry slice"

record envelopeView =
  ev_version :: string
  ev_event_id :: string
  ev_event_type :: string
  ev_occurred_at :: string
  ev_producer :: string
  ev_classification :: string
  ev_fhir :: view_bundle

definition entry_fields :: "view_entry fields" where
  "entry_fields = [(''resource'', field fe_resource fe_resource_update into_raw)]"

definition bundle_fields :: "view_bundle fields" where
  "bundle_fields =
     [(''resourceType'', field fb_resource_type fb_resource_type_update into_string),
      (''type'', field fb_type fb_type_update into_string),
      (''entry'', field fb_entry fb_entry_update (into_slice (into_struct False entry_fields) \<lparr>fe_resource = None\<rparr>))]"

definition view_fields :: "envelopeView fields" where
  "view_fields =
     [(''envelopeVersion'', field ev_version ev_version_update into_string),
      (''eventId'', field ev_event_id ev_event_id_update into_string),
      (''eventType'', field ev_event_type ev_event_type_update into_string),
      (''occurredAt'', field ev_occurred_at ev_occurred_at_update into_string),
      (''producer'', field ev_producer ev_producer_update into_string),
      (''classification'', field ev_classification ev_classification_update into_string),
      (''fhir'', field ev_fhir ev_fhir_update (into_struct False bundle_fields))]"

definition zero_view :: envelopeView where
  "zero_view =
     \<lparr>ev_version = [], ev_event_id = [], ev_event_type = [], ev_occurred_at = [], ev_producer = [], ev_classification = [],
      ev_fhir = \<lparr>fb_resource_type = [], fb_type = [], fb_entry = ([], [])\<rparr>\<rparr>"

definition decode_view :: "bytes \<Rightarrow> envelopeView option" where
  "decode_view raw = json_Unmarshal (into_struct False view_fields) (string_of_bytes raw) zero_view"

definition reject :: "('d, 'w, 'r) consumer \<Rightarrow> string \<Rightarrow> string \<Rightarrow> ('d, 'w, 'r) cv_state \<Rightarrow> ('d, 'w, 'r) cv_state" where
  "reject cn topic reason st = st\<lparr>cv_rejected := cn_rejections cn topic reason (cv_rejected st)\<rparr>"

definition cv_verify ::
  "('d, 'w, 'r) consumer \<Rightarrow> string \<Rightarrow> bytes \<Rightarrow> string \<Rightarrow> ('d, 'w, 'r) cv_state \<Rightarrow> envelopeView result \<times> ('d, 'w, 'r) cv_state" where
  "cv_verify cn topic raw wantType st =
     (case VerifyEnvelope (cn_ed cn) (cn_directory cn) raw of
        Inl e \<Rightarrow> (Inl (EWrap RejectSignature e), reject cn topic RejectSignature st)
      | Inr _ \<Rightarrow>
          (case decode_view raw of
             None \<Rightarrow> (Inl (EMsg RejectMalformed), reject cn topic RejectMalformed st)
           | Some view \<Rightarrow>
               if ev_version view \<noteq> ''1.0'' \<or> fb_resource_type (ev_fhir view) \<noteq> ''Bundle'' \<or>
                  fb_type (ev_fhir view) \<noteq> ''message'' \<or> length (fst (fb_entry (ev_fhir view))) \<noteq> 1
               then (Inl (EMsg (RejectMalformed @ '': envelope is not a v1.0 FHIR message bundle with one entry'')),
                     reject cn topic RejectMalformed st)
               else if ev_event_type view \<noteq> wantType
               then (Inl (EMsg RejectUnknownType), reject cn topic RejectUnknownType st)
               else (Inr view, st)))"

definition classificationFromEnvelope :: "string \<Rightarrow> classification result" where
  "classificationFromEnvelope label =
     (if label = ''PUBLIC'' \<or> label = ''INTERNAL'' then Inr ClassificationUnclassified
      else if label = ''RESTRICTED'' then Inr ClassificationRestricted
      else if label = ''CONFIDENTIAL'' \<or> label = ''FIDUCIARY_SEGREGATED'' then Inr ClassificationConfidential
      else Inl (EMsg ''unmapped envelope classification''))"

definition normalizeBox :: "f64 list \<Rightarrow> f64 \<Rightarrow> detection_box" where
  "normalizeBox bbox confidence =
     (let scale = bbox ! 2;
          scale = (if f_lt scale (bbox ! 3) then bbox ! 3 else scale);
          scale = (if f_le scale (Fin 0) then Fin 1 else scale);
          width = f_div (f_sub (bbox ! 2) (bbox ! 0)) scale;
          height = f_div (f_sub (bbox ! 3) (bbox ! 1)) scale;
          width = (if f_lt (Fin 1) width then Fin 1 else width);
          height = (if f_lt (Fin 1) height then Fin 1 else height)
      in \<lparr>box_x = f_div (bbox ! 0) scale, box_y = f_div (bbox ! 1) scale, box_width = width, box_height = height,
          box_confidence = confidence\<rparr>)"

section \<open>Payloads\<close>

record VesselDetectedResource =
  vd_type :: string
  vd_camera_id :: string
  vd_track_id :: string
  vd_vessel_class :: string
  vd_confidence :: f64
  vd_bbox :: "f64 slice"
  vd_frame_sha256 :: string
  vd_model_version :: string
  vd_mmsi :: string
  vd_lat_micros :: int
  vd_lon_micros :: int

definition vessel_fields :: "VesselDetectedResource fields" where
  "vessel_fields =
     [(''@type'', field vd_type vd_type_update into_string),
      (''cameraId'', field vd_camera_id vd_camera_id_update into_string),
      (''trackId'', field vd_track_id vd_track_id_update into_string),
      (''vesselClass'', field vd_vessel_class vd_vessel_class_update into_string),
      (''confidence'', field vd_confidence vd_confidence_update into_float),
      (''bboxXyxy'', field vd_bbox vd_bbox_update (into_slice into_float (Fin 0))),
      (''frameSha256'', field vd_frame_sha256 vd_frame_sha256_update into_string),
      (''modelVersion'', field vd_model_version vd_model_version_update into_string),
      (''mmsi'', field vd_mmsi vd_mmsi_update into_string),
      (''latitudeMicros'', field vd_lat_micros vd_lat_micros_update into_int64),
      (''longitudeMicros'', field vd_lon_micros vd_lon_micros_update into_int64)]"

definition zero_vessel :: VesselDetectedResource where
  "zero_vessel =
     \<lparr>vd_type = [], vd_camera_id = [], vd_track_id = [], vd_vessel_class = [], vd_confidence = Fin 0, vd_bbox = ([], []),
      vd_frame_sha256 = [], vd_model_version = [], vd_mmsi = [], vd_lat_micros = 0, vd_lon_micros = 0\<rparr>"

record DarkVesselResource =
  dv_type :: string
  dv_camera_id :: string
  dv_track_id :: string
  dv_confidence :: f64
  dv_lat_micros :: int
  dv_lon_micros :: int
  dv_frame_sha256 :: string
  dv_model_version :: string

definition dark_fields :: "DarkVesselResource fields" where
  "dark_fields =
     [(''@type'', field dv_type dv_type_update into_string),
      (''cameraId'', field dv_camera_id dv_camera_id_update into_string),
      (''trackId'', field dv_track_id dv_track_id_update into_string),
      (''confidence'', field dv_confidence dv_confidence_update into_float),
      (''latitudeMicros'', field dv_lat_micros dv_lat_micros_update into_int64),
      (''longitudeMicros'', field dv_lon_micros dv_lon_micros_update into_int64),
      (''frameSha256'', field dv_frame_sha256 dv_frame_sha256_update into_string),
      (''modelVersion'', field dv_model_version dv_model_version_update into_string)]"

definition zero_dark :: DarkVesselResource where
  "zero_dark =
     \<lparr>dv_type = [], dv_camera_id = [], dv_track_id = [], dv_confidence = Fin 0, dv_lat_micros = 0, dv_lon_micros = 0,
      dv_frame_sha256 = [], dv_model_version = []\<rparr>"

text \<open>\<open>json.Unmarshal\<close> of the raw message of the single entry; an absent member is an empty text.\<close>

definition decode_resource :: "'s fields \<Rightarrow> 's \<Rightarrow> envelopeView \<Rightarrow> 's option" where
  "decode_resource fs zero view =
     (case fe_resource (hd (fst (fb_entry (ev_fhir view)))) of
        None \<Rightarrow> None
      | Some v \<Rightarrow> into_struct False fs v zero)"

definition time_or_now :: "string \<Rightarrow> gotime \<Rightarrow> gotime" where
  "time_or_now s now = (case time_Parse s of Some t \<Rightarrow> t | None \<Rightarrow> now)"

section \<open>Handlers\<close>

definition vessel_detection :: "envelopeView \<Rightarrow> classification \<Rightarrow> gotime \<Rightarrow> VesselDetectedResource \<Rightarrow> detection" where
  "vessel_detection view clearance observedAt rs =
     \<lparr>d_event_id = ev_event_id view, d_source_id = ''blueeconomy-cv-service'', d_source_event_id = ev_event_id view,
      d_modality = ModalityOptical, d_classification = clearance, d_observed_at = observedAt,
      d_has_position = (vd_lat_micros rs \<noteq> 0 \<or> vd_lon_micros rs \<noteq> 0),
      d_latitude = (if vd_lat_micros rs \<noteq> 0 \<or> vd_lon_micros rs \<noteq> 0 then f_div (f_of_int (vd_lat_micros rs)) (Fin 1000000) else Fin 0),
      d_longitude = (if vd_lat_micros rs \<noteq> 0 \<or> vd_lon_micros rs \<noteq> 0 then f_div (f_of_int (vd_lon_micros rs)) (Fin 1000000) else Fin 0),
      d_mmsi = vd_mmsi rs, d_ais = None, d_sar = None, d_rf = None, d_acoustic = None,
      d_optical = Some \<lparr>op_image_ref = vd_frame_sha256 rs, op_boxes = [normalizeBox (fst (vd_bbox rs)) (vd_confidence rs)]\<rparr>,
      d_correlation_refs = []\<rparr>"

definition alert_of :: "anomaly \<Rightarrow> alert_input" where
  "alert_of a = \<lparr>ai_alert_id = an_id a, ai_anomaly_id = an_id a, ai_classification = an_classification a\<rparr>"

fun start_dark :: "('d, 'w, 'r) consumer \<Rightarrow> anomaly list \<Rightarrow> 'w \<Rightarrow> unit result \<times> 'w" where
  "start_dark cn [] w = (Inr (), w)"
| "start_dark cn (a # as) w =
     (if an_kind a \<noteq> AnomalyDarkVessel then start_dark cn as w
      else (case cn_starter cn (alert_of a) w of
              (Inl e, w') \<Rightarrow> (Inl (EWrap (''start ISR workflow for anomaly '' @ an_id a) e), w')
            | (Inr _, w') \<Rightarrow> start_dark cn as w'))"

definition route_anomalies ::
  "('d, 'w, 'r) consumer \<Rightarrow> db_env \<Rightarrow> anomaly list \<Rightarrow> ('d, 'w, 'r) cv_state \<Rightarrow> unit result \<times> ('d, 'w, 'r) cv_state" where
  "route_anomalies cn env as st =
     (if as = [] then (Inr (), st)
      else (case cn_recorder cn env as (cv_store st) of
              (Inl e, d') \<Rightarrow> (Inl (EWrap ''record fusion anomalies'' e), st\<lparr>cv_store := d'\<rparr>)
            | (Inr _, d') \<Rightarrow>
                (case start_dark cn as (cv_temporal st) of
                   (r, w') \<Rightarrow> (r, st\<lparr>cv_store := d', cv_temporal := w'\<rparr>))))"

definition HandleVesselDetection ::
  "('d, 'w, 'r) consumer \<Rightarrow> cv_env \<Rightarrow> bytes \<Rightarrow> ('d, 'w, 'r) cv_state \<Rightarrow> unit result \<times> ('d, 'w, 'r) cv_state" where
  "HandleVesselDetection cn env raw st =
     (case cv_verify cn TopicVesselDetection raw TopicVesselDetection st of
        (Inl e, st1) \<Rightarrow> (Inl e, st1)
      | (Inr view, st1) \<Rightarrow>
          (case classificationFromEnvelope (ev_classification view) of
             Inl e \<Rightarrow> (Inl e, reject cn TopicVesselDetection RejectClassification st1)
           | Inr clearance \<Rightarrow>
               (case decode_resource vessel_fields zero_vessel view of
                  None \<Rightarrow> (Inl (EMsg RejectPayload), reject cn TopicVesselDetection RejectPayload st1)
                | Some rs \<Rightarrow>
                    if length (fst (vd_bbox rs)) \<noteq> 4
                    then (Inl (EMsg (RejectPayload @ '': bboxXyxy must have 4 elements'')), reject cn TopicVesselDetection RejectPayload st1)
                    else (case Ingest (cn_math cn) (ce_order1 env) (ce_order2 env) (ce_now env) (ce_new_id env)
                                 (vessel_detection view clearance (time_or_now (ev_occurred_at view) (ce_now env)) rs) (cv_engine st1) of
                            (Inl e, eng') \<Rightarrow>
                              (Inl (EWrap (RejectPayload @ '': fusion ingest'') e), reject cn TopicVesselDetection RejectPayload (st1\<lparr>cv_engine := eng'\<rparr>))
                          | (Inr (trackID, (as, lat)), eng') \<Rightarrow> route_anomalies cn (ce_db env) as (st1\<lparr>cv_engine := eng'\<rparr>)))))"

definition dark_vessel_anomaly :: "envelopeView \<Rightarrow> classification \<Rightarrow> gotime \<Rightarrow> DarkVesselResource \<Rightarrow> anomaly" where
  "dark_vessel_anomaly view clearance detectedAt rs =
     \<lparr>an_id = ''cv-dark-'' @ ev_event_id view, an_kind = AnomalyDarkVessel,
      an_track_ids = [''cv-'' @ dv_camera_id rs @ ''-'' @ dv_track_id rs], an_zone_id = [], an_classification = clearance,
      an_detected_at = detectedAt, an_detail = CvDetail (dv_camera_id rs) (dv_track_id rs) (dv_confidence rs) (dv_model_version rs),
      an_correlation_refs = []\<rparr>"

definition HandleDarkVessel ::
  "('d, 'w, 'r) consumer \<Rightarrow> cv_env \<Rightarrow> bytes \<Rightarrow> ('d, 'w, 'r) cv_state \<Rightarrow> unit result \<times> ('d, 'w, 'r) cv_state" where
  "HandleDarkVessel cn env raw st =
     (case cv_verify cn TopicDarkVessel raw TopicDarkVessel st of
        (Inl e, st1) \<Rightarrow> (Inl e, st1)
      | (Inr view, st1) \<Rightarrow>
          (case classificationFromEnvelope (ev_classification view) of
             Inl e \<Rightarrow> (Inl e, reject cn TopicDarkVessel RejectClassification st1)
           | Inr clearance \<Rightarrow>
               (case decode_resource dark_fields zero_dark view of
                  None \<Rightarrow> (Inl (EMsg RejectPayload), reject cn TopicDarkVessel RejectPayload st1)
                | Some rs \<Rightarrow>
                    (let a = dark_vessel_anomaly view clearance (time_or_now (ev_occurred_at view) (ce_now env)) rs in
                     case cn_recorder cn (ce_db env) [a] (cv_store st1) of
                       (Inl e, d') \<Rightarrow> (Inl (EWrap ''record dark-vessel anomaly'' e), st1\<lparr>cv_store := d'\<rparr>)
                     | (Inr _, d') \<Rightarrow>
                         (case cn_starter cn (alert_of a) (cv_temporal st1) of
                            (Inl e, w') \<Rightarrow>
                              (Inl (EWrap (''start ISR workflow for anomaly '' @ an_id a) e), st1\<lparr>cv_store := d', cv_temporal := w'\<rparr>)
                          | (Inr _, w') \<Rightarrow> (Inr (), st1\<lparr>cv_store := d', cv_temporal := w'\<rparr>))))))"

section \<open>Process\<close>

text \<open>
  \<open>ExecuteWorkflow\<close> with the workflow id and \<open>WorkflowExecutionErrorWhenAlreadyStarted\<close>: it
  starts a run, reports that a run with this id is open, or fails.
\<close>

datatype execution = Started | AlreadyStarted | ExecuteFailed go_error

definition temporal_StartISR ::
  "(string \<Rightarrow> string \<Rightarrow> string \<Rightarrow> alert_input \<Rightarrow> 'w \<Rightarrow> execution \<times> 'w) \<Rightarrow> string \<Rightarrow> alert_input \<Rightarrow> 'w \<Rightarrow> unit result \<times> 'w" where
  "temporal_StartISR execute taskQueue input w =
     (case execute (ai_anomaly_id input) taskQueue ''ISRResponseWorkflow'' input w of
        (ExecuteFailed e, w') \<Rightarrow> (Inl e, w')
      | (AlreadyStarted, w') \<Rightarrow> (Inr (), w')
      | (Started, w') \<Rightarrow> (Inr (), w'))"

definition logAnomalyRecorder :: "db_env \<Rightarrow> anomaly list \<Rightarrow> 'd \<Rightarrow> unit result \<times> 'd" where
  "logAnomalyRecorder env as d = (Inr (), d)"

text \<open>What one reader's \<open>FetchMessage\<close> returns: a message, or an error with the state of the context.\<close>

datatype fetched = Message nat bytes | FetchError go_error bool

record cv_event =
  ev_topic :: string
  ev_fetched :: fetched
  ev_env :: cv_env
  ev_commit_ok :: bool

definition handle :: "('d, 'w, 'r) consumer \<Rightarrow> string \<Rightarrow> cv_env \<Rightarrow> bytes \<Rightarrow> ('d, 'w, 'r) cv_state \<Rightarrow> unit result \<times> ('d, 'w, 'r) cv_state" where
  "handle cn topic env raw st =
     (if topic = TopicVesselDetection then HandleVesselDetection cn env raw st
      else if topic = TopicDarkVessel then HandleDarkVessel cn env raw st
      else (Inr (), st))"

text \<open>
  The two readers in the order in which their fetches return; the offsets they committed are
  collected. A reader whose context has ended stops, the first other fetch error ends the process.
\<close>

fun cv_loop ::
  "('d, 'w, 'r) consumer \<Rightarrow> string list \<Rightarrow> cv_event list \<Rightarrow> (string \<times> nat) list \<Rightarrow> ('d, 'w, 'r) cv_state \<Rightarrow>
   unit result \<times> (string \<times> nat) list \<times> ('d, 'w, 'r) cv_state" where
  "cv_loop cn stopped [] commits st = (Inr (), commits, st)"
| "cv_loop cn stopped (v # vs) commits st =
     (if ev_topic v \<in> set stopped then cv_loop cn stopped vs commits st
      else (case ev_fetched v of
              FetchError e cancelled \<Rightarrow>
                if cancelled then cv_loop cn (ev_topic v # stopped) vs commits st
                else (Inl (EWrap (''fetch '' @ ev_topic v) e), commits, st)
            | Message offset value \<Rightarrow>
                (case handle cn (ev_topic v) (ev_env v) value st of
                   (Inl _, st') \<Rightarrow> cv_loop cn stopped vs commits st'
                 | (Inr _, st') \<Rightarrow> cv_loop cn stopped vs (commits @ (if ev_commit_ok v then [(ev_topic v, offset)] else [])) st')))"

definition cv_required :: "(string \<Rightarrow> string) \<Rightarrow> string \<Rightarrow> string result" where
  "cv_required getenv name = (let v = trim_space (getenv name) in if v = [] then Inl (EMsg (name @ '' is required'')) else Inr v)"

text \<open>Start-up fails closed; the Temporal client is dialled with the address as it stands in the environment.\<close>

definition cv_start ::
  "ed25519 \<Rightarrow> math_fns \<Rightarrow> (string \<Rightarrow> string) \<Rightarrow> file_system \<Rightarrow> (string \<Rightarrow> string \<Rightarrow> unit result) \<Rightarrow>
   (string \<Rightarrow> string \<Rightarrow> string \<Rightarrow> alert_input \<Rightarrow> 'w \<Rightarrow> execution \<times> 'w) \<Rightarrow> (('d, 'w, 'r) consumer \<times> engine) result" where
  "cv_start ed mf getenv fs dial execute =
     rbind (cv_required getenv ''KAFKA_BROKERS'') (\<lambda>_.
     rbind (cv_required getenv ''KAFKA_GROUP_ID'') (\<lambda>_.
     rbind (cv_required getenv ''TEMPORAL_ADDRESS'') (\<lambda>_.
     rbind (cv_required getenv ''TEMPORAL_NAMESPACE'') (\<lambda>namespace.
     rbind (cv_required getenv ''TEMPORAL_TASK_QUEUE'') (\<lambda>taskQueue.
     rbind (LoadDirectoryFromEnv getenv fs) (\<lambda>directory.
     (case dial (getenv ''TEMPORAL_ADDRESS'') namespace of
        Inl e \<Rightarrow> Inl (EWrap ''dial temporal'' e)
      | Inr _ \<Rightarrow>
          validated (Config_Validate DefaultConfig)
           (rbind (NewEngine DefaultConfig []) (\<lambda>eng.
             rbind (cv_New ed mf (Some directory) (Some eng) (Some logAnomalyRecorder) (Some (temporal_StartISR execute taskQueue)) None True)
               (\<lambda>cn. Inr (cn, eng)))))))))))"

definition cv_run where
  "cv_run ed mf getenv fs dial execute evs d w r =
     (case cv_start ed mf getenv fs dial execute of
        Inl e \<Rightarrow> (Inl e, [], None)
      | Inr (cn, eng) \<Rightarrow>
          (case cv_loop cn [] evs [] \<lparr>cv_engine = eng, cv_store = d, cv_temporal = w, cv_rejected = r\<rparr> of
             (out, commits, st) \<Rightarrow> (out, commits, Some st)))"

end
