(* ===== verification/CvProps.thy ===== *)
theory CvProps
  imports CvConsumer FusionInv
begin

text \<open>
  What the computer-vision consumer guarantees: nothing is fused, recorded or started for a
  record that no producer signed; every workflow it starts belongs to a recorded anomaly of a
  verified dark-vessel record; the boxes it passes on satisfy the detection contract.
\<close>

section \<open>Ingest raises no dark-vessel anomaly\<close>

definition no_dark :: "emission \<Rightarrow> bool" where
  "no_dark em = (\<forall>a \<in> set (fst em). an_kind a \<noteq> AnomalyDarkVessel)"

lemma no_dark_emit: "no_dark em \<Longrightarrow> kind \<noteq> AnomalyDarkVessel \<Longrightarrow> no_dark (emit now q d t kind ids zid detail em)"
  by (auto simp: no_dark_def emit_def)

lemma rule_kinds [simp]:
  "AnomalySpeedOutlier \<noteq> AnomalyDarkVessel" "AnomalyLoitering \<noteq> AnomalyDarkVessel" "AnomalyRendezvous \<noteq> AnomalyDarkVessel"
  by (simp_all add: anomaly_kind_defs)

lemma no_dark_speed: "no_dark em \<Longrightarrow> no_dark (speed_rule mf c now q d t em)"
  by (simp add: speed_rule_def Let_def no_dark_emit)

lemma no_dark_loiter: "no_dark em \<Longrightarrow> no_dark (snd (loiter_rule c now q d zs t em))"
  by (induction c now q d zs t em rule: loiter_rule.induct) (simp_all add: Let_def no_dark_emit)

lemma no_dark_pair: "no_dark (snd st) \<Longrightarrow> no_dark (snd (rendezvous_pair mf c now q d tid k st))"
  by (auto simp: rendezvous_pair_def rendezvous_alert_def Let_def no_dark_emit split: option.splits pair_outcome.splits)

lemma no_dark_pairs: "no_dark (snd st) \<Longrightarrow> no_dark (snd (fold (rendezvous_pair mf c now q d tid) ks st))"
  by (induction ks arbitrary: st) (simp_all add: no_dark_pair)

lemma evaluate_no_dark: "no_dark (fst (evaluate mf order now tid q d eng))"
proof (cases "eg_tracks eng tid")
  case None then show ?thesis by (simp add: evaluate_def no_dark_def)
next
  case (Some t)
  let ?em = "speed_rule mf (eg_config eng) now q d t ([], [])"
  have "no_dark ?em" by (rule no_dark_speed) (simp add: no_dark_def)
  note no_dark_loiter [OF this, of "eg_config eng" now q d "eg_zones eng" t]
  then show ?thesis
    using Some no_dark_pairs by (auto simp: evaluate_def Let_def split: prod.splits) (metis snd_conv)
qed

lemma Ingest_no_dark:
  assumes "Ingest mf o1 o2 now nid d eng = (Inr (tid, (as, lat)), eng')" "a \<in> set as"
  shows "an_kind a \<noteq> AnomalyDarkVessel"
  using assms(1)
proof (rule Ingest_Inr)
  fix eng1
  assume "evaluate mf o2 now tid (point_of d) d (absorbPoint tid d (detection_pos d) eng1) = ((as, lat), eng')"
  then show ?thesis
    using evaluate_no_dark [of mf o2 now tid "point_of d" d "absorbPoint tid d (detection_pos d) eng1"] assms(2) by (auto simp: no_dark_def)
qed

section \<open>Handlers\<close>

text \<open>A record that both handlers' gate lets through.\<close>

definition admitted :: "('d, 'w, 'r) consumer \<Rightarrow> string \<Rightarrow> bytes \<Rightarrow> envelopeView \<Rightarrow> bool" where
  "admitted cn topic raw view =
     (VerifyEnvelope (cn_ed cn) (cn_directory cn) raw = Inr () \<and> decode_view raw = Some view \<and> ev_event_type view = topic \<and>
      ev_version view = ''1.0'' \<and> length (fst (fb_entry (ev_fhir view))) = 1)"

definition same_effects :: "('d, 'w, 'r) cv_state \<Rightarrow> ('d, 'w, 'r) cv_state \<Rightarrow> bool" where
  "same_effects st st' = (cv_engine st' = cv_engine st \<and> cv_store st' = cv_store st \<and> cv_temporal st' = cv_temporal st)"

lemma same_effects_reject [simp]: "same_effects st (reject cn topic reason st)" "same_effects st st"
  "cv_engine (reject cn topic reason st) = cv_engine st" "cv_store (reject cn topic reason st) = cv_store st" "cv_temporal (reject cn topic reason st) = cv_temporal st"
  by (simp_all add: same_effects_def reject_def)

lemma cv_verify_cases:
  obtains (refused) e st' where "cv_verify cn topic raw topic st = (Inl e, st')" "same_effects st st'"
  | (passed) view where "cv_verify cn topic raw topic st = (Inr view, st)" "admitted cn topic raw view"
proof -
  show ?thesis
  proof (cases "VerifyEnvelope (cn_ed cn) (cn_directory cn) raw")
    case (Inl e) then show ?thesis using refused by (simp add: cv_verify_def)
  next
    case v: (Inr u)
    show ?thesis
    proof (cases "decode_view raw")
      case None then show ?thesis using v refused by (simp add: cv_verify_def)
    next
      case (Some view)
      show ?thesis
      proof (cases "fst (cv_verify cn topic raw topic st)")
        case (Inl e)
        then show ?thesis using refused [of e "snd (cv_verify cn topic raw topic st)"] v Some by (auto simp: cv_verify_def split: if_splits)
      next
        case (Inr w)
        then show ?thesis using passed [of view] v Some by (auto simp: cv_verify_def admitted_def split: if_splits)
      qed
    qed
  qed
qed

lemma start_dark_none: "\<forall>a \<in> set as. an_kind a \<noteq> AnomalyDarkVessel \<Longrightarrow> start_dark cn as w = (Inr (), w)"
  by (induction as) auto

lemma vessel_handler_cases:
  obtains (refused) e st' where "HandleVesselDetection cn env raw st = (Inl e, st')" "same_effects st st'"
  | (fused) view r eng' st' where "HandleVesselDetection cn env raw st = (r, st')" "admitted cn TopicVesselDetection raw view"
      "cv_temporal st' = cv_temporal st" "cv_store st' = cv_store st \<or> (\<exists>as r. cn_recorder cn (ce_db env) as (cv_store st) = (r, cv_store st'))"
proof (cases rule: cv_verify_cases [of cn TopicVesselDetection raw st])
  case (refused e st') then show ?thesis using that(1) by (simp add: HandleVesselDetection_def)
next
  case (passed view)
  note handler = HandleVesselDetection_def [of cn env raw st, unfolded passed(1)]
  show ?thesis
  proof (cases "classificationFromEnvelope (ev_classification view)")
    case (Inl e) then show ?thesis using that(1) by (simp add: handler)
  next
    case c: (Inr clearance)
    show ?thesis
    proof (cases "decode_resource vessel_fields zero_vessel view")
      case None then show ?thesis using that(1) by (simp add: handler c)
    next
      case rs: (Some rs)
      let ?d = "vessel_detection view clearance (time_or_now (ev_occurred_at view) (ce_now env)) rs"
      obtain out eng' where i: "Ingest (cn_math cn) (ce_order1 env) (ce_order2 env) (ce_now env) (ce_new_id env) ?d (cv_engine st) = (out, eng')"
        by (metis surj_pair)
      show ?thesis
      proof (cases "length (fst (vd_bbox rs)) = 4")
        case False then show ?thesis using that(1) by (simp add: handler c rs)
      next
        case box: True
        show ?thesis
        proof (cases out)
          case (Inl e)
          then show ?thesis using that(2) [OF _ passed(2)] by (simp add: handler c rs i box)
        next
          case (Inr em)
          then obtain tid as lat where em: "out = Inr (tid, (as, lat))" by (metis surj_pair)
          have k: "start_dark cn as w = (Inr (), w)" for w
            using Ingest_no_dark [OF i [unfolded em]] by (simp add: start_dark_none)
          obtain r d' where rd: "cn_recorder cn (ce_db env) as (cv_store st) = (r, d')" by (metis surj_pair)
          show ?thesis
            using that(2) [OF _ passed(2)] rd
            by (cases "as = []"; cases r) (auto simp: handler c rs i box em route_anomalies_def k)
        qed
      qed
    qed
  qed
qed

lemma dark_handler_cases:
  obtains (refused) e st' where "HandleDarkVessel cn env raw st = (Inl e, st')" "same_effects st st'"
  | (unrecorded) view as e e' st' where "HandleDarkVessel cn env raw st = (Inl e, st')" "admitted cn TopicDarkVessel raw view"
      "cn_recorder cn (ce_db env) as (cv_store st) = (Inl e', cv_store st')" "cv_temporal st' = cv_temporal st" "cv_engine st' = cv_engine st"
  | (recorded) view clearance detectedAt rs a r r' u st' where "HandleDarkVessel cn env raw st = (r, st')" "admitted cn TopicDarkVessel raw view"
      "classificationFromEnvelope (ev_classification view) = Inr clearance" "a = dark_vessel_anomaly view clearance detectedAt rs"
      "cn_recorder cn (ce_db env) [a] (cv_store st) = (Inr u, cv_store st')" "cn_starter cn (alert_of a) (cv_temporal st) = (r', cv_temporal st')"
      "cv_engine st' = cv_engine st"
proof (cases rule: cv_verify_cases [of cn TopicDarkVessel raw st])
  case (refused e st') then show ?thesis using that(1) by (simp add: HandleDarkVessel_def)
next
  case (passed view)
  note handler = HandleDarkVessel_def [of cn env raw st, unfolded passed(1)]
  show ?thesis
  proof (cases "classificationFromEnvelope (ev_classification view)")
    case (Inl e) then show ?thesis using that(1) by (simp add: handler)
  next
    case c: (Inr clearance)
    show ?thesis
    proof (cases "decode_resource dark_fields zero_dark view")
      case None then show ?thesis using that(1) by (simp add: handler c)
    next
      case rs: (Some rs)
      define detectedAt where "detectedAt = time_or_now (ev_occurred_at view) (ce_now env)"
      define a where "a = dark_vessel_anomaly view clearance detectedAt rs"
      obtain r d' where rd: "cn_recorder cn (ce_db env) [a] (cv_store st) = (r, d')" by (metis surj_pair)
      obtain r' w' where w: "cn_starter cn (alert_of a) (cv_temporal st) = (r', w')" by (metis surj_pair)
      note facts = handler c rs Let_def a_def [symmetric] detectedAt_def [symmetric] rd w
      show ?thesis
      proof (cases r)
        case (Inl e) then show ?thesis using that(2) [where as = "[a]" and st' = "st\<lparr>cv_store := d'\<rparr>", OF _ passed(2)] rd by (simp add: facts)
      next
        case (Inr u)
        then show ?thesis using that(3) [where st' = "st\<lparr>cv_store := d', cv_temporal := w'\<rparr>", OF _ passed(2) c a_def] rd w by (cases r') (simp_all add: facts)
      qed
    qed
  qed
qed

section \<open>The recorder\<close>

text \<open>
  What the consumer relies on of an \<open>AnomalyRecorder\<close>: success means that every anomaly is on
  record, records are never lost, and failure leaves the store as it was.
\<close>

locale anomaly_recorder =
  fixes recorder :: "db_env \<Rightarrow> anomaly list \<Rightarrow> 'd \<Rightarrow> unit result \<times> 'd"
    and on_record :: "'d \<Rightarrow> string \<Rightarrow> bool"
  assumes recorder_records: "recorder env as d = (Inr u, d') \<Longrightarrow> a \<in> set as \<Longrightarrow> on_record d' (an_id a)"
    and recorder_keeps: "recorder env as d = (r, d') \<Longrightarrow> on_record d i \<Longrightarrow> on_record d' i"
    and recorder_atomic: "recorder env as d = (Inl e, d') \<Longrightarrow> d' = d"

text \<open>
  Temporal's contract: a start opens a run with the given input or leaves the runs as they are;
  it opens none while a run with that id is open, and only a failed call leaves open which.
\<close>

definition temporal_contract :: "(string \<Rightarrow> string \<Rightarrow> string \<Rightarrow> alert_input \<Rightarrow> 'w \<Rightarrow> execution \<times> 'w) \<Rightarrow> ('w \<Rightarrow> (string \<times> alert_input) list) \<Rightarrow> bool" where
  "temporal_contract execute runs =
     (\<forall>i q name input w o' w'. execute i q name input w = (o', w') \<longrightarrow>
        (case o' of
           Started \<Rightarrow> i \<notin> fst ` set (runs w) \<and> runs w' = runs w @ [(i, input)]
         | AlreadyStarted \<Rightarrow> i \<in> fst ` set (runs w) \<and> runs w' = runs w
         | ExecuteFailed e \<Rightarrow> runs w' = runs w \<or> i \<notin> fst ` set (runs w) \<and> runs w' = runs w @ [(i, input)]))"

text \<open>A run that a verified dark-vessel record justifies.\<close>

definition justified :: "('d, 'w, 'r) consumer \<Rightarrow> bytes set \<Rightarrow> string \<times> alert_input \<Rightarrow> bool" where
  "justified cn raws run =
     (\<exists>raw \<in> raws. \<exists>view clearance. admitted cn TopicDarkVessel raw view \<and>
        classificationFromEnvelope (ev_classification view) = Inr clearance \<and> fst run = ''cv-dark-'' @ ev_event_id view \<and>
        snd run = \<lparr>ai_alert_id = fst run, ai_anomaly_id = fst run, ai_classification = clearance\<rparr>)"

lemma justified_mono: "justified cn A run \<Longrightarrow> A \<subseteq> B \<Longrightarrow> justified cn B run"
  unfolding justified_def by blast

lemma StartISR_runs:
  assumes "temporal_contract execute runs" "temporal_StartISR execute q (alert_of a) w = (r, w')"
  shows "(runs w' = runs w \<or> runs w' = runs w @ [(an_id a, alert_of a)]) \<and> (distinct (map fst (runs w)) \<longrightarrow> distinct (map fst (runs w')))"
proof -
  obtain o' where e: "execute (an_id a) q ''ISRResponseWorkflow'' (alert_of a) w = (o', w')"
    using assms(2) by (auto simp: temporal_StartISR_def alert_of_def split: prod.splits execution.splits)
  show ?thesis using assms(1) [unfolded temporal_contract_def, rule_format, OF e] by (auto split: execution.splits)
qed

definition fetched_values :: "cv_event list \<Rightarrow> bytes set" where
  "fetched_values evs = {raw. \<exists>v \<in> set evs. \<exists>n. ev_fetched v = Message n raw}"

context anomaly_recorder
begin

definition runs_ok :: "('d, 'w, 'r) consumer \<Rightarrow> ('w \<Rightarrow> (string \<times> alert_input) list) \<Rightarrow> bytes set \<Rightarrow> ('d, 'w, 'r) cv_state \<Rightarrow> bool" where
  "runs_ok cn runs raws st =
     (distinct (map fst (runs (cv_temporal st))) \<and>
      (\<forall>run \<in> set (runs (cv_temporal st)). justified cn raws run \<and> on_record (cv_store st) (fst run)))"

lemma runs_ok_keep:
  assumes "runs_ok cn runs A st" "A \<subseteq> B" "cv_temporal st' = cv_temporal st"
    and "cv_store st' = cv_store st \<or> (\<exists>env as r. recorder env as (cv_store st) = (r, cv_store st'))"
  shows "runs_ok cn runs B st'"
  using assms justified_mono recorder_keeps unfolding runs_ok_def by metis

lemma handle_runs_ok:
  assumes cn: "cn_recorder cn = recorder" "cn_starter cn = temporal_StartISR execute q" "temporal_contract execute runs"
    and ok: "runs_ok cn runs raws st" and h: "handle cn topic env raw st = (r, st')"
  shows "runs_ok cn runs (insert raw raws) st'"
proof -
  have sub: "raws \<subseteq> insert raw raws" by blast
  consider "topic = TopicVesselDetection" | "topic \<noteq> TopicVesselDetection" "topic = TopicDarkVessel" | "st' = st"
    using h by (auto simp: handle_def split: if_splits)
  then show ?thesis
  proof cases
    case 1
    then have v: "HandleVesselDetection cn env raw st = (r, st')" using h by (simp add: handle_def)
    show ?thesis
      by (cases rule: vessel_handler_cases [of cn env raw st]; rule runs_ok_keep [OF ok sub])
        (use v cn(1) in \<open>auto simp: same_effects_def\<close>)
  next
    case 2
    then have v: "HandleDarkVessel cn env raw st = (r, st')" using h by (simp add: handle_def)
    show ?thesis
    proof (cases rule: dark_handler_cases [of cn env raw st])
      case refused
      then show ?thesis using v by (intro runs_ok_keep [OF ok sub]) (auto simp: same_effects_def)
    next
      case unrecorded
      then show ?thesis using v cn(1) by (intro runs_ok_keep [OF ok sub]) auto
    next
      case (recorded view clearance detectedAt rs a r0 r' u st0)
      have st0: "st0 = st'" using recorded(1) v by simp
      have rec: "on_record (cv_store st') (an_id a)" using recorder_records [OF recorded(5) [unfolded cn st0]] by simp
      have keep: "on_record (cv_store st) i \<Longrightarrow> on_record (cv_store st') i" for i
        using recorder_keeps [OF recorded(5) [unfolded cn st0]] by blast
      have j: "justified cn (insert raw raws) (an_id a, alert_of a)"
        using recorded(2,3) unfolding justified_def recorded(4) by (force simp: alert_of_def dark_vessel_anomaly_def)
      have old: "justified cn (insert raw raws) run \<and> on_record (cv_store st') (fst run)" if "run \<in> set (runs (cv_temporal st))" for run
        using that ok keep justified_mono [OF _ sub] unfolding runs_ok_def by blast
      show ?thesis
        using StartISR_runs [OF cn(3) recorded(6) [unfolded cn st0]] ok rec j old unfolding runs_ok_def by (elim conjE disjE) simp_all
    qed
  next
    case 3
    then show ?thesis by (intro runs_ok_keep [OF ok sub]) auto
  qed
qed

lemma cv_loop_runs_ok:
  assumes cn: "cn_recorder cn = recorder" "cn_starter cn = temporal_StartISR execute q" "temporal_contract execute runs"
  shows "runs_ok cn runs raws st \<Longrightarrow> cv_loop cn stopped evs commits st = (r, commits', st') \<Longrightarrow>
    runs_ok cn runs (raws \<union> fetched_values evs) st'"
proof (induction evs arbitrary: stopped commits st raws)
  case (Cons v vs)
  have less: "runs_ok cn runs (raws \<union> fetched_values (v # vs)) st'" if "runs_ok cn runs (A \<union> fetched_values vs) st'" "A \<subseteq> raws \<union> fetched_values [v]" for A
    by (rule runs_ok_keep [OF that(1)]) (use that(2) in \<open>auto simp: fetched_values_def\<close>)
  show ?case
  proof (cases "ev_topic v \<in> set stopped")
    case True
    then show ?thesis using Cons.IH [OF Cons.prems(1)] Cons.prems(2) less [of raws] by simp
  next
    case False
    show ?thesis
    proof (cases "ev_fetched v")
      case (FetchError e cancelled)
      then show ?thesis using False Cons.IH [OF Cons.prems(1)] Cons.prems less [of raws] runs_ok_keep [OF Cons.prems(1), of "raws \<union> fetched_values (v # vs)" st']
        by (cases cancelled) auto
    next
      case (Message n raw)
      obtain r0 st1 where h: "handle cn (ev_topic v) (ev_env v) raw st = (r0, st1)" by (metis surj_pair)
      note ok = handle_runs_ok [OF cn Cons.prems(1) h]
      have "\<exists>c. cv_loop cn stopped vs c st1 = (r, commits', st')" using Cons.prems(2) False Message h by (cases r0) auto
      then show ?thesis using Cons.IH [OF ok] less [of "insert raw raws"] Message by (auto simp: fetched_values_def)
    qed
  qed
qed (simp add: fetched_values_def)

end

text \<open>Both recorders of the repository satisfy the contract.\<close>

interpretation store_recorder: anomaly_recorder "RecordAnomalies c enc" "\<lambda>db i. i \<in> ra_id ` set (anomalies db)" for c enc
proof unfold_locales
  fix env as db u db' a
  assume r: "RecordAnomalies c enc env as db = (Inr u, db')" and a: "a \<in> set as"
  then show "an_id a \<in> ra_id ` set (anomalies db')" using RecordAnomalies_ok [OF r] a by auto
next
  fix env as db r db' i
  assume r: "RecordAnomalies c enc env as db = (r, db')" and i: "i \<in> ra_id ` set (anomalies db)"
  have "set (anomalies db) \<subseteq> set (anomalies db')" using RecordAnomalies_ok [OF r] set_mono_prefix by (auto simp: anomaly_frame_def)
  then show "i \<in> ra_id ` set (anomalies db')" using i by blast
next
  fix env as db e db'
  assume "RecordAnomalies c enc env as db = (Inl e, db')"
  then show "db' = db" using RecordAnomalies_ok [of c enc env as db "Inl e" db'] by simp
qed

interpretation log_recorder: anomaly_recorder logAnomalyRecorder "\<lambda>_ _. True"
  by unfold_locales (simp_all add: logAnomalyRecorder_def)

section \<open>Properties\<close>


text \<open>
  C7. The consumer acts only on what a producer signed: when a record changes the engine, the store
  or the workflows, it was verified, it is of the type of its topic, and its content is that of an
  envelope that a producer signed.
\<close>

theorem cv_effects_authentic:
  assumes h: "handle cn topic env raw st = (r, st')" and eff: "\<not> same_effects st st'"
    and dir: "cn_directory cn = Some keys" "only_signed (cn_ed cn) keys sent_log"
  shows "\<exists>view. decode_view raw = Some view \<and> ev_event_type view = topic \<and>
    (\<exists>e \<in> set sent_log. \<exists>document v g original w g'.
       decodeJSON (string_of_bytes raw) = Inr document \<and> strip_signature document = Inr (v, g) \<and>
       decodeJSON (string_of_bytes e) = Inr original \<and> strip_signature original = Inr (w, g') \<and> same_content v w)"
proof -
  have "\<exists>view. admitted cn topic raw view"
  proof -
    consider "topic = TopicVesselDetection" "HandleVesselDetection cn env raw st = (r, st')"
      | "topic = TopicDarkVessel" "HandleDarkVessel cn env raw st = (r, st')"
      using h eff by (auto simp: handle_def split: if_splits)
    then show ?thesis
    proof cases
      case 1 then show ?thesis using eff by (cases rule: vessel_handler_cases [of cn env raw st]) auto
    next
      case 2 then show ?thesis using eff by (cases rule: dark_handler_cases [of cn env raw st]) auto
    qed
  qed
  then obtain view where v: "VerifyEnvelope (cn_ed cn) (Some keys) raw = Inr ()" "decode_view raw = Some view" "ev_event_type view = topic"
    using dir(1) by (auto simp: admitted_def)
  then show ?thesis using verified_was_signed [OF v(1) dir(2)] by blast
qed

section \<open>A concrete record\<close>

lemma json_ok_mono: "json_ok d v \<Longrightarrow> d \<le> d' \<Longrightarrow> json_ok d' v"
proof (induction d v arbitrary: d' rule: json_ok.induct)
  case (2 d vs)
  then show ?case by (auto simp: list_all_iff)
next
  case (3 d ms)
  then show ?case by (auto simp: list_all_iff)
qed auto

lemma ascii_utf16: "list_all (\<lambda>c. code_of c < 128) s \<Longrightarrow> utf16_of s = map code_of s"
proof (induction s)
  case (Cons c s)
  then have "decode_rune (c # s) = (code_of c, 1)" by (simp add: decode_rune_def Let_def)
  then show ?case using Cons by (simp add: utf16_of_def runes.simps [of "c # s"] utf16_units_def valid_rune_def)
qed (simp add: utf16_of_def runes.simps)

text \<open>Documents of ASCII texts whose members are in order.\<close>

fun plain_doc :: "nat \<Rightarrow> jval \<Rightarrow> bool" where
  "plain_doc d (VStr s) = list_all (\<lambda>c. code_of c < 128) s"
| "plain_doc d (VArr vs) = (0 < d \<and> list_all (plain_doc (d - 1)) vs)"
| "plain_doc d (VObj ms) =
     (0 < d \<and> sorted_wrt (<) (map (\<lambda>m. map code_of (fst m)) ms) \<and> list_all (\<lambda>m. list_all (\<lambda>c. code_of c < 128) (fst m) \<and> plain_doc (d - 1) (snd m)) ms)"
| "plain_doc d v = (v = VNull)"

lemma plain_doc_ok: "plain_doc d v \<Longrightarrow> d < maxNestingDepth \<Longrightarrow> json_ok d v \<and> normal v = v \<and> (\<exists>t. canonicalValue v = Inr t)"
proof (induction d v rule: plain_doc.induct)
  case (1 d s) then show ?case by (auto intro: ascii_utf8)
next
  case (2 d vs)
  then have "\<exists>ts. collect (map canonicalValue vs) = Inr ts" by (intro collect_total) (auto simp: list_all_iff)
  then show ?case using 2 by (auto simp: list_all_iff intro: map_idI)
next
  case (3 d ms)
  have each: "list_all (\<lambda>m. valid_utf8 (fst m) \<and> json_ok (maxNestingDepth - 1) (snd m) \<and> normal (snd m) = snd m \<and> (\<exists>t. canonicalValue (snd m) = Inr t)) ms"
    using 3 json_ok_mono [of "d - 1" _ "maxNestingDepth - 1"] by (fastforce simp: list_all_iff intro: ascii_utf8)
  have "map (\<lambda>m. utf16_of (fst m)) ms = map (\<lambda>m. map code_of (fst m)) ms" using 3(2) by (auto simp: list_all_iff intro: ascii_utf16)
  then have "sorted_wrt (<) (map (\<lambda>m. utf16_of (fst m)) ms)" using 3(2) by (simp only: plain_doc.simps)
  note o = canonical_object [OF each this]
  have "json_ok d (VObj ms)" using o(1) 3 by (auto simp: list_all_iff intro: ascii_utf8)
  then show ?case using o 3(2) by (simp add: Canonicalize_def)
qed auto

definition dark_members :: "(string \<times> jval) list" where
  "dark_members =
     [(''classification'', VStr ''RESTRICTED''), (''envelopeVersion'', VStr ''1.0''), (''eventId'', VStr ''e1''),
      (''eventType'', VStr ''cv.dark-vessel.v1''),
      (''fhir'', VObj [(''entry'', VArr [VObj [(''resource'', VObj [(''cameraId'', VStr ''c1''), (''trackId'', VStr ''t1'')])]]),
                      (''resourceType'', VStr ''Bundle''), (''type'', VStr ''message'')]),
      (''occurredAt'', VStr ''2025-01-01T00:00:00Z'')]"

lemma dark_members_ok: "members_ok dark_members"
proof -
  have p: "list_all (\<lambda>m. list_all (\<lambda>c. code_of c < 128) (fst m) \<and> plain_doc 9 (snd m)) dark_members"
    "sorted_wrt (<) (map (map code_of) (map fst dark_members @ [''provenance'']))"
    by code_simp+
  have "map utf16_of (map fst dark_members @ [''provenance'']) = map (map code_of) (map fst dark_members @ [''provenance''])"
    by (rule map_cong [OF HOL.refl], rule ascii_utf16) (use p(1) in \<open>auto simp: list_all_iff code_of_def\<close>)
  then have "sorted_wrt (<) (map utf16_of (map fst dark_members @ [''provenance'']))" using p(2) by (simp only:)
  then have o: "sorted_wrt (<) (map (\<lambda>m. utf16_of (fst m)) dark_members @ [utf16_of ''provenance''])" by (simp add: comp_def)
  have "json_ok (maxNestingDepth - 1) v \<and> normal v = v \<and> (\<exists>t. canonicalValue v = Inr t)" if "plain_doc 9 v" for v
    using plain_doc_ok [OF that] json_ok_mono [of 9 v "maxNestingDepth - 1"] by (simp add: maxNestingDepth_def)
  then show ?thesis using p(1) o ascii_utf8 unfolding members_ok_def list_all_iff by blast
qed

lemma dark_view:
  assumes "valid_utf8 g"
  obtains view where "decode_view (text_of (signed_doc dark_members g)) = Some view" "ev_version view = ''1.0''" "ev_event_id view = ''e1''"
    "ev_event_type view = TopicDarkVessel" "ev_classification view = ''RESTRICTED''" "ev_occurred_at view = ''2025-01-01T00:00:00Z''"
    "fb_resource_type (ev_fhir view) = ''Bundle''" "fb_type (ev_fhir view) = ''message''" "length (fst (fb_entry (ev_fhir view))) = 1"
    "decode_resource dark_fields zero_dark view = Some (zero_dark\<lparr>dv_camera_id := ''c1'', dv_track_id := ''t1''\<rparr>)"
proof -
  have "decode_view (text_of (signed_doc dark_members g)) = into_struct False view_fields (signed_doc dark_members g) zero_view"
    using doc_texts(1) [OF dark_members_ok assms] by (simp add: decode_view_def json_Unmarshal_def skip_ws_def)
  also have "\<dots> = Some \<lparr>ev_version = ''1.0'', ev_event_id = ''e1'', ev_event_type = ''cv.dark-vessel.v1'', ev_occurred_at = ''2025-01-01T00:00:00Z'',
      ev_producer = [], ev_classification = ''RESTRICTED'',
      ev_fhir = \<lparr>fb_resource_type = ''Bundle'', fb_type = ''message'',
        fb_entry = ([\<lparr>fe_resource = Some (VObj [(''cameraId'', VStr ''c1''), (''trackId'', VStr ''t1'')])\<rparr>], [])\<rparr>\<rparr>"
    unfolding signed_doc_def dark_members_def by code_simp
  finally show thesis
    by (rule that) (simp_all add: TopicDarkVessel_def decode_resource_def into_struct_def find_field_def dark_fields_def field_def into_string_def zero_dark_def)
qed

definition cv_time :: gotime where
  "cv_time = unix_epoch + 1735689600 * second"

definition cv_anomaly :: anomaly where
  "cv_anomaly = \<lparr>an_id = ''cv-dark-e1'', an_kind = AnomalyDarkVessel, an_track_ids = [''cv-c1-t1''], an_zone_id = [], an_classification = ''RESTRICTED'',
     an_detected_at = cv_time, an_detail = CvDetail ''c1'' ''t1'' (Fin 0) [], an_correlation_refs = []\<rparr>"

lemma cv_anomaly_recorded:
  obtains db' where "RecordAnomalies toy_crypto (\<lambda>_. [0]) (calm_env 9 ''u'') [cv_anomaly] empty_track_db = (Inr (), db')"
proof -
  let ?env = "calm_env 9 ''u''"
  have v: "anomaly_id_pattern ''cv-dark-e1''" "valid_label ''RESTRICTED''" "pg_length (detail_text (CvDetail ''c1'' ''t1'' (Fin 0) [])) = 68" by code_simp+
  then have checks: "anomaly_checks (anomaly_row ?env cv_anomaly)" by (simp add: anomaly_checks_def anomaly_row_def cv_anomaly_def)
  have k: "identifierPattern (an_id cv_anomaly)" "ParseClassification (an_classification cv_anomaly) = Inr (an_classification cv_anomaly)"
    "EnvelopeClassificationOf (an_classification cv_anomaly) = Inr ''RESTRICTED''"
    unfolding cv_anomaly_def anomaly.simps by code_simp+
  have l: "length (''behaviour.'' @ an_kind cv_anomaly) \<le> 128" "an_detected_at cv_anomaly \<noteq> 0"
    by (simp_all add: cv_anomaly_def AnomalyDarkVessel_def cv_time_def unix_epoch_def duration_defs)
  obtain fs where fs: "anomaly_json cv_anomaly = JObj fs" by (simp add: anomaly_json_def)
  obtain ev where s: "Seal toy_crypto (\<lambda>_. [0]) ''u'' TopicBehaviour (''behaviour.'' @ an_kind cv_anomaly) (an_id cv_anomaly)
      (an_classification cv_anomaly) (an_detected_at cv_anomaly) (anomaly_json cv_anomaly) = Inr ev"
    using k l probe_anomaly [of cv_anomaly] unfolding fs by (auto simp: Seal_def Let_def)
  have se: "io_topic (detection_event ev) = TopicBehaviour" "valid_label (io_classification (detection_event ev))"
    using Seal_event [OF s] v(2) by (simp_all add: cv_anomaly_def)
  have e: "anomalies empty_track_db = []" "isr_outbox empty_track_db = []"
    by (simp_all add: empty_track_db_def ledger_db.extend_def track_db.fields_def empty_ledger_def)
  obtain db' where i: "isr_outbox_insert ?env ''u'' (detection_event ev) (an_detected_at cv_anomaly)
      (empty_track_db\<lparr>anomalies := [anomaly_row ?env cv_anomaly]\<rparr>) = Inr db'"
    using se e by (simp add: isr_outbox_insert_def outbox_insert_def)
  then have "RecordAnomalies toy_crypto (\<lambda>_. [0]) ?env [cv_anomaly] empty_track_db = (Inr (), db')"
    using s checks e by (simp add: RecordAnomalies_def run_tx_Inr_iff recordAnomalyInTransaction_def)
  then show thesis by (rule that)
qed

text \<open>Temporal as a list of open runs.\<close>

definition open_run :: "string \<Rightarrow> string \<Rightarrow> string \<Rightarrow> alert_input \<Rightarrow> (string \<times> alert_input) list \<Rightarrow> execution \<times> (string \<times> alert_input) list" where
  "open_run i q name input w = (if i \<in> fst ` set w then (AlreadyStarted, w) else (Started, w @ [(i, input)]))"

lemma open_run_contract: "temporal_contract open_run (\<lambda>w. w)"
  by (auto simp: temporal_contract_def open_run_def split: if_splits)

definition cv_sample :: "bytes \<Rightarrow> (db_env \<Rightarrow> anomaly list \<Rightarrow> 'd \<Rightarrow> unit result \<times> 'd) \<Rightarrow> ('d, (string \<times> alert_input) list, unit) consumer" where
  "cv_sample m rc = \<lparr>cn_ed = toy_ed m, cn_math = \<lparr>cos_fn = (\<lambda>x. x), hypot_fn = (\<lambda>x y. x)\<rparr>, cn_directory = Some toy_keys, cn_recorder = rc,
     cn_starter = temporal_StartISR open_run ''isr'', cn_rejections = noopRejections\<rparr>"

definition cv_idle :: "'d \<Rightarrow> ('d, (string \<times> alert_input) list, unit) cv_state" where
  "cv_idle d = \<lparr>cv_engine = \<lparr>eg_config = DefaultConfig, eg_zones = [], eg_tracks = Map.empty, eg_by_mmsi = Map.empty\<rparr>, cv_store = d, cv_temporal = [], cv_rejected = ()\<rparr>"

definition cv_moment :: cv_env where
  "cv_moment = \<lparr>ce_now = cv_time, ce_order1 = [], ce_order2 = [], ce_new_id = ''n'', ce_db = calm_env 9 ''u''\<rparr>"

lemma dark_record_handled:
  assumes "valid_utf8 g" "VerifyEnvelope (toy_ed m) (Some toy_keys) (text_of (signed_doc dark_members g)) = Inr ()"
    and "rc (calm_env 9 ''u'') [cv_anomaly] d = (Inr (), d')"
  shows "handle (cv_sample m rc) TopicDarkVessel cv_moment (text_of (signed_doc dark_members g)) (cv_idle d) =
    (Inr (), (cv_idle d)\<lparr>cv_store := d', cv_temporal := [(''cv-dark-e1'', alert_of cv_anomaly)]\<rparr>)"
proof -
  obtain view where v: "decode_view (text_of (signed_doc dark_members g)) = Some view" "ev_version view = ''1.0''" "ev_event_id view = ''e1''"
    "ev_event_type view = TopicDarkVessel" "ev_classification view = ''RESTRICTED''" "ev_occurred_at view = ''2025-01-01T00:00:00Z''"
    "fb_resource_type (ev_fhir view) = ''Bundle''" "fb_type (ev_fhir view) = ''message''" "length (fst (fb_entry (ev_fhir view))) = 1"
    "decode_resource dark_fields zero_dark view = Some (zero_dark\<lparr>dv_camera_id := ''c1'', dv_track_id := ''t1''\<rparr>)"
    by (rule dark_view [OF assms(1)])
  have "time_Parse ''2025-01-01T00:00:00Z'' = Some cv_time" by code_simp
  then have a: "dark_vessel_anomaly view ''RESTRICTED'' (time_or_now ''2025-01-01T00:00:00Z'' cv_time) (zero_dark\<lparr>dv_camera_id := ''c1'', dv_track_id := ''t1''\<rparr>) = cv_anomaly"
    by (simp add: dark_vessel_anomaly_def cv_anomaly_def time_or_now_def v(3) zero_dark_def)
  have c: "classificationFromEnvelope ''RESTRICTED'' = Inr ''RESTRICTED''" by code_simp
  have ver: "cv_verify (cv_sample m rc) TopicDarkVessel (text_of (signed_doc dark_members g)) TopicDarkVessel (cv_idle d) = (Inr view, cv_idle d)"
    using assms(2) v by (simp add: cv_verify_def cv_sample_def)
  have "TopicDarkVessel \<noteq> TopicVesselDetection" by (simp add: TopicDarkVessel_def TopicVesselDetection_def)
  moreover have "cn_recorder (cv_sample m rc) = rc" "cn_starter (cv_sample m rc) = temporal_StartISR open_run ''isr''" "ce_db cv_moment = calm_env 9 ''u''"
    "ce_now cv_moment = cv_time" "cv_store (cv_idle d) = d" "cv_temporal (cv_idle d) = []"
    by (simp_all add: cv_sample_def cv_moment_def cv_idle_def)
  moreover have "temporal_StartISR open_run ''isr'' (alert_of cv_anomaly) [] = (Inr (), [(''cv-dark-e1'', alert_of cv_anomaly)])"
    by (simp add: temporal_StartISR_def open_run_def alert_of_def cv_anomaly_def)
  ultimately show ?thesis using assms(3) by (simp add: handle_def HandleDarkVessel_def ver v c a Let_def)
qed

theorem cv_effects_authentic_witness:
  "\<exists>m g st'. handle (cv_sample m logAnomalyRecorder) TopicDarkVessel cv_moment (text_of (signed_doc dark_members g)) (cv_idle ()) = (Inr (), st') \<and>
     \<not> same_effects (cv_idle ()) st' \<and> (\<exists>v. strip_signature (signed_doc dark_members g) = Inr (v, g) \<and> same_content v (bare_doc dark_members))"
proof -
  obtain m g where g: "only_signed (toy_ed m) toy_keys [text_of (bare_doc dark_members)]" "valid_utf8 g"
    "VerifyEnvelope (toy_ed m) (Some toy_keys) (text_of (signed_doc dark_members g)) = Inr ()"
    by (rule sample_envelope_verifies [OF dark_members_ok])
  let ?cn = "cv_sample m logAnomalyRecorder" and ?raw = "text_of (signed_doc dark_members g)"
  obtain st' where h: "handle ?cn TopicDarkVessel cv_moment ?raw (cv_idle ()) = (Inr (), st')" and t: "cv_temporal st' \<noteq> []"
    using dark_record_handled [OF g(2,3), of logAnomalyRecorder "()" "()"] by (auto simp: logAnomalyRecorder_def)
  have eff: "\<not> same_effects (cv_idle ()) st'" using t by (simp add: same_effects_def cv_idle_def)
  have "cn_directory ?cn = Some toy_keys" "only_signed (cn_ed ?cn) toy_keys [text_of (bare_doc dark_members)]" using g(1) by (simp_all add: cv_sample_def)
  from cv_effects_authentic [OF h eff this] obtain document v s original w s' where
    "decodeJSON (string_of_bytes ?raw) = Inr document" "strip_signature document = Inr (v, s)"
    "decodeJSON (string_of_bytes (text_of (bare_doc dark_members))) = Inr original" "strip_signature original = Inr (w, s')" "same_content v w" by auto
  then have "strip_signature (signed_doc dark_members g) = Inr (v, g)" "same_content v (bare_doc dark_members)"
    using doc_texts [OF dark_members_ok g(2)] by auto
  then show ?thesis using h eff by blast
qed


end
