(* ===== verification/BoxProps.thy ===== *)
theory BoxProps
  imports CvConsumer
begin

section \<open>Rounding errors\<close>

lemma rne_error: "\<bar>of_int (rne q) - q\<bar> \<le> 1 / 2"
proof -
  have "of_int \<lfloor>q\<rfloor> \<le> q" "q < of_int \<lfloor>q\<rfloor> + 1" by linarith+
  then show ?thesis by (simp add: rne_def Let_def)
qed

lemma rnd_val_error: "\<bar>rnd_val q - q\<bar> \<le> \<bar>q\<bar> / 2 ^ 53 + 1 / 2 ^ 60"
proof (cases "q = 0")
  case False
  let ?u = "(2::rat) powi ulp_exp q"
  have "rnd_val q - q = (of_int (rne (q / ?u)) - q / ?u) * ?u" using False by (simp add: rnd_val_def algebra_simps)
  then have "\<bar>rnd_val q - q\<bar> = \<bar>of_int (rne (q / ?u)) - q / ?u\<bar> * ?u" by (simp add: abs_mult)
  also have "\<dots> \<le> 1 / 2 * ?u" by (rule mult_right_mono [OF rne_error]) simp
  also have "\<dots> \<le> \<bar>q\<bar> / 2 ^ 53 + 1 / 2 ^ 60"
  proof (cases "ilog2 \<bar>q\<bar> - 52 \<le> -1074")
    case True
    then have "?u \<le> 2 powi (- 59)" by (simp add: ulp_exp_def)
    moreover have "(2::rat) powi (- 59) = 2 / 2 ^ 60" by (simp add: power_int_def power_one_over)
    moreover have "0 \<le> \<bar>q\<bar> / 2 ^ 53" by simp
    ultimately show ?thesis by linarith
  next
    case False
    then have "?u = 2 powi ilog2 \<bar>q\<bar> / 2 ^ 52" by (simp add: ulp_exp_def power_int_diff)
    moreover have "2 powi ilog2 \<bar>q\<bar> \<le> \<bar>q\<bar>" using \<open>q \<noteq> 0\<close> by (intro ilog2_bounds) simp
    ultimately show ?thesis by (simp add: field_simps)
  qed
  finally show ?thesis .
qed simp

lemma rnd_in_range:
  assumes "0 \<le> q" "q \<le> of_int i" "i < 2 ^ 53"
  shows "rnd q = Fin (rnd_val q) \<and> 0 \<le> rnd_val q \<and> rnd_val q \<le> of_int i"
proof -
  obtain v where "rnd q = Fin v" "\<bar>v\<bar> \<le> of_int i" using rnd_bounded [of q i] assms by auto
  then show ?thesis using rnd_val_nonneg [OF assms(1)] by (auto simp: rnd_def Let_def split: if_splits)
qed

section \<open>Boxes\<close>

text \<open>One axis of a box: its start and its extent, scaled.\<close>

lemma scaled_side:
  fixes a b s :: rat
  assumes "0 \<le> a" "a \<le> b" "b \<le> s" "1 \<le> s" "s \<le> 2 ^ 32"
  obtains x w where "f_div (Fin a) (Fin s) = Fin x" "0 \<le> x" "x \<le> 1"
    "(if f_lt (Fin 1) (f_div (f_sub (Fin b) (Fin a)) (Fin s)) then Fin 1 else f_div (f_sub (Fin b) (Fin a)) (Fin s)) = Fin w" "0 \<le> w" "w \<le> 1"
    "x + w \<le> 1 + 1 / 10 ^ 9"
proof -
  define d x v where "d = rnd_val (b - a)" and "x = rnd_val (a / s)" and "v = rnd_val (d / s)"
  have as: "a / s \<le> 1" "(b - a) / s \<le> 1" using assms by (simp_all add: field_simps)
  have d: "rnd (b - a) = Fin d" "0 \<le> d" using rnd_in_range [of "b - a" "2 ^ 32"] assms by (simp_all add: d_def)
  have x: "rnd (a / s) = Fin x" "0 \<le> x" "x \<le> 1" using rnd_in_range [of "a / s" 1] assms as by (simp_all add: x_def)
  have "d \<le> (b - a) + (s / 2 ^ 53 + 1 / 2 ^ 60)"
  proof -
    have "\<bar>b - a\<bar> / 2 ^ 53 \<le> s / 2 ^ 53" using assms(1-3) by (intro divide_right_mono) simp_all
    then show ?thesis using rnd_val_error [of "b - a"] unfolding d_def by linarith
  qed
  then have "d / s \<le> ((b - a) + (s / 2 ^ 53 + 1 / 2 ^ 60)) / s" using assms(4) by (intro divide_right_mono) simp_all
  also have "\<dots> = (b - a) / s + 1 / 2 ^ 53 + 1 / 2 ^ 60 / s" using assms(4) by (simp add: field_simps)
  also have "\<dots> \<le> (b - a) / s + 1 / 2 ^ 53 + 1 / 2 ^ 60" using assms(4) by (simp add: field_simps)
  finally have ds: "d / s \<le> (b - a) / s + 1 / 2 ^ 53 + 1 / 2 ^ 60" .
  then have "d / s \<le> 2" using as(2) by simp
  then have v: "rnd (d / s) = Fin v" "0 \<le> v" using rnd_in_range [of "d / s" 2] d(2) assms(4) by (simp_all add: v_def)
  have "\<bar>d / s\<bar> \<le> 2" using \<open>d / s \<le> 2\<close> d(2) assms(4) by simp
  then have "v \<le> d / s + 2 / 2 ^ 53 + 1 / 2 ^ 60" using rnd_val_error [of "d / s"] unfolding v_def by (simp add: abs_le_iff)
  moreover have "x \<le> a / s + 1 / 2 ^ 53 + 1 / 2 ^ 60"
  proof -
    have "\<bar>a / s\<bar> / 2 ^ 53 \<le> 1 / 2 ^ 53" using as(1) assms(1,4) by (intro divide_right_mono) simp_all
    then show ?thesis using rnd_val_error [of "a / s"] unfolding x_def by linarith
  qed
  moreover have "a / s + (b - a) / s \<le> 1" using assms(3,4) by (simp add: field_simps)
  ultimately have sum: "x + v \<le> 1 + 1 / 10 ^ 9" using ds by simp
  have q: "f_div (f_sub (Fin b) (Fin a)) (Fin s) = Fin v" "f_div (Fin a) (Fin s) = Fin x"
    using d(1) v(1) x(1) assms(4) by (simp_all add: f_sub_def)
  define w where "w = min 1 v"
  have "(if f_lt (Fin 1) (Fin v) then Fin 1 else Fin v) = Fin w" by (simp add: w_def min_def)
  then show thesis using that [of x w] q x(2,3) v(2) sum by (simp add: w_def)
qed

lemma unit_interval: "0 \<le> a \<Longrightarrow> a \<le> 1 \<Longrightarrow> validateUnitInterval name (Fin a) = None"
  by (simp add: validateUnitInterval_def check_def isFinite_def is_nan_def is_inf_def)

lemma sum_in_bounds: "x + w \<le> 1 + 1 / 10 ^ 9 \<Longrightarrow> \<not> f_lt (rnd (1 + 1 / 10 ^ 9)) (f_add (Fin x) (Fin w))"
  using rnd_mono [of "x + w" "1 + 1 / 10 ^ 9"] f_lt_not_le by (metis f_add.simps(1) rnd_not_NaN)

text \<open>
  C39. A box in pixels inside its frame, of up to 2^32 pixels a side, becomes a box that the
  detection contract accepts, whatever the rounding of the divisions: all parts in [0, 1] and the
  far edges within the tolerance of the image bounds.
\<close>

theorem normalizeBox_valid:
  assumes "0 \<le> x1" "x1 \<le> x2" "0 \<le> y1" "y1 \<le> y2" "1 \<le> max x2 y2" "max x2 y2 \<le> 2 ^ 32" "0 \<le> confidence" "confidence \<le> 1"
  shows "validate_box (normalizeBox [Fin x1, Fin y1, Fin x2, Fin y2] (Fin confidence)) = None"
proof -
  define s where "s = max x2 y2"
  obtain x w where x: "f_div (Fin x1) (Fin s) = Fin x" "0 \<le> x" "x \<le> 1"
    "(if f_lt (Fin 1) (f_div (f_sub (Fin x2) (Fin x1)) (Fin s)) then Fin 1 else f_div (f_sub (Fin x2) (Fin x1)) (Fin s)) = Fin w" "0 \<le> w" "w \<le> 1"
    "x + w \<le> 1 + 1 / 10 ^ 9"
    by (rule scaled_side [of x1 x2 s]) (use assms in \<open>auto simp: s_def\<close>)
  obtain y h where y: "f_div (Fin y1) (Fin s) = Fin y" "0 \<le> y" "y \<le> 1"
    "(if f_lt (Fin 1) (f_div (f_sub (Fin y2) (Fin y1)) (Fin s)) then Fin 1 else f_div (f_sub (Fin y2) (Fin y1)) (Fin s)) = Fin h" "0 \<le> h" "h \<le> 1"
    "y + h \<le> 1 + 1 / 10 ^ 9"
    by (rule scaled_side [of y1 y2 s]) (use assms in \<open>auto simp: s_def\<close>)
  let ?box = "[Fin x1, Fin y1, Fin x2, Fin y2]"
  have n: "?box ! 0 = Fin x1" "?box ! 1 = Fin y1" "?box ! 2 = Fin x2" "?box ! 3 = Fin y2" by simp_all
  have s: "(if f_lt (Fin x2) (Fin y2) then Fin y2 else Fin x2) = Fin s" "(if f_le (Fin s) (Fin 0) then Fin 1 else Fin s) = Fin s"
    using assms(5) by (auto simp: s_def max_def split: if_splits)
  have "normalizeBox ?box (Fin confidence) =
      \<lparr>box_x = Fin x, box_y = Fin y, box_width = Fin w, box_height = Fin h, box_confidence = Fin confidence\<rparr>"
    by (simp only: normalizeBox_def Let_def n s x(1,4) y(1,4))
  then show ?thesis
    using x y assms(7,8) sum_in_bounds by (simp add: validate_box_def unit_interval check_def del: f_add.simps)
qed

theorem normalizeBox_valid_witness:
  "validate_box (normalizeBox [Fin 10, Fin 20, Fin 1910, Fin 1070] (Fin (1 / 2))) = None"
  by (rule normalizeBox_valid) simp_all

end
