(* ===== verification/Startup.thy ===== *)
theory Startup
  imports CvConsumer AuthProps FusionReplay
begin

text \<open>
  Start-up and wiring: \<open>cmd/maritime-intelligence/main.go\<close>, the configuration of
  \<open>internal/telemetry/telemetry.go\<close> with its HTTP middleware, the database pool of
  \<open>internal/incident/store.go\<close>, and the starts of \<open>cmd/isr-worker\<close> and \<open>cmd/seed\<close>. The
  environment, the file system, the database and the clients of other services are arguments. A
  step of a start that fails ends it; \<open>log.Fatalf\<close> is such a failure.
\<close>

section \<open>Database pool\<close>

record pool_config =
  pc_max_conns :: "32 word"
  pc_min_conns :: "32 word"
  pc_max_idle :: duration
  pc_max_life :: duration

definition pool_knobs :: "(string \<times> (int \<Rightarrow> pool_config \<Rightarrow> pool_config)) list" where
  "pool_knobs =
     [(''MI_DB_POOL_MAX_CONNS'', \<lambda>v c. c\<lparr>pc_max_conns := word_of_int v\<rparr>),
      (''MI_DB_POOL_MIN_CONNS'', \<lambda>v c. c\<lparr>pc_min_conns := word_of_int v\<rparr>),
      (''MI_DB_POOL_MAX_CONN_IDLE_SEC'', \<lambda>v c. c\<lparr>pc_max_idle := wrap64 (v * second)\<rparr>),
      (''MI_DB_POOL_MAX_CONN_LIFE_SEC'', \<lambda>v c. c\<lparr>pc_max_life := wrap64 (v * second)\<rparr>)]"

fun apply_knobs :: "(string \<Rightarrow> string) \<Rightarrow> (string \<times> (int \<Rightarrow> pool_config \<Rightarrow> pool_config)) list \<Rightarrow> pool_config \<Rightarrow> pool_config result" where
  "apply_knobs getenv [] c = Inr c"
| "apply_knobs getenv ((name, upd) # ks) c =
     (let raw = getenv name in
      if raw = [] then apply_knobs getenv ks c
      else (case atoi raw of
              None \<Rightarrow> Inl (EMsg (name @ '' must be a non-negative integer''))
            | Some v \<Rightarrow> if v < 0 then Inl (EMsg (name @ '' must be a non-negative integer'')) else apply_knobs getenv ks (upd v c)))"

definition applyPoolEnv :: "(string \<Rightarrow> string) \<Rightarrow> pool_config \<Rightarrow> pool_config result" where
  "applyPoolEnv getenv c = apply_knobs getenv pool_knobs c"

text \<open>The driver: parsing a connection string, opening a pool and pinging it.\<close>

record pg_driver =
  pg_parse :: "string \<Rightarrow> pool_config result"
  pg_open :: "pool_config \<Rightarrow> unit result"
  pg_ping :: "unit result"

definition wrapped :: "string \<Rightarrow> 'a result \<Rightarrow> 'a result" where
  "wrapped m r = (case r of Inl e \<Rightarrow> Inl (EWrap m e) | Inr x \<Rightarrow> Inr x)"

definition incident_Open :: "(string \<Rightarrow> string) \<Rightarrow> pg_driver \<Rightarrow> string \<Rightarrow> pool_config result" where
  "incident_Open getenv pg databaseURL =
     rbind (wrapped ''parse postgres dsn'' (pg_parse pg databaseURL)) (\<lambda>c.
     rbind (applyPoolEnv getenv c) (\<lambda>c.
     rbind (wrapped ''open postgres'' (pg_open pg c)) (\<lambda>_.
     rbind (wrapped ''ping postgres'' (pg_ping pg)) (\<lambda>_. Inr c))))"

section \<open>Telemetry\<close>

record telemetry_config =
  tl_enabled :: bool
  tl_endpoint :: string
  tl_insecure :: bool
  tl_service_name :: string

definition parseBoolean :: "(string \<Rightarrow> string) \<Rightarrow> string \<Rightarrow> bool result" where
  "parseBoolean getenv name =
     (let v = trim_space (getenv name) in
      if v = [] \<or> v = ''false'' then Inr False
      else if v = ''true'' then Inr True
      else Inl (EMsg (name @ '' must be true or false when set'')))"

text \<open>\<open>net.SplitHostPort\<close>: the port follows the last colon; a host with colons stands in brackets.\<close>

definition after_last_colon :: "string \<Rightarrow> string" where
  "after_last_colon s = rev (takeWhile (\<lambda>c. c \<noteq> CHR '':'') (rev s))"

definition SplitHostPort :: "string \<Rightarrow> (string \<times> string) option" where
  "SplitHostPort s =
     (let port = after_last_colon s; host = butlast (take (length s - length port) s) in
      if CHR '':'' \<notin> set s then None
      else if hd s = CHR ''['' then
        (let inner = takeWhile (\<lambda>c. c \<noteq> CHR '']'') (tl s) in
         if CHR '']'' \<notin> set s \<or> length s - length port - 1 \<noteq> length inner + 2 \<or>
            CHR ''['' \<in> set (tl s) \<or> CHR '']'' \<in> set (drop (length inner + 2) s) then None
         else Some (inner, port))
      else if CHR '':'' \<in> set host \<or> CHR ''['' \<in> set s \<or> CHR '']'' \<in> set s then None
      else Some (host, port))"

definition telemetry_LoadConfig :: "(string \<Rightarrow> string) \<Rightarrow> string \<Rightarrow> telemetry_config result" where
  "telemetry_LoadConfig getenv serviceName =
     require (trim_space serviceName \<noteq> []) (EMsg ''telemetry service name is required'')
      (let override = trim_space (getenv ''OTEL_SERVICE_NAME'');
           name = (if override \<noteq> [] then override else serviceName) in
       require (length override \<le> 128) (EMsg ''OTEL_SERVICE_NAME must be at most 128 characters'')
        (rbind (parseBoolean getenv ''OTEL_SDK_DISABLED'') (\<lambda>disabled.
         rbind (parseBoolean getenv ''OTEL_EXPORTER_OTLP_INSECURE'') (\<lambda>insecure.
         let endpoint = trim_space (getenv ''OTEL_EXPORTER_OTLP_ENDPOINT'');
             off = \<lparr>tl_enabled = False, tl_endpoint = [], tl_insecure = insecure, tl_service_name = name\<rparr> in
         if disabled then require (endpoint = []) (EMsg ''OTEL_SDK_DISABLED=true conflicts with OTEL_EXPORTER_OTLP_ENDPOINT'') (Inr off)
         else if endpoint = [] then Inr off
         else (case SplitHostPort endpoint of
                 None \<Rightarrow> Inl (EMsg ''OTEL_EXPORTER_OTLP_ENDPOINT must be a host:port pair'')
               | Some (host, port) \<Rightarrow>
                   require (host \<noteq> []) (EMsg ''OTEL_EXPORTER_OTLP_ENDPOINT must be a host:port pair'')
                    (case atoi port of
                       None \<Rightarrow> Inl (EMsg ''OTEL_EXPORTER_OTLP_ENDPOINT has an invalid port'')
                     | Some n \<Rightarrow> require (1 \<le> n \<and> n \<le> 65535) (EMsg ''OTEL_EXPORTER_OTLP_ENDPOINT has an invalid port'')
                         (Inr (off\<lparr>tl_enabled := True, tl_endpoint := endpoint\<rparr>))))))))"

text \<open>The measurements of the running service.\<close>

record measurement =
  me_method :: string
  me_route :: string
  me_status :: nat
  me_seconds :: f64

record telemetry =
  tm_config :: telemetry_config
  tm_exports :: bool
  tm_requests :: "measurement list"
  tm_failed_spans :: "string list"
  tm_latency :: "(string \<times> f64) list"
  tm_fusion_errors :: nat

definition recorded_status :: "reply list \<Rightarrow> nat" where
  "recorded_status rs = fold (\<lambda>r _. fst r) rs 200"

text \<open>
  \<open>Middleware\<close> around a handler, which answers with the replies it wrote, the route pattern it
  left on the request it was called with, and its state.
\<close>

definition Middleware ::
  "gotime \<Rightarrow> gotime \<Rightarrow> (http_request \<Rightarrow> 's \<Rightarrow> reply list \<times> string \<times> 's) \<Rightarrow> http_request \<Rightarrow> 's \<Rightarrow> telemetry \<Rightarrow> reply list \<times> 's \<times> telemetry" where
  "Middleware started ended k rq s T =
     (case k rq s of
        (rs, pattern, s') \<Rightarrow>
          let route = (if pattern = [] then ''unmatched'' else pattern);
              status = recorded_status rs;
              T = (if 500 \<le> status then T\<lparr>tm_failed_spans := tm_failed_spans T @ [if pattern = [] then rq_method rq else pattern]\<rparr> else T)
          in (rs, s', T\<lparr>tm_requests := tm_requests T @
                [\<lparr>me_method = rq_method rq, me_route = route, me_status = status, me_seconds = duration_seconds (time_sub ended started)\<rparr>]\<rparr>))"

definition RecordFusionIngestError :: "telemetry \<Rightarrow> telemetry" where
  "RecordFusionIngestError T = T\<lparr>tm_fusion_errors := tm_fusion_errors T + 1\<rparr>"

definition telemetry_RecordDetectionLatency :: "string \<Rightarrow> f64 \<Rightarrow> telemetry \<Rightarrow> telemetry" where
  "telemetry_RecordDetectionLatency kind seconds T =
     T\<lparr>tm_latency := tm_latency T @ [(kind, if f_lt seconds (Fin 0) then Fin 0 else seconds)]\<rparr>"

definition latencyAdapter :: "latency_log \<Rightarrow> telemetry option \<Rightarrow> telemetry option" where
  "latencyAdapter lat adapter = map_option (fold (\<lambda>(kind, seconds). telemetry_RecordDetectionLatency kind seconds) lat) adapter"

text \<open>The OpenTelemetry libraries: the Prometheus reader, an instrument by its name, the trace exporter.\<close>

record otel =
  ot_reader :: "unit result"
  ot_instrument :: "string \<Rightarrow> unit result"
  ot_exporter :: "string \<Rightarrow> bool \<Rightarrow> unit result"

definition newMeterPipeline :: "otel \<Rightarrow> unit result" where
  "newMeterPipeline ot = wrapped ''create Prometheus exporter'' (ot_reader ot)"

definition telemetry_Setup :: "otel \<Rightarrow> telemetry_config \<Rightarrow> telemetry result" where
  "telemetry_Setup ot cfg =
     require (trim_space (tl_service_name cfg) \<noteq> []) (EMsg ''telemetry service name is required'')
      (rbind (newMeterPipeline ot) (\<lambda>_.
       rbind (wrapped ''create request counter'' (ot_instrument ot ''http.server.requests'')) (\<lambda>_.
       rbind (wrapped ''create duration histogram'' (ot_instrument ot ''http.server.request.duration'')) (\<lambda>_.
       rbind (wrapped ''create anomaly latency histogram'' (ot_instrument ot ''isr.anomaly.detection.latency'')) (\<lambda>_.
       rbind (wrapped ''create fusion error counter'' (ot_instrument ot ''isr.fusion.ingest_errors'')) (\<lambda>_.
       let T = \<lparr>tm_config = cfg, tm_exports = False, tm_requests = [], tm_failed_spans = [], tm_latency = [], tm_fusion_errors = 0\<rparr> in
       if \<not> tl_enabled cfg then Inr T
       else rbind (wrapped ''create OTLP gRPC trace exporter'' (ot_exporter ot (tl_endpoint cfg) (tl_insecure cfg))) (\<lambda>_. Inr (T\<lparr>tm_exports := True\<rparr>))))))))"

definition telemetry_Enabled :: "telemetry \<Rightarrow> bool" where
  "telemetry_Enabled T = tl_enabled (tm_config T)"

text \<open>\<open>Shutdown\<close>: both providers are stopped, the first error is reported; the tracer provider exists only when traces are exported.\<close>

definition telemetry_Shutdown :: "unit result \<Rightarrow> unit result \<Rightarrow> telemetry \<Rightarrow> unit result" where
  "telemetry_Shutdown tracer meter T =
     (let first = (if tm_exports T then tracer else Inr ()) in case first of Inl e \<Rightarrow> Inl e | Inr _ \<Rightarrow> meter)"

text \<open>
  The handler that \<open>server.New\<close> returns: \<open>http.MaxBytesHandler\<close> passes a copy of the request to
  the mux, so the pattern that the mux records never reaches the request of the caller.
\<close>

definition served :: "'t server_config \<Rightarrow> request_env \<Rightarrow> http_request \<Rightarrow> ('a track_db_scheme, 't) service \<Rightarrow> reply list \<times> string \<times> ('a track_db_scheme, 't) service" where
  "served C E rq s = (case server_New C E rq None s of (rs, s') \<Rightarrow> (rs, [], s'))"

section \<open>The service\<close>

definition requiredEnv :: "(string \<Rightarrow> string) \<Rightarrow> string \<Rightarrow> string result" where
  "requiredEnv getenv name = (if getenv name = [] then Inl (EMsg (name @ '' must be set'')) else Inr (getenv name))"

text \<open>Zones are decoded strictly: an unknown member is an error. What follows the array is not read.\<close>

definition position_fields :: "position fields" where
  "position_fields = [(''latitude'', field latitude latitude_update into_float), (''longitude'', field longitude longitude_update into_float)]"

record json_zone =
  jz_id :: string
  jz_kind :: string
  jz_vertices :: "position slice"

definition zone_fields :: "json_zone fields" where
  "zone_fields =
     [(''zone_id'', field jz_id jz_id_update into_string),
      (''zone_kind'', field jz_kind jz_kind_update into_string),
      (''vertices'', field jz_vertices jz_vertices_update (into_slice (into_struct True position_fields) \<lparr>latitude = Fin 0, longitude = Fin 0\<rparr>))]"

definition decode_zones :: "bytes \<Rightarrow> zone list option" where
  "decode_zones raw =
     (case json_Decode (string_of_bytes raw) of
        Inl _ \<Rightarrow> None
      | Inr (v, _) \<Rightarrow>
          map_option (\<lambda>zs. map (\<lambda>z. \<lparr>zone_id = jz_id z, zone_kind = jz_kind z, vertices = fst (jz_vertices z)\<rparr>) (fst zs))
            (into_slice (into_struct True zone_fields) \<lparr>jz_id = [], jz_kind = [], jz_vertices = ([], [])\<rparr> v ([], [])))"

definition loadFusionZones :: "file_system \<Rightarrow> string \<Rightarrow> zone list result" where
  "loadFusionZones fs path =
     (if trim_space path = [] then Inr []
      else rbind (wrapped ''read ISR_ZONES_FILE'' (fs_read fs path)) (\<lambda>raw.
        case decode_zones raw of
          None \<Rightarrow> Inl (EMsg ''ISR_ZONES_FILE must be a JSON array of zones'')
        | Some zones \<Rightarrow> validated (zones_error zones) (Inr zones)))"

text \<open>\<open>fmt.Sscanf\<close> with \<open>%d\<close> into a uint64: digits, then whatever follows.\<close>

definition scan_uint64 :: "string \<Rightarrow> int option" where
  "scan_uint64 s =
     (case digits_value (takeWhile is_digit s) of None \<Rightarrow> None | Some n \<Rightarrow> if n < 2 ^ 64 then Some n else None)"

definition cluster_id :: "(string \<Rightarrow> string) \<Rightarrow> int result" where
  "cluster_id getenv =
     (let v = trim_space (getenv ''TIGERBEETLE_CLUSTER_ID'') in
      if v = [] then Inr 0
      else (case scan_uint64 v of
              None \<Rightarrow> Inl (EMsg ''TIGERBEETLE_CLUSTER_ID must be a positive integer when set'')
            | Some n \<Rightarrow> require (n \<noteq> 0) (EMsg ''TIGERBEETLE_CLUSTER_ID must be a positive integer when set'') (Inr n)))"

definition loadOutcomeService ::
  "(string \<Rightarrow> string) \<Rightarrow> (int \<Rightarrow> string \<Rightarrow> 't tb_client result) \<Rightarrow> 't \<Rightarrow> 't ledger_service option result \<times> 't" where
  "loadOutcomeService getenv newClient tb =
     (let address = trim_space (getenv ''TIGERBEETLE_ADDRESS'') in
      if address = [] then (Inr None, tb)
      else (case rbind (cluster_id getenv) (\<lambda>n. rbind (wrapped ''connect TigerBeetle'' (newClient n address)) (\<lambda>c. ledger_New (Some c) 1 1)) of
              Inl e \<Rightarrow> (Inl e, tb)
            | Inr sv \<Rightarrow>
                (case EnsureAccounts sv tb of
                   (Inl e, tb') \<Rightarrow> (Inl (EWrap ''provision outcome accounts'' e), tb')
                 | (Inr _, tb') \<Rightarrow> (Inr (Some sv), tb'))))"

definition NewOutcomeStore :: "bool \<Rightarrow> 't ledger_service option \<Rightarrow> 't ledger_service result" where
  "NewOutcomeStore hasPool sv =
     require hasPool (EMsg ''postgres pool is required'')
      (case sv of None \<Rightarrow> Inl (EMsg ''TigerBeetle outcome service is required (fail-closed)'') | Some s \<Rightarrow> Inr s)"

fun read_migrations :: "file_system \<Rightarrow> string list \<Rightarrow> bytes list result" where
  "read_migrations fs [] = Inr []"
| "read_migrations fs (p # ps) =
     (let path = trim_space p in
      require (path \<noteq> []) (EMsg ''MIGRATION_PATH contains an empty path'')
       (rbind (wrapped ''read migration'' (fs_read fs path)) (\<lambda>m. rbind (read_migrations fs ps) (\<lambda>ms. Inr (m # ms)))))"

fun apply_migrations :: "(bytes \<Rightarrow> 'd \<Rightarrow> unit result \<times> 'd) \<Rightarrow> bytes list \<Rightarrow> 'd \<Rightarrow> unit result \<times> 'd" where
  "apply_migrations ex [] db = (Inr (), db)"
| "apply_migrations ex (m # ms) db =
     (case ex m db of (Inl e, db') \<Rightarrow> (Inl (EWrap ''apply migration'' e), db') | (Inr _, db') \<Rightarrow> apply_migrations ex ms db')"

text \<open>The replay of the listed associations; each call of \<open>Replay\<close> iterates over the tracks in an order of its own.\<close>

fun replay_all ::
  "math_fns \<Rightarrow> detection_decoder \<Rightarrow> (nat \<Rightarrow> string list) \<Rightarrow> association_replay list \<Rightarrow> engine \<Rightarrow> engine result" where
  "replay_all mf decode orders [] eng = Inr eng"
| "replay_all mf decode orders (r # rs) eng =
     (case DecodeDetection decode (ar_payload r) of
        Inl e \<Rightarrow> Inl (EWrap ''reload track association: retained detection undecodable'' e)
      | Inr d \<Rightarrow>
          (case Replay mf (orders 0) (ar_track_id r) d eng of
             (Inl e, _) \<Rightarrow> Inl (EWrap ''replay track association'' e)
           | (Inr _, eng') \<Rightarrow> replay_all mf decode (\<lambda>n. orders (Suc n)) rs eng'))"

definition replayTrackAssociations ::
  "math_fns \<Rightarrow> detection_decoder \<Rightarrow> (string \<Rightarrow> string) \<Rightarrow> (bytes \<Rightarrow> bytes) \<Rightarrow> db_env \<Rightarrow> (nat \<Rightarrow> string list) \<Rightarrow> 'a track_db_scheme \<Rightarrow> engine \<Rightarrow> engine result" where
  "replayTrackAssociations mf decode coll jsonb env orders db eng =
     rbind (wrapped ''reload track associations'' (ListAssociationsForReplay coll jsonb env db)) (\<lambda>rs. replay_all mf decode orders rs eng)"

definition darkVesselScanInterval :: "string \<Rightarrow> (duration \<times> bool) result" where
  "darkVesselScanInterval value =
     (let v = trim_space value in
      if v = [] then Inr (minute, True)
      else if v = ''0'' then Inr (0, False)
      else (case ParseDuration v of
              None \<Rightarrow> Inl (EMsg ''ISR_DARK_VESSEL_SCAN_INTERVAL must be a positive duration or 0 to disable'')
            | Some d \<Rightarrow> require (0 < d) (EMsg ''ISR_DARK_VESSEL_SCAN_INTERVAL must be a positive duration or 0 to disable'') (Inr (d, True))))"

text \<open>Everything around the process.\<close>

record ('d, 't) platform =
  pf_getenv :: "string \<Rightarrow> string"
  pf_files :: file_system
  pf_url :: "string \<Rightarrow> parsed_url option"
  pf_has_cert :: "bytes \<Rightarrow> bool"
  pf_otel :: otel
  pf_pg :: pg_driver
  pf_exec :: "bytes \<Rightarrow> 'd \<Rightarrow> unit result \<times> 'd"
  pf_tb :: "int \<Rightarrow> string \<Rightarrow> 't tb_client result"
  pf_collation :: "string \<Rightarrow> string"
  pf_replay_env :: db_env
  pf_orders :: "nat \<Rightarrow> string list"

text \<open>A service that is about to listen: its wiring, its state, its scanner and its telemetry.\<close>

record ('d, 't) started =
  sd_auth :: authenticator
  sd_deps :: "'t isr_deps"
  sd_service :: "('d, 't) service"
  sd_scanner :: "scanner option"
  sd_telemetry :: telemetry

definition start_configured ::
  "('a track_db_scheme, 't) platform \<Rightarrow> (authenticator \<times> bytes list \<times> telemetry) result" where
  "start_configured P =
     (let getenv = pf_getenv P in
      rbind (requiredEnv getenv ''DATABASE_URL'') (\<lambda>_.
      rbind (requiredEnv getenv ''MIGRATION_PATH'') (\<lambda>paths.
      rbind (requiredEnv getenv ''PORT'') (\<lambda>_.
      rbind (LoadAuthConfig (pf_url P) getenv) (\<lambda>cfg.
      rbind (NewAuthenticator (fs_read (pf_files P)) (pf_has_cert P) cfg) (\<lambda>auth.
      rbind (read_migrations (pf_files P) (split_on (CHR '','') paths)) (\<lambda>migrations.
      rbind (telemetry_LoadConfig getenv ''blueeconomy-maritime-intelligence'') (\<lambda>tcfg.
      rbind (wrapped ''telemetry setup'' (telemetry_Setup (pf_otel P) tcfg)) (\<lambda>T.
      rbind (incident_Open getenv (pf_pg P) (getenv ''DATABASE_URL'')) (\<lambda>_. Inr (auth, migrations, T)))))))))))"

definition start_engine :: "math_fns \<Rightarrow> detection_decoder \<Rightarrow> (bytes \<Rightarrow> bytes) \<Rightarrow> ('a track_db_scheme, 't) platform \<Rightarrow> 'a track_db_scheme \<Rightarrow> engine result" where
  "start_engine mf decode jsonb P db =
     rbind (loadFusionZones (pf_files P) (pf_getenv P ''ISR_ZONES_FILE'')) (\<lambda>zones.
     rbind (wrapped ''fusion engine'' (NewEngine DefaultConfig zones)) (\<lambda>eng.
       replayTrackAssociations mf decode (pf_collation P) jsonb (pf_replay_env P) (pf_orders P) db eng))"

definition service_run ::
  "math_fns \<Rightarrow> detection_decoder \<Rightarrow> (bytes \<Rightarrow> bytes) \<Rightarrow> ('a track_db_scheme, 't) platform \<Rightarrow> 'a track_db_scheme \<Rightarrow> 't \<Rightarrow>
   ('a track_db_scheme, 't) started result \<times> 'a track_db_scheme \<times> 't" where
  "service_run mf decode jsonb P db tb =
     (case start_configured P of
        Inl e \<Rightarrow> (Inl e, db, tb)
      | Inr (auth, migrations, T) \<Rightarrow>
          (case apply_migrations (pf_exec P) migrations db of
             (Inl e, db') \<Rightarrow> (Inl e, db', tb)
           | (Inr _, db') \<Rightarrow>
               (case start_engine mf decode jsonb P db' of
                  Inl e \<Rightarrow> (Inl e, db', tb)
                | Inr eng \<Rightarrow>
                    (case loadOutcomeService (pf_getenv P) (pf_tb P) tb of
                       (Inl e, tb') \<Rightarrow> (Inl e, db', tb')
                     | (Inr outcomes, tb') \<Rightarrow>
                         (rbind (darkVesselScanInterval (pf_getenv P ''ISR_DARK_VESSEL_SCAN_INTERVAL'')) (\<lambda>(interval, enabled).
                          rbind (if enabled then map_sum id Some (wrapped ''dark-vessel scanner'' (NewDarkVesselScanner True True interval)) else Inr None) (\<lambda>scan.
                          rbind (case outcomes of None \<Rightarrow> Inr None | Some _ \<Rightarrow> map_sum id Some (NewOutcomeStore True outcomes)) (\<lambda>store.
                            Inr \<lparr>sd_auth = auth,
                                 sd_deps = \<lparr>dp_isr_store = True, dp_track_store = True, dp_fusion = True, dp_outcomes = store\<rparr>,
                                 sd_service = \<lparr>sv_db = db', sv_engine = eng, sv_tb = tb'\<rparr>,
                                 sd_scanner = scan, sd_telemetry = T\<rparr>))), db', tb')))))"

section \<open>The other processes\<close>

definition worker_required :: "(string \<Rightarrow> string) \<Rightarrow> string \<Rightarrow> string result" where
  "worker_required getenv name = (let v = trim_space (getenv name) in if v = [] then Inl (EMsg (name @ '' is required'')) else Inr v)"

definition worker_applyPoolEnv :: "(string \<Rightarrow> string) \<Rightarrow> pool_config \<Rightarrow> pool_config result" where
  "worker_applyPoolEnv getenv c = apply_knobs getenv pool_knobs c"

definition NewISRWorkflow :: "'x option \<Rightarrow> 'y option \<Rightarrow> ('x \<times> 'y) result" where
  "NewISRWorkflow audit_fn outcome_fn =
     (case (audit_fn, outcome_fn) of
        (Some x, Some y) \<Rightarrow> Inr (x, y)
      | _ \<Rightarrow> Inl (EMsg ''isr activities are required (fail-closed)''))"

text \<open>The worker up to the registration of its workflow: the task queue it serves and its activities.\<close>

definition worker_run where
  "worker_run c enc getenv pg dial =
     rbind (worker_required getenv ''DATABASE_URL'') (\<lambda>databaseURL.
     rbind (worker_required getenv ''TEMPORAL_ADDRESS'') (\<lambda>address.
     rbind (worker_required getenv ''TEMPORAL_NAMESPACE'') (\<lambda>namespace.
     rbind (worker_required getenv ''TEMPORAL_TASK_QUEUE'') (\<lambda>taskQueue.
     rbind (wrapped ''parse postgres dsn'' (pg_parse pg databaseURL)) (\<lambda>cfg.
     rbind (worker_applyPoolEnv getenv cfg) (\<lambda>cfg.
     rbind (wrapped ''open postgres'' (pg_open pg cfg)) (\<lambda>_.
     rbind (wrapped ''ping postgres'' (pg_ping pg)) (\<lambda>_.
     rbind (wrapped ''dial temporal'' (dial address namespace)) (\<lambda>_.
     rbind (NewISRWorkflow (Some (auditTransition c enc)) (Some (recordOutcome c enc))) (\<lambda>activities. Inr (taskQueue, activities)))))))))))"

text \<open>
  \<open>strings.ToLower\<close> as far as it can produce an ASCII letter: ASCII capitals, the dotted capital
  I and the Kelvin sign.
\<close>

definition lower_char :: "char \<Rightarrow> char" where
  "lower_char c = (if 65 \<le> code_of c \<and> code_of c \<le> 90 then char_of (code_of c + 32) else c)"

fun to_lower :: "string \<Rightarrow> string" where
  "to_lower (a # b # c # s) =
     (if a = CHR 0xE2 \<and> b = CHR 0x84 \<and> c = CHR 0xAA then CHR ''k'' # to_lower s
      else if a = CHR 0xC4 \<and> b = CHR 0xB0 then CHR ''i'' # to_lower (c # s)
      else lower_char a # to_lower (b # c # s))"
| "to_lower [a, b] = (if a = CHR 0xC4 \<and> b = CHR 0xB0 then ''i'' else [lower_char a, lower_char b])"
| "to_lower [a] = [lower_char a]"
| "to_lower [] = []"

definition seed_run :: "(string \<Rightarrow> string) \<Rightarrow> (string \<Rightarrow> unit result) \<Rightarrow> ('d \<Rightarrow> unit result \<times> 'd) \<Rightarrow> unit result \<Rightarrow> 'd \<Rightarrow> unit result \<times> 'd" where
  "seed_run getenv connect apply_seed counted db =
     (if to_lower (getenv ''ENV'') = ''production'' \<or> to_lower (getenv ''PROFILE'') = ''prod''
      then (Inl (EMsg ''refusing to seed (production gate)''), db)
      else if to_lower (getenv ''SEED_DEMO'') \<noteq> ''true''
      then (Inl (EMsg ''refusing to seed: set SEED_DEMO=true to acknowledge loading synthetic demo data''), db)
      else if getenv ''DATABASE_URL'' = [] then (Inl (EMsg ''DATABASE_URL is required''), db)
      else (case wrapped ''connect'' (connect (getenv ''DATABASE_URL'')) of
              Inl e \<Rightarrow> (Inl e, db)
            | Inr _ \<Rightarrow>
                (case apply_seed db of
                   (Inl e, db') \<Rightarrow> (Inl (EWrap ''apply seed'' e), db')
                 | (Inr _, db') \<Rightarrow> (counted, db'))))"

end
