(* ===== verification/StartProps.thy ===== *)
theory StartProps
  imports Startup
begin

text \<open>
  What a start guarantees: it restores the fusion engine from the retained associations, it fails
  closed on every missing piece of configuration, and what the numeric settings become at their
  width. The last part is about the request metrics.
\<close>

section \<open>Restart\<close>

text \<open>The orders in which the calls of a replay iterate over the tracks list each track once.\<close>

fun enumerated :: "math_fns \<Rightarrow> detection_decoder \<Rightarrow> (nat \<Rightarrow> string list) \<Rightarrow> association_replay list \<Rightarrow> engine \<Rightarrow> bool" where
  "enumerated mf decode orders [] eng = True"
| "enumerated mf decode orders (r # rs) eng =
     (case DecodeDetection decode (ar_payload r) of
        Inl _ \<Rightarrow> True
      | Inr d \<Rightarrow>
          (case Replay mf (orders 0) (ar_track_id r) d eng of
             (Inl _, _) \<Rightarrow> True
           | (Inr _, eng') \<Rightarrow> enumerates (orders 0) (eg_tracks eng') \<and> enumerated mf decode (\<lambda>n. orders (Suc n)) rs eng'))"

text \<open>The listing holds the log, each detection as a payload that decodes to it.\<close>

definition retains :: "detection_decoder \<Rightarrow> association_replay list \<Rightarrow> (string \<times> detection) list \<Rightarrow> bool" where
  "retains decode rs lg = list_all2 (\<lambda>r e. ar_track_id r = fst e \<and> DecodeDetection decode (ar_payload r) = Inr (snd e)) rs lg"

lemma replay_all_log:
  assumes "retains decode rs lg" "\<forall>e \<in> set lg. log_entry_ok (snd e)" "replayable lg" "enumerated mf decode orders rs (fn_engine s)"
    and "fusion_reach mf c zs s" "replays mf eng0 (fn_log s) (fn_engine s)"
  shows "\<exists>s'. replay_all mf decode orders rs (fn_engine s) = Inr (fn_engine s') \<and> fn_log s' = fn_log s @ lg \<and> fusion_reach mf c zs s' \<and>
    replays mf eng0 (fn_log s @ lg) (fn_engine s')"
  using assms
proof (induction rs arbitrary: lg orders s)
  case Nil
  then show ?case by (auto simp: retains_def)
next
  case (Cons r rs)
  then obtain tid d lg' where e: "lg = (tid, d) # lg'" "ar_track_id r = tid" "DecodeDetection decode (ar_payload r) = Inr d" "retains decode rs lg'"
    by (auto simp: retains_def list_all2_Cons1)
  obtain eng1 where p: "Replay mf (orders 0) tid d (fn_engine s) = (Inr (), eng1)"
    using Replay_eq Cons.prems(2,3) e(1) by (auto simp: log_entry_ok_def replayable_def)
  have n: "enumerates (orders 0) (eg_tracks eng1)" "enumerated mf decode (\<lambda>n. orders (Suc n)) rs eng1" using Cons.prems(4) e p by simp_all
  let ?s = "\<lparr>fn_engine = eng1, fn_log = fn_log s @ [(tid, d)], fn_anomalies = fn_anomalies s\<rparr>"
  have reach: "fusion_reach mf c zs ?s" by (rule fusion_reach.replay [OF Cons.prems(5) p n(1)])
  have reps: "replays mf eng0 (fn_log ?s) (fn_engine ?s)" using replays.more [OF Cons.prems(6) p n(1)] by simp
  have "\<exists>s'. replay_all mf decode (\<lambda>n. orders (Suc n)) rs (fn_engine ?s) = Inr (fn_engine s') \<and> fn_log s' = fn_log ?s @ lg' \<and> fusion_reach mf c zs s' \<and>
      replays mf eng0 (fn_log ?s @ lg') (fn_engine s')"
    using Cons.prems(2,3) e(1) n(2) by (intro Cons.IH [OF e(4) _ _ _ reach reps]) (auto simp: replayable_def)
  then show ?case using e p by simp
qed


section \<open>Failing closed\<close>

lemma wrapped_Inr [simp]: "wrapped m r = Inr x \<longleftrightarrow> r = Inr x"
  by (cases r) (auto simp: wrapped_def)

lemma requiredEnv_Inr [simp]: "requiredEnv getenv name = Inr v \<longleftrightarrow> v = getenv name \<and> v \<noteq> []"
  by (auto simp: requiredEnv_def)

lemma start_configured_Inr:
  assumes "start_configured P = Inr (auth, migrations, T)"
  shows "pf_getenv P ''DATABASE_URL'' \<noteq> [] \<and> pf_getenv P ''MIGRATION_PATH'' \<noteq> [] \<and> pf_getenv P ''PORT'' \<noteq> [] \<and>
    (\<exists>cfg. LoadAuthConfig (pf_url P) (pf_getenv P) = Inr cfg \<and> NewAuthenticator (fs_read (pf_files P)) (pf_has_cert P) cfg = Inr auth) \<and>
    read_migrations (pf_files P) (split_on (CHR '','') (pf_getenv P ''MIGRATION_PATH'')) = Inr migrations \<and>
    (\<exists>cfg. incident_Open (pf_getenv P) (pf_pg P) (pf_getenv P ''DATABASE_URL'') = Inr cfg)"
  using assms unfolding start_configured_def Let_def rbind_Inr_iff by auto

lemma LoadAuthConfig_mode:
  assumes "LoadAuthConfig url getenv = Inr cfg"
  shows "ac_mode cfg = AuthModeLoopbackTrustedProxy \<or>
    ac_mode cfg = AuthModeKeycloakRS256 \<and> ac_issuer cfg \<noteq> [] \<and> ac_audience cfg \<noteq> []"
  using assms by (auto simp: LoadAuthConfig_def Let_def blank_auth_config_def require_def split: if_splits option.splits)

lemma loadOutcomeService_Inr:
  assumes "loadOutcomeService getenv newClient tb = (Inr out, tb')"
  shows "(out = None \<longleftrightarrow> trim_space (getenv ''TIGERBEETLE_ADDRESS'') = []) \<and> (\<forall>sv. out = Some sv \<longrightarrow> EnsureAccounts sv tb = (Inr (), tb'))"
  using assms by (auto simp: loadOutcomeService_def Let_def split: if_splits sum.splits prod.splits)

lemma darkVesselScanInterval_Inr:
  assumes "darkVesselScanInterval value = Inr (d, active)"
  shows "(active \<longleftrightarrow> trim_space value \<noteq> ''0'') \<and> (active \<longrightarrow> 0 < d)"
  using assms by (auto simp: darkVesselScanInterval_def Let_def require_def duration_defs split: if_splits option.splits)


section \<open>Pool settings\<close>

lemma sint_int32:
  assumes "0 \<le> v"
  shows "sint (word_of_int v :: 32 word) = v \<longleftrightarrow> v < 2 ^ 31"
proof -
  have "sint (word_of_int v :: 32 word) = signed_take_bit 31 v" by (simp add: sint_sbintrunc')
  moreover have "signed_take_bit 31 v = v \<longleftrightarrow> - (2 ^ 31) \<le> v \<and> v < 2 ^ 31" by (simp add: signed_take_bit_int_eq_self_iff)
  ultimately show ?thesis using assms by simp
qed

lemma wrap64_self: "0 \<le> x \<Longrightarrow> wrap64 x = x \<longleftrightarrow> x < 2 ^ 63"
proof -
  assume x: "0 \<le> x"
  have "wrap64 x < 2 ^ 63" using pos_mod_bound [of "2 ^ 64 :: int" "x + 2 ^ 63"] by (simp add: wrap64_def)
  moreover have "x < 2 ^ 63 \<Longrightarrow> (x + 2 ^ 63) mod 2 ^ 64 = x + 2 ^ 63" using x by (intro mod_pos_pos_trivial) simp_all
  ultimately show ?thesis by (auto simp: wrap64_def)
qed

lemma atoi_Nil [simp]: "atoi [] = None"
  by (simp add: atoi_def)


definition wide_env :: "string \<Rightarrow> string" where
  "wide_env name = (if name = ''MI_DB_POOL_MAX_CONNS'' then ''4294967300'' else if name = ''MI_DB_POOL_MAX_CONN_IDLE_SEC'' then ''1800'' else [])"


section \<open>Request metrics\<close>

text \<open>
  Every request is measured once, with the last status it was answered with, but never under its
  route: because the body limit hands a copy of the request to the mux, the pattern that the
  middleware reads back is always empty and every measurement is labelled \<open>unmatched\<close>.
\<close>

theorem requests_all_unmatched:
  "Middleware t0 t1 (served C E) rq s T =
     (fst (server_New C E rq None s), snd (server_New C E rq None s),
      T\<lparr>tm_failed_spans := tm_failed_spans T @ (if 500 \<le> recorded_status (fst (server_New C E rq None s)) then [rq_method rq] else []),
        tm_requests := tm_requests T @ [\<lparr>me_method = rq_method rq, me_route = ''unmatched'',
          me_status = recorded_status (fst (server_New C E rq None s)), me_seconds = duration_seconds (time_sub t1 t0)\<rparr>]\<rparr>)"
  by (simp add: Middleware_def served_def Let_def split: prod.splits)

section \<open>A concrete start\<close>

definition start_env :: "string \<Rightarrow> string" where
  "start_env name =
     (if name = ''DATABASE_URL'' then ''postgres://db'' else if name = ''MIGRATION_PATH'' then ''m.sql'' else if name = ''PORT'' then ''8080''
      else if name = ''AUTH_MODE'' then AuthModeLoopbackTrustedProxy else [])"

definition start_platform :: "(track_db, unit) platform" where
  "start_platform =
     \<lparr>pf_getenv = start_env, pf_files = \<lparr>fs_stat = (\<lambda>_. Inr (True, 1)), fs_read = (\<lambda>_. Inr [])\<rparr>, pf_url = (\<lambda>_. None), pf_has_cert = (\<lambda>_. True),
      pf_otel = \<lparr>ot_reader = Inr (), ot_instrument = (\<lambda>_. Inr ()), ot_exporter = (\<lambda>_ _. Inr ())\<rparr>,
      pf_pg = \<lparr>pg_parse = (\<lambda>_. Inr \<lparr>pc_max_conns = 4, pc_min_conns = 0, pc_max_idle = 0, pc_max_life = 0\<rparr>), pg_open = (\<lambda>_. Inr ()), pg_ping = Inr ()\<rparr>,
      pf_exec = (\<lambda>_ db. (Inr (), db)), pf_tb = (\<lambda>_ _. Inl (EMsg ''unreachable'')), pf_collation = (\<lambda>s. s), pf_replay_env = calm_env 9 ''u'',
      pf_orders = (\<lambda>_. [''fused-track-1''])\<rparr>"

definition kept_event :: isr_event where
  "kept_event =
     \<lparr>iv_event_id = ''e'', iv_source_id = ''s'', iv_source_event_id = ''e'', iv_modality = ModalityAIS, iv_classification = ''SECRET'', iv_observed_at = 5,
      iv_has_position = True, iv_latitude = Some (Fin 1), iv_longitude = Some (Fin 2), iv_mmsi = None, iv_payload = [], iv_payload_sha256 = [], iv_signature = [],
      iv_correlation_refs = [], iv_received_at = 9\<rparr>"

definition kept_db :: track_db where
  "kept_db = empty_track_db\<lparr>associations := [\<lparr>as_track_id = ''fused-track-1'', as_source_id = ''s'', as_source_event_id = ''e'', as_modality = ModalityAIS, as_classification = ''SECRET'', as_observed_at = 5, as_associated_at = 9\<rparr>], isr_events := [kept_event]\<rparr>"



end
