(* ===== verification/Publisher.thy ===== *)
theory Publisher
  imports IsrStore GoText "HOL-Library.Multiset"
begin

text \<open>
  \<open>cmd/maritime-intelligence-outbox-publisher/main.go\<close>: one delivery of a claimed outbox event
  to Kafka and the polling loop, for the incident outbox and for the ISR outbox. The Kafka client
  is a parameter: \<open>WriteMessages\<close> takes the state of the broker and a message and returns the
  text of its error, if any, and the new state. Deliveries of several workers interleave with each
  other and with everything else that happens to the table.
\<close>

section \<open>Messages\<close>

record 'v kafka_message =
  km_topic :: string
  km_key :: string
  km_value :: 'v
  km_headers :: "(string \<times> string) list"

record publisher_config =
  cf_databaseURL :: string
  cf_brokers :: "string list"
  cf_topic :: string
  cf_source :: string
  cf_workerID :: string
  cf_lease :: duration
  cf_pollInterval :: duration
  cf_maxBackoff :: duration
  cf_transport :: string

type_synonym ('m, 'k) kafka = "'m \<Rightarrow> 'k \<Rightarrow> string option \<times> 'k"

text \<open>The writer of the incident publisher carries the topic, the ISR events carry their own.\<close>

definition incident_message :: "publisher_config \<Rightarrow> incident_event outbox_row \<Rightarrow> incident_payload kafka_message" where
  "incident_message cfg row =
     \<lparr>km_topic = cf_topic cfg, km_key = ob_event_id row, km_value = ie_payload (ob_body row),
      km_headers = [(''x-blueeconomy-event-id'', ob_event_id row), (''x-blueeconomy-event-type'', ie_event_type (ob_body row))]\<rparr>"

definition isr_message :: "isr_outbox_event outbox_row \<Rightarrow> envelope kafka_message" where
  "isr_message row =
     \<lparr>km_topic = io_topic (ob_body row), km_key = io_aggregate_key (ob_body row), km_value = io_payload (ob_body row),
      km_headers = [(''x-blueeconomy-event-id'', ob_event_id row), (''x-blueeconomy-event-type'', io_event_type (ob_body row)),
        (''x-blueeconomy-classification'', io_classification (ob_body row)), (''x-blueeconomy-envelope-version'', EnvelopeVersion)]\<rparr>"

section \<open>One delivery\<close>

text \<open>What a delivery meets: the environments of its two store calls, and rows locked by other claims.\<close>

record delivery_env =
  de_claim :: db_env
  de_mark :: db_env
  de_locked :: "string \<Rightarrow> bool"

text \<open>
  \<open>worker\<close> and \<open>isrWorker\<close> differ in the store calls and in the message they build, so a
  delivery is written once over these four.
\<close>

record ('s, 'p, 'm) outbox_client =
  oc_claim :: "db_env \<Rightarrow> (string \<Rightarrow> bool) \<Rightarrow> string \<Rightarrow> duration \<Rightarrow> 's \<Rightarrow> 'p outbox_row result \<times> 's"
  oc_published :: "db_env \<Rightarrow> string \<Rightarrow> string \<Rightarrow> 's \<Rightarrow> unit result \<times> 's"
  oc_failed :: "db_env \<Rightarrow> string \<Rightarrow> string \<Rightarrow> string \<Rightarrow> gotime \<Rightarrow> 's \<Rightarrow> unit result \<times> 's"
  oc_message :: "'p outbox_row \<Rightarrow> 'm"

definition incident_client :: "publisher_config \<Rightarrow> ('a incident_db_scheme, incident_event, incident_payload kafka_message) outbox_client" where
  "incident_client cfg = \<lparr>oc_claim = ClaimOutbox, oc_published = MarkOutboxPublished, oc_failed = MarkOutboxFailed,
     oc_message = incident_message cfg\<rparr>"

definition isr_client :: "('a isr_db_scheme, isr_outbox_event, envelope kafka_message) outbox_client" where
  "isr_client = \<lparr>oc_claim = ClaimISROutbox, oc_published = MarkISROutboxPublished, oc_failed = MarkISROutboxFailed,
     oc_message = isr_message\<rparr>"

text \<open>
  The end of a delivery, after the broker has answered: the row is marked as published, or
  released with the error and the time of the next attempt.
\<close>

definition finish_delivery ::
  "('s, 'p, 'm) outbox_client \<Rightarrow> publisher_config \<Rightarrow> db_env \<Rightarrow> 'p outbox_row \<Rightarrow> string option \<Rightarrow> 's \<Rightarrow> go_error option \<times> 's" where
  "finish_delivery client cfg env row failure db =
     (case failure of
        None \<Rightarrow>
          (case oc_published client env (ob_event_id row) (cf_workerID cfg) db of
             (Inl e, db') \<Rightarrow> (Some e, db')
           | (Inr _, db') \<Rightarrow> (None, db'))
      | Some err \<Rightarrow>
          (let retryAt = clock env 0 + backoff (int (ob_attempts row)) (cf_maxBackoff cfg) in
           case oc_failed client env (ob_event_id row) (cf_workerID cfg) err retryAt db of
             (Inl e, db') \<Rightarrow> (Some (EWrap (''Kafka delivery failed: '' @ err @ ''; release failed'') e), db')
           | (Inr _, db') \<Rightarrow> (Some (EMsg err), db')))"

definition deliver_with ::
  "('s, 'p, 'm) outbox_client \<Rightarrow> ('m, 'k) kafka \<Rightarrow> publisher_config \<Rightarrow> delivery_env \<Rightarrow> 's \<times> 'k \<Rightarrow> go_error option \<times> ('s \<times> 'k)" where
  "deliver_with client WriteMessages cfg E s =
     (case oc_claim client (de_claim E) (de_locked E) (cf_workerID cfg) (cf_lease cfg) (fst s) of
        (Inl e, db) \<Rightarrow> (Some e, (db, snd s))
      | (Inr row, db) \<Rightarrow>
          (case WriteMessages (oc_message client row) (snd s) of
             (failure, k) \<Rightarrow>
               (case finish_delivery client cfg (de_mark E) row failure db of
                  (res, db') \<Rightarrow> (res, (db', k)))))"

definition worker_deliverOne ::
  "(incident_payload kafka_message, 'k) kafka \<Rightarrow> publisher_config \<Rightarrow> delivery_env \<Rightarrow> 'a incident_db_scheme \<times> 'k \<Rightarrow>
   go_error option \<times> ('a incident_db_scheme \<times> 'k)" where
  "worker_deliverOne WriteMessages cfg = deliver_with (incident_client cfg) WriteMessages cfg"

definition isrWorker_deliverOne ::
  "(envelope kafka_message, 'k) kafka \<Rightarrow> publisher_config \<Rightarrow> delivery_env \<Rightarrow> 'a isr_db_scheme \<times> 'k \<Rightarrow>
   go_error option \<times> ('a isr_db_scheme \<times> 'k)" where
  "isrWorker_deliverOne WriteMessages cfg = deliver_with isr_client WriteMessages cfg"

text \<open>
  The polling loop runs until the context is done: one delivery per tick, and the error, if it is
  not the empty table, goes to the log. The list holds what each round meets; the result is the
  log, newest last, and the final state.
\<close>

fun deliver_loop ::
  "(delivery_env \<Rightarrow> 's \<Rightarrow> go_error option \<times> 's) \<Rightarrow> go_error \<Rightarrow> delivery_env list \<Rightarrow> 's \<Rightarrow> go_error list \<times> 's" where
  "deliver_loop deliverOne nonePending [] s = ([], s)"
| "deliver_loop deliverOne nonePending (E # Es) s =
     (let (res, s') = deliverOne E s;
          (logged, s'') = deliver_loop deliverOne nonePending Es s'
      in (case res of None \<Rightarrow> logged | Some e \<Rightarrow> if errors_is e nonePending then logged else e # logged, s''))"

definition worker_loop ::
  "(incident_payload kafka_message, 'k) kafka \<Rightarrow> publisher_config \<Rightarrow> delivery_env list \<Rightarrow> 'a incident_db_scheme \<times> 'k \<Rightarrow>
   go_error list \<times> ('a incident_db_scheme \<times> 'k)" where
  "worker_loop WriteMessages cfg = deliver_loop (worker_deliverOne WriteMessages cfg) ErrNoPendingOutbox"

definition isrWorker_loop ::
  "(envelope kafka_message, 'k) kafka \<Rightarrow> publisher_config \<Rightarrow> delivery_env list \<Rightarrow> 'a isr_db_scheme \<times> 'k \<Rightarrow>
   go_error list \<times> ('a isr_db_scheme \<times> 'k)" where
  "isrWorker_loop WriteMessages cfg = deliver_loop (isrWorker_deliverOne WriteMessages cfg) ErrNoPendingISROutbox"

section \<open>Interleaved deliveries\<close>

text \<open>
  Where a worker is: between deliveries, with a claimed row, or with the answer of the broker. A
  worker may die at any point, and several processes may use the same worker id; \<open>others\<close> is
  what the rest of the platform does to the database.
\<close>

datatype 'p delivery = Resting | Claimed "'p outbox_row" | Answered "'p outbox_row" "string option"

record ('s, 'p, 'k) fleet =
  fl_db :: 's
  fl_broker :: 'k
  fl_workers :: "nat \<Rightarrow> 'p delivery"

inductive delivery_step ::
  "('s, 'p, 'm) outbox_client \<Rightarrow> ('s \<Rightarrow> 's \<Rightarrow> bool) \<Rightarrow> ('m, 'k) kafka \<Rightarrow> ('s, 'p, 'k) fleet \<Rightarrow> ('s, 'p, 'k) fleet \<Rightarrow> bool"
  for client others WriteMessages where
  claims: "fl_workers s n = Resting \<Longrightarrow> oc_claim client env l w lease (fl_db s) = (Inr row, db) \<Longrightarrow>
    delivery_step client others WriteMessages s (s\<lparr>fl_db := db, fl_workers := (fl_workers s)(n := Claimed row)\<rparr>)"
| sends: "fl_workers s n = Claimed row \<Longrightarrow> WriteMessages (oc_message client row) (fl_broker s) = (failure, k) \<Longrightarrow>
    delivery_step client others WriteMessages s (s\<lparr>fl_broker := k, fl_workers := (fl_workers s)(n := Answered row failure)\<rparr>)"
| finishes: "fl_workers s n = Answered row failure \<Longrightarrow> finish_delivery client cfg env row failure (fl_db s) = (res, db) \<Longrightarrow>
    delivery_step client others WriteMessages s (s\<lparr>fl_db := db, fl_workers := (fl_workers s)(n := Resting)\<rparr>)"
| dies: "delivery_step client others WriteMessages s (s\<lparr>fl_workers := (fl_workers s)(n := Resting)\<rparr>)"
| elsewhere: "others (fl_db s) db \<Longrightarrow> delivery_step client others WriteMessages s (s\<lparr>fl_db := db\<rparr>)"

inductive delivery_reach ::
  "('s, 'p, 'm) outbox_client \<Rightarrow> ('s \<Rightarrow> 's \<Rightarrow> bool) \<Rightarrow> ('m, 'k) kafka \<Rightarrow> ('s, 'p, 'k) fleet \<Rightarrow> ('s, 'p, 'k) fleet \<Rightarrow> bool"
  for client others WriteMessages where
  refl: "delivery_reach client others WriteMessages s s"
| step: "delivery_reach client others WriteMessages s s' \<Longrightarrow> delivery_step client others WriteMessages s' s'' \<Longrightarrow>
    delivery_reach client others WriteMessages s s''"

text \<open>
  What the publisher relies on in the Kafka client: with all acknowledgements required, a nil
  error means that the message is in the broker's log, and the log only grows.
\<close>

definition broker_laws :: "('m, 'k) kafka \<Rightarrow> ('k \<Rightarrow> 'm list) \<Rightarrow> bool" where
  "broker_laws WriteMessages msgs =
     (\<forall>m k f k'. WriteMessages m k = (f, k') \<longrightarrow> prefix (msgs k) (msgs k') \<and> (f = None \<longrightarrow> m \<in> set (msgs k')))"

section \<open>No event is lost\<close>

text \<open>A row of the table carries the event of \<open>row\<close>.\<close>

definition carries :: "'p outbox_row list \<Rightarrow> 'p outbox_row \<Rightarrow> bool" where
  "carries rows row = (\<exists>q \<in> set rows. ob_event_id q = ob_event_id row \<and> ob_body q = ob_body row)"

lemma carries_mono: "rows_evolve rows rows' \<Longrightarrow> carries rows row \<Longrightarrow> carries rows' row"
  unfolding carries_def
proof (elim bexE conjE)
  fix q assume e: "rows_evolve rows rows'" and q: "q \<in> set rows" "ob_event_id q = ob_event_id row" "ob_body q = ob_body row"
  from q(1) obtain i where i: "i < length rows" "rows ! i = q" by (auto simp: in_set_conv_nth)
  then have "row_evolves q (rows' ! i)" "i < length rows'" using e by (auto simp: rows_evolve_def)
  then show "\<exists>q \<in> set rows'. ob_event_id q = ob_event_id row \<and> ob_body q = ob_body row"
    using q(2,3) by (intro bexI [of _ "rows' ! i"]) (auto simp: row_evolves_def)
qed

fun delivery_fine :: "('p outbox_row \<Rightarrow> 'm) \<Rightarrow> 'p outbox_row list \<Rightarrow> 'm list \<Rightarrow> 'p delivery \<Rightarrow> bool" where
  "delivery_fine message rows ms Resting = True"
| "delivery_fine message rows ms (Claimed row) = carries rows row"
| "delivery_fine message rows ms (Answered row f) = (carries rows row \<and> (f = None \<longrightarrow> message row \<in> set ms))"

lemma delivery_fine_rows: "rows_evolve rows rows' \<Longrightarrow> delivery_fine message rows ms p \<Longrightarrow> delivery_fine message rows' ms p"
  by (cases p) (auto intro: carries_mono)

lemma delivery_fine_log: "set ms \<subseteq> set ms' \<Longrightarrow> delivery_fine message rows ms p \<Longrightarrow> delivery_fine message rows ms' p"
  by (cases p) auto

text \<open>
  The contract between the publisher and an outbox store: the store runs the statements when the
  configuration is acceptable to it, and the message of a delivery depends only on the event of
  the row, which no operation of the store changes.
\<close>

locale outbox_publisher = outbox_store rows_of claim_op published_op failed_op store_tag none_pending not_owner
  for rows_of :: "'s \<Rightarrow> 'p outbox_row list" and claim_op published_op failed_op store_tag none_pending not_owner +
  fixes client :: "('s, 'p, 'm) outbox_client"
  assumes ops: "oc_claim client = claim_op" "oc_published client = published_op" "oc_failed client = failed_op"
    and claim_runs: "worker_canonical w \<Longrightarrow> lease_ok d \<Longrightarrow> claim_outbox_rows store_tag env l w d none_pending (rows_of s) = res \<Longrightarrow>
      (\<forall>e. res = Inl e \<longrightarrow> claim_op env l w d s = (Inl e, s)) \<and>
      (\<forall>r rows. res = Inr (r, rows) \<longrightarrow> (\<exists>s'. claim_op env l w d s = (Inr r, s') \<and> rows_of s' = rows))"
    and published_runs: "worker_canonical w \<Longrightarrow> \<not> db_faults env 0 \<Longrightarrow>
      update_owned ev w (publish_row (db_now env)) not_owner (rows_of s) = Inr rows \<Longrightarrow> \<exists>s'. published_op env ev w s = (Inr (), s') \<and> rows_of s' = rows"
    and message_event: "ob_event_id r = ob_event_id q \<Longrightarrow> ob_body r = ob_body q \<Longrightarrow> oc_message client r = oc_message client q"
begin

definition delivered :: "('k \<Rightarrow> 'm list) \<Rightarrow> ('s, 'p, 'k) fleet \<Rightarrow> bool" where
  "delivered msgs s =
     (outbox_ok (rows_of (fl_db s)) \<and>
      (\<forall>r \<in> set (rows_of (fl_db s)). ob_published_at r \<noteq> None \<longrightarrow> oc_message client r \<in> set (msgs (fl_broker s))) \<and>
      (\<forall>n. delivery_fine (oc_message client) (rows_of (fl_db s)) (msgs (fl_broker s)) (fl_workers s n)))"

lemma delivered_db:
  assumes d: "delivered msgs s" and ok: "outbox_ok (rows_of db)" and ev: "rows_evolve (rows_of (fl_db s)) (rows_of db)"
    and pub: "\<And>r. r \<in> set (rows_of db) \<Longrightarrow> ob_published_at r \<noteq> None \<Longrightarrow> oc_message client r \<in> set (msgs (fl_broker s))"
  shows "delivered msgs (s\<lparr>fl_db := db\<rparr>)"
  using assms delivery_fine_rows [OF ev, where message = "oc_message client"] by (simp add: delivered_def)

lemma delivered_worker:
  assumes "delivered msgs s" and "delivery_fine (oc_message client) (rows_of (fl_db s)) (msgs (fl_broker s)) p"
  shows "delivered msgs (s\<lparr>fl_workers := (fl_workers s)(n := p)\<rparr>)"
  using assms by (simp add: delivered_def)

lemma delivered_broker:
  assumes "delivered msgs s" "prefix (msgs (fl_broker s)) (msgs k)"
  shows "delivered msgs (s\<lparr>fl_broker := k\<rparr>)"
proof -
  have sub: "set (msgs (fl_broker s)) \<subseteq> set (msgs k)" by (rule set_mono_prefix [OF assms(2)])
  show ?thesis using assms(1) delivery_fine_log [OF sub, where message = "oc_message client"] sub by (auto simp: delivered_def)
qed

lemma delivered_published:
  "delivered msgs s \<Longrightarrow> r \<in> set (rows_of (fl_db s)) \<Longrightarrow> ob_published_at r \<noteq> None \<Longrightarrow> oc_message client r \<in> set (msgs (fl_broker s))"
  by (simp add: delivered_def)

lemma delivered_at: "delivered msgs s \<Longrightarrow> delivery_fine (oc_message client) (rows_of (fl_db s)) (msgs (fl_broker s)) (fl_workers s n)"
  by (simp add: delivered_def)

lemma delivered_claims:
  assumes d: "delivered msgs s" and c: "oc_claim client env l w lease (fl_db s) = (Inr row, db)"
  shows "delivered msgs (s\<lparr>fl_db := db, fl_workers := (fl_workers s)(n := Claimed row)\<rparr>)"
proof -
  have c': "claim_op env l w lease (fl_db s) = (Inr row, db)" using c ops by simp
  have "outbox_ok (rows_of db) \<and> rows_evolve (rows_of (fl_db s)) (rows_of db)"
    using outbox_reach_ok [OF claim_reach [OF c']] d by (simp add: delivered_def)
  moreover have "oc_message client r \<in> set (msgs (fl_broker s))" if r: "r \<in> set (rows_of db)" "ob_published_at r \<noteq> None" for r
  proof -
    obtain q where q: "q \<in> set (rows_of (fl_db s))" "ob_event_id q = ob_event_id r" "ob_body q = ob_body r" "ob_published_at q \<noteq> None"
      using claim_publishes_nothing [OF c' r] by blast
    then have "oc_message client q \<in> set (msgs (fl_broker s))" using d by (simp add: delivered_def)
    then show ?thesis using message_event [OF q(2,3)] by simp
  qed
  ultimately have "delivered msgs (s\<lparr>fl_db := db\<rparr>)" using delivered_db [OF d] by blast
  from delivered_worker [OF this, of "Claimed row" n] show ?thesis
    using claimed_row_owned [OF c'] by (auto simp: carries_def)
qed

lemma finish_delivery_cases:
  assumes "finish_delivery client cfg env row failure db = (res, db')"
  obtains (published) r where "failure = None" "published_op env (ob_event_id row) (cf_workerID cfg) db = (r, db')"
  | (failed) err t r where "failure = Some err" "failed_op env (ob_event_id row) (cf_workerID cfg) err t db = (r, db')"
proof (cases failure)
  case None
  then show thesis using assms published ops by (auto simp: finish_delivery_def split: prod.splits sum.splits)
next
  case (Some err)
  then show thesis using assms failed ops by (auto simp: finish_delivery_def Let_def split: prod.splits sum.splits)
qed

lemma delivered_finishes:
  assumes d: "delivered msgs s" and w: "fl_workers s n = Answered row failure" and f: "finish_delivery client cfg env row failure (fl_db s) = (res, db)"
  shows "delivered msgs (s\<lparr>fl_db := db, fl_workers := (fl_workers s)(n := Resting)\<rparr>)"
proof -
  have old: "oc_message client r \<in> set (msgs (fl_broker s))" if "r \<in> set (rows_of (fl_db s))" "ob_published_at r \<noteq> None" for r
    using d that by (simp add: delivered_def)
  have row: "carries (rows_of (fl_db s)) row" "failure = None \<Longrightarrow> oc_message client row \<in> set (msgs (fl_broker s))"
    using delivered_at [OF d, of n] w by auto
  from f have "delivered msgs (s\<lparr>fl_db := db\<rparr>)"
  proof (cases rule: finish_delivery_cases)
    case (published r)
    have ev: "outbox_ok (rows_of db) \<and> rows_evolve (rows_of (fl_db s)) (rows_of db)"
      using outbox_reach_ok [OF published_reach [OF published(2)]] d by (simp add: delivered_def)
    have "oc_message client q \<in> set (msgs (fl_broker s))" if q: "q \<in> set (rows_of db)" "ob_published_at q \<noteq> None" for q
    proof (cases r)
      case (Inl e)
      then show ?thesis using published_error published(2) q old by blast
    next
      case (Inr u)
      have p: "published_op env (ob_event_id row) (cf_workerID cfg) (fl_db s) = (Inr u, db)" using published(2) Inr by simp
      have dist: "distinct (map ob_event_id (rows_of (fl_db s)))" using d by (simp add: delivered_def outbox_ok_def)
      from published_only_pending [OF p q] show ?thesis
      proof (elim disjE conjE bexE)
        fix r' assume r': "ob_event_id q = ob_event_id row" "r' \<in> set (rows_of (fl_db s))" "owned_pending (ob_event_id row) (cf_workerID cfg) r'" "ob_body q = ob_body r'"
        obtain q' where q': "q' \<in> set (rows_of (fl_db s))" "ob_event_id q' = ob_event_id row" "ob_body q' = ob_body row"
          using row(1) by (auto simp: carries_def)
        have "q' = r'" using distinct_ids_eq [OF dist q'(1) r'(2)] q'(2) r'(3) by (simp add: owned_pending_def)
        then have "ob_event_id q = ob_event_id row" "ob_body q = ob_body row" using r' q' by simp_all
        then show ?thesis using message_event [of q row] row(2) published(1) by simp
      qed (use q old in blast)
    qed
    then show ?thesis using delivered_db [OF d] ev by blast
  next
    case (failed err t r)
    have "outbox_ok (rows_of db) \<and> rows_evolve (rows_of (fl_db s)) (rows_of db)"
      using outbox_reach_ok [OF failed_reach [OF failed(2)]] d by (simp add: delivered_def)
    then show ?thesis using delivered_db [OF d] failed_publishes_nothing [OF failed(2)] old by blast
  qed
  from delivered_worker [OF this, of Resting n] show ?thesis by simp
qed

lemma delivered_step:
  assumes "delivery_step client others WriteMessages s s'" and d: "delivered msgs s" and laws: "broker_laws WriteMessages msgs"
    and others: "\<And>db db'. others db db' \<Longrightarrow> appends_rows (rows_of db) (rows_of db')"
  shows "delivered msgs s'"
  using assms(1)
proof cases
  case (claims n env l w lease row db)
  then show ?thesis using delivered_claims [OF d claims(3)] by simp
next
  case (sends n row failure k)
  have k: "prefix (msgs (fl_broker s)) (msgs k)" "failure = None \<Longrightarrow> oc_message client row \<in> set (msgs k)"
    using laws [unfolded broker_laws_def, rule_format, OF sends(3)] by simp_all
  have "carries (rows_of (fl_db s)) row" using delivered_at [OF d, of n] sends(2) by simp
  then show ?thesis using delivered_worker [OF delivered_broker [OF d k(1)], of "Answered row failure" n] sends(1) k(2) by simp
next
  case (finishes n row failure cfg env res db)
  then show ?thesis using delivered_finishes [OF d finishes(2,3)] by simp
next
  case (dies n)
  then show ?thesis using delivered_worker [OF d, of Resting n] by simp
next
  case (elsewhere db)
  have a: "appends_rows (rows_of (fl_db s)) (rows_of db)" by (rule others [OF elsewhere(2)])
  obtain new where new: "rows_of db = rows_of (fl_db s) @ new" "list_all (\<lambda>r. ob_published_at r = None \<and> row_ok r) new"
    using a unfolding appends_rows_def by blast
  have "outbox_ok (rows_of db) \<and> rows_evolve (rows_of (fl_db s)) (rows_of db)" using appends_rows_ok [OF a] d by (simp add: delivered_def)
  moreover have "oc_message client r \<in> set (msgs (fl_broker s))" if "r \<in> set (rows_of db)" "ob_published_at r \<noteq> None" for r
    using that new d by (auto simp: delivered_def list_all_iff)
  ultimately show ?thesis using delivered_db [OF d] elsewhere(1) by blast
qed

lemma delivered_reach:
  assumes "delivery_reach client others WriteMessages s s'" and "delivered msgs s" and "broker_laws WriteMessages msgs"
    and "\<And>db db'. others db db' \<Longrightarrow> appends_rows (rows_of db) (rows_of db')"
  shows "delivered msgs s'"
  using assms(1,2)
proof (induction rule: delivery_reach.induct)
  case (step s s' s'')
  then show ?case using delivered_step [OF step(2) _ assms(3,4)] by blast
qed

text \<open>Nothing published yet and no worker active.\<close>

lemma delivered_start:
  assumes "outbox_ok (rows_of (fl_db s))" "\<forall>r \<in> set (rows_of (fl_db s)). ob_published_at r = None" "fl_workers s = (\<lambda>_. Resting)"
  shows "delivered msgs s"
  using assms by (simp add: delivered_def)

end

section \<open>The loop drains the table\<close>

definition pending :: "'p outbox_row \<Rightarrow> bool" where
  "pending r = (ob_published_at r = None)"

text \<open>A quiet round: no fault, and every pending row is available and free.\<close>

definition quiet_round :: "publisher_config \<Rightarrow> 'p outbox_row list \<Rightarrow> delivery_env \<Rightarrow> bool" where
  "quiet_round cfg rows E = ((\<forall>n. \<not> db_faults (de_claim E) n \<and> \<not> db_faults (de_mark E) n) \<and>
     (\<forall>r \<in> set rows. pending r \<longrightarrow> claimable (db_now (de_claim E)) (clock (de_claim E) 0 - cf_lease cfg) (de_locked E) r))"

definition sent_row :: "gotime \<Rightarrow> gotime \<Rightarrow> string \<Rightarrow> 'p outbox_row \<Rightarrow> 'p outbox_row list \<Rightarrow> 'p outbox_row list" where
  "sent_row t u w r rows = map (\<lambda>q. if q = r then publish_row u (claim_row t w r) else q) rows"

lemma filter_eq_single: "distinct xs \<Longrightarrow> x \<in> set xs \<Longrightarrow> filter (\<lambda>y. y = x) xs = [x]"
  by (induction xs) (auto simp: filter_empty_conv)

lemma mset_take_out: "distinct xs \<Longrightarrow> x \<in> set xs \<Longrightarrow> mset xs = add_mset x (mset (filter (\<lambda>y. y \<noteq> x) xs))"
proof (induction xs)
  case (Cons y xs)
  show ?case
  proof (cases "y = x")
    case True
    then have "filter (\<lambda>z. z \<noteq> x) xs = xs" using Cons.prems by (intro filter_True) auto
    then show ?thesis using True by simp
  qed (use Cons in auto)
qed simp

lemma publish_after_claim:
  assumes ok: "outbox_ok rows" and r: "r \<in> set rows" "pending r"
  shows "update_owned (ob_event_id r) w (publish_row u) own (update_row (ob_event_id r) (claim_row t w) rows) = Inr (sent_row t u w r rows)"
proof -
  have ids: "distinct (map ob_event_id rows)" using ok by (simp add: outbox_ok_def)
  then have eq: "ob_event_id q = ob_event_id r \<longleftrightarrow> q = r" if "q \<in> set rows" for q using distinct_ids_eq [OF ids that r(1)] by auto
  have up: "update_row (ob_event_id r) (claim_row t w) rows = map (\<lambda>q. if q = r then claim_row t w r else q) rows"
    unfolding update_row_def using eq by (intro map_cong) auto
  have own: "owned_pending (ob_event_id r) w (if q = r then claim_row t w r else q) \<longleftrightarrow> q = r" if "q \<in> set rows" for q
    using eq [OF that] r(2) by (auto simp: owned_pending_def claim_row_def pending_def)
  have "filter (owned_pending (ob_event_id r) w) (map (\<lambda>q. if q = r then claim_row t w r else q) rows) =
      map (\<lambda>q. if q = r then claim_row t w r else q) (filter (\<lambda>q. q = r) rows)"
    unfolding filter_map comp_def using own by (simp cong: filter_cong)
  then have "length (filter (owned_pending (ob_event_id r) w) (map (\<lambda>q. if q = r then claim_row t w r else q) rows)) = 1"
    using filter_eq_single [OF _ r(1)] ids by (simp add: distinct_map)
  moreover have "map (\<lambda>q. if owned_pending (ob_event_id r) w q then publish_row u q else q) (map (\<lambda>q. if q = r then claim_row t w r else q) rows) = sent_row t u w r rows"
    unfolding sent_row_def map_map comp_def using own by (intro map_cong) (auto split: if_splits)
  ultimately show ?thesis unfolding up by (simp add: update_owned_Inr)
qed

lemma sent_row_pending: "filter pending (sent_row t u w r rows) = filter (\<lambda>q. q \<noteq> r) (filter pending rows)"
  by (induction rows) (auto simp: sent_row_def pending_def publish_row_def)

lemma sent_row_ok:
  assumes "outbox_ok rows" "r \<in> set rows" "pending r" shows "outbox_ok (sent_row t u w r rows)"
  unfolding sent_row_def using assms by (intro outbox_ok_map) (auto simp: row_ok_def publish_row_def claim_row_def)

lemma quiet_round_sent:
  "quiet_round cfg rows E \<Longrightarrow> quiet_round cfg (sent_row t u w r rows) E"
  by (auto simp: quiet_round_def sent_row_def pending_def publish_row_def split: if_splits)

lemma quiet_select:
  assumes q: "quiet_round cfg rows E" and ne: "filter pending rows \<noteq> []"
  obtains r where "select_claimable (db_now (de_claim E)) (clock (de_claim E) 0 - cf_lease cfg) (de_locked E) rows = Some r" "r \<in> set rows" "pending r"
    "\<forall>x \<in> set rows. pending x \<longrightarrow> claim_key r \<le> claim_key x"
proof -
  let ?sel = "select_claimable (db_now (de_claim E)) (clock (de_claim E) 0 - cf_lease cfg) (de_locked E) rows"
  have "?sel \<noteq> None" using ne q by (auto simp: select_claimable_None quiet_round_def filter_empty_conv)
  then obtain r where r: "?sel = Some r" by blast
  show thesis
    by (rule that [OF r]) (use select_claimable_Some [OF r] q in \<open>auto simp: claimable_def pending_def quiet_round_def\<close>)
qed

text \<open>The broker is up: every message is accepted and appended to its log.\<close>

definition broker_up :: "('m, 'k) kafka \<Rightarrow> ('k \<Rightarrow> 'm list) \<Rightarrow> bool" where
  "broker_up WriteMessages msgs = (\<forall>m k. \<exists>k'. WriteMessages m k = (None, k') \<and> msgs k' = msgs k @ [m])"

context outbox_publisher
begin

lemma deliver_idle:
  assumes "worker_canonical (cf_workerID cfg)" "lease_ok (cf_lease cfg)" "quiet_round cfg (rows_of db) E" "filter pending (rows_of db) = []"
  shows "deliver_with client WriteMessages cfg E (db, k) = (Some none_pending, (db, k))"
proof -
  have "select_claimable (db_now (de_claim E)) (clock (de_claim E) 0 - cf_lease cfg) (de_locked E) (rows_of db) = None"
    using assms(4) by (auto simp: select_claimable_None filter_empty_conv pending_def claimable_def)
  then have "claim_outbox_rows store_tag (de_claim E) (de_locked E) (cf_workerID cfg) (cf_lease cfg) none_pending (rows_of db) = Inl none_pending"
    using assms(3) by (simp add: claim_outbox_rows_def quiet_round_def db_call_def)
  from claim_runs [OF assms(1,2) this] show ?thesis by (simp add: deliver_with_def ops)
qed

lemma deliver_sends:
  assumes cfg: "worker_canonical (cf_workerID cfg)" "lease_ok (cf_lease cfg)" and q: "quiet_round cfg (rows_of db) E"
    and ok: "outbox_ok (rows_of db)" and up: "broker_up WriteMessages msgs" and ne: "filter pending (rows_of db) \<noteq> []"
  obtains r db' k' t u where "deliver_with client WriteMessages cfg E (db, k) = (None, (db', k'))" "r \<in> set (rows_of db)" "pending r"
    "\<forall>x \<in> set (rows_of db). pending x \<longrightarrow> claim_key r \<le> claim_key x"
    "rows_of db' = sent_row t u (cf_workerID cfg) r (rows_of db)" "msgs k' = msgs k @ [oc_message client r]"
proof -
  let ?w = "cf_workerID cfg" and ?t = "db_now (de_claim E)" and ?u = "db_now (de_mark E)"
  obtain r where r: "select_claimable ?t (clock (de_claim E) 0 - cf_lease cfg) (de_locked E) (rows_of db) = Some r" "r \<in> set (rows_of db)" "pending r"
    "\<forall>x \<in> set (rows_of db). pending x \<longrightarrow> claim_key r \<le> claim_key x" by (rule quiet_select [OF q ne])
  let ?row = "claim_row ?t ?w r"
  have "claim_outbox_rows store_tag (de_claim E) (de_locked E) ?w (cf_lease cfg) none_pending (rows_of db) =
      Inr (?row, update_row (ob_event_id r) (claim_row ?t ?w) (rows_of db))"
    using q r(1) by (simp add: claim_outbox_rows_def quiet_round_def db_call_def)
  from claim_runs [OF cfg this] obtain db1 where c: "claim_op (de_claim E) (de_locked E) ?w (cf_lease cfg) db = (Inr ?row, db1)"
    "rows_of db1 = update_row (ob_event_id r) (claim_row ?t ?w) (rows_of db)" by auto
  obtain k' where k': "WriteMessages (oc_message client ?row) k = (None, k')" "msgs k' = msgs k @ [oc_message client ?row]"
    using up by (auto simp: broker_up_def)
  have "update_owned (ob_event_id ?row) ?w (publish_row ?u) not_owner (rows_of db1) = Inr (sent_row ?t ?u ?w r (rows_of db))"
    unfolding c(2) using publish_after_claim [OF ok r(2,3)] by simp
  moreover have "\<not> db_faults (de_mark E) 0" using q by (simp add: quiet_round_def)
  ultimately obtain db' where p: "published_op (de_mark E) (ob_event_id ?row) ?w db1 = (Inr (), db')" "rows_of db' = sent_row ?t ?u ?w r (rows_of db)"
    using published_runs [OF cfg(1)] by blast
  have "deliver_with client WriteMessages cfg E (db, k) = (None, (db', k'))"
    using c(1) k'(1) p(1) by (simp add: deliver_with_def finish_delivery_def ops)
  moreover have "oc_message client ?row = oc_message client r" by (rule message_event) (simp_all add: claim_row_def)
  ultimately show thesis using that r(2-4) p(2) k'(2) by simp
qed

lemma loop_drains:
  assumes cfg: "worker_canonical (cf_workerID cfg)" "lease_ok (cf_lease cfg)" and up: "broker_up WriteMessages msgs"
    and np: "errors_is none_pending none_pending"
  shows "\<forall>E \<in> set Es. quiet_round cfg (rows_of db) E \<Longrightarrow> outbox_ok (rows_of db) \<Longrightarrow> length (filter pending (rows_of db)) \<le> length Es \<Longrightarrow>
    \<exists>ps db' k'. deliver_loop (deliver_with client WriteMessages cfg) none_pending Es (db, k) = ([], (db', k')) \<and>
      filter pending (rows_of db') = [] \<and> mset ps = mset (filter pending (rows_of db)) \<and> sorted (map claim_key ps) \<and>
      msgs k' = msgs k @ map (oc_message client) ps"
proof (induction Es arbitrary: db k)
  case Nil
  then show ?case by (intro exI [of _ "[]"]) auto
next
  case (Cons E Es)
  have q: "quiet_round cfg (rows_of db) E" using Cons.prems by simp
  show ?case
  proof (cases "filter pending (rows_of db) = []")
    case True
    have d: "deliver_with client WriteMessages cfg E (db, k) = (Some none_pending, (db, k))" by (rule deliver_idle [OF cfg q True])
    obtain ps db' k' where i: "deliver_loop (deliver_with client WriteMessages cfg) none_pending Es (db, k) = ([], (db', k'))"
      "filter pending (rows_of db') = []" "mset ps = mset (filter pending (rows_of db))" "sorted (map claim_key ps)" "msgs k' = msgs k @ map (oc_message client) ps"
      using Cons.IH [of db k] Cons.prems True by auto
    show ?thesis by (rule exI [of _ ps]) (use d i np in auto)
  next
    case False
    obtain r db1 k1 t u where d: "deliver_with client WriteMessages cfg E (db, k) = (None, (db1, k1))" "r \<in> set (rows_of db)" "pending r"
      "\<forall>x \<in> set (rows_of db). pending x \<longrightarrow> claim_key r \<le> claim_key x"
      "rows_of db1 = sent_row t u (cf_workerID cfg) r (rows_of db)" "msgs k1 = msgs k @ [oc_message client r]"
      by (rule deliver_sends [OF cfg q Cons.prems(2) up False, of k])
    have p: "filter pending (rows_of db1) = filter (\<lambda>q. q \<noteq> r) (filter pending (rows_of db))" unfolding d(5) by (rule sent_row_pending)
    have dist: "distinct (filter pending (rows_of db))" using Cons.prems(2) by (simp add: outbox_ok_def distinct_map)
    then have m: "mset (filter pending (rows_of db)) = add_mset r (mset (filter pending (rows_of db1)))"
      unfolding p using d(2,3) mset_take_out [OF dist, of r] by simp
    have "length (filter pending (rows_of db1)) \<le> length Es" using Cons.prems(3) arg_cong [OF m, of size] by (simp del: mset_filter)
    moreover have "\<forall>E \<in> set Es. quiet_round cfg (rows_of db1) E" unfolding d(5) using Cons.prems(1) by (auto intro: quiet_round_sent)
    moreover have "outbox_ok (rows_of db1)" unfolding d(5) by (rule sent_row_ok [OF Cons.prems(2) d(2,3)])
    ultimately obtain ps db' k' where i: "deliver_loop (deliver_with client WriteMessages cfg) none_pending Es (db1, k1) = ([], (db', k'))"
      "filter pending (rows_of db') = []" "mset ps = mset (filter pending (rows_of db1))" "sorted (map claim_key ps)" "msgs k' = msgs k1 @ map (oc_message client) ps"
      using Cons.IH [of db1 k1] by blast
    have "set ps \<subseteq> set (filter pending (rows_of db))" using i(3) p by (metis mset_eq_setD filter_is_subset)
    then have "sorted (map claim_key (r # ps))" using i(4) d(4) by auto
    then show ?thesis using i d(1,6) m by (intro exI [of _ "r # ps"]) auto
  qed
qed

end

section \<open>The two publishers\<close>

lemma claim_outbox_runs:
  "worker_canonical w \<Longrightarrow> lease_ok d \<Longrightarrow> claim_outbox_rows ''outbox'' env l w d ErrNoPendingOutbox (incident_outbox s) = res \<Longrightarrow>
     (\<forall>e. res = Inl e \<longrightarrow> ClaimOutbox env l w d s = (Inl e, s)) \<and>
     (\<forall>r rows. res = Inr (r, rows) \<longrightarrow> ClaimOutbox env l w d s = (Inr r, s\<lparr>incident_outbox := rows\<rparr>))"
  by (auto simp: ClaimOutbox_def run_tx_def require_def)

lemma claim_isr_runs:
  "worker_canonical w \<Longrightarrow> lease_ok d \<Longrightarrow> claim_outbox_rows ''isr outbox'' env l w d ErrNoPendingISROutbox (isr_outbox s) = res \<Longrightarrow>
     (\<forall>e. res = Inl e \<longrightarrow> ClaimISROutbox env l w d s = (Inl e, s)) \<and>
     (\<forall>r rows. res = Inr (r, rows) \<longrightarrow> ClaimISROutbox env l w d s = (Inr r, s\<lparr>isr_outbox := rows\<rparr>))"
  by (auto simp: ClaimISROutbox_def run_tx_def require_def)

interpretation incident_pub: outbox_publisher incident_outbox ClaimOutbox MarkOutboxPublished MarkOutboxFailed
  "''outbox''" ErrNoPendingOutbox ErrOutboxOwnership "incident_client cfg" for cfg
proof
  fix w d env l s and res :: "(incident_event outbox_row \<times> incident_event outbox_row list) result"
  assume "worker_canonical w" "lease_ok d" "claim_outbox_rows ''outbox'' env l w d ErrNoPendingOutbox (incident_outbox s) = res"
  from claim_outbox_runs [OF this]
  show "(\<forall>e. res = Inl e \<longrightarrow> ClaimOutbox env l w d s = (Inl e, s)) \<and>
      (\<forall>r rows. res = Inr (r, rows) \<longrightarrow> (\<exists>s'. ClaimOutbox env l w d s = (Inr r, s') \<and> incident_outbox s' = rows))" by simp
qed (auto simp: incident_client_def incident_message_def MarkOutboxPublished_def run_tx_def require_def db_call_def)

interpretation isr_pub: outbox_publisher isr_outbox ClaimISROutbox MarkISROutboxPublished MarkISROutboxFailed
  "''isr outbox''" ErrNoPendingISROutbox ErrISROutboxOwnership isr_client
proof
  fix w d env l s and res :: "(isr_outbox_event outbox_row \<times> isr_outbox_event outbox_row list) result"
  assume "worker_canonical w" "lease_ok d" "claim_outbox_rows ''isr outbox'' env l w d ErrNoPendingISROutbox (isr_outbox s) = res"
  from claim_isr_runs [OF this]
  show "(\<forall>e. res = Inl e \<longrightarrow> ClaimISROutbox env l w d s = (Inl e, s)) \<and>
      (\<forall>r rows. res = Inr (r, rows) \<longrightarrow> (\<exists>s'. ClaimISROutbox env l w d s = (Inr r, s') \<and> isr_outbox s' = rows))" by simp
qed (auto simp: isr_client_def isr_message_def MarkISROutboxPublished_def run_tx_def require_def db_call_def worker_canonical_def worker_nonblank_def)

lemma client_messages [simp]: "oc_message (incident_client cfg) = incident_message cfg" "oc_message isr_client = isr_message"
  by (simp_all add: incident_client_def isr_client_def)

text \<open>One delivery without interference is a run of the fleet.\<close>

lemma deliver_with_reach:
  assumes "deliver_with client WriteMessages cfg E (db, k) = (res, (db', k'))"
    and "\<And>e db'. oc_claim client (de_claim E) (de_locked E) (cf_workerID cfg) (cf_lease cfg) db = (Inl e, db') \<Longrightarrow> db' = db"
  shows "delivery_reach client others WriteMessages \<lparr>fl_db = db, fl_broker = k, fl_workers = \<lambda>_. Resting\<rparr>
    \<lparr>fl_db = db', fl_broker = k', fl_workers = \<lambda>_. Resting\<rparr>"
proof (cases "oc_claim client (de_claim E) (de_locked E) (cf_workerID cfg) (cf_lease cfg) db")
  case (Pair r db1)
  show ?thesis
  proof (cases r)
    case (Inl e)
    then show ?thesis using Pair assms by (auto simp: deliver_with_def intro: delivery_reach.refl)
  next
    case (Inr row)
    obtain failure k1 where k: "WriteMessages (oc_message client row) k = (failure, k1)" by (metis surj_pair)
    obtain res1 db2 where f: "finish_delivery client cfg (de_mark E) row failure db1 = (res1, db2)" by (metis surj_pair)
    let ?s0 = "\<lparr>fl_db = db, fl_broker = k, fl_workers = \<lambda>_. Resting\<rparr>"
    let ?s1 = "?s0\<lparr>fl_db := db1, fl_workers := (fl_workers ?s0)(0 := Claimed row)\<rparr>"
    let ?s2 = "?s1\<lparr>fl_broker := k1, fl_workers := (fl_workers ?s1)(0 := Answered row failure)\<rparr>"
    let ?s3 = "?s2\<lparr>fl_db := db2, fl_workers := (fl_workers ?s2)(0 := Resting)\<rparr>"
    have "delivery_step client others WriteMessages ?s0 ?s1" using Pair Inr by (intro delivery_step.claims) simp_all
    moreover have "delivery_step client others WriteMessages ?s1 ?s2" using k by (intro delivery_step.sends) simp_all
    moreover have "delivery_step client others WriteMessages ?s2 ?s3" using f by (intro delivery_step.finishes) simp_all
    ultimately have "delivery_reach client others WriteMessages ?s0 ?s3" by (blast intro: delivery_reach.intros)
    moreover have "db2 = db'" "k1 = k'" using assms(1) Pair Inr k f by (simp_all add: deliver_with_def)
    moreover have "(fl_workers ?s2)(0 := Resting) = (\<lambda>_. Resting)" by (simp add: fun_eq_iff)
    ultimately show ?thesis by simp
  qed
qed

text \<open>
  C21. The loop drains the outbox: when the configuration is acceptable, the broker is up and no
  fault occurs, a publisher that runs at least as many rounds as there are pending events leaves
  none pending, logs nothing, and has sent each pending event exactly once, in the order of
  creation. This holds for the incident publisher and for the ISR publisher.
\<close>

theorem publisher_drains:
  assumes "worker_canonical (cf_workerID cfg)" and "lease_ok (cf_lease cfg)"
    and "broker_up W msgs" and "\<forall>E \<in> set Es. quiet_round cfg (incident_outbox db) E" and "outbox_ok (incident_outbox db)"
    and "length (filter pending (incident_outbox db)) \<le> length Es"
    and "broker_up W' msgs'" and "\<forall>E \<in> set Es'. quiet_round cfg (isr_outbox db2) E" and "outbox_ok (isr_outbox db2)"
    and "length (filter pending (isr_outbox db2)) \<le> length Es'"
  shows "(\<exists>ps db' k'. worker_loop W cfg Es (db, k) = ([], (db', k')) \<and> filter pending (incident_outbox db') = [] \<and>
      mset ps = mset (filter pending (incident_outbox db)) \<and> sorted (map claim_key ps) \<and> msgs k' = msgs k @ map (incident_message cfg) ps) \<and>
    (\<exists>ps db' k'. isrWorker_loop W' cfg Es' (db2, k2) = ([], (db', k')) \<and> filter pending (isr_outbox db') = [] \<and>
      mset ps = mset (filter pending (isr_outbox db2)) \<and> sorted (map claim_key ps) \<and> msgs' k' = msgs' k2 @ map isr_message ps)"
  unfolding worker_loop_def isrWorker_loop_def worker_deliverOne_def [abs_def] isrWorker_deliverOne_def [abs_def]
  using incident_pub.loop_drains [OF assms(1-3) _ assms(4-6), of cfg k] isr_pub.loop_drains [OF assms(1,2,7) _ assms(8-10), of k2]
  by simp

section \<open>Configuration\<close>

text \<open>The environment of the process is a parameter; an unset variable reads as the empty string.\<close>

definition durationEnv :: "(string \<Rightarrow> string) \<Rightarrow> string \<Rightarrow> duration \<Rightarrow> duration result" where
  "durationEnv getenv name fallback =
     (if getenv name = [] then Inr fallback
      else (case ParseDuration (getenv name) of
              None \<Rightarrow> Inl (EMsg (name @ '' must be a positive duration''))
            | Some d \<Rightarrow> if d \<le> 0 then Inl (EMsg (name @ '' must be a positive duration'')) else Inr d))"

definition splitNonEmpty :: "string \<Rightarrow> string list" where
  "splitNonEmpty s = filter (\<lambda>x. x \<noteq> []) (map trim_space (split_on (CHR '','') s))"

text \<open>The checks of \<open>loadConfig\<close> on the values it has read.\<close>

definition checked_config :: "(string \<Rightarrow> string) \<Rightarrow> string list \<Rightarrow> string \<Rightarrow> string \<Rightarrow> string \<Rightarrow> string \<Rightarrow> publisher_config result" where
  "checked_config getenv brokers source topic transport workerID =
     require (brokers \<noteq> []) (EMsg ''KAFKA_BROKERS must contain at least one broker'')
    (require (source = ''incident'' \<or> source = ''isr'') (EMsg ''OUTBOX_SOURCE must be incident or isr'')
    (require (\<not> (source = ''incident'' \<and> (trim_space topic = [] \<or> trim_space topic \<noteq> topic))) (EMsg ''KAFKA_TOPIC must be canonical non-empty text'')
    (require (\<not> (source = ''isr'' \<and> topic \<noteq> [])) (EMsg ''KAFKA_TOPIC must be unset in isr mode; topics come from outbox rows'')
    (require (transport = ''local_plaintext'' \<or> transport = ''tls'') (EMsg ''KAFKA_TRANSPORT must be local_plaintext or tls'')
    (require (transport \<noteq> ''tls'') (EMsg ''KAFKA_TRANSPORT=tls requires Ministry-approved TLS/SASL configuration before enablement'')
    (require (worker_canonical workerID) (EMsg ''OUTBOX_WORKER_ID must be canonical non-empty text'')
    (rbind (durationEnv getenv ''OUTBOX_LEASE'' (60 * second)) (\<lambda>lease.
     rbind (durationEnv getenv ''OUTBOX_POLL_INTERVAL'' (500 * 1000000)) (\<lambda>poll.
     rbind (durationEnv getenv ''OUTBOX_MAX_BACKOFF'' (5 * minute)) (\<lambda>maxBackoff.
     Inr \<lparr>cf_databaseURL = getenv ''DATABASE_URL'', cf_brokers = brokers, cf_topic = topic, cf_source = source, cf_workerID = workerID,
          cf_lease = lease, cf_pollInterval = poll, cf_maxBackoff = maxBackoff, cf_transport = transport\<rparr>))))))))))"

definition loadConfig :: "(string \<Rightarrow> string) \<Rightarrow> publisher_config result" where
  "loadConfig getenv =
     require (getenv ''DATABASE_URL'' \<noteq> []) (EMsg ''DATABASE_URL must be set'')
       (let brokers = splitNonEmpty (getenv ''KAFKA_BROKERS'');
            source = (let v = trim_space (getenv ''OUTBOX_SOURCE'') in if v = [] then ''incident'' else v);
            topic = getenv ''KAFKA_TOPIC'';
            transport = (let v = getenv ''KAFKA_TRANSPORT'' in if v = [] then ''local_plaintext'' else v);
            workerID = getenv ''OUTBOX_WORKER_ID''
        in checked_config getenv brokers source topic transport workerID)"

lemma durationEnv_Inr: "durationEnv getenv name fb = Inr d \<Longrightarrow> 0 < fb \<Longrightarrow> fb \<le> max_int64 \<Longrightarrow> 0 < d \<and> d \<le> max_int64"
  by (auto simp: durationEnv_def split: if_splits option.splits dest: ParseDuration_int64)

text \<open>
  An accepted publisher configuration is fail-closed: it names a database and at least one
  broker, the worker id is one the outbox stores accept, the delays are positive durations that
  fit int64, the transport is the local one, and the topic is set for the incident outbox and
  unset for the ISR outbox. The retry delay of every failed delivery is then positive and at most
  the configured maximum.
\<close>

theorem loadConfig_sound:
  assumes "loadConfig getenv = Inr cfg"
  shows "cf_databaseURL cfg \<noteq> [] \<and> cf_brokers cfg \<noteq> [] \<and> [] \<notin> set (cf_brokers cfg) \<and> worker_canonical (cf_workerID cfg) \<and>
    0 < cf_lease cfg \<and> 0 < cf_pollInterval cfg \<and> cf_transport cfg = ''local_plaintext'' \<and>
    (cf_source cfg = ''incident'' \<and> trim_space (cf_topic cfg) = cf_topic cfg \<and> cf_topic cfg \<noteq> [] \<or> cf_source cfg = ''isr'' \<and> cf_topic cfg = []) \<and>
    0 < backoff n (cf_maxBackoff cfg) \<and> backoff n (cf_maxBackoff cfg) \<le> cf_maxBackoff cfg \<and> cf_maxBackoff cfg \<le> max_int64"
proof -
  obtain bs src topic tr w where db: "getenv ''DATABASE_URL'' \<noteq> []" and bs: "bs = splitNonEmpty (getenv ''KAFKA_BROKERS'')"
    and c: "checked_config getenv bs src topic tr w = Inr cfg" using assms by (auto simp: loadConfig_def Let_def require_Inr_iff)
  then obtain lease poll mx where d: "durationEnv getenv ''OUTBOX_LEASE'' (60 * second) = Inr lease"
    "durationEnv getenv ''OUTBOX_POLL_INTERVAL'' (500 * 1000000) = Inr poll" "durationEnv getenv ''OUTBOX_MAX_BACKOFF'' (5 * minute) = Inr mx"
    and cfg: "cfg = \<lparr>cf_databaseURL = getenv ''DATABASE_URL'', cf_brokers = bs, cf_topic = topic, cf_source = src, cf_workerID = w,
          cf_lease = lease, cf_pollInterval = poll, cf_maxBackoff = mx, cf_transport = tr\<rparr>"
    and ok: "bs \<noteq> []" "src = ''incident'' \<or> src = ''isr''" "src = ''incident'' \<longrightarrow> trim_space topic \<noteq> [] \<and> trim_space topic = topic"
      "src = ''isr'' \<longrightarrow> topic = []" "tr = ''local_plaintext''" "worker_canonical w"
    unfolding checked_config_def rbind_Inr_iff require_Inr_iff by blast
  have pos: "0 < lease" "0 < poll" "0 < mx" "mx \<le> max_int64"
    using durationEnv_Inr [OF d(1)] durationEnv_Inr [OF d(2)] durationEnv_Inr [OF d(3)] by (simp_all add: duration_defs max_int64_def)
  have b: "0 < backoff n mx \<and> backoff n mx \<le> mx" using pos(3) unfolding backoff_clamped by (simp add: second_def)
  have "src = ''incident'' \<and> trim_space topic = topic \<and> topic \<noteq> [] \<or> src = ''isr'' \<and> topic = []" using ok(2-4) by metis
  moreover have "[] \<notin> set bs" by (simp add: bs splitNonEmpty_def)
  ultimately show ?thesis unfolding cfg using db ok(1,5,6) pos b by simp
qed

section \<open>A lease that no claim accepts\<close>

lemma lease_refused:
  assumes "24 * hour < cf_lease cfg" "worker_canonical (cf_workerID cfg)"
  shows "worker_loop W cfg Es s = (replicate (length Es) lease_error, s)" "isrWorker_loop W' cfg Es s' = (replicate (length Es) lease_error, s')"
proof -
  have l: "\<not> lease_ok (cf_lease cfg)" using assms(1) by (simp add: lease_ok_def)
  have d: "worker_deliverOne W cfg E s = (Some lease_error, s)" "isrWorker_deliverOne W' cfg E s' = (Some lease_error, s')" for E s s'
    using assms(2) l
    by (simp_all add: worker_deliverOne_def isrWorker_deliverOne_def deliver_with_def incident_client_def isr_client_def ClaimOutbox_def ClaimISROutbox_def require_def run_tx_def)
  have e: "\<not> errors_is lease_error ErrNoPendingOutbox" "\<not> errors_is lease_error ErrNoPendingISROutbox" by (simp_all add: lease_error_def)
  show "worker_loop W cfg Es s = (replicate (length Es) lease_error, s)" unfolding worker_loop_def by (induction Es) (simp_all add: d e)
  show "isrWorker_loop W' cfg Es s' = (replicate (length Es) lease_error, s')" unfolding isrWorker_loop_def by (induction Es) (simp_all add: d e)
qed

definition day_lease_env :: "string \<Rightarrow> string" where
  "day_lease_env name = (if name = ''OUTBOX_LEASE'' then ''48h'' else if name = ''DATABASE_URL'' then ''postgres://db'' else if name = ''KAFKA_BROKERS'' then ''k1:9092''
     else if name = ''KAFKA_TOPIC'' then ''incidents'' else if name = ''OUTBOX_WORKER_ID'' then ''w1'' else [])"

lemma day_lease_config: "\<exists>cfg. loadConfig day_lease_env = Inr cfg \<and> cf_lease cfg = 48 * hour \<and> worker_canonical (cf_workerID cfg)"
proof -
  have p: "ParseDuration ''48h'' = Some (48 * hour)" by (simp add: duration_defs) code_simp
  have t: "trim_space ''incidents'' = ''incidents''" "trim_space ''w1'' = ''w1''" "trim_space [] = []" "splitNonEmpty ''k1:9092'' = [''k1:9092'']"
    by (code_simp)+
  show ?thesis using p t
    by (simp add: loadConfig_def checked_config_def Let_def rbind_Inr_iff require_def durationEnv_def day_lease_env_def worker_canonical_def duration_defs)
qed

text \<open>
  The publisher accepts a lease that its stores refuse: a lease of more than 24 hours passes
  \<open>loadConfig\<close>, but then every claim is rejected, so the loop logs an error each round for ever
  and delivers nothing, for either outbox.
\<close>

theorem overlong_lease_starves:
  "\<exists>getenv cfg. loadConfig getenv = Inr cfg \<and> worker_loop W cfg Es s = (replicate (length Es) lease_error, s) \<and>
     isrWorker_loop W' cfg Es s' = (replicate (length Es) lease_error, s')"
proof -
  obtain cfg where cfg: "loadConfig day_lease_env = Inr cfg" "cf_lease cfg = 48 * hour" "worker_canonical (cf_workerID cfg)" using day_lease_config by blast
  have "24 * hour < cf_lease cfg" using cfg(2) by (simp add: duration_defs)
  from lease_refused [OF this cfg(3)] show ?thesis using cfg(1) by blast
qed

theorem loadConfig_sound_witness:
  "\<exists>cfg. loadConfig day_lease_env = Inr cfg \<and> 0 < cf_lease cfg \<and> backoff 3 (cf_maxBackoff cfg) \<le> cf_maxBackoff cfg"
  using day_lease_config loadConfig_sound [of day_lease_env _ 3] by blast

section \<open>A concrete delivery\<close>

definition list_broker :: "('m, 'm list) kafka" where
  "list_broker m k = (None, k @ [m])"

lemma list_broker_laws: "broker_laws list_broker (\<lambda>k. k)" "broker_up list_broker (\<lambda>k. k)"
  by (auto simp: broker_laws_def broker_up_def list_broker_def)

definition sample_pending_row :: "incident_event outbox_row" where
  "sample_pending_row = new_outbox_row (calm_env 5 ''u'') ''e1''
     \<lparr>ie_incident_id = ''inc-1'', ie_event_type = ''incident.created'', ie_payload = IncidentPayload (new_incident (calm_env 5 ''u'') 5 sample_create)\<rparr> 5"

definition sample_publisher :: publisher_config where
  "sample_publisher = \<lparr>cf_databaseURL = ''postgres://db'', cf_brokers = [''k1:9092''], cf_topic = ''incidents'', cf_source = ''incident'', cf_workerID = ''w1'',
     cf_lease = 60 * second, cf_pollInterval = second, cf_maxBackoff = minute, cf_transport = ''local_plaintext''\<rparr>"

definition sample_round :: delivery_env where
  "sample_round = \<lparr>de_claim = calm_env 9 ''u'', de_mark = calm_env 10 ''u'', de_locked = \<lambda>_. False\<rparr>"

lemma sample_publisher_ok: "worker_canonical (cf_workerID sample_publisher)" "lease_ok (cf_lease sample_publisher)"
proof -
  have "trim_space ''w1'' = ''w1''" by code_simp
  then show "worker_canonical (cf_workerID sample_publisher)" by (simp add: worker_canonical_def sample_publisher_def)
qed (simp add: lease_ok_def sample_publisher_def duration_defs)

lemma sample_row_fine:
  "outbox_ok [sample_pending_row]" "pending sample_pending_row" "ob_published_at sample_pending_row = None" "quiet_round cfg [sample_pending_row] sample_round"
  by (simp_all add: sample_pending_row_def outbox_ok_def row_ok_def pending_def quiet_round_def claimable_def sample_round_def new_outbox_row_def)

theorem publisher_drains_witness:
  "\<exists>ps db' k'. worker_loop list_broker sample_publisher [sample_round] (empty_incident_db\<lparr>incident_outbox := [sample_pending_row]\<rparr>, []) = ([], (db', k')) \<and>
     filter pending (incident_outbox db') = [] \<and> ps = [sample_pending_row] \<and> k' = map (incident_message sample_publisher) ps"
proof -
  let ?db = "empty_incident_db\<lparr>incident_outbox := [sample_pending_row]\<rparr>"
  have isr: "outbox_ok (isr_outbox sample_isr_db)" "filter pending (isr_outbox sample_isr_db) = []" by (simp_all add: sample_isr_db_def)
  have q: "\<forall>E \<in> set [sample_round]. quiet_round sample_publisher (incident_outbox ?db) E" "outbox_ok (incident_outbox ?db)"
    "length (filter pending (incident_outbox ?db)) \<le> length [sample_round]" using sample_row_fine by simp_all
  have e: "\<forall>E \<in> set []. quiet_round sample_publisher (isr_outbox sample_isr_db) E" "length (filter pending (isr_outbox sample_isr_db)) \<le> length ([] :: delivery_env list)"
    using isr(2) by simp_all
  from publisher_drains [OF sample_publisher_ok list_broker_laws(2) q list_broker_laws(2) e(1) isr(1) e(2), where k = "[]" and ?k2.0 = "[]"]
  obtain ps db' k' where r: "worker_loop list_broker sample_publisher [sample_round] (?db, []) = ([], (db', k'))"
    "filter pending (incident_outbox db') = []" "mset ps = mset (filter pending (incident_outbox ?db))" "k' = map (incident_message sample_publisher) ps" by auto
  have "ps = [sample_pending_row]" using r(3) sample_row_fine(2) by simp
  then show ?thesis using r by blast
qed

lemma sample_delivery:
  assumes rows: "incident_outbox db = [sample_pending_row]"
  obtains db' k' where "deliver_with (incident_client sample_publisher) list_broker sample_publisher sample_round (db, []) = (None, (db', k'))"
    "length (incident_outbox db') = 1" "filter pending (incident_outbox db') = []"
proof -
  have p: "quiet_round sample_publisher (incident_outbox db) sample_round" "outbox_ok (incident_outbox db)" "filter pending (incident_outbox db) \<noteq> []"
    using sample_row_fine rows by simp_all
  obtain r db' k' t u where d: "deliver_with (incident_client sample_publisher) list_broker sample_publisher sample_round (db, []) = (None, (db', k'))"
    "r \<in> set (incident_outbox db)" "incident_outbox db' = sent_row t u (cf_workerID sample_publisher) r (incident_outbox db)"
    by (rule incident_pub.deliver_sends [OF sample_publisher_ok p(1,2) list_broker_laws(2) p(3), where k = "[]"])
  have "filter pending (incident_outbox db') = filter (\<lambda>q. q \<noteq> r) (filter pending (incident_outbox db))"
    unfolding d(3) by (rule sent_row_pending)
  also have "\<dots> = []" using d(2) rows by simp
  finally show thesis using that d(1,3) rows by (simp add: sent_row_def)
qed

end
