(* ===== verification/PublisherStart.thy ===== *)
theory PublisherStart
  imports Startup Publisher
begin

text \<open>
  The process of \<open>cmd/maritime-intelligence-outbox-publisher/main.go\<close>: configuration, connection
  and the loop of the source that is configured. Both writers reach the same broker; the one of the
  incident publisher carries the topic.
\<close>

definition publisher_run ::
  "(string \<Rightarrow> string) \<Rightarrow> pg_driver \<Rightarrow> (incident_payload kafka_message, 'k) kafka \<Rightarrow> (envelope kafka_message, 'k) kafka \<Rightarrow>
   delivery_env list \<Rightarrow> 'a isr_db_scheme \<times> 'k \<Rightarrow> unit result \<times> go_error list \<times> 'a isr_db_scheme \<times> 'k" where
  "publisher_run getenv pg writeIncident writeISR rounds s =
     (case loadConfig getenv of
        Inl e \<Rightarrow> (Inl e, [], s)
      | Inr cfg \<Rightarrow>
          (case incident_Open getenv pg (cf_databaseURL cfg) of
             Inl e \<Rightarrow> (Inl e, [], s)
           | Inr _ \<Rightarrow>
               if cf_source cfg = ''isr'' then (Inr (), isrWorker_loop writeISR cfg rounds s)
               else (Inr (), worker_loop writeIncident cfg rounds s)))"

section \<open>One outbox per process\<close>

definition client_keeps :: "('s \<Rightarrow> 'v) \<Rightarrow> ('s, 'p, 'm) outbox_client \<Rightarrow> bool" where
  "client_keeps part client =
     ((\<forall>env l w lease db. part (snd (oc_claim client env l w lease db)) = part db) \<and>
      (\<forall>env i w db. part (snd (oc_published client env i w db)) = part db) \<and>
      (\<forall>env i w m t db. part (snd (oc_failed client env i w m t db)) = part db))"

lemma finish_delivery_keeps: "client_keeps part client \<Longrightarrow> part (snd (finish_delivery client cfg env row failure db)) = part db"
  unfolding client_keeps_def finish_delivery_def Let_def by (auto split: option.splits prod.splits sum.splits) (metis snd_conv)+

lemma deliver_with_keeps:
  assumes "client_keeps part client" shows "part (fst (snd (deliver_with client W cfg E s))) = part (fst s)"
proof -
  have "part (snd (oc_claim client (de_claim E) (de_locked E) (cf_workerID cfg) (cf_lease cfg) (fst s))) = part (fst s)"
    using assms by (simp add: client_keeps_def)
  then show ?thesis using finish_delivery_keeps [OF assms]
    by (auto simp: deliver_with_def split: prod.splits sum.splits) (metis snd_conv)+
qed

lemma deliver_loop_keeps:
  assumes "\<And>E s. part (fst (snd (deliver E s))) = part (fst s)"
  shows "part (fst (snd (deliver_loop deliver none rounds s))) = part (fst s)"
proof (induction rounds arbitrary: s)
  case (Cons E Es)
  obtain r s' where d: "deliver E s = (r, s')" by (cases "deliver E s")
  obtain logged s'' where l: "deliver_loop deliver none Es s' = (logged, s'')" by (cases "deliver_loop deliver none Es s'")
  show ?case using Cons [of s'] assms [of E s] by (simp add: d l)
qed simp

lemma incident_client_keeps: "client_keeps (\<lambda>db. db\<lparr>incident_outbox := []\<rparr>) (incident_client cfg)"
  unfolding client_keeps_def incident_client_def ClaimOutbox_def MarkOutboxPublished_def MarkOutboxFailed_def
  by (auto simp: run_tx_def split: sum.splits)

lemma isr_client_keeps: "client_keeps (\<lambda>db. db\<lparr>isr_outbox := []\<rparr>) isr_client"
  unfolding client_keeps_def isr_client_def ClaimISROutbox_def MarkISROutboxPublished_def MarkISROutboxFailed_def
  by (auto simp: run_tx_def split: sum.splits)

text \<open>
  A publisher process fails closed and stays in its lane: without a sound configuration and a
  database it delivers nothing; otherwise it changes, whatever the broker answers and whichever
  database calls fail, no table but the outbox of its configured source.
\<close>

theorem publisher_run_lane:
  assumes "publisher_run getenv pg writeIncident writeISR rounds (db, k) = (r, logged, db', k')"
  shows "case r of
      Inl _ \<Rightarrow> logged = [] \<and> db' = db \<and> k' = k
    | Inr _ \<Rightarrow> \<exists>cfg. loadConfig getenv = Inr cfg \<and> (\<exists>pool. incident_Open getenv pg (cf_databaseURL cfg) = Inr pool) \<and>
        (if cf_source cfg = ''isr'' then db'\<lparr>isr_outbox := []\<rparr> = db\<lparr>isr_outbox := []\<rparr>
         else cf_source cfg = ''incident'' \<and> db'\<lparr>incident_outbox := []\<rparr> = db\<lparr>incident_outbox := []\<rparr>)"
proof -
  have i: "(fst (snd (worker_loop writeIncident cfg rounds (db, k))))\<lparr>incident_outbox := []\<rparr> = db\<lparr>incident_outbox := []\<rparr>" for cfg
    unfolding worker_loop_def worker_deliverOne_def
    by (subst deliver_loop_keeps [where part = "\<lambda>db. db\<lparr>incident_outbox := []\<rparr>"]) (simp_all add: deliver_with_keeps [OF incident_client_keeps])
  have s: "(fst (snd (isrWorker_loop writeISR cfg rounds (db, k))))\<lparr>isr_outbox := []\<rparr> = db\<lparr>isr_outbox := []\<rparr>" for cfg
    unfolding isrWorker_loop_def isrWorker_deliverOne_def
    by (subst deliver_loop_keeps [where part = "\<lambda>db. db\<lparr>isr_outbox := []\<rparr>"]) (simp_all add: deliver_with_keeps [OF isr_client_keeps])
  have c: "cf_source cfg = ''isr'' \<or> cf_source cfg = ''incident''" if l: "loadConfig getenv = Inr cfg" for cfg
  proof -
    obtain bs src topic tr w where "checked_config getenv bs src topic tr w = Inr cfg" using l by (auto simp: loadConfig_def Let_def require_Inr_iff)
    then show ?thesis unfolding checked_config_def rbind_Inr_iff require_Inr_iff by auto
  qed
  consider e where "r = Inl e" "logged = []" "db' = db" "k' = k"
    | cfg pool where "loadConfig getenv = Inr cfg" "incident_Open getenv pg (cf_databaseURL cfg) = Inr pool" "r = Inr ()"
      "(if cf_source cfg = ''isr'' then isrWorker_loop writeISR cfg rounds (db, k) else worker_loop writeIncident cfg rounds (db, k)) = (logged, db', k')"
    using assms unfolding publisher_run_def by (auto split: sum.splits if_splits)
  then show ?thesis
  proof cases
    case (2 cfg pool)
    then show ?thesis using i [of cfg] s [of cfg] c [of cfg] by (cases "cf_source cfg = ''isr''") auto
  qed simp
qed

end
