(* ===== verification/Delivery.thy ===== *)
theory Delivery
  imports Publisher ServerProps
begin

text \<open>
  The outboxes under the whole platform: what requests, scanner ticks and workflow activities do
  to the two tables, and what that means for the events that the publishers deliver.
\<close>

section \<open>Writers only append\<close>

definition posts :: "'a isr_db_scheme \<Rightarrow> 'a isr_db_scheme \<Rightarrow> bool" where
  "posts db db' = (appends_rows (incident_outbox db) (incident_outbox db') \<and> appends_rows (isr_outbox db) (isr_outbox db'))"

lemma posts_refl [simp]: "posts db db"
  by (simp add: posts_def)

lemma posts_trans: "posts a b \<Longrightarrow> posts b c \<Longrightarrow> posts a c"
  unfolding posts_def by (elim conjE, intro conjI; erule (1) appends_rows_trans)

lemma posts_announces:
  assumes "announces db db'" shows "posts db db'"
proof -
  have "incident_outbox (feed_part db') = incident_outbox (feed_part db)" using assms by (simp add: announces_def)
  then show ?thesis using assms by (simp add: posts_def announces_def feed_part_def feed_db.truncate_def)
qed

lemma posts_incident:
  assumes "incident_outbox_insert env ev key ty p t db1 = Inr db'" "incident_outbox db1 = incident_outbox db" "isr_outbox db1 = isr_outbox db"
  shows "posts db db'"
proof -
  have "outbox_insert env ev \<lparr>ie_incident_id = key, ie_event_type = ty, ie_payload = p\<rparr> t (incident_outbox db) = Inr (incident_outbox db')"
    and "isr_outbox db' = isr_outbox db" using assms by (auto simp: incident_outbox_insert_Inr)
  then show ?thesis unfolding posts_def by (simp only: appends_rows_refl) (blast intro: appends_rows_insert)
qed

lemma create_posts:
  fixes db :: "'a isr_db_scheme"
  assumes "createIncidentInTransaction env r db = Inr (i, db')" shows "posts db db'"
  using assms
  by (auto simp: createIncidentInTransaction_def Let_def split: option.splits intro!: posts_incident)

lemma incident_posts:
  fixes db :: "'a isr_db_scheme"
  shows "Create env i db = (r1, db') \<Longrightarrow> posts db db'" "Correlate env iid co db = (r2, db') \<Longrightarrow> posts db db'"
    "Assign env iid ar db = (r3, db') \<Longrightarrow> posts db db'" "Transition env db0 iid v st db = (r4, db') \<Longrightarrow> posts db db'"
proof -
  show "Create env i db = (r1, db') \<Longrightarrow> posts db db'"
    by (cases r1) (auto simp: Create_def run_tx_Inr_iff elim!: run_tx_cases intro: create_posts)
  show "Correlate env iid co db = (r2, db') \<Longrightarrow> posts db db'"
    by (cases r2) (auto simp: Correlate_def Let_def run_tx_Inr_iff split: option.splits elim!: run_tx_cases intro: posts_incident)
  show "Assign env iid ar db = (r3, db') \<Longrightarrow> posts db db'"
    by (cases r3) (auto simp: Assign_def Let_def run_tx_Inr_iff update_incident_def split: option.splits sum.splits elim!: run_tx_cases intro: posts_incident)
  show "Transition env db0 iid v st db = (r4, db') \<Longrightarrow> posts db db'"
    by (cases r4) (auto simp: Transition_def Get_def Let_def run_tx_Inr_iff update_incident_def split: option.splits elim!: run_tx_cases intro: posts_incident)
qed

lemma admit_in_tx_outboxes:
  fixes db :: "'a isr_db_scheme"
  assumes "admitFeedEventInTransaction c env r db = Inr (a, db')"
  shows "incident_outbox db' = incident_outbox db \<and> isr_outbox db' = isr_outbox db"
  using assms by (auto simp: admitFeedEventInTransaction_def Let_def split: option.splits)

lemma feed_posts:
  fixes db :: "'a isr_db_scheme"
  shows "RegisterFeedSource c env rg db = (r1, db') \<Longrightarrow> posts db db'" "RevokeFeedSource env rv db = (r2, db') \<Longrightarrow> posts db db'"
    "RotateFeedSourceKey c env ro db = (r3, db') \<Longrightarrow> posts db db'" "AdmitFeedEvent c env fr db = (r4, db') \<Longrightarrow> posts db db'"
proof -
  show "RegisterFeedSource c env rg db = (r1, db') \<Longrightarrow> posts db db'"
    by (cases r1) (auto simp: RegisterFeedSource_def Let_def run_tx_Inr_iff update_source_def posts_def split: option.splits if_splits elim!: run_tx_cases)
  show "RevokeFeedSource env rv db = (r2, db') \<Longrightarrow> posts db db'"
    by (cases r2) (auto simp: RevokeFeedSource_def Let_def run_tx_Inr_iff update_source_def posts_def split: option.splits if_splits elim!: run_tx_cases)
  show "RotateFeedSourceKey c env ro db = (r3, db') \<Longrightarrow> posts db db'"
    by (cases r3) (auto simp: RotateFeedSourceKey_def Let_def run_tx_Inr_iff update_source_def posts_def split: option.splits if_splits elim!: run_tx_cases)
  show "AdmitFeedEvent c env fr db = (r4, db') \<Longrightarrow> posts db db'"
    by (cases r4) (auto simp: AdmitFeedEvent_def run_tx_Inr_iff posts_def elim!: run_tx_cases dest!: admit_in_tx_outboxes)
qed

lemma admit_incident_posts:
  fixes db :: "'a isr_db_scheme"
  assumes "AdmitFeedIncident c decode env fr db = (r, db')" shows "posts db db'"
proof (cases r)
  case (Inl e)
  then show ?thesis using assms by (auto simp: AdmitFeedIncident_def elim!: run_tx_cases)
next
  case (Inr x)
  then obtain a db1 i n where "admitFeedEventInTransaction c env fr db = Inr (a, db1)" "createIncidentInTransaction (shift_env 6 env) i db1 = Inr (n, db')"
    using assms by (auto simp: AdmitFeedIncident_def run_tx_Inr_iff split: option.splits)
  then show ?thesis using create_posts [of "shift_env 6 env" i db1 n db'] admit_in_tx_outboxes [of c env fr db a db1] by (simp add: posts_def)
qed

lemma admit_detection_posts:
  fixes db :: "'a isr_db_scheme"
  assumes "AdmitDetection c enc decode env fr db = (r, db')" shows "posts db db'"
proof (cases r)
  case (Inl e)
  then show ?thesis using assms by (auto simp: AdmitDetection_def elim!: run_tx_cases)
next
  case (Inr da)
  obtain d a where "AdmitDetection c enc decode env fr db = (Inr (d, a), db')" using assms Inr by (cases da) auto
  then show ?thesis
  proof (cases rule: AdmitDetection_Inr)
    case (inserted s e)
    have "outbox_insert env (new_uuid env 1) (detection_event e) (clock env 2) (isr_outbox db) = Inr (isr_outbox db')"
      using inserted(6,7) by simp
    then have "appends_rows (isr_outbox db) (isr_outbox db')" by (rule appends_rows_insert)
    then show ?thesis using inserted(7) by (simp add: posts_def)
  qed simp
qed

lemma fuse_posts: "fuse C D E d s = (e, s') \<Longrightarrow> posts (sv_db s) (sv_db s')"
  using posts_announces RecordFusion_frame [THEN conjunct1]
  by (fastforce simp: fuse_def Let_def split: prod.splits sum.splits if_splits option.splits)

lemma effect_posts: "server_effect C q s s' \<Longrightarrow> posts (sv_db s) (sv_db s')"
proof (induction rule: server_effect.cases)
  case (fuses env fr s d a db' D E e s')
  then show ?case using admit_detection_posts [OF fuses(3)] fuse_posts [OF fuses(5)] posts_trans by fastforce
qed (auto intro: incident_posts feed_posts admit_incident_posts admit_detection_posts posts_announces
      dest!: Propose_frame Confirm_frame)


section \<open>Everything that writes\<close>

text \<open>The database steps of the platform other than the publishers' own.\<close>

inductive platform_write :: "'t server_config \<Rightarrow> 'a track_db_scheme \<Rightarrow> 'a track_db_scheme \<Rightarrow> bool" for C where
  request: "server_New C E rq None s = (rs, s') \<Longrightarrow> sv_db s = db \<Longrightarrow> sv_db s' = db' \<Longrightarrow> platform_write C db db'"
| scan: "scanOnce (sc_crypto C) (sc_enc C) i (eng, db) = (eng', db') \<Longrightarrow> platform_write C db db'"
| activity: "appendOutbox (sc_crypto C) (sc_enc C) topic ty key payload env db = (r, db') \<Longrightarrow> platform_write C db db'"

lemma scanOnce_posts:
  assumes "scanOnce c enc i (eng, db) = (eng', db')" shows "posts db db'"
proof -
  have "db' = db \<or> (\<exists>as r. RecordAnomalies c enc (ti_env i) as db = (r, db'))"
    using assms by (auto simp: scanOnce_def split: prod.splits sum.splits if_splits)
  then show ?thesis using RecordAnomalies_frame posts_announces posts_refl by blast
qed

lemma appendOutbox_posts:
  fixes db :: "'a track_db_scheme"
  assumes "appendOutbox c enc topic ty key payload env db = (r, db')" shows "posts db db'"
  using appendOutbox_step [OF assms] by (auto intro: posts_announces announces_insert)

lemma platform_write_posts: "platform_write C db db' \<Longrightarrow> posts db db'"
proof (induction rule: platform_write.cases)
  case (request E rq s rs s' db db')
  show ?case using server_effect_of_request [OF request(3)] effect_posts request by (cases "s' = s") auto
qed (auto intro: scanOnce_posts appendOutbox_posts)

lemma isr_delivery_posts:
  fixes db :: "'a isr_db_scheme"
  shows "ClaimISROutbox env l w lease db = (r1, db') \<Longrightarrow> incident_outbox db' = incident_outbox db"
    "MarkISROutboxPublished env ev w db = (r2, db') \<Longrightarrow> incident_outbox db' = incident_outbox db"
    "MarkISROutboxFailed env ev w m t db = (r3, db') \<Longrightarrow> incident_outbox db' = incident_outbox db"
  by (auto simp: ClaimISROutbox_def MarkISROutboxPublished_def MarkISROutboxFailed_def elim!: run_tx_cases)

lemma incident_delivery_posts:
  fixes db :: "'a isr_db_scheme"
  shows "ClaimOutbox env l w lease db = (r1, db') \<Longrightarrow> isr_outbox db' = isr_outbox db"
    "MarkOutboxPublished env ev w db = (r2, db') \<Longrightarrow> isr_outbox db' = isr_outbox db"
    "MarkOutboxFailed env ev w m t db = (r3, db') \<Longrightarrow> isr_outbox db' = isr_outbox db"
  by (auto simp: ClaimOutbox_def MarkOutboxPublished_def MarkOutboxFailed_def elim!: run_tx_cases)

text \<open>What an incident publisher sees of the others, and what an ISR publisher sees.\<close>

definition beside_incidents :: "'t server_config \<Rightarrow> 'a track_db_scheme \<Rightarrow> 'a track_db_scheme \<Rightarrow> bool" where
  "beside_incidents C db db' = (platform_write C db db' \<or> (\<exists>env l w lease r. ClaimISROutbox env l w lease db = (r, db')) \<or>
     (\<exists>env ev w r. MarkISROutboxPublished env ev w db = (r, db')) \<or> (\<exists>env ev w m t r. MarkISROutboxFailed env ev w m t db = (r, db')))"

definition beside_isr :: "'t server_config \<Rightarrow> 'a track_db_scheme \<Rightarrow> 'a track_db_scheme \<Rightarrow> bool" where
  "beside_isr C db db' = (platform_write C db db' \<or> (\<exists>env l w lease r. ClaimOutbox env l w lease db = (r, db')) \<or>
     (\<exists>env ev w r. MarkOutboxPublished env ev w db = (r, db')) \<or> (\<exists>env ev w m t r. MarkOutboxFailed env ev w m t db = (r, db')))"

lemma beside_incidents_appends: "beside_incidents C db db' \<Longrightarrow> appends_rows (incident_outbox db) (incident_outbox db')"
  unfolding beside_incidents_def
  by (elim disjE exE) (use platform_write_posts [of C db db'] in \<open>simp_all add: posts_def isr_delivery_posts\<close>)

lemma beside_isr_appends: "beside_isr C db db' \<Longrightarrow> appends_rows (isr_outbox db) (isr_outbox db')"
  unfolding beside_isr_def
  by (elim disjE exE) (use platform_write_posts [of C db db'] in \<open>simp_all add: posts_def incident_delivery_posts\<close>)

text \<open>
  C11. No event is lost between the database and Kafka: however the deliveries of any number of
  publishers interleave with HTTP requests, scanner ticks, workflow activities and the other
  outbox's deliveries, whichever database calls and broker writes fail, and wherever workers die,
  an event that is marked as published has its message, with its key, value and headers, in the
  broker's log.
\<close>

theorem published_were_sent:
  assumes "broker_laws W msgs" and "broker_laws W' msgs'"
  shows "(delivery_reach (incident_client cfg) (beside_incidents C) W s s' \<and>
      outbox_ok (incident_outbox (fl_db s)) \<and> (\<forall>r \<in> set (incident_outbox (fl_db s)). ob_published_at r = None) \<and> fl_workers s = (\<lambda>_. Resting) \<longrightarrow>
      (\<forall>r \<in> set (incident_outbox (fl_db s')). ob_published_at r \<noteq> None \<longrightarrow> incident_message cfg r \<in> set (msgs (fl_broker s')))) \<and>
    (delivery_reach isr_client (beside_isr C) W' t t' \<and>
      outbox_ok (isr_outbox (fl_db t)) \<and> (\<forall>r \<in> set (isr_outbox (fl_db t)). ob_published_at r = None) \<and> fl_workers t = (\<lambda>_. Resting) \<longrightarrow>
      (\<forall>r \<in> set (isr_outbox (fl_db t')). ob_published_at r \<noteq> None \<longrightarrow> isr_message r \<in> set (msgs' (fl_broker t'))))"
proof (intro conjI impI ballI; elim conjE)
  fix r assume a: "delivery_reach (incident_client cfg) (beside_incidents C) W s s'"
    "outbox_ok (incident_outbox (fl_db s))" "\<forall>r \<in> set (incident_outbox (fl_db s)). ob_published_at r = None" "fl_workers s = (\<lambda>_. Resting)"
    and r: "r \<in> set (incident_outbox (fl_db s'))" "ob_published_at r \<noteq> None"
  from incident_pub.delivered_reach [OF a(1) incident_pub.delivered_start [OF a(2-4)] assms(1) beside_incidents_appends [of C]]
  have "incident_pub.delivered cfg msgs s'" by simp
  from incident_pub.delivered_published [OF this r] show "incident_message cfg r \<in> set (msgs (fl_broker s'))" by simp
next
  fix r assume a: "delivery_reach isr_client (beside_isr C) W' t t'"
    "outbox_ok (isr_outbox (fl_db t))" "\<forall>r \<in> set (isr_outbox (fl_db t)). ob_published_at r = None" "fl_workers t = (\<lambda>_. Resting)"
    and r: "r \<in> set (isr_outbox (fl_db t'))" "ob_published_at r \<noteq> None"
  from isr_pub.delivered_reach [OF a(1) isr_pub.delivered_start [OF a(2-4)] assms(2) beside_isr_appends [of C]]
  have "isr_pub.delivered msgs' t'" by simp
  from isr_pub.delivered_published [OF this r] show "isr_message r \<in> set (msgs' (fl_broker t'))" by simp
qed

section \<open>A concrete delivery\<close>

definition pending_db :: track_db where
  "pending_db = empty_track_db\<lparr>incident_outbox := [sample_pending_row]\<rparr>"

lemma pending_db_rows: "incident_outbox pending_db = [sample_pending_row]"
  by (simp add: pending_db_def)

theorem published_were_sent_witness:
  "\<exists>s'. delivery_reach (incident_client sample_publisher) (beside_incidents sample_config) list_broker
      \<lparr>fl_db = pending_db, fl_broker = [], fl_workers = \<lambda>_. Resting\<rparr> s' \<and>
     (\<exists>r. incident_outbox (fl_db s') = [r] \<and> ob_published_at r \<noteq> None \<and> incident_message sample_publisher r \<in> set (fl_broker s'))"
proof -
  let ?s = "\<lparr>fl_db = pending_db, fl_broker = [], fl_workers = \<lambda>_. Resting\<rparr>"
  obtain db' k' where d: "deliver_with (incident_client sample_publisher) list_broker sample_publisher sample_round (pending_db, []) = (None, (db', k'))"
    "length (incident_outbox db') = 1" "filter pending (incident_outbox db') = []" by (rule sample_delivery [OF pending_db_rows])
  let ?s' = "\<lparr>fl_db = db', fl_broker = k', fl_workers = \<lambda>_. Resting\<rparr>"
  have r: "delivery_reach (incident_client sample_publisher) (beside_incidents sample_config) list_broker ?s ?s'"
    by (rule deliver_with_reach [OF d(1)]) (auto simp: incident_client_def ClaimOutbox_def elim: run_tx_cases)
  obtain q where q: "incident_outbox db' = [q]" using d(2) by (cases "incident_outbox db'") auto
  have p: "ob_published_at q \<noteq> None" using d(3) q by (simp add: pending_def split: if_splits)
  from published_were_sent [OF list_broker_laws(1) list_broker_laws(1), of sample_publisher sample_config ?s ?s'
    "\<lparr>fl_db = pending_db, fl_broker = [], fl_workers = \<lambda>_. Resting\<rparr>" "\<lparr>fl_db = pending_db, fl_broker = [], fl_workers = \<lambda>_. Resting\<rparr>"]
    r sample_row_fine q p
  have "incident_message sample_publisher q \<in> set (fl_broker ?s')" by (simp add: pending_db_rows)
  then show ?thesis using r q p by (intro exI [of _ ?s']) simp
qed

end
